(* ===== verification/Prelude.thy ===== *)
theory Prelude
  imports "HOL-Library.Word" "HOL-Library.Monad_Syntax" "HOL-Library.List_Lexorder"
    "HOL-Library.Char_ord" "HOL-Library.Sublist"
begin

text \<open>
  Shared vocabulary of the development: the machine integers of the sources, memory reads that
  are checked against the buffer they read, big-endian and little-endian fields, and the
  generic lemmas on options, lists and words that the component theories use.
\<close>

unbundle bit_operations_syntax

section \<open>Machine integers\<close>

type_synonym u8 = "8 word"
type_synonym u16 = "16 word"
type_synonym u32 = "32 word"
type_synonym bytes = "u8 list"

text \<open>Offsets into a buffer are natural numbers; an addition the source makes on a
  \<^verbatim>\<open>uint32_t\<close> or \<^verbatim>\<open>uint16_t\<close> is written out with its wrap-around.\<close>

definition wrap16 :: "nat \<Rightarrow> nat" where
  "wrap16 n = n mod 65536"

definition wrap32 :: "nat \<Rightarrow> nat" where
  "wrap32 n = n mod 4294967296"

definition sub32 :: "nat \<Rightarrow> nat \<Rightarrow> nat" where
  "sub32 a b = (a + 4294967296 - b) mod 4294967296"

lemma sub32_small [simp]: "b \<le> a \<Longrightarrow> a < 4294967296 \<Longrightarrow> sub32 a b = a - b"
  by (simp add: sub32_def mod_if)

lemma wrap16_small [simp]: "n < 65536 \<Longrightarrow> wrap16 n = n"
  by (simp add: wrap16_def)

lemma wrap32_small [simp]: "n < 4294967296 \<Longrightarrow> wrap32 n = n"
  by (simp add: wrap32_def)

lemma unat_u8_less [simp]: "unat (b :: u8) < 256"
  using unsigned_less [of b] by simp

lemma unat_u8_le: "unat (b :: u8) \<le> 255"
  using unat_u8_less [of b] by linarith

lemma unat_u16_less [simp]: "unat (b :: u16) < 65536"
  using unsigned_less [of b] by simp

lemma unat_u32_less [simp]: "unat (b :: u32) < 4294967296"
  using unsigned_less [of b] by simp

section \<open>Checked reads\<close>

text \<open>A function that reads memory returns an option; \<^verbatim>\<open>None\<close> stands for a
  read outside the buffer, which is undefined behaviour in C++.  A function is memory safe on an
  input when its value is not \<^verbatim>\<open>None\<close>.\<close>

definition rd :: "'a list \<Rightarrow> nat \<Rightarrow> 'a option" where
  "rd xs i = (if i < length xs then Some (xs ! i) else None)"

definition safe :: "'a option \<Rightarrow> bool" where
  "safe m \<longleftrightarrow> m \<noteq> None"

named_theorems mem_safe

lemma safe_Some [simp, mem_safe]: "safe (Some x)"
  by (simp add: safe_def)

lemma safe_None [simp, mem_safe]: "\<not> safe None"
  by (simp add: safe_def)

lemma safe_rd [simp, mem_safe]: "safe (rd xs i) \<longleftrightarrow> i < length xs"
  by (simp add: safe_def rd_def)

lemma safe_bind [mem_safe]:
  "safe (Option.bind m f) \<longleftrightarrow> safe m \<and> (\<forall>x. m = Some x \<longrightarrow> safe (f x))"
  by (cases m) (auto simp: safe_def)

lemma rd_Some [simp]: "i < length xs \<Longrightarrow> rd xs i = Some (xs ! i)"
  by (simp add: rd_def)

lemma rd_eq_Some: "rd xs i = Some x \<longleftrightarrow> i < length xs \<and> x = xs ! i"
  by (auto simp: rd_def)

lemma rd_append_len [simp]: "rd (xs @ y # ys) (length xs) = Some y"
  by (simp add: rd_def)

lemma rd_append_len_add [simp]: "rd (xs @ ys) (length xs + i) = rd ys i"
  by (simp add: rd_def nth_append)

lemma rd_append_len_0: "rd (xs @ ys) (length xs) = rd ys 0"
  using rd_append_len_add [of xs ys 0] by simp

lemma rd_append_len_Suc [simp]:
  "rd (xs @ ys) (Suc (length xs)) = rd ys (Suc 0)"
  "rd (xs @ ys) (Suc (Suc (length xs))) = rd ys (Suc (Suc 0))"
  "rd (xs @ ys) (Suc (Suc (Suc (length xs)))) = rd ys (Suc (Suc (Suc 0)))"
  using rd_append_len_add [of xs ys 1] rd_append_len_add [of xs ys 2] rd_append_len_add [of xs ys 3]
  by (simp_all add: numeral_eq_Suc)

lemma rd_append_left: "i < length xs \<Longrightarrow> rd (xs @ ys) i = rd xs i"
  by (simp add: rd_def nth_append)

lemma rd_Cons_0 [simp]: "rd (x # xs) 0 = Some x"
  by (simp add: rd_def)

lemma rd_Cons_Suc [simp]: "rd (x # xs) (Suc i) = rd xs i"
  by (simp add: rd_def)

lemma rd_Cons_numeral [simp]: "rd (x # xs) (numeral k) = rd xs (pred_numeral k)"
  by (simp add: numeral_eq_Suc)

lemma rd_Cons_1 [simp]: "rd (x # xs) 1 = rd xs 0"
  by (simp add: rd_def)

section \<open>Results of fallible operations\<close>

text \<open>\<^verbatim>\<open>Inl\<close> is the error an operation reports, \<^verbatim>\<open>Inr\<close> its value.\<close>

fun bindE :: "'e + 'a \<Rightarrow> ('a \<Rightarrow> 'e + 'b) \<Rightarrow> 'e + 'b" where
  "bindE (Inl e) f = Inl e"
| "bindE (Inr a) f = f a"

lemma bindE_eq_Inr: "bindE m f = Inr b \<longleftrightarrow> (\<exists>a. m = Inr a \<and> f a = Inr b)"
  by (cases m) auto

lemma bindE_eq_Inl: "bindE m f = Inl e \<longleftrightarrow> m = Inl e \<or> (\<exists>a. m = Inr a \<and> f a = Inl e)"
  by (cases m) auto

section \<open>Multi-byte fields\<close>

definition be16 :: "u8 \<Rightarrow> u8 \<Rightarrow> u16" where
  "be16 a b = push_bit 8 (ucast a) OR ucast b"

definition be32 :: "u8 \<Rightarrow> u8 \<Rightarrow> u8 \<Rightarrow> u8 \<Rightarrow> u32" where
  "be32 a b c d = push_bit 24 (ucast a) OR push_bit 16 (ucast b) OR push_bit 8 (ucast c) OR ucast d"

definition byte_of :: "nat \<Rightarrow> 'a::len word \<Rightarrow> u8" where
  "byte_of k w = ucast (drop_bit (8 * k) w)"

lemma be16_bytes [simp]: "be16 (byte_of 1 w) (byte_of 0 w) = w"
  by (rule bit_eqI) (auto simp: be16_def byte_of_def bit_simps)

lemma be32_bytes [simp]: "be32 (byte_of 3 w) (byte_of 2 w) (byte_of 1 w) (byte_of 0 w) = w"
proof (rule bit_eqI)
  fix n :: nat
  assume "possible_bit TYPE(u32) n"
  then consider "n < 8" | "8 \<le> n" "n < 16" | "16 \<le> n" "n < 24" | "24 \<le> n" "n < 32"
    by fastforce
  then show "bit (be32 (byte_of 3 w) (byte_of 2 w) (byte_of 1 w) (byte_of 0 w)) n \<longleftrightarrow> bit w n"
    by cases (auto simp: be32_def byte_of_def bit_simps)
qed

lemmas be_bytes [simp] = be16_bytes [simplified] be32_bytes [simplified]

section \<open>Bit fields\<close>

lemma and15: "(x :: u8) AND 15 = take_bit 4 x" by (simp add: take_bit_eq_mask mask_eq_exp_minus_1)

lemma and7: "(x :: u8) AND 7 = take_bit 3 x" by (simp add: take_bit_eq_mask mask_eq_exp_minus_1)

lemma bit8: "bit (8 :: u8) n \<longleftrightarrow> n = 3"
proof -
  have "(8 :: u8) = 2 ^ 3" by simp
  then have "bit (8 :: u8) n \<longleftrightarrow> bit (2 ^ 3 :: u8) n" by (simp only:)
  also have "\<dots> \<longleftrightarrow> n = 3" by (subst bit_exp_iff) auto
  finally show ?thesis .
qed

lemma take_bit_small: "unat w < 2 ^ n \<Longrightarrow> take_bit n w = (w :: 'a :: len word)"
  by (rule word_unat_eq_iff [THEN iffD2]) (simp add: unsigned_take_bit_eq take_bit_nat_eq_self)

lemma small_bits: "unat w < 2 ^ n \<Longrightarrow> bit (w :: 'a :: len word) k \<Longrightarrow> k < n"
  by (metis bit_take_bit_iff take_bit_small)

end
