(* ===== verification/Id_Names.thy ===== *)
theory Id_Names
  imports Prelude
begin

text \<open>
  The name tables of \<^verbatim>\<open>src/common/CASExampleHelper.cpp\<close> (\<^verbatim>\<open>ConfirmedServiceName\<close>
  to \<^verbatim>\<open>PropertyName\<close>) and the binary search \<^verbatim>\<open>LookUpIdName\<close>.
  The tables are ascending, so the search is the map lookup, and each of the names is found.
\<close>

section \<open>Names indexed by a wire value\<close>

text \<open>The bounds test and the array read that the four functions share; a read outside the array
  would be \<^verbatim>\<open>None\<close> of \<^verbatim>\<open>rd\<close>, and so is the null pointer they return.\<close>

definition index_name :: "string list \<Rightarrow> u8 \<Rightarrow> string option" where
  "index_name names choice = (if unat choice < length names then rd names (unat choice) else None)"

definition confirmed_service_names :: "string list" where
  "confirmed_service_names =
    [''AcknowledgeAlarm'', ''ConfirmedCOVNotification'', ''ConfirmedEventNotification'',
     ''GetAlarmSummary'', ''GetEnrollmentSummary'', ''SubscribeCOV'', ''AtomicReadFile'',
     ''AtomicWriteFile'', ''AddListElement'', ''RemoveListElement'', ''CreateObject'',
     ''DeleteObject'', ''ReadProperty'', ''ReadPropertyConditional'',
     ''ReadPropertyMultiple'', ''WriteProperty'', ''WritePropertyMultiple'',
     ''DeviceCommunicationControl'', ''ConfirmedPrivateTransfer'', ''ConfirmedTextMessage'',
     ''ReinitializeDevice'', ''VTOpen'', ''VTClose'', ''VTData'', ''Authenticate'',
     ''RequestKey'', ''ReadRange'', ''LifeSafetyOperation'', ''SubscribeCOVProperty'',
     ''GetEventInformation'', ''SubscribeCOVPropertyMultiple'',
     ''ConfirmedCOVNotificationMultiple'']"

definition ConfirmedServiceName :: "u8 \<Rightarrow> string option" where
  "ConfirmedServiceName choice = index_name confirmed_service_names choice"

definition unconfirmed_service_names :: "string list" where
  "unconfirmed_service_names =
    [''I-Am'', ''I-Have'', ''UnconfirmedCOVNotification'', ''UnconfirmedEventNotification'',
     ''UnconfirmedPrivateTransfer'', ''UnconfirmedTextMessage'', ''TimeSynchronization'',
     ''Who-Has'', ''Who-Is'', ''UTCTimeSynchronization'', ''WriteGroup'',
     ''UnconfirmedCOVNotificationMultiple'']"

definition UnconfirmedServiceName :: "u8 \<Rightarrow> string option" where
  "UnconfirmedServiceName choice = index_name unconfirmed_service_names choice"

definition reject_reason_names :: "string list" where
  "reject_reason_names =
    [''other'', ''buffer-overflow'', ''inconsistent-parameters'',
     ''invalid-parameter-data-type'', ''invalid-tag'', ''missing-required-parameter'',
     ''parameter-out-of-range'', ''too-many-arguments'', ''undefined-enumeration'',
     ''unrecognized-service'']"

definition RejectReasonName :: "u8 \<Rightarrow> string option" where
  "RejectReasonName choice = index_name reject_reason_names choice"

definition abort_reason_names :: "string list" where
  "abort_reason_names =
    [''other'', ''buffer-overflow'', ''invalid-apdu-in-this-state'',
     ''preempted-by-higher-priority-task'', ''segmentation-not-supported'',
     ''security-error'', ''insufficient-security'', ''window-size-out-of-range'',
     ''application-exceeded-reply-time'', ''out-of-resources'', ''tsm-timeout'',
     ''apdu-too-long'']"

definition AbortReasonName :: "u8 \<Rightarrow> string option" where
  "AbortReasonName choice = index_name abort_reason_names choice"

definition NetworkMessageName :: "u8 \<Rightarrow> string option" where
  "NetworkMessageName ty =
    (if ty = 0 then Some ''Who-Is-Router-To-Network''
     else if ty = 1 then Some ''I-Am-Router-To-Network''
     else if ty = 2 then Some ''I-Could-Be-Router-To-Network''
     else if ty = 3 then Some ''Reject-Message-To-Network''
     else if ty = 4 then Some ''Router-Busy-To-Network''
     else if ty = 5 then Some ''Router-Available-To-Network''
     else if ty = 6 then Some ''Initialize-Routing-Table''
     else if ty = 7 then Some ''Initialize-Routing-Table-Ack''
     else if ty = 18 then Some ''What-Is-Network-Number''
     else if ty = 19 then Some ''Network-Number-Is''
     else None)"

section \<open>Object types and properties\<close>

type_synonym id_name = "nat \<times> string"

definition OBJECT_TYPE_NAMES :: "id_name list" where
  "OBJECT_TYPE_NAMES =
  [(0, ''Analog_Input''),
   (1, ''Analog_Output''),
   (2, ''Analog_Value''),
   (3, ''Binary_Input''),
   (4, ''Binary_Output''),
   (5, ''Binary_Value''),
   (6, ''Calendar''),
   (7, ''Command''),
   (8, ''Device''),
   (9, ''Event_Enrollment''),
   (10, ''File''),
   (11, ''Group''),
   (12, ''Loop''),
   (13, ''Multi_State_Input''),
   (14, ''Multi_State_Output''),
   (15, ''Notification_Class''),
   (16, ''Program''),
   (17, ''Schedule''),
   (18, ''Averaging''),
   (19, ''Multi_State_Value''),
   (20, ''Trend_Log''),
   (21, ''Life_Safety_Point''),
   (22, ''Life_Safety_Zone''),
   (23, ''Accumulator''),
   (24, ''Pulse_Converter''),
   (25, ''Event_Log''),
   (26, ''Global_Group''),
   (27, ''Trend_Log_Multiple''),
   (28, ''Load_Control''),
   (29, ''Structured_View''),
   (30, ''Access_Door''),
   (31, ''Timer''),
   (32, ''Access_Credential''),
   (33, ''Access_Point''),
   (34, ''Access_Rights''),
   (35, ''Access_User''),
   (36, ''Access_Zone''),
   (37, ''Credential_Data_Input''),
   (38, ''Network_Security''),
   (39, ''Bitstring_Value''),
   (40, ''Characterstring_Value''),
   (41, ''Datepattern_Value''),
   (42, ''Date_Value''),
   (43, ''Datetimepattern_Value''),
   (44, ''Datetime_Value''),
   (45, ''Integer_Value''),
   (46, ''Large_Analog_Value''),
   (47, ''Octetstring_Value''),
   (48, ''Positive_Integer_Value''),
   (49, ''Timepattern_Value''),
   (50, ''Time_Value''),
   (51, ''Notification_Forwarder''),
   (52, ''Alert_Enrollment''),
   (53, ''Channel''),
   (54, ''Lighting_Output''),
   (55, ''Binary_Lighting_Output''),
   (56, ''Network_Port''),
   (57, ''Elevator_Group''),
   (58, ''Escalator''),
   (59, ''Lift''),
   (60, ''Staging''),
   (61, ''Audit_Log''),
   (62, ''Audit_Reporter''),
   (63, ''Color''),
   (64, ''Color_Temperature'')]"

definition PROPERTY_NAMES_1 :: "id_name list" where
  "PROPERTY_NAMES_1 =
  [(0, ''Acked_Transitions''),
   (1, ''Ack_Required''),
   (2, ''Action''),
   (3, ''Action_Text''),
   (4, ''Active_Text''),
   (5, ''Active_Vt_Sessions''),
   (6, ''Alarm_Value''),
   (7, ''Alarm_Values''),
   (8, ''All''),
   (9, ''All_Writes_Successful''),
   (10, ''Apdu_Segment_Timeout''),
   (11, ''Apdu_Timeout''),
   (12, ''Application_Software_Version''),
   (13, ''Archive''),
   (14, ''Bias''),
   (15, ''Change_Of_State_Count''),
   (16, ''Change_Of_State_Time''),
   (17, ''Notification_Class''),
   (19, ''Controlled_Variable_Reference''),
   (20, ''Controlled_Variable_Units''),
   (21, ''Controlled_Variable_Value''),
   (22, ''Cov_Increment''),
   (23, ''Date_List''),
   (24, ''Daylight_Savings_Status''),
   (25, ''Deadband''),
   (26, ''Derivative_Constant''),
   (27, ''Derivative_Constant_Units''),
   (28, ''Description''),
   (29, ''Description_Of_Halt''),
   (30, ''Device_Address_Binding''),
   (31, ''Device_Type''),
   (32, ''Effective_Period''),
   (33, ''Elapsed_Active_Time''),
   (34, ''Error_Limit''),
   (35, ''Event_Enable''),
   (36, ''Event_State''),
   (37, ''Event_Type''),
   (38, ''Exception_Schedule''),
   (39, ''Fault_Values''),
   (40, ''Feedback_Value''),
   (41, ''File_Access_Method''),
   (42, ''File_Size''),
   (43, ''File_Type''),
   (44, ''Firmware_Revision''),
   (45, ''High_Limit''),
   (46, ''Inactive_Text''),
   (47, ''In_Process''),
   (48, ''Instance_Of''),
   (49, ''Integral_Constant''),
   (50, ''Integral_Constant_Units''),
   (51, ''Issue_Confirmed_Notifications''),
   (52, ''Limit_Enable''),
   (53, ''List_Of_Group_Members''),
   (54, ''List_Of_Object_Property_References''),
   (56, ''Local_Date''),
   (57, ''Local_Time''),
   (58, ''Location''),
   (59, ''Low_Limit''),
   (60, ''Manipulated_Variable_Reference''),
   (61, ''Maximum_Output''),
   (62, ''Max_Apdu_Length_Accepted''),
   (63, ''Max_Info_Frames''),
   (64, ''Max_Manager''),
   (65, ''Max_Pres_Value''),
   (66, ''Minimum_Off_Time''),
   (67, ''Minimum_On_Time''),
   (68, ''Minimum_Output''),
   (69, ''Min_Pres_Value''),
   (70, ''Model_Name''),
   (71, ''Modification_Date''),
   (72, ''Notify_Type''),
   (73, ''Number_Of_Apdu_Retries''),
   (74, ''Number_Of_States''),
   (75, ''Object_Identifier''),
   (76, ''Object_List''),
   (77, ''Object_Name''),
   (78, ''Object_Property_Reference''),
   (79, ''Object_Type''),
   (80, ''Optional''),
   (81, ''Out_Of_Service''),
   (82, ''Output_Units''),
   (83, ''Event_Parameters''),
   (84, ''Polarity''),
   (85, ''Present_Value''),
   (86, ''Priority''),
   (87, ''Priority_Array''),
   (88, ''Priority_For_Writing''),
   (89, ''Process_Identifier''),
   (90, ''Program_Change''),
   (91, ''Program_Location''),
   (92, ''Program_State''),
   (93, ''Proportional_Constant''),
   (94, ''Proportional_Constant_Units''),
   (96, ''Protocol_Object_Types_Supported''),
   (97, ''Protocol_Services_Supported''),
   (98, ''Protocol_Version''),
   (99, ''Read_Only''),
   (100, ''Reason_For_Halt''),
   (102, ''Recipient_List''),
   (103, ''Reliability''),
   (104, ''Relinquish_Default''),
   (105, ''Required''),
   (106, ''Resolution''),
   (107, ''Segmentation_Supported''),
   (108, ''Setpoint''),
   (109, ''Setpoint_Reference''),
   (110, ''State_Text''),
   (111, ''Status_Flags''),
   (112, ''System_Status''),
   (113, ''Time_Delay''),
   (114, ''Time_Of_Active_Time_Reset''),
   (115, ''Time_Of_State_Count_Reset''),
   (116, ''Time_Synchronization_Recipients''),
   (117, ''Units''),
   (118, ''Update_Interval''),
   (119, ''Utc_Offset''),
   (120, ''Vendor_Identifier''),
   (121, ''Vendor_Name''),
   (122, ''Vt_Classes_Supported''),
   (123, ''Weekly_Schedule''),
   (124, ''Attempted_Samples''),
   (125, ''Average_Value''),
   (126, ''Buffer_Size''),
   (127, ''Client_Cov_Increment''),
   (128, ''Cov_Resubscription_Interval''),
   (130, ''Event_Time_Stamps''),
   (131, ''Log_Buffer''),
   (132, ''Log_Device_Object_Property''),
   (133, ''Enable''),
   (134, ''Log_Interval'')]"

definition PROPERTY_NAMES_2 :: "id_name list" where
  "PROPERTY_NAMES_2 =
  [(135, ''Maximum_Value''),
   (136, ''Minimum_Value''),
   (137, ''Notification_Threshold''),
   (139, ''Protocol_Revision''),
   (140, ''Records_Since_Notification''),
   (141, ''Record_Count''),
   (142, ''Start_Time''),
   (143, ''Stop_Time''),
   (144, ''Stop_When_Full''),
   (145, ''Total_Record_Count''),
   (146, ''Valid_Samples''),
   (147, ''Window_Interval''),
   (148, ''Window_Samples''),
   (149, ''Maximum_Value_Timestamp''),
   (150, ''Minimum_Value_Timestamp''),
   (151, ''Variance_Value''),
   (152, ''Active_Cov_Subscriptions''),
   (153, ''Backup_Failure_Timeout''),
   (154, ''Configuration_Files''),
   (155, ''Database_Revision''),
   (156, ''Direct_Reading''),
   (157, ''Last_Restore_Time''),
   (158, ''Maintenance_Required''),
   (159, ''Member_Of''),
   (160, ''Mode''),
   (161, ''Operation_Expected''),
   (162, ''Setting''),
   (163, ''Silenced''),
   (164, ''Tracking_Value''),
   (165, ''Zone_Members''),
   (166, ''Life_Safety_Alarm_Values''),
   (167, ''Max_Segments_Accepted''),
   (168, ''Profile_Name''),
   (169, ''Auto_Subordinate_Discovery''),
   (170, ''Manual_Subordinate_Address_Binding''),
   (171, ''Subordinate_Address_Binding''),
   (172, ''Subordinate_Proxy_Enable''),
   (173, ''Last_Notify_Record''),
   (174, ''Schedule_Default''),
   (175, ''Accepted_Modes''),
   (176, ''Adjust_Value''),
   (177, ''Count''),
   (178, ''Count_Before_Change''),
   (179, ''Count_Change_Time''),
   (180, ''Cov_Period''),
   (181, ''Input_Reference''),
   (182, ''Limit_Monitoring_Interval''),
   (183, ''Logging_Object''),
   (184, ''Logging_Record''),
   (185, ''Prescale''),
   (186, ''Pulse_Rate''),
   (187, ''Scale''),
   (188, ''Scale_Factor''),
   (189, ''Update_Time''),
   (190, ''Value_Before_Change''),
   (191, ''Value_Set''),
   (192, ''Value_Change_Time''),
   (193, ''Align_Intervals''),
   (195, ''Interval_Offset''),
   (196, ''Last_Restart_Reason''),
   (197, ''Logging_Type''),
   (202, ''Restart_Notification_Recipients''),
   (203, ''Time_Of_Device_Restart''),
   (204, ''Time_Synchronization_Interval''),
   (205, ''Trigger''),
   (206, ''Utc_Time_Synchronization_Recipients''),
   (207, ''Node_Subtype''),
   (208, ''Node_Type''),
   (209, ''Structured_Object_List''),
   (210, ''Subordinate_Annotations''),
   (211, ''Subordinate_List''),
   (212, ''Actual_Shed_Level''),
   (213, ''Duty_Window''),
   (214, ''Expected_Shed_Level''),
   (215, ''Full_Duty_Baseline''),
   (218, ''Requested_Shed_Level''),
   (219, ''Shed_Duration''),
   (220, ''Shed_Level_Descriptions''),
   (221, ''Shed_Levels''),
   (222, ''State_Description''),
   (226, ''Door_Alarm_State''),
   (227, ''Door_Extended_Pulse_Time''),
   (228, ''Door_Members''),
   (229, ''Door_Open_Too_Long_Time''),
   (230, ''Door_Pulse_Time''),
   (231, ''Door_Status''),
   (232, ''Door_Unlock_Delay_Time''),
   (233, ''Lock_Status''),
   (234, ''Masked_Alarm_Values''),
   (235, ''Secured_Status''),
   (244, ''Absentee_Limit''),
   (245, ''Access_Alarm_Events''),
   (246, ''Access_Doors''),
   (247, ''Access_Event''),
   (248, ''Access_Event_Authentication_Factor''),
   (249, ''Access_Event_Credential''),
   (250, ''Access_Event_Time''),
   (251, ''Access_Transaction_Events''),
   (252, ''Accompaniment''),
   (253, ''Accompaniment_Time''),
   (254, ''Activation_Time''),
   (255, ''Active_Authentication_Policy''),
   (256, ''Assigned_Access_Rights''),
   (257, ''Authentication_Factors''),
   (258, ''Authentication_Policy_List''),
   (259, ''Authentication_Policy_Names''),
   (260, ''Authentication_Status''),
   (261, ''Authorization_Mode''),
   (262, ''Belongs_To''),
   (263, ''Credential_Disable''),
   (264, ''Credential_Status''),
   (265, ''Credentials''),
   (266, ''Credentials_In_Zone''),
   (267, ''Days_Remaining''),
   (268, ''Entry_Points''),
   (269, ''Exit_Points''),
   (270, ''Expiration_Time''),
   (271, ''Extended_Time_Enable''),
   (272, ''Failed_Attempt_Events''),
   (273, ''Failed_Attempts''),
   (274, ''Failed_Attempts_Time''),
   (275, ''Last_Access_Event''),
   (276, ''Last_Access_Point''),
   (277, ''Last_Credential_Added''),
   (278, ''Last_Credential_Added_Time''),
   (279, ''Last_Credential_Removed''),
   (280, ''Last_Credential_Removed_Time''),
   (281, ''Last_Use_Time''),
   (282, ''Lockout''),
   (283, ''Lockout_Relinquish_Time'')]"

definition PROPERTY_NAMES_3 :: "id_name list" where
  "PROPERTY_NAMES_3 =
  [(285, ''Max_Failed_Attempts''),
   (286, ''Members''),
   (287, ''Muster_Point''),
   (288, ''Negative_Access_Rules''),
   (289, ''Number_Of_Authentication_Policies''),
   (290, ''Occupancy_Count''),
   (291, ''Occupancy_Count_Adjust''),
   (292, ''Occupancy_Count_Enable''),
   (294, ''Occupancy_Lower_Limit''),
   (295, ''Occupancy_Lower_Limit_Enforced''),
   (296, ''Occupancy_State''),
   (297, ''Occupancy_Upper_Limit''),
   (298, ''Occupancy_Upper_Limit_Enforced''),
   (300, ''Passback_Mode''),
   (301, ''Passback_Timeout''),
   (302, ''Positive_Access_Rules''),
   (303, ''Reason_For_Disable''),
   (304, ''Supported_Formats''),
   (305, ''Supported_Format_Classes''),
   (306, ''Threat_Authority''),
   (307, ''Threat_Level''),
   (308, ''Trace_Flag''),
   (309, ''Transaction_Notification_Class''),
   (310, ''User_External_Identifier''),
   (311, ''User_Information_Reference''),
   (317, ''User_Name''),
   (318, ''User_Type''),
   (319, ''Uses_Remaining''),
   (320, ''Zone_From''),
   (321, ''Zone_To''),
   (322, ''Access_Event_Tag''),
   (323, ''Global_Identifier''),
   (326, ''Verification_Time''),
   (327, ''Base_Device_Security_Policy''),
   (328, ''Distribution_Key_Revision''),
   (329, ''Do_Not_Hide''),
   (330, ''Key_Sets''),
   (331, ''Last_Key_Server''),
   (332, ''Network_Access_Security_Policies''),
   (333, ''Packet_Reorder_Time''),
   (334, ''Security_Pdu_Timeout''),
   (335, ''Security_Time_Window''),
   (336, ''Supported_Security_Algorithms''),
   (338, ''Backup_And_Restore_State''),
   (339, ''Backup_Preparation_Time''),
   (340, ''Restore_Completion_Time''),
   (341, ''Restore_Preparation_Time''),
   (342, ''Bit_Mask''),
   (343, ''Bit_Text''),
   (344, ''Is_Utc''),
   (345, ''Group_Members''),
   (346, ''Group_Member_Names''),
   (347, ''Member_Status_Flags''),
   (348, ''Requested_Update_Interval''),
   (349, ''Covu_Period''),
   (350, ''Covu_Recipients''),
   (351, ''Event_Message_Texts''),
   (352, ''Event_Message_Texts_Config''),
   (353, ''Event_Detection_Enable''),
   (354, ''Event_Algorithm_Inhibit''),
   (355, ''Event_Algorithm_Inhibit_Ref''),
   (356, ''Time_Delay_Normal''),
   (357, ''Reliability_Evaluation_Inhibit''),
   (358, ''Fault_Parameters''),
   (359, ''Fault_Type''),
   (360, ''Local_Forwarding_Only''),
   (361, ''Process_Identifier_Filter''),
   (362, ''Subscribed_Recipients''),
   (363, ''Port_Filter''),
   (364, ''Authorization_Exemptions''),
   (365, ''Allow_Group_Delay_Inhibit''),
   (366, ''Channel_Number''),
   (367, ''Control_Groups''),
   (368, ''Execution_Delay''),
   (369, ''Last_Priority''),
   (370, ''Write_Status''),
   (371, ''Property_List''),
   (372, ''Serial_Number''),
   (373, ''Blink_Warn_Enable''),
   (374, ''Default_Fade_Time''),
   (375, ''Default_Ramp_Rate''),
   (376, ''Default_Step_Increment''),
   (377, ''Egress_Time''),
   (378, ''In_Progress''),
   (379, ''Instantaneous_Power''),
   (380, ''Lighting_Command''),
   (381, ''Lighting_Command_Default_Priority''),
   (382, ''Max_Actual_Value''),
   (383, ''Min_Actual_Value''),
   (384, ''Power''),
   (385, ''Transition''),
   (386, ''Egress_Active''),
   (387, ''Interface_Value''),
   (388, ''Fault_High_Limit''),
   (389, ''Fault_Low_Limit''),
   (390, ''Low_Diff_Limit''),
   (391, ''Strike_Count''),
   (392, ''Time_Of_Strike_Count_Reset''),
   (393, ''Default_Timeout''),
   (394, ''Initial_Timeout''),
   (395, ''Last_State_Change''),
   (396, ''State_Change_Values''),
   (397, ''Timer_Running''),
   (398, ''Timer_State''),
   (399, ''Apdu_Length''),
   (400, ''Ip_Address''),
   (401, ''Ip_Default_Gateway''),
   (402, ''Ip_Dhcp_Enable''),
   (403, ''Ip_Dhcp_Lease_Time''),
   (404, ''Ip_Dhcp_Lease_Time_Remaining''),
   (405, ''Ip_Dhcp_Server''),
   (406, ''Ip_Dns_Server''),
   (407, ''Bacnet_Ip_Global_Address''),
   (408, ''Bacnet_Ip_Mode''),
   (409, ''Bacnet_Ip_Multicast_Address''),
   (410, ''Bacnet_Ip_Nat_Traversal''),
   (411, ''Ip_Subnet_Mask''),
   (412, ''Bacnet_Ip_Udp_Port''),
   (413, ''Bbmd_Accept_Fd_Registrations''),
   (414, ''Bbmd_Broadcast_Distribution_Table''),
   (415, ''Bbmd_Foreign_Device_Table''),
   (416, ''Changes_Pending''),
   (417, ''Command''),
   (418, ''Fd_Bbmd_Address''),
   (419, ''Fd_Subscription_Lifetime''),
   (420, ''Link_Speed''),
   (421, ''Link_Speeds''),
   (422, ''Link_Speed_Autonegotiate''),
   (423, ''Mac_Address''),
   (424, ''Network_Interface_Name'')]"

definition PROPERTY_NAMES_4 :: "id_name list" where
  "PROPERTY_NAMES_4 =
  [(425, ''Network_Number''),
   (426, ''Network_Number_Quality''),
   (427, ''Network_Type''),
   (428, ''Routing_Table''),
   (429, ''Virtual_Mac_Address_Table''),
   (430, ''Command_Time_Array''),
   (431, ''Current_Command_Priority''),
   (432, ''Last_Command_Time''),
   (433, ''Value_Source''),
   (434, ''Value_Source_Array''),
   (435, ''Bacnet_Ipv6_Mode''),
   (436, ''Ipv6_Address''),
   (437, ''Ipv6_Prefix_Length''),
   (438, ''Bacnet_Ipv6_Udp_Port''),
   (439, ''Ipv6_Default_Gateway''),
   (440, ''Bacnet_Ipv6_Multicast_Address''),
   (441, ''Ipv6_Dns_Server''),
   (442, ''Ipv6_Auto_Addressing_Enable''),
   (443, ''Ipv6_Dhcp_Lease_Time''),
   (444, ''Ipv6_Dhcp_Lease_Time_Remaining''),
   (445, ''Ipv6_Dhcp_Server''),
   (446, ''Ipv6_Zone_Index''),
   (447, ''Assigned_Landing_Calls''),
   (448, ''Car_Assigned_Direction''),
   (449, ''Car_Door_Command''),
   (450, ''Car_Door_Status''),
   (451, ''Car_Door_Text''),
   (452, ''Car_Door_Zone''),
   (453, ''Car_Drive_Status''),
   (454, ''Car_Load''),
   (455, ''Car_Load_Units''),
   (456, ''Car_Mode''),
   (457, ''Car_Moving_Direction''),
   (458, ''Car_Position''),
   (459, ''Elevator_Group''),
   (460, ''Energy_Meter''),
   (461, ''Energy_Meter_Ref''),
   (462, ''Escalator_Mode''),
   (463, ''Fault_Signals''),
   (464, ''Floor_Text''),
   (465, ''Group_Id''),
   (467, ''Group_Mode''),
   (468, ''Higher_Deck''),
   (469, ''Installation_Id''),
   (470, ''Landing_Calls''),
   (471, ''Landing_Call_Control''),
   (472, ''Landing_Door_Status''),
   (473, ''Lower_Deck''),
   (474, ''Machine_Room_Id''),
   (475, ''Making_Car_Call''),
   (476, ''Next_Stopping_Floor''),
   (477, ''Operation_Direction''),
   (478, ''Passenger_Alarm''),
   (479, ''Power_Mode''),
   (480, ''Registered_Car_Call''),
   (481, ''Active_Cov_Multiple_Subscriptions''),
   (482, ''Protocol_Level''),
   (483, ''Reference_Port''),
   (484, ''Deployed_Profile_Location''),
   (485, ''Profile_Location''),
   (486, ''Tags''),
   (487, ''Subordinate_Node_Types''),
   (488, ''Subordinate_Tags''),
   (489, ''Subordinate_Relationships''),
   (490, ''Default_Subordinate_Relationship''),
   (491, ''Represents''),
   (492, ''Default_Present_Value''),
   (493, ''Present_Stage''),
   (494, ''Stages''),
   (495, ''Stage_Names''),
   (496, ''Target_References''),
   (497, ''Audit_Source_Reporter''),
   (498, ''Audit_Level''),
   (499, ''Audit_Notification_Recipient''),
   (500, ''Audit_Priority_Filter''),
   (501, ''Auditable_Operations''),
   (502, ''Delete_On_Forward''),
   (503, ''Maximum_Send_Delay''),
   (504, ''Monitored_Objects''),
   (505, ''Send_Now''),
   (506, ''Floor_Number''),
   (507, ''Device_Uuid''),
   (508, ''Additional_Reference_Ports''),
   (509, ''Certificate_Signing_Request_File''),
   (510, ''Command_Validation_Result''),
   (511, ''Issuer_Certificate_Files''),
   (4194304, ''Max_Bvlc_Length_Accepted''),
   (4194305, ''Max_Npdu_Length_Accepted''),
   (4194306, ''Operational_Certificate_File''),
   (4194307, ''Current_Health''),
   (4194308, ''Sc_Connect_Wait_Timeout''),
   (4194309, ''Sc_Direct_Connect_Accept_Enable''),
   (4194310, ''Sc_Direct_Connect_Accept_Uris''),
   (4194311, ''Sc_Direct_Connect_Binding''),
   (4194312, ''Sc_Direct_Connect_Connection_Status''),
   (4194313, ''Sc_Direct_Connect_Initiate_Enable''),
   (4194314, ''Sc_Disconnect_Wait_Timeout''),
   (4194315, ''Sc_Failed_Connection_Requests''),
   (4194316, ''Sc_Failover_Hub_Connection_Status''),
   (4194317, ''Sc_Failover_Hub_Uri''),
   (4194318, ''Sc_Hub_Connector_State''),
   (4194319, ''Sc_Hub_Function_Accept_Uris''),
   (4194320, ''Sc_Hub_Function_Binding''),
   (4194321, ''Sc_Hub_Function_Connection_Status''),
   (4194322, ''Sc_Hub_Function_Enable''),
   (4194323, ''Sc_Heartbeat_Timeout''),
   (4194324, ''Sc_Primary_Hub_Connection_Status''),
   (4194325, ''Sc_Primary_Hub_Uri''),
   (4194326, ''Sc_Maximum_Reconnect_Time''),
   (4194327, ''Sc_Minimum_Reconnect_Time''),
   (4194328, ''Color_Override''),
   (4194329, ''Color_Reference''),
   (4194330, ''Default_Color''),
   (4194331, ''Default_Color_Temperature''),
   (4194332, ''Override_Color_Reference''),
   (4194333, ''Write_Every_Scheduled_Action''),
   (4194334, ''Color_Command''),
   (4194335, ''High_End_Trim''),
   (4194336, ''Low_End_Trim''),
   (4194337, ''Trim_Fade_Time''),
   (4194338, ''Device_Address_Proxy_Enable''),
   (4194339, ''Device_Address_Proxy_Table''),
   (4194340, ''Device_Address_Proxy_Timeout''),
   (4194341, ''Default_On_Value''),
   (4194342, ''Last_On_Value''),
   (4194343, ''Authorization_Cache''),
   (4194344, ''Authorization_Groups''),
   (4194345, ''Authorization_Policy''),
   (4194346, ''Authorization_Scope''),
   (4194347, ''Authorization_Server'')]"

definition PROPERTY_NAMES_5 :: "id_name list" where
  "PROPERTY_NAMES_5 =
  [(4194348, ''Authorization_Status''),
   (4194349, ''Max_Proxied_I_Ams_Per_Second'')]"

definition PROPERTY_NAMES :: "id_name list" where
  "PROPERTY_NAMES = PROPERTY_NAMES_1 @ PROPERTY_NAMES_2 @ PROPERTY_NAMES_3 @ PROPERTY_NAMES_4 @
    PROPERTY_NAMES_5"

text \<open>The loop of \<^verbatim>\<open>LookUpIdName\<close>; the outer option is a read outside the
  table.\<close>

function look_up_between :: "id_name list \<Rightarrow> nat \<Rightarrow> nat \<Rightarrow> nat \<Rightarrow> string option option" where
  "look_up_between table ident lo hi =
    (if lo < hi then
       (let mid = lo + (hi - lo) div 2 in
        do { entry \<leftarrow> rd table mid;
             if fst entry = ident then Some (Some (snd entry))
             else if fst entry < ident then look_up_between table ident (mid + 1) hi
             else look_up_between table ident lo mid })
     else Some None)"
  by pat_completeness auto
termination
  by (relation "measure (\<lambda>(_, _, lo, hi). hi - lo)") auto

declare look_up_between.simps [simp del]

definition LookUpIdName :: "id_name list \<Rightarrow> nat \<Rightarrow> nat \<Rightarrow> string option option" where
  "LookUpIdName table count ident = look_up_between table ident 0 count"

definition ObjectTypeName :: "u16 \<Rightarrow> string option option" where
  "ObjectTypeName objectType =
    LookUpIdName OBJECT_TYPE_NAMES (length OBJECT_TYPE_NAMES) (unat objectType)"

definition PropertyName :: "u32 \<Rightarrow> string option option" where
  "PropertyName propertyId = LookUpIdName PROPERTY_NAMES (length PROPERTY_NAMES) (unat propertyId)"

section \<open>The search is the lookup\<close>

definition ascending :: "id_name list \<Rightarrow> bool" where
  "ascending table \<longleftrightarrow> sorted_wrt (<) (map fst table)"

lemma ascending_nth:
  "ascending table \<Longrightarrow> i < j \<Longrightarrow> j < length table \<Longrightarrow> fst (table ! i) < fst (table ! j)"
  unfolding ascending_def by (simp add: sorted_wrt_iff_nth_less)

text \<open>The ids of a table are ascending and lie in an interval; the chunks of a table chain.\<close>

fun asc_between :: "nat \<Rightarrow> nat \<Rightarrow> id_name list \<Rightarrow> bool" where
  "asc_between lo hi [] \<longleftrightarrow> lo \<le> hi"
| "asc_between lo hi ((ident, _) # table) \<longleftrightarrow> lo \<le> ident \<and> asc_between (ident + 1) hi table"

lemma asc_between_append:
  "asc_between lo mid a \<Longrightarrow> asc_between mid hi b \<Longrightarrow> asc_between lo hi (a @ b)"
proof (induction lo mid a rule: asc_between.induct)
  case (1 lo mid)
  then show ?case by (cases b) auto
qed auto

lemma asc_between_lower: "asc_between lo hi table \<Longrightarrow> k \<in> fst ` set table \<Longrightarrow> lo \<le> k"
  by (induction lo hi table rule: asc_between.induct) fastforce+

lemma asc_between_ascending: "asc_between lo hi table \<Longrightarrow> ascending table"
  unfolding ascending_def
  by (induction lo hi table rule: asc_between.induct) (auto dest!: asc_between_lower [OF _ imageI])

lemma object_type_names_ascending: "ascending OBJECT_TYPE_NAMES"
  by (rule asc_between_ascending [of 0 65]) (simp add: OBJECT_TYPE_NAMES_def)

lemma property_names_1: "asc_between 0 135 PROPERTY_NAMES_1"
  by (simp add: PROPERTY_NAMES_1_def)

lemma property_names_2: "asc_between 135 285 PROPERTY_NAMES_2"
  by (simp add: PROPERTY_NAMES_2_def)

lemma property_names_3: "asc_between 285 425 PROPERTY_NAMES_3"
  by (simp add: PROPERTY_NAMES_3_def)

lemma property_names_4: "asc_between 425 4194348 PROPERTY_NAMES_4"
  by (simp add: PROPERTY_NAMES_4_def)

lemma property_names_5: "asc_between 4194348 4294967296 PROPERTY_NAMES_5"
  by (simp add: PROPERTY_NAMES_5_def)

lemma property_names_ascending: "ascending PROPERTY_NAMES"
  unfolding PROPERTY_NAMES_def
  by (rule asc_between_ascending [OF asc_between_append [OF property_names_1
      asc_between_append [OF property_names_2 asc_between_append [OF property_names_3
      asc_between_append [OF property_names_4 property_names_5]]]]])

lemma ascending_distinct: "ascending table \<Longrightarrow> distinct (map fst table)"
  unfolding ascending_def by (simp add: strict_sorted_iff)

lemma map_of_outside:
  assumes "ascending table" "lo \<ge> hi" "hi \<le> length table"
    "\<And>i. i < lo \<Longrightarrow> i < length table \<Longrightarrow> fst (table ! i) < ident"
    "\<And>i. hi \<le> i \<Longrightarrow> i < length table \<Longrightarrow> ident < fst (table ! i)"
  shows "map_of table ident = None"
proof -
  have "fst (table ! i) \<noteq> ident" if "i < length table" for i
    using assms(2,4,5) that by (metis leI le_less_trans less_irrefl nat_le_linear order_less_le_trans)
  then show ?thesis
    by (force simp: map_of_eq_None_iff in_set_conv_nth)
qed

lemma look_up_between_map_of:
  assumes "ascending table" "hi \<le> length table"
    "\<And>i. i < lo \<Longrightarrow> i < length table \<Longrightarrow> fst (table ! i) < ident"
    "\<And>i. hi \<le> i \<Longrightarrow> i < length table \<Longrightarrow> ident < fst (table ! i)"
  shows "look_up_between table ident lo hi = Some (map_of table ident)"
  using assms
proof (induction table ident lo hi rule: look_up_between.induct)
  case (1 table ident lo hi)
  show ?case
  proof (cases "lo < hi")
    case False
    then show ?thesis
      using 1(3-6) map_of_outside [of table hi lo ident]
      by (simp add: look_up_between.simps [of table ident lo hi])
  next
    case True
    define mid where "mid = lo + (hi - lo) div 2"
    have mid: "lo \<le> mid" "mid < hi" "mid < length table"
      using True 1(4) by (auto simp: mid_def)
    obtain k v where kv: "table ! mid = (k, v)" by fastforce
    have mem: "(k, v) \<in> set table" using mid(3) kv by (metis nth_mem)
    consider "k = ident" | "k < ident" | "ident < k" by linarith
    then show ?thesis
    proof cases
      case 1
      then show ?thesis
        using True mid kv mem \<open>ascending table\<close> ascending_distinct
        by (simp add: look_up_between.simps [of table ident lo hi] Let_def mid_def [symmetric])
    next
      case 2
      have "fst (table ! i) < ident" if "i < mid + 1" "i < length table" for i
        using that 2 kv ascending_nth [OF \<open>ascending table\<close>, of i mid] mid(3)
        by (cases "i = mid") (auto intro: less_trans)
      then show ?thesis
        using 1(1) [OF True mid_def, of "(k, v)"] 1(3-6) 2 True mid kv
        by (simp add: look_up_between.simps [of table ident lo hi] Let_def mid_def [symmetric])
    next
      case 3
      have "ident < fst (table ! i)" if "mid \<le> i" "i < length table" for i
        using that 3 kv ascending_nth [OF \<open>ascending table\<close>, of mid i] mid(3)
        by (cases "i = mid") (auto intro: less_trans)
      then show ?thesis
        using 1(2) [OF True mid_def, of "(k, v)"] 1(3-6) 3 True mid kv
        by (simp add: look_up_between.simps [of table ident lo hi] Let_def mid_def [symmetric])
    qed
  qed
qed

lemma LookUpIdName_map_of [simp]:
  "ascending table \<Longrightarrow> LookUpIdName table (length table) ident = Some (map_of table ident)"
  unfolding LookUpIdName_def by (rule look_up_between_map_of) auto

lemma ObjectTypeName_map_of: "ObjectTypeName ty = Some (map_of OBJECT_TYPE_NAMES (unat ty))"
  by (simp add: ObjectTypeName_def object_type_names_ascending)

lemma PropertyName_map_of: "PropertyName prop = Some (map_of PROPERTY_NAMES (unat prop))"
  by (simp add: PropertyName_def property_names_ascending)

section \<open>Properties\<close>

text \<open>The binary search over an ascending table is the table's map: it never reads outside the
  table, finds the name of every id in it and nothing for any other.\<close>

theorem binary_search_is_lookup:
  assumes "sorted_wrt (<) (map fst table)"
  shows "LookUpIdName table (length table) ident = Some (map_of table ident)"
  using assms by (simp add: ascending_def)

theorem binary_search_is_lookup_witness:
  "LookUpIdName [(1, ''a''), (5, ''b''), (9, ''c'')] (length [(1 :: nat, ''a''), (5, ''b''), (9, ''c'')]) 9 =
    Some (map_of [(1 :: nat, ''a''), (5, ''b''), (9, ''c'')] 9)"
  by (rule binary_search_is_lookup) simp

text \<open>The two generated tables satisfy the ordering the search depends on, so each of their 587
  names is found under its own id.\<close>

theorem generated_tables_searchable:
  "ObjectTypeName ty = Some (map_of OBJECT_TYPE_NAMES (unat ty)) \<and>
   PropertyName pid = Some (map_of PROPERTY_NAMES (unat pid))"
  by (simp add: ObjectTypeName_map_of PropertyName_map_of)

end
