(* ===== verification/Bacnet_Frame.thy ===== *)
theory Bacnet_Frame
  imports Prelude
begin

text \<open>
  The BACnet/IP frame decoder of \<^verbatim>\<open>src/common/CASExampleHelper.cpp\<close>
  (\<^verbatim>\<open>DecodeTagHeader\<close>, \<^verbatim>\<open>DecodeObjectAndProperty\<close>, \<^verbatim>\<open>DecodeBacnetFrame\<close>) and
  the test \<^verbatim>\<open>IsStackChosenBroadcast\<close> that the helper and the BACnet/SC router both have.
  Every access to the frame is a checked read; the lemmas show that no frame of any content makes
  the decoder read outside the buffer, and that it inverts the encoding of Clauses 6 and 20.
\<close>

section \<open>Tag headers\<close>

record tag_header =
  tagNumber :: u8
  contextSpecific :: bool
  isOpeningTag :: bool
  isClosingTag :: bool
  tagLength :: u32
  headerLength :: nat

text \<open>The extended length (LVT 5): the length and the position after it, or \<^verbatim>\<open>None\<close>
  inside for the truncated encoding.\<close>

definition DecodeExtendedLength :: "bytes \<Rightarrow> nat \<Rightarrow> nat \<Rightarrow> (u32 \<times> nat) option option" where
  "DecodeExtendedLength frame frameLength pos =
    (if pos \<ge> frameLength then Some None
     else do {
       lenByte \<leftarrow> rd frame pos;
       let pos = wrap32 (pos + 1);
       if lenByte < 254 then Some (Some (ucast lenByte, pos))
       else if lenByte = 254 then
         if wrap32 (pos + 2) > frameLength then Some None
         else do {
           b0 \<leftarrow> rd frame pos;
           b1 \<leftarrow> rd frame (wrap32 (pos + 1));
           Some (Some (push_bit 8 (ucast b0) OR ucast b1, wrap32 (pos + 2))) }
       else if wrap32 (pos + 4) > frameLength then Some None
       else do {
         b0 \<leftarrow> rd frame pos;
         b1 \<leftarrow> rd frame (wrap32 (pos + 1));
         b2 \<leftarrow> rd frame (wrap32 (pos + 2));
         b3 \<leftarrow> rd frame (wrap32 (pos + 3));
         Some (Some (be32 b0 b1 b2 b3, wrap32 (pos + 4))) } })"

text \<open>The tag number, extended when the initial octet has 15, and the position after it.\<close>

definition DecodeTagNumber :: "bytes \<Rightarrow> nat \<Rightarrow> nat \<Rightarrow> u8 \<Rightarrow> (u8 \<times> nat) option option" where
  "DecodeTagNumber frame frameLength pos tag0 =
    (if tag0 = 15 then
       if pos \<ge> frameLength then Some None
       else do { n \<leftarrow> rd frame pos; Some (Some (n, wrap32 (pos + 1))) }
     else Some (Some (tag0, pos)))"

text \<open>The length, value and type field, after the tag number.\<close>

definition DecodeTagLength ::
  "bytes \<Rightarrow> nat \<Rightarrow> nat \<Rightarrow> u8 \<Rightarrow> u8 \<Rightarrow> bool \<Rightarrow> nat \<Rightarrow> tag_header option option" where
  "DecodeTagLength frame frameLength offset lvt number context pos =
    (let header = (\<lambda>opening closing len pos.
           Some (Some \<lparr>tagNumber = number, contextSpecific = context, isOpeningTag = opening,
             isClosingTag = closing, tagLength = len, headerLength = sub32 pos offset\<rparr>)) in
     if context \<and> lvt = 6 then header True False 0 pos
     else if context \<and> lvt = 7 then header False True 0 pos
     else if lvt \<le> 4 then header False False (ucast lvt) pos
     else if lvt = 5 then do {
       extended \<leftarrow> DecodeExtendedLength frame frameLength pos;
       (case extended of
          None \<Rightarrow> Some None
        | Some (len, pos) \<Rightarrow> header False False len pos) }
     else Some None)"

text \<open>The inner option is the \<^verbatim>\<open>bool\<close> the function returns with its out parameter.\<close>

definition DecodeTagHeader :: "bytes \<Rightarrow> nat \<Rightarrow> nat \<Rightarrow> tag_header option option" where
  "DecodeTagHeader frame frameLength offset =
    (if offset \<ge> frameLength then Some None
     else do {
       b0 \<leftarrow> rd frame offset;
       numbered \<leftarrow> DecodeTagNumber frame frameLength (wrap32 (offset + 1)) (drop_bit 4 b0 AND 15);
       (case numbered of
          None \<Rightarrow> Some None
        | Some (number, pos) \<Rightarrow>
            DecodeTagLength frame frameLength offset (b0 AND 7) number (b0 AND 8 \<noteq> 0) pos) })"

section \<open>The decoded frame\<close>

text \<open>\<^verbatim>\<open>dadr\<close> and \<^verbatim>\<open>sadr\<close> are pointers into the frame: offsets, or \<^verbatim>\<open>None\<close> for
  the null pointer.\<close>

record decoded_frame =
  bacnetIp :: bool
  bvlcFunction :: u8
  hasNpdu :: bool
  npduVersion :: u8
  npduControl :: u8
  hasDest :: bool
  dnet :: u16
  dadr :: "nat option"
  dadrLength :: u8
  hasSrc :: bool
  snet :: u16
  sadr :: "nat option"
  sadrLength :: u8
  isNetworkMessage :: bool
  networkMessageType :: u8
  hasApdu :: bool
  pduType :: u8
  segmented :: bool
  hasInvokeId :: bool
  invokeId :: u8
  hasServiceChoice :: bool
  serviceChoice :: u8
  hasReason :: bool
  reason :: u8
  hasObjectProperty :: bool
  objectType :: u16
  objectInstance :: u32
  propertyId :: u32
  hasArrayIndex :: bool
  arrayIndex :: u32

definition DecodedFrame :: decoded_frame where
  "DecodedFrame =
    \<lparr>bacnetIp = False, bvlcFunction = 0, hasNpdu = False, npduVersion = 0, npduControl = 0,
     hasDest = False, dnet = 0, dadr = None, dadrLength = 0, hasSrc = False, snet = 0, sadr = None,
     sadrLength = 0, isNetworkMessage = False, networkMessageType = 0, hasApdu = False,
     pduType = 255, segmented = False, hasInvokeId = False, invokeId = 0,
     hasServiceChoice = False, serviceChoice = 0, hasReason = False, reason = 0,
     hasObjectProperty = False, objectType = 0, objectInstance = 0, propertyId = 0,
     hasArrayIndex = False, arrayIndex = 0\<rparr>"

section \<open>ReadProperty and WriteProperty parameters\<close>

text \<open>The loop that shifts \<^verbatim>\<open>n\<close> octets into a value, most significant first.\<close>

fun read_unsigned :: "bytes \<Rightarrow> nat \<Rightarrow> nat \<Rightarrow> u32 \<Rightarrow> u32 option" where
  "read_unsigned frame pos 0 v = Some v"
| "read_unsigned frame pos (Suc n) v = do {
     b \<leftarrow> rd frame pos;
     read_unsigned frame (wrap32 (pos + 1)) n (push_bit 8 v OR ucast b) }"

definition DecodeArrayIndex :: "bytes \<Rightarrow> nat \<Rightarrow> nat \<Rightarrow> decoded_frame \<Rightarrow> decoded_frame option" where
  "DecodeArrayIndex frame frameLength pos out = do {
     idx \<leftarrow> DecodeTagHeader frame frameLength pos;
     (case idx of
        None \<Rightarrow> Some out
      | Some t \<Rightarrow>
          if contextSpecific t \<and> tagNumber t = 2 \<and> tagLength t > 0 \<and> tagLength t \<le> 4 \<and>
             wrap32 (pos + headerLength t + unat (tagLength t)) \<le> frameLength
          then do {
            v \<leftarrow> read_unsigned frame (wrap32 (pos + headerLength t)) (unat (tagLength t)) 0;
            Some (out\<lparr>hasArrayIndex := True, arrayIndex := v\<rparr>) }
          else Some out) }"

definition DecodePropertyId :: "bytes \<Rightarrow> nat \<Rightarrow> nat \<Rightarrow> u32 \<Rightarrow> decoded_frame \<Rightarrow> decoded_frame option" where
  "DecodePropertyId frame frameLength pos objValue out = do {
     prop \<leftarrow> DecodeTagHeader frame frameLength pos;
     (case prop of
        None \<Rightarrow> Some out
      | Some t \<Rightarrow>
          if \<not> contextSpecific t \<or> tagNumber t \<noteq> 1 \<or> tagLength t = 0 \<or> tagLength t > 4 \<or>
             wrap32 (pos + headerLength t + unat (tagLength t)) > frameLength
          then Some out
          else do {
            let pos = wrap32 (pos + headerLength t);
            propValue \<leftarrow> read_unsigned frame pos (unat (tagLength t)) 0;
            DecodeArrayIndex frame frameLength (wrap32 (pos + unat (tagLength t)))
              (out\<lparr>hasObjectProperty := True,
                objectType := ucast (drop_bit 22 objValue AND 0x3FF),
                objectInstance := objValue AND 0x3FFFFF,
                propertyId := propValue\<rparr>) }) }"

definition DecodeObjectAndProperty ::
  "bytes \<Rightarrow> nat \<Rightarrow> nat \<Rightarrow> decoded_frame \<Rightarrow> decoded_frame option" where
  "DecodeObjectAndProperty frame frameLength offset out = do {
     obj \<leftarrow> DecodeTagHeader frame frameLength offset;
     (case obj of
        None \<Rightarrow> Some out
      | Some t \<Rightarrow>
          if \<not> contextSpecific t \<or> tagNumber t \<noteq> 0 \<or> tagLength t \<noteq> 4 \<or>
             wrap32 (offset + headerLength t + 4) > frameLength
          then Some out
          else do {
            let objValueOffset = wrap32 (offset + headerLength t);
            b0 \<leftarrow> rd frame objValueOffset;
            b1 \<leftarrow> rd frame (wrap32 (objValueOffset + 1));
            b2 \<leftarrow> rd frame (wrap32 (objValueOffset + 2));
            b3 \<leftarrow> rd frame (wrap32 (objValueOffset + 3));
            DecodePropertyId frame frameLength (wrap32 (objValueOffset + 4)) (be32 b0 b1 b2 b3) out }) }"

section \<open>BVLC, NPDU and APDU\<close>

text \<open>A step of the walk: \<^verbatim>\<open>Inl\<close> is the frame as an early \<^verbatim>\<open>return\<close> leaves
  it, \<^verbatim>\<open>Inr\<close> the offset to go on from.  \<^verbatim>\<open>None\<close> outside is a read out of
  bounds.\<close>

type_synonym walk = "(decoded_frame + nat \<times> decoded_frame) option"

fun walk_then :: "walk \<Rightarrow> (nat \<Rightarrow> decoded_frame \<Rightarrow> walk) \<Rightarrow> walk" where
  "walk_then None f = None"
| "walk_then (Some (Inl d)) f = Some (Inl d)"
| "walk_then (Some (Inr (offset, d))) f = f offset d"

definition DecodeBvlc :: "bytes option \<Rightarrow> nat \<Rightarrow> walk" where
  "DecodeBvlc memory frameLength =
    (case memory of
       None \<Rightarrow> Some (Inl DecodedFrame)
     | Some frame \<Rightarrow>
         if frameLength < 4 then Some (Inl DecodedFrame)
         else do {
           b0 \<leftarrow> rd frame 0;
           if b0 \<noteq> 0x81 then Some (Inl DecodedFrame)
           else do {
             b1 \<leftarrow> rd frame 1;
             let d = DecodedFrame\<lparr>bacnetIp := True, bvlcFunction := b1\<rparr>;
             if b1 = 0x0A \<or> b1 = 0x0B then Some (Inr (4, d))
             else if b1 = 0x04 then Some (Inr (10, d))
             else Some (Inl d) } })"

definition DecodeNpduControl :: "bytes \<Rightarrow> nat \<Rightarrow> nat \<Rightarrow> decoded_frame \<Rightarrow> walk" where
  "DecodeNpduControl frame frameLength offset d =
    (if wrap32 (offset + 2) > frameLength then Some (Inl d)
     else do {
       version \<leftarrow> rd frame offset;
       control \<leftarrow> rd frame (wrap32 (offset + 1));
       Some (Inr (wrap32 (offset + 2),
         d\<lparr>hasNpdu := True, npduVersion := version, npduControl := control,
           hasDest := control AND 0x20 \<noteq> 0, hasSrc := control AND 0x08 \<noteq> 0,
           isNetworkMessage := control AND 0x80 \<noteq> 0\<rparr>)) })"

definition DecodeDestination :: "bytes \<Rightarrow> nat \<Rightarrow> nat \<Rightarrow> decoded_frame \<Rightarrow> walk" where
  "DecodeDestination frame frameLength offset d =
    (if \<not> hasDest d then Some (Inr (offset, d))
     else if wrap32 (offset + 3) > frameLength then Some (Inl d)
     else do {
       b0 \<leftarrow> rd frame offset;
       b1 \<leftarrow> rd frame (wrap32 (offset + 1));
       dlen \<leftarrow> rd frame (wrap32 (offset + 2));
       let d = d\<lparr>dnet := be16 b0 b1\<rparr>;
       let offset = wrap32 (offset + 3);
       if wrap32 (offset + unat dlen) > frameLength then Some (Inl d)
       else Some (Inr (wrap32 (offset + unat dlen),
         d\<lparr>dadrLength := dlen, dadr := (if dlen > 0 then Some offset else None)\<rparr>)) })"

definition DecodeSource :: "bytes \<Rightarrow> nat \<Rightarrow> nat \<Rightarrow> decoded_frame \<Rightarrow> walk" where
  "DecodeSource frame frameLength offset d =
    (if \<not> hasSrc d then Some (Inr (offset, d))
     else if wrap32 (offset + 3) > frameLength then Some (Inl d)
     else do {
       b0 \<leftarrow> rd frame offset;
       b1 \<leftarrow> rd frame (wrap32 (offset + 1));
       slen \<leftarrow> rd frame (wrap32 (offset + 2));
       let d = d\<lparr>snet := be16 b0 b1\<rparr>;
       let offset = wrap32 (offset + 3);
       if wrap32 (offset + unat slen) > frameLength then Some (Inl d)
       else Some (Inr (wrap32 (offset + unat slen),
         d\<lparr>sadrLength := slen, sadr := (if slen > 0 then Some offset else None)\<rparr>)) })"

definition DecodeHopCount :: "bytes \<Rightarrow> nat \<Rightarrow> nat \<Rightarrow> decoded_frame \<Rightarrow> walk" where
  "DecodeHopCount frame frameLength offset d =
    (let next = (\<lambda>offset. if offset \<ge> frameLength then Some (Inl d) else Some (Inr (offset, d))) in
     if hasDest d then
       if offset \<ge> frameLength then Some (Inl d) else next (wrap32 (offset + 1))
     else next offset)"

text \<open>The invoke id and the octet after it, which the SimpleACK, Error, Reject and Abort PDUs
  share.\<close>

definition DecodeTwoOctets ::
  "bytes \<Rightarrow> nat \<Rightarrow> nat \<Rightarrow> (u8 \<Rightarrow> decoded_frame \<Rightarrow> decoded_frame) \<Rightarrow> decoded_frame \<Rightarrow> decoded_frame option" where
  "DecodeTwoOctets frame frameLength offset put d =
    (if wrap32 (offset + 2) \<ge> frameLength then Some d
     else do {
       b1 \<leftarrow> rd frame (wrap32 (offset + 1));
       b2 \<leftarrow> rd frame (wrap32 (offset + 2));
       Some (put b2 (d\<lparr>hasInvokeId := True, invokeId := b1\<rparr>)) })"

definition put_service :: "u8 \<Rightarrow> decoded_frame \<Rightarrow> decoded_frame" where
  "put_service b d = d\<lparr>hasServiceChoice := True, serviceChoice := b\<rparr>"

definition put_reason :: "u8 \<Rightarrow> decoded_frame \<Rightarrow> decoded_frame" where
  "put_reason b d = d\<lparr>hasReason := True, reason := b\<rparr>"

definition DecodeConfirmedRequest ::
  "bytes \<Rightarrow> nat \<Rightarrow> nat \<Rightarrow> u8 \<Rightarrow> decoded_frame \<Rightarrow> decoded_frame option" where
  "DecodeConfirmedRequest frame frameLength offset b0 d =
    (let d = d\<lparr>segmented := b0 AND 0x08 \<noteq> 0\<rparr> in
     if wrap32 (offset + 2) \<ge> frameLength then Some d
     else do {
       invoke \<leftarrow> rd frame (wrap32 (offset + 2));
       let d = d\<lparr>hasInvokeId := True, invokeId := invoke\<rparr>;
       let serviceOffset = wrap32 (offset + (if segmented d then 5 else 3));
       if serviceOffset \<ge> frameLength then Some d
       else do {
         service \<leftarrow> rd frame serviceOffset;
         let d = put_service service d;
         if service = 12 \<or> service = 15
         then DecodeObjectAndProperty frame frameLength (wrap32 (serviceOffset + 1)) d
         else Some d } })"

definition DecodeComplexAck ::
  "bytes \<Rightarrow> nat \<Rightarrow> nat \<Rightarrow> u8 \<Rightarrow> decoded_frame \<Rightarrow> decoded_frame option" where
  "DecodeComplexAck frame frameLength offset b0 d =
    (let d = d\<lparr>segmented := b0 AND 0x08 \<noteq> 0\<rparr> in
     if wrap32 (offset + 1) \<ge> frameLength then Some d
     else do {
       invoke \<leftarrow> rd frame (wrap32 (offset + 1));
       let d = d\<lparr>hasInvokeId := True, invokeId := invoke\<rparr>;
       let serviceOffset = wrap32 (offset + (if segmented d then 4 else 2));
       if serviceOffset \<ge> frameLength then Some d
       else do {
         service \<leftarrow> rd frame serviceOffset;
         let d = put_service service d;
         if service = 12
         then DecodeObjectAndProperty frame frameLength (wrap32 (serviceOffset + 1)) d
         else Some d } })"

definition DecodeApdu :: "bytes \<Rightarrow> nat \<Rightarrow> nat \<Rightarrow> decoded_frame \<Rightarrow> decoded_frame option" where
  "DecodeApdu frame frameLength offset d = do {
     b0 \<leftarrow> rd frame offset;
     if isNetworkMessage d then Some (d\<lparr>networkMessageType := b0\<rparr>)
     else do {
       let pdu = drop_bit 4 b0 AND 15;
       let d = d\<lparr>hasApdu := True, pduType := pdu\<rparr>;
       if pdu = 0 then DecodeConfirmedRequest frame frameLength offset b0 d
       else if pdu = 1 then
         if wrap32 (offset + 1) \<ge> frameLength then Some d
         else do { b1 \<leftarrow> rd frame (wrap32 (offset + 1)); Some (put_service b1 d) }
       else if pdu = 2 then DecodeTwoOctets frame frameLength offset put_service d
       else if pdu = 3 then DecodeComplexAck frame frameLength offset b0 d
       else if pdu = 5 then DecodeTwoOctets frame frameLength offset put_service d
       else if pdu = 6 then DecodeTwoOctets frame frameLength offset put_reason d
       else if pdu = 7 then DecodeTwoOctets frame frameLength offset put_reason d
       else Some d } }"

text \<open>\<^verbatim>\<open>memory\<close> is the argument \<^verbatim>\<open>frame\<close>, \<^verbatim>\<open>None\<close> for the null
  pointer.\<close>

definition DecodeNpdu :: "bytes \<Rightarrow> nat \<Rightarrow> nat \<Rightarrow> decoded_frame \<Rightarrow> walk" where
  "DecodeNpdu frame frameLength offset d =
    walk_then (walk_then (walk_then (DecodeNpduControl frame frameLength offset d)
      (DecodeDestination frame frameLength)) (DecodeSource frame frameLength))
      (DecodeHopCount frame frameLength)"

definition DecodeBacnetFrame :: "bytes option \<Rightarrow> nat \<Rightarrow> decoded_frame option" where
  "DecodeBacnetFrame memory frameLength = do {
     walked \<leftarrow> walk_then (DecodeBvlc memory frameLength)
       (\<lambda>offset d. DecodeNpdu (case memory of Some frame \<Rightarrow> frame | None \<Rightarrow> []) frameLength offset d);
     (case walked of
        Inl d \<Rightarrow> Some d
      | Inr (offset, d) \<Rightarrow>
          DecodeApdu (case memory of Some frame \<Rightarrow> frame | None \<Rightarrow> []) frameLength offset d) }"

section \<open>Answers the stack addresses itself\<close>

text \<open>A specifier is \<^verbatim>\<open>i += 3 + message[i + 2]\<close> on a \<^verbatim>\<open>uint16_t\<close>; the inner
  \<^verbatim>\<open>None\<close> is the early \<^verbatim>\<open>return false\<close>.\<close>

definition SkipSpecifier :: "bytes \<Rightarrow> nat \<Rightarrow> bool \<Rightarrow> nat \<Rightarrow> nat option option" where
  "SkipSpecifier message len present i =
    (if \<not> present then Some (Some i)
     else if i + 3 > len then Some None
     else do { n \<leftarrow> rd message (i + 2); Some (Some (wrap16 (i + (3 + unat n)))) })"

definition IsStackChosenBroadcast :: "bytes \<Rightarrow> nat \<Rightarrow> bool option" where
  "IsStackChosenBroadcast message len =
    (if len < 6 then Some False
     else do {
       b0 \<leftarrow> rd message 0;
       if b0 \<noteq> 0x81 then Some False
       else do {
         b1 \<leftarrow> rd message 1;
         if b1 \<noteq> 0x0A \<and> b1 \<noteq> 0x0B then Some False
         else do {
           version \<leftarrow> rd message 4;
           if version \<noteq> 1 then Some False
           else do {
             control \<leftarrow> rd message 5;
             dest \<leftarrow> SkipSpecifier message len (control AND 0x20 \<noteq> 0) 6;
             (case dest of
                None \<Rightarrow> Some False
              | Some i \<Rightarrow> do {
                  src \<leftarrow> SkipSpecifier message len (control AND 0x08 \<noteq> 0) i;
                  (case src of
                     None \<Rightarrow> Some False
                   | Some i \<Rightarrow>
                       let i = (if control AND 0x20 \<noteq> 0 then wrap16 (i + 1) else i) in
                       if control AND 0x80 \<noteq> 0 then Some True
                       else if i + 2 > len then Some False
                       else do {
                         b \<leftarrow> rd message i;
                         if drop_bit 4 b \<noteq> 1 then Some False
                         else do { c \<leftarrow> rd message (i + 1); Some (c = 0 \<or> c = 1) } }) }) } } } })"

section \<open>No read outside the frame\<close>

text \<open>The frames the callers pass: the buffer holds \<open>frameLength\<close> octets and the length is a
  \<^verbatim>\<open>uint16_t\<close>.\<close>

definition fits :: "bytes \<Rightarrow> nat \<Rightarrow> bool" where
  "fits frame n \<longleftrightarrow> n \<le> length frame \<and> n \<le> 65535"

named_theorems frame_safe

lemma DecodeExtendedLength_safe [frame_safe]:
  "fits frame n \<Longrightarrow> safe (DecodeExtendedLength frame n pos)"
  by (auto simp: fits_def DecodeExtendedLength_def safe_bind Let_def)

lemma DecodeExtendedLength_pos:
  "DecodeExtendedLength frame n pos = Some (Some (len, pos')) \<Longrightarrow> fits frame n \<Longrightarrow>
    pos < pos' \<and> pos' \<le> pos + 5 \<and> pos' \<le> n"
  by (auto simp: fits_def DecodeExtendedLength_def Let_def Option.bind_eq_Some_conv
      rd_eq_Some split: if_splits)

lemma DecodeTagHeader_safe [frame_safe]:
  "fits frame n \<Longrightarrow> safe (DecodeTagHeader frame n offset)"
  by (auto simp: fits_def DecodeTagHeader_def DecodeTagNumber_def DecodeTagLength_def safe_bind Let_def  split: option.split intro: frame_safe)

lemma DecodeTagHeader_length:
  assumes "DecodeTagHeader frame n offset = Some (Some t)" "fits frame n"
  shows "offset + headerLength t \<le> n \<and> 0 < headerLength t \<and> headerLength t \<le> 7"
  using assms
  by (auto simp: fits_def DecodeTagHeader_def DecodeTagNumber_def DecodeTagLength_def Let_def Option.bind_eq_Some_conv rd_eq_Some 
      split: if_splits option.splits prod.splits dest!: DecodeExtendedLength_pos)
lemma read_unsigned_safe [frame_safe]:
  "pos + k \<le> length frame \<Longrightarrow> pos + k \<le> 65535 \<Longrightarrow> safe (read_unsigned frame pos k v)"
  by (induction k arbitrary: pos v) (auto simp: safe_bind)

lemma unat_le_4: "len \<le> 4 \<Longrightarrow> unat (len :: u32) \<le> 4"
  by (simp add: word_le_nat_alt)

lemma DecodeArrayIndex_safe [frame_safe]:
  assumes "fits frame n" "pos \<le> n" shows "safe (DecodeArrayIndex frame n pos out)"
proof -
  have "safe (read_unsigned frame (wrap32 (pos + headerLength t)) (unat (tagLength t)) 0)"
    if "DecodeTagHeader frame n pos = Some (Some t)" "tagLength t \<le> 4"
      "wrap32 (pos + headerLength t + unat (tagLength t)) \<le> n" for t
    using that assms DecodeTagHeader_length [OF that(1) assms(1)] unat_le_4 [OF that(2)]
    by (auto simp: fits_def intro!: read_unsigned_safe)
  then show ?thesis
    using assms by (auto simp: DecodeArrayIndex_def safe_bind frame_safe split: option.split)
qed

lemma DecodePropertyId_safe [frame_safe]:
  assumes "fits frame n" "pos \<le> n" shows "safe (DecodePropertyId frame n pos objValue out)"
proof -
  have "safe (read_unsigned frame (wrap32 (pos + headerLength t)) (unat (tagLength t)) 0)
     \<and> wrap32 (wrap32 (pos + headerLength t) + unat (tagLength t)) \<le> n"
    if "DecodeTagHeader frame n pos = Some (Some t)" "tagLength t \<le> 4"
      "wrap32 (pos + headerLength t + unat (tagLength t)) \<le> n" for t
    using that assms DecodeTagHeader_length [OF that(1) assms(1)] unat_le_4 [OF that(2)]
    by (auto simp: fits_def intro!: read_unsigned_safe)
  then show ?thesis
    using assms by (auto simp: DecodePropertyId_def safe_bind frame_safe Let_def not_less split: option.split)
qed

lemma DecodeObjectAndProperty_safe [frame_safe]:
  assumes "fits frame n" "offset \<le> n" shows "safe (DecodeObjectAndProperty frame n offset out)"
proof -
  have "offset + headerLength t + 4 \<le> n"
    if "DecodeTagHeader frame n offset = Some (Some t)"
      "wrap32 (offset + headerLength t + 4) \<le> n" for t
    using that assms DecodeTagHeader_length [OF that(1) assms(1)] by (auto simp: fits_def)
  then show ?thesis
    using assms by (fastforce simp: DecodeObjectAndProperty_def safe_bind frame_safe Let_def fits_def not_less split: option.split)
qed

definition walk_ok :: "nat \<Rightarrow> walk \<Rightarrow> bool" where
  "walk_ok n w \<longleftrightarrow> safe w \<and> (\<forall>offset d. w = Some (Inr (offset, d)) \<longrightarrow> offset < n)"

definition walk_near :: "nat \<Rightarrow> walk \<Rightarrow> bool" where
  "walk_near n w \<longleftrightarrow> safe w \<and> (\<forall>offset d. w = Some (Inr (offset, d)) \<longrightarrow> offset \<le> n)"

lemma walk_near_then:
  "walk_near n w \<Longrightarrow> (\<And>offset d. offset \<le> n \<Longrightarrow> walk_near n (f offset d)) \<Longrightarrow> walk_near n (walk_then w f)"
  by (induction w f rule: walk_then.induct) (auto simp: walk_near_def)

lemma walk_ok_then:
  "walk_near n w \<Longrightarrow> (\<And>offset d. offset \<le> n \<Longrightarrow> walk_ok n (f offset d)) \<Longrightarrow> walk_ok n (walk_then w f)"
  by (induction w f rule: walk_then.induct) (auto simp: walk_near_def walk_ok_def)

lemma DecodeNpduControl_near:
  "fits frame n \<Longrightarrow> offset \<le> 10 \<Longrightarrow> walk_near n (DecodeNpduControl frame n offset d)"
  by (auto simp: walk_near_def DecodeNpduControl_def fits_def safe_bind Let_def Option.bind_eq_Some_conv split: if_splits)

lemma DecodeDestination_near:
  "fits frame n \<Longrightarrow> offset \<le> n \<Longrightarrow> walk_near n (DecodeDestination frame n offset d)"
  by (auto simp: walk_near_def DecodeDestination_def fits_def safe_bind Let_def Option.bind_eq_Some_conv split: if_splits)

lemma DecodeSource_near:
  "fits frame n \<Longrightarrow> offset \<le> n \<Longrightarrow> walk_near n (DecodeSource frame n offset d)"
  by (auto simp: walk_near_def DecodeSource_def fits_def safe_bind Let_def Option.bind_eq_Some_conv split: if_splits)

lemma DecodeHopCount_ok:
  "fits frame n \<Longrightarrow> offset \<le> n \<Longrightarrow> walk_ok n (DecodeHopCount frame n offset d)"
  by (auto simp: walk_ok_def DecodeHopCount_def fits_def Let_def split: if_splits)

lemma DecodeNpdu_ok:
  "fits frame n \<Longrightarrow> offset \<le> 10 \<Longrightarrow> walk_ok n (DecodeNpdu frame n offset d)"
  unfolding DecodeNpdu_def
  by (intro walk_ok_then walk_near_then DecodeNpduControl_near DecodeDestination_near DecodeSource_near DecodeHopCount_ok)

lemma DecodeTwoOctets_safe [frame_safe]:
  "fits frame n \<Longrightarrow> offset < n \<Longrightarrow> safe (DecodeTwoOctets frame n offset put d)"
  by (auto simp: DecodeTwoOctets_def safe_bind fits_def)

lemma DecodeConfirmedRequest_safe [frame_safe]:
  "fits frame n \<Longrightarrow> offset < n \<Longrightarrow> safe (DecodeConfirmedRequest frame n offset b0 d)"
  by (auto simp: DecodeConfirmedRequest_def safe_bind Let_def fits_def intro!: frame_safe)

lemma DecodeComplexAck_safe [frame_safe]:
  "fits frame n \<Longrightarrow> offset < n \<Longrightarrow> safe (DecodeComplexAck frame n offset b0 d)"
  by (auto simp: DecodeComplexAck_def safe_bind Let_def fits_def intro!: frame_safe)

lemma DecodeApdu_safe [frame_safe]:
  "fits frame n \<Longrightarrow> offset < n \<Longrightarrow> safe (DecodeApdu frame n offset d)"
  by (auto simp: DecodeApdu_def safe_bind Let_def frame_safe) (auto simp: fits_def)

lemma DecodeBvlc_safe: "fits frame n \<Longrightarrow> safe (DecodeBvlc (Some frame) n)"
  by (auto simp: DecodeBvlc_def fits_def Let_def safe_bind)

lemma DecodeBvlc_offset: "DecodeBvlc (Some frame) n = Some (Inr (offset, d)) \<Longrightarrow> offset \<le> 10"
  by (auto simp: DecodeBvlc_def Let_def Option.bind_eq_Some_conv split: if_splits)

lemma DecodeBacnetFrame_safe:
  assumes "fits frame n" shows "safe (DecodeBacnetFrame (Some frame) n)"
proof (cases "DecodeBvlc (Some frame) n")
  case None
  then show ?thesis using DecodeBvlc_safe [OF assms] by simp
next
  case (Some w)
  show ?thesis
  proof (cases w)
    case (Inl d)
    then show ?thesis using Some by (simp add: DecodeBacnetFrame_def)
  next
    case (Inr od)
    obtain offset d where od: "od = (offset, d)" by fastforce
    have "walk_ok n (DecodeNpdu frame n offset d)"
      using Some Inr od by (intro DecodeNpdu_ok assms DecodeBvlc_offset) simp
    then show ?thesis
      using Some Inr od assms
      by (cases "DecodeNpdu frame n offset d")
        (auto simp add: DecodeBacnetFrame_def walk_ok_def DecodeApdu_safe split: sum.split)
  qed
qed

lemma SkipSpecifier_safe: "n \<le> length message \<Longrightarrow> safe (SkipSpecifier message n present i)"
  by (simp add: SkipSpecifier_def safe_bind)

lemma IsStackChosenBroadcast_safe:
  assumes "fits message n" shows "safe (IsStackChosenBroadcast message n)"
proof -
  have n: "n \<le> length message" using assms by (simp add: fits_def)
  then have "message \<noteq> []" if "\<not> n < 6" using that by auto
  then show ?thesis
    unfolding IsStackChosenBroadcast_def Let_def
    using n SkipSpecifier_safe [OF n] by (simp add: safe_bind split: option.split)
qed

section \<open>The encoding the decoder inverts\<close>

definition first_octet :: "u8 \<Rightarrow> bool \<Rightarrow> u8 \<Rightarrow> u8" where
  "first_octet t context lvt = push_bit 4 t OR (if context then 8 else 0) OR lvt"

definition context_bit :: "bool \<Rightarrow> u8" where "context_bit c = (if c then 8 else 0)"

lemma context_bit: "bit (context_bit c) n \<longleftrightarrow> c \<and> n = 3"
  using bit8 [of n] by (simp add: context_bit_def)

lemma first_octet_bits: "first_octet t c l = push_bit 4 t OR context_bit c OR l"
  by (simp add: first_octet_def context_bit_def)

lemma first_octet_number: "unat t < 16 \<Longrightarrow> unat l < 8 \<Longrightarrow> drop_bit 4 (first_octet t c l) AND 15 = t"
  unfolding and15 first_octet_bits using small_bits [of t 4] small_bits [of l 3]
  by (intro bit_eqI) (fastforce simp: bit_simps context_bit)

lemma first_octet_lvt: "unat t < 16 \<Longrightarrow> unat l < 8 \<Longrightarrow> first_octet t c l AND 7 = l"
  unfolding and7 first_octet_bits using small_bits [of t 4] small_bits [of l 3]
  by (intro bit_eqI) (fastforce simp: bit_simps context_bit)

lemma first_octet_context: "unat l < 8 \<Longrightarrow> first_octet t c l AND 8 = 0 \<longleftrightarrow> \<not> c"
proof -
  assume l: "unat l < 8"
  have 8: "8 = context_bit True" by (simp add: context_bit_def)
  have "bit (first_octet t c l AND 8) n \<longleftrightarrow> c \<and> n = 3" for n
    unfolding 8 first_octet_bits using small_bits [of l 3] l by (fastforce simp: bit_simps context_bit)
  moreover have "w = 0 \<longleftrightarrow> (\<forall>n. \<not> bit w n)" for w :: u8
    by (auto intro: bit_eqI)
  ultimately show ?thesis by auto
qed

text \<open>A primitive tag as Clause 20.2.1 encodes it: an extended number from 15 on, and the shortest
  form of the length.\<close>

definition encode_number :: "u8 \<Rightarrow> bytes" where
  "encode_number number = (if unat number < 15 then [] else [number])"

definition encode_length :: "u32 \<Rightarrow> bytes" where
  "encode_length len =
    (if unat len \<le> 4 then []
     else if unat len < 254 then [byte_of 0 len]
     else if unat len < 65536 then [254, byte_of 1 len, byte_of 0 len]
     else [255, byte_of 3 len, byte_of 2 len, byte_of 1 len, byte_of 0 len])"

definition encode_tag :: "u8 \<Rightarrow> bool \<Rightarrow> u32 \<Rightarrow> bytes" where
  "encode_tag number context len =
    first_octet (if unat number < 15 then number else 15) context
      (if unat len \<le> 4 then ucast len else 5) # encode_number number @ encode_length len"

lemma byte_0_small: "unat (len :: u32) < 256 \<Longrightarrow> ucast (byte_of 0 len) = len"
  using take_bit_small [of len 8]
  by (intro bit_eqI) (auto simp: byte_of_def bit_simps dest: small_bits [of len 8, simplified])

lemma be16_small: "unat (len :: u32) < 65536 \<Longrightarrow>
    push_bit 8 (ucast (byte_of 1 len)) OR ucast (byte_of 0 len) = len"
  by (intro bit_eqI) (auto simp: byte_of_def bit_simps dest: small_bits [of len 16, simplified])

lemma unat_byte_0_small: "unat (len :: u32) < 256 \<Longrightarrow> unat (byte_of 0 len) = unat len"
  by (simp add: byte_of_def unsigned_ucast_eq take_bit_nat_eq_self)

lemma DecodeExtendedLength_encode:
  assumes "4 < unat len" "n = length (pre @ encode_length len @ rest)" "n \<le> 65535"
  shows "DecodeExtendedLength (pre @ encode_length len @ rest) n (length pre) =
    Some (Some (len, length pre + length (encode_length len)))"
proof -
  consider "unat len < 254" | "254 \<le> unat len" "unat len < 65536" | "65536 \<le> unat len" by linarith
  then show ?thesis
  proof cases
    case 1
    then show ?thesis using assms
      by (simp add: DecodeExtendedLength_def encode_length_def byte_0_small word_less_nat_alt unat_byte_0_small)
  next
    case 2
    then show ?thesis using assms
      by (simp add: DecodeExtendedLength_def encode_length_def rd_def nth_append be16_small [simplified])
  next
    case 3
    then show ?thesis using assms
      by (simp add: DecodeExtendedLength_def encode_length_def rd_def nth_append)
  qed
qed

lemma ucast_small_tag: "unat len \<le> 4 \<Longrightarrow> unat (ucast (len :: u32) :: u8) = unat len"
  by (simp add: unsigned_ucast_eq unsigned_take_bit_eq take_bit_nat_eq_self)

lemma ucast_ucast_small: "unat len \<le> 4 \<Longrightarrow> ucast (ucast (len :: u32) :: u8) = len"
  by (rule word_unat_eq_iff [THEN iffD2]) (simp add: unsigned_ucast_eq unsigned_take_bit_eq take_bit_nat_eq_self)

lemma DecodeTagHeader_encode:
  assumes n: "n = length (pre @ encode_tag number context len @ rest)" "n \<le> 65535"
  shows "DecodeTagHeader (pre @ encode_tag number context len @ rest) n (length pre) =
    Some (Some \<lparr>tagNumber = number, contextSpecific = context, isOpeningTag = False,
      isClosingTag = False, tagLength = len,
      headerLength = length (encode_tag number context len)\<rparr>)"
proof -
  define t where "t = (if unat number < 15 then number else 15)"
  define l where "l = (if unat len \<le> 4 then ucast len else 5 :: u8)"
  have t: "unat t < 16" and l: "unat l < 8"
    by (auto simp: t_def l_def ucast_small_tag)
  have t15: "t = 15 \<longleftrightarrow> \<not> unat number < 15" by (auto simp: t_def)
  have enc: "encode_tag number context len =
      first_octet t context l # encode_number number @ encode_length len"
    by (simp add: encode_tag_def t_def l_def)
  have l_cases: "unat len \<le> 4 \<and> l \<le> 4 \<and> l \<noteq> 6 \<and> l \<noteq> 7 \<and> ucast l = len \<and> encode_length len = []
      \<or> 4 < unat len \<and> l = 5"
    by (auto simp: l_def ucast_ucast_small ucast_small_tag word_le_nat_alt encode_length_def dest: arg_cong [where f = unat])
  define pre' where "pre' = pre @ first_octet t context l # encode_number number"
  have ext: "DecodeExtendedLength (pre' @ encode_length len @ rest) n (length pre') =
      Some (Some (len, length pre' + length (encode_length len)))" if "4 < unat len"
    using n by (intro DecodeExtendedLength_encode that) (simp_all add: pre'_def enc)
  have frame: "pre @ encode_tag number context len @ rest = pre' @ encode_length len @ rest"
    by (simp add: pre'_def enc)
  have pos: "length pre < n" "length pre' \<le> n" "length pre' \<le> 65535"
    using n by (simp_all add: pre'_def enc)
  have b0: "rd (pre @ encode_tag number context len @ rest) (length pre) = Some (first_octet t context l)"
    by (simp add: enc)
  have number: "DecodeTagNumber (pre @ encode_tag number context len @ rest) n (length pre + 1) t =
      Some (Some (number, length pre'))"
    using pos t15 n
    by (cases "unat number < 15")
      (simp_all add: DecodeTagNumber_def pre'_def enc encode_number_def rd_def nth_append t_def)
  have "length pre' + length (encode_length len) - length pre =
      length (encode_tag number context len)"
    by (simp add: pre'_def enc)
  then have len: "DecodeTagLength (pre @ encode_tag number context len @ rest) n (length pre) l number context
      (length pre') = Some (Some \<lparr>tagNumber = number, contextSpecific = context, isOpeningTag = False,
      isClosingTag = False, tagLength = len,
      headerLength = length (encode_tag number context len)\<rparr>)"
    using l_cases pos ext n by (auto simp: DecodeTagLength_def frame pre'_def)
  show ?thesis
    using pos n number len
    by (simp add: DecodeTagHeader_def b0 first_octet_number [OF t l] first_octet_lvt [OF t l]
        first_octet_context [OF l])
qed

text \<open>An NPDU as Clauses 6.2 and J.2 encode it.\<close>

type_synonym route = "(u16 \<times> bytes) option"

fun encode_route :: "route \<Rightarrow> bytes" where
  "encode_route None = []"
| "encode_route (Some (net, adr)) = [byte_of 1 net, byte_of 0 net, word_of_nat (length adr)] @ adr"

fun route_ok :: "route \<Rightarrow> bool" where
  "route_ok None \<longleftrightarrow> True"
| "route_ok (Some (net, adr)) \<longleftrightarrow> length adr < 256"

fun route_net :: "route \<Rightarrow> u16" where
  "route_net None = 0" | "route_net (Some (net, adr)) = net"

fun route_length :: "route \<Rightarrow> u8" where
  "route_length None = 0" | "route_length (Some (net, adr)) = word_of_nat (length adr)"

fun route_pointer :: "nat \<Rightarrow> route \<Rightarrow> nat option" where
  "route_pointer pos None = None"
| "route_pointer pos (Some (net, adr)) = (if adr = [] then None else Some (pos + 3))"

definition encode_hop :: "route \<Rightarrow> u8 \<Rightarrow> bytes" where
  "encode_hop dest hop = (if dest = None then [] else [hop])"

definition encode_npdu :: "u8 \<Rightarrow> route \<Rightarrow> route \<Rightarrow> u8 \<Rightarrow> bytes" where
  "encode_npdu control dest src hop =
    [1, control] @ encode_route dest @ encode_route src @ encode_hop dest hop"

definition encode_bvlc :: "u8 \<Rightarrow> u16 \<Rightarrow> bytes \<Rightarrow> bytes" where
  "encode_bvlc bvlc len origin =
    [0x81, bvlc, byte_of 1 len, byte_of 0 len] @ (if bvlc = 4 then origin else [])"

definition control_ok :: "u8 \<Rightarrow> route \<Rightarrow> route \<Rightarrow> bool" where
  "control_ok control dest src \<longleftrightarrow>
    (control AND 0x20 \<noteq> 0) = (dest \<noteq> None) \<and> (control AND 0x08 \<noteq> 0) = (src \<noteq> None)"

lemma unat_length: "length (adr :: bytes) < 256 \<Longrightarrow> unat (word_of_nat (length adr) :: u8) = length adr"
  by (simp add: unsigned_of_nat take_bit_nat_eq_self)

lemma length_word_pos: "length (adr :: bytes) < 256 \<Longrightarrow> (0 < (word_of_nat (length adr) :: u8)) = (adr \<noteq> [])"
  by (simp add: word_less_nat_alt unat_length)

lemma DecodeDestination_encode:
  assumes "n = length (pre @ encode_route dest @ rest)" "n \<le> 65535" "route_ok dest"
    "hasDest d = (dest \<noteq> None)" "dnet d = 0" "dadrLength d = 0" "dadr d = None"
  shows "DecodeDestination (pre @ encode_route dest @ rest) n (length pre) d =
    Some (Inr (length pre + length (encode_route dest),
      d\<lparr>dnet := route_net dest, dadrLength := route_length dest,
        dadr := route_pointer (length pre) dest\<rparr>))"
  using assms
proof (cases dest)
  case None
  then show ?thesis using assms by (simp add: DecodeDestination_def)
next
  case (Some r)
  obtain net adr where r: "r = (net, adr)" by fastforce
  have len: "length adr < 256" using assms(3) Some r by simp
  show ?thesis
    using assms Some r by (simp add: DecodeDestination_def unat_length [OF len] length_word_pos [OF len] Let_def)
qed

lemma DecodeSource_encode:
  assumes "n = length (pre @ encode_route src @ rest)" "n \<le> 65535" "route_ok src"
    "hasSrc d = (src \<noteq> None)" "snet d = 0" "sadrLength d = 0" "sadr d = None"
  shows "DecodeSource (pre @ encode_route src @ rest) n (length pre) d =
    Some (Inr (length pre + length (encode_route src),
      d\<lparr>snet := route_net src, sadrLength := route_length src,
        sadr := route_pointer (length pre) src\<rparr>))"
  using assms
proof (cases src)
  case None
  then show ?thesis using assms by (simp add: DecodeSource_def)
next
  case (Some r)
  obtain net adr where r: "r = (net, adr)" by fastforce
  have len: "length adr < 256" using assms(3) Some r by simp
  show ?thesis
    using assms Some r by (simp add: DecodeSource_def unat_length [OF len] length_word_pos [OF len] Let_def)
qed

lemma DecodeHopCount_encode:
  assumes "n = length (pre @ encode_hop dest hop @ rest)" "n \<le> 65535" "rest \<noteq> []"
    "hasDest d = (dest \<noteq> None)"
  shows "DecodeHopCount (pre @ encode_hop dest hop @ rest) n (length pre) d =
    Some (Inr (length pre + length (encode_hop dest hop), d))"
  using assms by (auto simp: DecodeHopCount_def encode_hop_def)

lemma DecodeNpduControl_encode:
  assumes "n = length (pre @ [1, control] @ rest)" "n \<le> 65535" "control_ok control dest src"
  shows "DecodeNpduControl (pre @ [1, control] @ rest) n (length pre) d =
    Some (Inr (length pre + 2,
      d\<lparr>hasNpdu := True, npduVersion := 1, npduControl := control,
        hasDest := (dest \<noteq> None), hasSrc := (src \<noteq> None),
        isNetworkMessage := control AND 0x80 \<noteq> 0\<rparr>))"
  using assms by (auto simp: DecodeNpduControl_def control_ok_def rd_def nth_append)

definition npdu_fields :: "nat \<Rightarrow> u8 \<Rightarrow> route \<Rightarrow> route \<Rightarrow> decoded_frame \<Rightarrow> decoded_frame" where
  "npdu_fields pos control dest src d =
    d\<lparr>hasNpdu := True, npduVersion := 1, npduControl := control,
      hasDest := (dest \<noteq> None), hasSrc := (src \<noteq> None),
      isNetworkMessage := control AND 0x80 \<noteq> 0,
      dnet := route_net dest, dadrLength := route_length dest,
      dadr := route_pointer (pos + 2) dest,
      snet := route_net src, sadrLength := route_length src,
      sadr := route_pointer (pos + 2 + length (encode_route dest)) src\<rparr>"

lemma DecodeNpdu_encode:
  assumes n: "n = length (pre @ encode_npdu control dest src hop @ rest)" "n \<le> 65535" "rest \<noteq> []"
    and ok: "route_ok dest" "route_ok src" "control_ok control dest src"
    and d: "dnet d = 0" "dadrLength d = 0" "dadr d = None" "snet d = 0" "sadrLength d = 0" "sadr d = None"
  shows "DecodeNpdu (pre @ encode_npdu control dest src hop @ rest) n (length pre) d =
    Some (Inr (length pre + length (encode_npdu control dest src hop),
      npdu_fields (length pre) control dest src d))"
proof -
  let ?frame = "pre @ encode_npdu control dest src hop @ rest"
  let ?d1 = "d\<lparr>hasNpdu := True, npduVersion := 1, npduControl := control,
        hasDest := (dest \<noteq> None), hasSrc := (src \<noteq> None),
        isNetworkMessage := control AND 0x80 \<noteq> 0\<rparr>"
  let ?d2 = "?d1\<lparr>dnet := route_net dest, dadrLength := route_length dest,
        dadr := route_pointer (length pre + 2) dest\<rparr>"
  let ?p2 = "pre @ [1, control]"
  let ?p3 = "?p2 @ encode_route dest"
  let ?p4 = "?p3 @ encode_route src"
  have 1: "DecodeNpduControl ?frame n (length pre) d = Some (Inr (length ?p2, ?d1))"
    using DecodeNpduControl_encode [of n pre control
        "encode_route dest @ encode_route src @ encode_hop dest hop @ rest" dest src d] n ok(3)
    by (simp add: encode_npdu_def)
  have 2: "DecodeDestination ?frame n (length ?p2) ?d1 = Some (Inr (length ?p3, ?d2))"
    using DecodeDestination_encode [of n ?p2 dest
        "encode_route src @ encode_hop dest hop @ rest" ?d1] n ok(1) d
    by (simp add: encode_npdu_def)
  have 3: "DecodeSource ?frame n (length ?p3) ?d2 =
      Some (Inr (length ?p4, npdu_fields (length pre) control dest src d))"
    using DecodeSource_encode [of n ?p3 src "encode_hop dest hop @ rest" ?d2] n ok(2) d
    by (simp add: encode_npdu_def npdu_fields_def)
  have 4: "DecodeHopCount ?frame n (length ?p4) (npdu_fields (length pre) control dest src d) =
     Some (Inr (length pre + length (encode_npdu control dest src hop), npdu_fields (length pre) control dest src d))"
    using DecodeHopCount_encode [of n ?p4 dest hop rest "npdu_fields (length pre) control dest src d"] n
    by (simp add: encode_npdu_def npdu_fields_def)
  show ?thesis
    unfolding DecodeNpdu_def 1 walk_then.simps 2 3 4 ..
qed

definition bvlc_ok :: "u8 \<Rightarrow> bytes \<Rightarrow> bool" where
  "bvlc_ok bvlc origin \<longleftrightarrow> bvlc = 0x0A \<or> bvlc = 0x0B \<or> bvlc = 0x04 \<and> length origin = 6"

lemma DecodeBvlc_encode:
  assumes "n = length (encode_bvlc bvlc len origin @ rest)" "bvlc_ok bvlc origin"
  shows "DecodeBvlc (Some (encode_bvlc bvlc len origin @ rest)) n =
    Some (Inr (length (encode_bvlc bvlc len origin), DecodedFrame\<lparr>bacnetIp := True, bvlcFunction := bvlc\<rparr>))"
  using assms by (auto simp: DecodeBvlc_def encode_bvlc_def bvlc_ok_def)

definition encode_frame ::
  "u8 \<Rightarrow> u16 \<Rightarrow> bytes \<Rightarrow> u8 \<Rightarrow> route \<Rightarrow> route \<Rightarrow> u8 \<Rightarrow> bytes \<Rightarrow> bytes" where
  "encode_frame bvlc len origin control dest src hop apdu =
    encode_bvlc bvlc len origin @ encode_npdu control dest src hop @ apdu"

definition header_ok :: "u8 \<Rightarrow> bytes \<Rightarrow> u8 \<Rightarrow> route \<Rightarrow> route \<Rightarrow> bool" where
  "header_ok bvlc origin control dest src \<longleftrightarrow>
    bvlc_ok bvlc origin \<and> route_ok dest \<and> route_ok src \<and> control_ok control dest src"

definition header_fields :: "u8 \<Rightarrow> u16 \<Rightarrow> bytes \<Rightarrow> u8 \<Rightarrow> route \<Rightarrow> route \<Rightarrow> decoded_frame" where
  "header_fields bvlc len origin control dest src =
    npdu_fields (length (encode_bvlc bvlc len origin)) control dest src
      (DecodedFrame\<lparr>bacnetIp := True, bvlcFunction := bvlc\<rparr>)"

lemma DecodeBacnetFrame_encode:
  assumes n: "n = length (encode_frame bvlc len origin control dest src hop apdu)" "n \<le> 65535" "apdu \<noteq> []"
    and ok: "header_ok bvlc origin control dest src"
  shows "DecodeBacnetFrame (Some (encode_frame bvlc len origin control dest src hop apdu)) n =
    DecodeApdu (encode_frame bvlc len origin control dest src hop apdu) n (n - length apdu)
      (header_fields bvlc len origin control dest src)"
proof -
  let ?frame = "encode_frame bvlc len origin control dest src hop apdu"
  let ?d = "DecodedFrame\<lparr>bacnetIp := True, bvlcFunction := bvlc\<rparr>"
  have 1: "DecodeBvlc (Some ?frame) n = Some (Inr (length (encode_bvlc bvlc len origin), ?d))"
    unfolding encode_frame_def
    using n ok by (intro DecodeBvlc_encode) (simp_all add: encode_frame_def header_ok_def)
  have 2: "DecodeNpdu ?frame n (length (encode_bvlc bvlc len origin)) ?d =
      Some (Inr (n - length apdu, header_fields bvlc len origin control dest src))"
    using n ok DecodeNpdu_encode [of n "encode_bvlc bvlc len origin" control dest src hop apdu ?d]
    by (simp add: encode_frame_def header_ok_def header_fields_def DecodedFrame_def)
  show ?thesis
    by (simp add: DecodeBacnetFrame_def 1 2)
qed

text \<open>The parameters of ReadProperty and WriteProperty, each number in its fewest octets.\<close>

definition unsigned_octets :: "u32 \<Rightarrow> nat" where
  "unsigned_octets v =
    (if unat v < 256 then 1 else if unat v < 65536 then 2 else if unat v < 16777216 then 3 else 4)"

fun last_octets :: "nat \<Rightarrow> u32 \<Rightarrow> bytes" where
  "last_octets 0 v = []"
| "last_octets (Suc k) v = byte_of k v # last_octets k v"

definition encode_context_unsigned :: "u8 \<Rightarrow> u32 \<Rightarrow> bytes" where
  "encode_context_unsigned number v =
    encode_tag number True (word_of_nat (unsigned_octets v)) @ last_octets (unsigned_octets v) v"

definition object_id :: "u32 \<Rightarrow> u32 \<Rightarrow> u32" where
  "object_id ty inst = push_bit 22 ty OR inst"

fun encode_index :: "u32 option \<Rightarrow> bytes" where
  "encode_index None = []"
| "encode_index (Some i) = encode_context_unsigned 2 i"

definition encode_object_property :: "u32 \<Rightarrow> u32 \<Rightarrow> u32 \<Rightarrow> u32 option \<Rightarrow> bytes" where
  "encode_object_property ty inst prop idx =
    encode_tag 0 True 4 @ last_octets 4 (object_id ty inst) @ encode_context_unsigned 1 prop @
    encode_index idx"

lemma length_last_octets [simp]: "length (last_octets k v) = k"
  by (induction k) auto

lemma octet_shift:
  "k < 4 \<Longrightarrow> push_bit 8 (drop_bit (8 * Suc k) v) OR ucast (byte_of k v) = drop_bit (8 * k) (v :: u32)"
  by (intro bit_eqI) (auto simp: byte_of_def bit_simps)

lemma read_unsigned_last_octets:
  "k \<le> 4 \<Longrightarrow> length pre + k \<le> 65535 \<Longrightarrow>
    read_unsigned (pre @ last_octets k v @ rest) (length pre) k (drop_bit (8 * k) v) = Some v"
proof (induction k arbitrary: pre)
  case (Suc k)
  then have "read_unsigned ((pre @ [byte_of k v]) @ last_octets k v @ rest) (length (pre @ [byte_of k v])) k
      (drop_bit (8 * k) v) = Some v"
    by (intro Suc.IH) auto
  then show ?case
    using Suc.prems octet_shift [of k v] by simp
qed simp

lemma unsigned_octets_drop: "drop_bit (8 * unsigned_octets v) v = (0 :: u32)"
proof -
  have "unat v < 2 ^ (8 * unsigned_octets v)"
    using unat_u32_less [of v] by (auto simp: unsigned_octets_def)
  then show ?thesis
    by (intro bit_eqI) (auto simp: bit_simps dest: small_bits)
qed

lemma unsigned_octets_bounds: "1 \<le> unsigned_octets v" "unsigned_octets v \<le> 4"
  by (auto simp: unsigned_octets_def)

lemma read_context_unsigned:
  assumes "length pre + unsigned_octets v \<le> 65535"
  shows "read_unsigned (pre @ last_octets (unsigned_octets v) v @ rest) (length pre) (unsigned_octets v) 0 =
    Some v"
  using read_unsigned_last_octets [of "unsigned_octets v" pre v rest] unsigned_octets_drop [of v]
    unsigned_octets_bounds [of v] assms
  by simp

lemma object_id_fields:
  assumes "unat ty < 1024" "unat inst < 4194304"
  shows "drop_bit 22 (object_id ty inst) AND 0x3FF = ty" "object_id ty inst AND 0x3FFFFF = inst"
proof -
  have masks: "(x :: u32) AND 0x3FF = take_bit 10 x" "(x :: u32) AND 0x3FFFFF = take_bit 22 x" for x
    by (simp_all add: take_bit_eq_mask mask_eq_exp_minus_1)
  have bits: "\<And>k. bit ty k \<Longrightarrow> k < 10" "\<And>k. bit inst k \<Longrightarrow> k < 22"
    using assms small_bits [of ty 10] small_bits [of inst 22] by auto
  show "drop_bit 22 (object_id ty inst) AND 0x3FF = ty" "object_id ty inst AND 0x3FFFFF = inst"
    unfolding masks object_id_def
    by (rule bit_eqI, use bits in \<open>fastforce simp: bit_simps\<close>)+
qed

lemma unat_octets [simp]: "unat (word_of_nat (unsigned_octets v) :: u32) = unsigned_octets v"
  using unsigned_octets_bounds [of v] by (simp add: unsigned_of_nat take_bit_nat_eq_self)

lemma octets_word:
  "(0 :: u32) < word_of_nat (unsigned_octets v)" "(word_of_nat (unsigned_octets v) :: u32) \<le> 4"
  "(word_of_nat (unsigned_octets v) :: u32) \<noteq> 0"
proof -
  show pos: "(0 :: u32) < word_of_nat (unsigned_octets v)"
    using unsigned_octets_bounds [of v] by (simp add: word_less_nat_alt)
  show "(word_of_nat (unsigned_octets v) :: u32) \<noteq> 0" using pos by auto
  show "(word_of_nat (unsigned_octets v) :: u32) \<le> 4"
    using unsigned_octets_bounds [of v] by (simp add: word_le_nat_alt)
qed

lemma DecodeArrayIndex_encode:
  assumes "n = length (pre @ encode_index idx)" "n \<le> 65535" "hasArrayIndex d = False" "arrayIndex d = 0"
  shows "DecodeArrayIndex (pre @ encode_index idx) n (length pre) d =
    Some (d\<lparr>hasArrayIndex := idx \<noteq> None, arrayIndex := (case idx of None \<Rightarrow> 0 | Some i \<Rightarrow> i)\<rparr>)"
proof (cases idx)
  case None
  then show ?thesis using assms by (simp add: DecodeArrayIndex_def DecodeTagHeader_def)
next
  case (Some i)
  let ?tag = "encode_tag 2 True (word_of_nat (unsigned_octets i))"
  have header: "DecodeTagHeader (pre @ encode_index idx) n (length pre) =
    Some (Some \<lparr>tagNumber = 2, contextSpecific = True, isOpeningTag = False, isClosingTag = False,
      tagLength = word_of_nat (unsigned_octets i), headerLength = length ?tag\<rparr>)"
    using DecodeTagHeader_encode [of n pre 2 True "word_of_nat (unsigned_octets i)"
        "last_octets (unsigned_octets i) i"] assms Some
    by (simp add: encode_context_unsigned_def)
  have val: "read_unsigned (pre @ encode_index idx) (length pre + length ?tag) (unsigned_octets i) 0 = Some i"
    using read_context_unsigned [of "pre @ ?tag" i "[]"] assms Some
    by (simp add: encode_context_unsigned_def)
  have "length pre + length ?tag + unsigned_octets i \<le> 65535"
    "length pre + length ?tag + unsigned_octets i \<le> n"
    using assms(1,2) Some by (simp_all add: encode_context_unsigned_def)
  then show ?thesis
    unfolding DecodeArrayIndex_def header
    using val octets_word [of i] by (simp add: Some)
qed

definition property_fields :: "u32 \<Rightarrow> u32 \<Rightarrow> u32 \<Rightarrow> u32 option \<Rightarrow> decoded_frame \<Rightarrow> decoded_frame" where
  "property_fields ty inst pid idx d =
    d\<lparr>hasObjectProperty := True, objectType := ucast ty, objectInstance := inst, propertyId := pid,
      hasArrayIndex := idx \<noteq> None, arrayIndex := (case idx of None \<Rightarrow> 0 | Some i \<Rightarrow> i)\<rparr>"

lemma DecodePropertyId_encode:
  assumes n: "n = length (pre @ encode_context_unsigned 1 pid @ encode_index idx)" "n \<le> 65535"
    and d: "hasArrayIndex d = False" "arrayIndex d = 0"
    and ty: "unat ty < 1024" "unat inst < 4194304"
  shows "DecodePropertyId (pre @ encode_context_unsigned 1 pid @ encode_index idx) n (length pre)
    (object_id ty inst) d = Some (property_fields ty inst pid idx d)"
proof -
  let ?k = "unsigned_octets pid"
  let ?tag = "encode_tag 1 True (word_of_nat ?k)"
  let ?frame = "pre @ encode_context_unsigned 1 pid @ encode_index idx"
  have header: "DecodeTagHeader ?frame n (length pre) =
    Some (Some \<lparr>tagNumber = 1, contextSpecific = True, isOpeningTag = False, isClosingTag = False,
      tagLength = word_of_nat ?k, headerLength = length ?tag\<rparr>)"
    using DecodeTagHeader_encode [of n pre 1 True "word_of_nat ?k"
        "last_octets ?k pid @ encode_index idx"] n
    by (simp add: encode_context_unsigned_def)
  have val: "read_unsigned ?frame (length pre + length ?tag) ?k 0 = Some pid"
    using read_context_unsigned [of "pre @ ?tag" pid "encode_index idx"] n
    by (simp add: encode_context_unsigned_def)
  have index: "DecodeArrayIndex ?frame n (length pre + length ?tag + ?k) d' =
      Some (d'\<lparr>hasArrayIndex := idx \<noteq> None, arrayIndex := (case idx of None \<Rightarrow> 0 | Some i \<Rightarrow> i)\<rparr>)"
    if "hasArrayIndex d' = False" "arrayIndex d' = 0" for d'
    using DecodeArrayIndex_encode [of n "pre @ encode_context_unsigned 1 pid" idx d'] n that
    by (simp add: encode_context_unsigned_def add.assoc)
  have len: "length pre + length ?tag + ?k \<le> n"
    using n by (simp add: encode_context_unsigned_def)
  show ?thesis
    unfolding DecodePropertyId_def header
    using n(2) d octets_word [of pid] len index
    by (simp add: val property_fields_def object_id_fields [OF ty] Let_def)
qed

lemma DecodeObjectAndProperty_encode:
  assumes n: "n = length (pre @ encode_object_property ty inst pid idx)" "n \<le> 65535"
    and d: "hasArrayIndex d = False" "arrayIndex d = 0"
    and ty: "unat ty < 1024" "unat inst < 4194304"
  shows "DecodeObjectAndProperty (pre @ encode_object_property ty inst pid idx) n (length pre) d =
    Some (property_fields ty inst pid idx d)"
proof -
  let ?tag = "encode_tag 0 True 4"
  let ?obj = "object_id ty inst"
  let ?rest = "encode_context_unsigned 1 pid @ encode_index idx"
  let ?frame = "pre @ encode_object_property ty inst pid idx"
  have header: "DecodeTagHeader ?frame n (length pre) =
    Some (Some \<lparr>tagNumber = 0, contextSpecific = True, isOpeningTag = False, isClosingTag = False,
      tagLength = 4, headerLength = length ?tag\<rparr>)"
    using DecodeTagHeader_encode [of n pre 0 True 4 "last_octets 4 ?obj @ ?rest"] n
    by (simp add: encode_object_property_def)
  have rds: "rd ?frame (length pre + length ?tag + i) = Some (byte_of (3 - i) ?obj)" if "i < 4" for i
  proof -
    have "rd ?frame (length (pre @ ?tag) + i) = rd (last_octets 4 ?obj @ ?rest) i"
      using rd_append_len_add [of "pre @ ?tag" "last_octets 4 ?obj @ ?rest" i]
      by (simp add: encode_object_property_def)
    moreover have "i = 0 \<or> i = 1 \<or> i = 2 \<or> i = 3" using that by linarith
    ultimately show ?thesis by (auto simp: numeral_eq_Suc)
  qed
  have pid: "DecodePropertyId ?frame n (length pre + length ?tag + 4) ?obj d =
      Some (property_fields ty inst pid idx d)"
    using DecodePropertyId_encode [of n "pre @ ?tag @ last_octets 4 ?obj" pid idx d ty inst] n d ty
    by (simp add: encode_object_property_def add.assoc)
  have len: "length pre + length ?tag + 4 \<le> n"
    using n by (simp add: encode_object_property_def)
  show ?thesis
    unfolding DecodeObjectAndProperty_def header
    using n(2) len pid rds [of 0] rds [of 1] rds [of 2] rds [of 3]
    by simp
qed

definition read_property_apdu :: "u8 \<Rightarrow> u8 \<Rightarrow> u32 \<Rightarrow> u32 \<Rightarrow> u32 \<Rightarrow> u32 option \<Rightarrow> bytes" where
  "read_property_apdu max_apdu invoke ty inst pid idx =
    [0, max_apdu, invoke, 12] @ encode_object_property ty inst pid idx"

definition read_property_fields ::
  "u8 \<Rightarrow> u32 \<Rightarrow> u32 \<Rightarrow> u32 \<Rightarrow> u32 option \<Rightarrow> decoded_frame \<Rightarrow> decoded_frame" where
  "read_property_fields invoke ty inst pid idx d =
    property_fields ty inst pid idx
      (d\<lparr>hasApdu := True, pduType := 0, segmented := False, hasInvokeId := True, invokeId := invoke,
        hasServiceChoice := True, serviceChoice := 12\<rparr>)"

lemma DecodeApdu_read_property:
  assumes n: "n = length (pre @ read_property_apdu max_apdu invoke ty inst pid idx)" "n \<le> 65535"
    and d: "hasArrayIndex d = False" "arrayIndex d = 0" "isNetworkMessage d = False"
    and ty: "unat ty < 1024" "unat inst < 4194304"
  shows "DecodeApdu (pre @ read_property_apdu max_apdu invoke ty inst pid idx) n (length pre) d =
    Some (read_property_fields invoke ty inst pid idx d)"
proof -
  define frame where "frame = pre @ read_property_apdu max_apdu invoke ty inst pid idx"
  have n': "n = length frame" "length pre + 4 < n"
    using n by (simp_all add: frame_def read_property_apdu_def encode_object_property_def)
  have rds: "rd frame (length pre) = Some 0"
      "rd frame (length pre + 1) = Some max_apdu" "rd frame (length pre + 2) = Some invoke"
      "rd frame (length pre + 3) = Some 12"
    by (simp_all add: frame_def read_property_apdu_def)
  have props: "DecodeObjectAndProperty frame n (length pre + 4) d' = Some (property_fields ty inst pid idx d')"
    if "hasArrayIndex d' = False" "arrayIndex d' = 0" for d'
  proof -
    have "length (pre @ [0, max_apdu, invoke, 12]) = length pre + 4" by simp
    then show ?thesis
      using DecodeObjectAndProperty_encode [of n "pre @ [0, max_apdu, invoke, 12]" ty inst pid idx d'] n that ty
      by (simp only: frame_def read_property_apdu_def append_assoc)
  qed
  have props': "DecodeObjectAndProperty frame n (4 + length pre) d' = Some (property_fields ty inst pid idx d')"
    if "hasArrayIndex d' = False" "arrayIndex d' = 0" for d'
    using props [OF that] by (simp add: add.commute)
  show ?thesis
    unfolding frame_def [symmetric]
    using n' n(2) d props' rds
    by (simp add: DecodeApdu_def DecodeConfirmedRequest_def put_service_def read_property_fields_def Let_def)
qed

lemma header_fields_plain:
  "hasArrayIndex (header_fields bvlc len origin control dest src) = False"
  "arrayIndex (header_fields bvlc len origin control dest src) = 0"
  "isNetworkMessage (header_fields bvlc len origin control dest src) = (control AND 0x80 \<noteq> 0)"
  by (simp_all add: header_fields_def npdu_fields_def DecodedFrame_def)

lemma read_property_frame_decodes:
  assumes "header_ok bvlc origin control dest src" "control AND 0x80 = 0"
    "unat ty < 1024" "unat inst < 4194304"
    "n = length (encode_frame bvlc len origin control dest src hop
      (read_property_apdu max_apdu invoke ty inst pid idx))" "n \<le> 65535"
  shows "DecodeBacnetFrame (Some (encode_frame bvlc len origin control dest src hop
      (read_property_apdu max_apdu invoke ty inst pid idx))) n =
    Some (read_property_fields invoke ty inst pid idx
      (header_fields bvlc len origin control dest src))"
proof -
  let ?apdu = "read_property_apdu max_apdu invoke ty inst pid idx"
  let ?pre = "encode_bvlc bvlc len origin @ encode_npdu control dest src hop"
  let ?d = "header_fields bvlc len origin control dest src"
  have split: "encode_frame bvlc len origin control dest src hop ?apdu = ?pre @ ?apdu"
    by (simp add: encode_frame_def)
  have "DecodeBacnetFrame (Some (?pre @ ?apdu)) n = DecodeApdu (?pre @ ?apdu) n (n - length ?apdu) ?d"
    unfolding split [symmetric]
    using assms by (intro DecodeBacnetFrame_encode) (simp_all add: read_property_apdu_def)
  also have "n - length ?apdu = length ?pre" using assms(5) by (simp add: split)
  also have "DecodeApdu (?pre @ ?apdu) n (length ?pre) ?d = Some (read_property_fields invoke ty inst pid idx ?d)"
    using assms by (intro DecodeApdu_read_property) (simp_all add: split header_fields_plain)
  finally show ?thesis by (simp add: split)
qed

lemma SkipSpecifier_encode:
  assumes "length pre + 3 + 255 \<le> 65535" "route_ok r" "n = length (pre @ encode_route r @ rest)"
  shows "SkipSpecifier (pre @ encode_route r @ rest) n (r \<noteq> None) (length pre) =
    Some (Some (length pre + length (encode_route r)))"
proof (cases r)
  case (Some p)
  obtain net adr where p: "p = (net, adr)" by fastforce
  then have len: "length adr < 256" using assms(2) Some by simp
  then show ?thesis
    using assms by (simp add: SkipSpecifier_def Some p unat_length [OF len])
qed (simp add: SkipSpecifier_def)

fun iam_or_ihave :: "bytes \<Rightarrow> bool" where
  "iam_or_ihave (b # c # _) \<longleftrightarrow> drop_bit 4 b = 1 \<and> (c = 0 \<or> c = 1)"
| "iam_or_ihave _ \<longleftrightarrow> False"

lemma IsStackChosenBroadcast_encode:
  assumes "header_ok bvlc origin control dest src"
    and n: "n = length (encode_frame bvlc len origin control dest src hop apdu)"
  shows "IsStackChosenBroadcast (encode_frame bvlc len origin control dest src hop apdu) n =
    Some (bvlc \<noteq> 4 \<and> (control AND 0x80 \<noteq> 0 \<or> iam_or_ihave apdu))"
proof (cases "bvlc = 4")
  case True
  then show ?thesis
    using n by (simp add: IsStackChosenBroadcast_def encode_frame_def encode_bvlc_def encode_npdu_def)
next
  case False
  then have bvlc: "bvlc = 0x0A \<or> bvlc = 0x0B" using assms(1) by (auto simp: header_ok_def bvlc_ok_def)
  have ok: "route_ok dest" "route_ok src" "control_ok control dest src"
    using assms(1) by (auto simp: header_ok_def)
  define head where "head = [0x81, bvlc, byte_of 1 len, byte_of 0 len, 1, control]"
  define frame where "frame = encode_frame bvlc len origin control dest src hop apdu"
  have frame: "frame = head @ encode_route dest @ encode_route src @ encode_hop dest hop @ apdu"
    using False by (simp add: frame_def encode_frame_def encode_bvlc_def encode_npdu_def head_def)
  have lens: "length (encode_route dest) \<le> 258" "length (encode_route src) \<le> 258"
    using ok by (cases dest; cases src; auto)+
  have head6: "length head = 6" by (simp add: head_def)
  have n6: "n = length frame" using n by (simp add: frame_def)
  have dest: "SkipSpecifier frame n (dest \<noteq> None) 6 = Some (Some (6 + length (encode_route dest)))"
    using SkipSpecifier_encode [of head dest n "encode_route src @ encode_hop dest hop @ apdu"] ok n6
    by (simp add: head6 frame)
  have src: "SkipSpecifier frame n (src \<noteq> None) (6 + length (encode_route dest)) =
      Some (Some (6 + length (encode_route dest) + length (encode_route src)))"
    using SkipSpecifier_encode [of "head @ encode_route dest" src n "encode_hop dest hop @ apdu"] ok n6 lens
    by (simp add: head6 frame)
  define i where "i = 6 + length (encode_route dest) + length (encode_route src) + length (encode_hop dest hop)"
  have hop: "(if dest \<noteq> None then wrap16 (6 + length (encode_route dest) + length (encode_route src) + 1)
      else 6 + length (encode_route dest) + length (encode_route src)) = i"
    using lens by (auto simp: i_def encode_hop_def)
  have rds: "rd frame 0 = Some 0x81" "rd frame 1 = Some bvlc" "rd frame 4 = Some 1" "rd frame 5 = Some control"
    by (simp_all add: frame head_def)
  have tail: "rd frame (i + k) = rd apdu k" for k
    using rd_append_len_add [of "head @ encode_route dest @ encode_route src @ encode_hop dest hop" apdu k]
    by (simp add: frame head6 i_def add.assoc)
  have n': "n = i + length apdu"
    by (simp add: n6 frame head6 i_def)
  have last: "(if i + 2 > n then Some False else do {
      b \<leftarrow> rd frame i;
      if drop_bit 4 b \<noteq> 1 then Some False
      else do { c \<leftarrow> rd frame (i + 1); Some (c = 0 \<or> c = 1) } }) = Some (iam_or_ihave apdu)"
    using tail [of 0] tail [of 1] n' by (cases apdu rule: iam_or_ihave.cases) auto
  have c: "(control AND 0x20 \<noteq> 0) = (dest \<noteq> None)" "(control AND 0x08 \<noteq> 0) = (src \<noteq> None)"
    using ok by (auto simp: control_ok_def)
  have n6': "(n < 6) = False" using n' by (simp add: i_def)
  have b: "(bvlc \<noteq> 0x0A \<and> bvlc \<noteq> 0x0B) = False" using bvlc by auto
  show ?thesis
    unfolding frame_def [symmetric] IsStackChosenBroadcast_def Let_def c n6' if_False rds
      Option.bind.simps b dest src option.case hop last
    using False by simp
qed

section \<open>Properties\<close>

text \<open>C1: Decoding never reads outside the frame: for every buffer, and every length the
  \<^verbatim>\<open>uint16_t\<close> callers can pass that the buffer has, the walk returns a decoded frame.\<close>

theorem decoder_stays_inside:
  assumes "n \<le> length frame" "n \<le> 65535"
  shows "\<exists>d. DecodeBacnetFrame (Some frame) n = Some d"
  using DecodeBacnetFrame_safe [of frame n] assms by (auto simp: safe_def fits_def)

theorem decoder_stays_inside_witness:
  "\<exists>d. DecodeBacnetFrame (Some [0x81, 0x0B, 0, 9, 1, 0x28, 0, 5, 200]) 9 = Some d"
  using decoder_stays_inside [of 9 "[0x81, 0x0B, 0, 9, 1, 0x28, 0, 5, 200]"] by simp

text \<open>C34: Decoding inverts the encoding of a ReadProperty request of Clauses 6.2, 20.1.2 and J.2:
  whatever the BVLC function, the routing specifiers, the hop count and the parameters, each in its
  fewest octets, every field of the decoded frame is the encoded one.\<close>

theorem read_property_round_trip:
  assumes "header_ok bvlc origin control dest src" "control AND 0x80 = 0"
    "unat ty < 1024" "unat inst < 4194304"
    "length (encode_frame bvlc len origin control dest src hop
      (read_property_apdu max_apdu invoke ty inst pid idx)) \<le> 65535"
  shows "DecodeBacnetFrame (Some (encode_frame bvlc len origin control dest src hop
      (read_property_apdu max_apdu invoke ty inst pid idx)))
      (length (encode_frame bvlc len origin control dest src hop
        (read_property_apdu max_apdu invoke ty inst pid idx))) =
    Some (read_property_fields invoke ty inst pid idx
      (header_fields bvlc len origin control dest src))"
  using read_property_frame_decodes [OF assms(1-4) refl assms(5)] .

theorem read_property_round_trip_witness:
  "DecodeBacnetFrame (Some (encode_frame 4 40 [10, 0, 0, 1, 0xBA, 0xC0] 0x28 (Some (5, [7])) (Some (9, [1, 2])) 255
      (read_property_apdu 5 1 8 4194303 4194343 (Some 300))))
      (length (encode_frame 4 40 [10, 0, 0, 1, 0xBA, 0xC0] 0x28 (Some (5, [7])) (Some (9, [1, 2])) 255
      (read_property_apdu 5 1 8 4194303 4194343 (Some 300)))) =
    Some (read_property_fields 1 8 4194303 4194343 (Some 300)
      (header_fields 4 40 [10, 0, 0, 1, 0xBA, 0xC0] 0x28 (Some (5, [7])) (Some (9, [1, 2]))))"
  by (rule read_property_round_trip)
    (simp_all add: header_ok_def bvlc_ok_def control_ok_def encode_frame_def encode_bvlc_def
      encode_npdu_def encode_hop_def read_property_apdu_def encode_object_property_def
      encode_context_unsigned_def encode_tag_def encode_number_def encode_length_def
      unsigned_octets_def)

text \<open>Decoding a tag header inverts Clause 20.2.1 for every tag number, class and length, with
  the extended number and each of the four forms of the length, anywhere in a frame.\<close>

theorem tag_header_round_trip:
  assumes "length (pre @ encode_tag number context len @ rest) \<le> 65535"
  shows "DecodeTagHeader (pre @ encode_tag number context len @ rest)
      (length (pre @ encode_tag number context len @ rest)) (length pre) =
    Some (Some \<lparr>tagNumber = number, contextSpecific = context, isOpeningTag = False,
      isClosingTag = False, tagLength = len,
      headerLength = length (encode_tag number context len)\<rparr>)"
  by (rule DecodeTagHeader_encode [OF refl assms])

theorem tag_header_round_trip_witness:
  "DecodeTagHeader ([1, 2] @ encode_tag 40 False 70000 @ [9])
      (length ([1, 2] @ encode_tag 40 False 70000 @ [9])) (length [1, 2 :: u8]) =
    Some (Some \<lparr>tagNumber = 40, contextSpecific = False, isOpeningTag = False,
      isClosingTag = False, tagLength = 70000, headerLength = length (encode_tag 40 False 70000)\<rparr>)"
  by (rule tag_header_round_trip) (simp add: encode_tag_def encode_number_def encode_length_def)

text \<open>The test for the answers the stack addresses itself skips the specifiers and the hop count
  of any well-formed NPDU: it is true exactly for a network layer message, or an unconfirmed I-Am
  or I-Have, in an Original-Unicast-NPDU or Original-Broadcast-NPDU.\<close>

theorem stack_chosen_broadcast_exact:
  assumes "header_ok bvlc origin control dest src"
  shows "IsStackChosenBroadcast (encode_frame bvlc len origin control dest src hop apdu)
      (length (encode_frame bvlc len origin control dest src hop apdu)) =
    Some (bvlc \<noteq> 4 \<and> (control AND 0x80 \<noteq> 0 \<or> iam_or_ihave apdu))"
  by (rule IsStackChosenBroadcast_encode [OF assms refl])

theorem stack_chosen_broadcast_exact_witness:
  "IsStackChosenBroadcast (encode_frame 0x0B 20 [] 0x20 (Some (0xFFFF, [])) None 255 [0x10, 0, 1])
      (length (encode_frame 0x0B 20 [] 0x20 (Some (0xFFFF, [])) None 255 [0x10, 0, 1])) = Some True"
  using stack_chosen_broadcast_exact [of "0x0B" "[]" "0x20" "Some (0xFFFF, [])" None 20 255 "[0x10, 0, 1]"]
  by (simp add: header_ok_def bvlc_ok_def control_ok_def)

end
