(* ===== verification/Text_Util.thy ===== *)
theory Text_Util
  imports Prelude
begin

text \<open>
  The \<^verbatim>\<open>std::string\<close> operations that several sources share: splitting on a separator as
  \<^verbatim>\<open>std::getline\<close> does, prefixes and suffixes, decimal and hexadecimal output,
  \<^verbatim>\<open>strtoul\<close> and \<^verbatim>\<open>strtol\<close>, and \<^verbatim>\<open>snprintf\<close> into a bounded buffer.
  A string is a list of characters, each an unsigned octet.
\<close>

section \<open>Splitting\<close>

text \<open>\<^verbatim>\<open>while (std::getline(in, part, sep))\<close>: an empty part is kept, but nothing follows
  a final separator.\<close>

function split_on :: "char \<Rightarrow> string \<Rightarrow> string list" where
  "split_on sep [] = []"
| "split_on sep (c # s) =
    takeWhile (\<lambda>d. d \<noteq> sep) (c # s) # split_on sep (drop 1 (dropWhile (\<lambda>d. d \<noteq> sep) (c # s)))"
  by pat_completeness auto
termination
proof (relation "measure (\<lambda>(_, s). length s)")
  fix sep c :: char and s :: string
  have "length (dropWhile (\<lambda>d. d \<noteq> sep) (c # s)) \<le> length (c # s)"
    by (rule length_dropWhile_le)
  then show "((sep, drop 1 (dropWhile (\<lambda>d. d \<noteq> sep) (c # s))), sep, c # s)
      \<in> measure (\<lambda>(_, s). length s)"
    by auto
qed simp

fun join_with :: "char \<Rightarrow> string list \<Rightarrow> string" where
  "join_with sep [] = []"
| "join_with sep [p] = p"
| "join_with sep (p # ps) = p @ sep # join_with sep ps"

definition Split :: "string \<Rightarrow> string list" where
  "Split path = split_on (CHR ''/'') path"

definition StartsWith :: "string \<Rightarrow> string \<Rightarrow> bool" where
  "StartsWith s pre \<longleftrightarrow> take (length pre) s = pre"

definition EndsWith :: "string \<Rightarrow> string \<Rightarrow> bool" where
  "EndsWith s suf \<longleftrightarrow> length s \<ge> length suf \<and> drop (length s - length suf) s = suf"

lemma StartsWith_prefix: "StartsWith s pre \<longleftrightarrow> prefix pre s"
  unfolding StartsWith_def by (metis append_take_drop_id prefix_def append_eq_conv_conj)

lemma EndsWith_suffix: "EndsWith s suf \<longleftrightarrow> suffix suf s"
  unfolding EndsWith_def suffix_def
  by (metis append_take_drop_id append_eq_conv_conj diff_add_inverse2 le_add2 length_append)

text \<open>\<^verbatim>\<open>path.substr(0, path.rfind('/'))\<close>, or \<^verbatim>\<open>None\<close> without a separator.\<close>

definition parent_path :: "string \<Rightarrow> string option" where
  "parent_path path =
    (if CHR ''/'' \<in> set path
     then Some (rev (drop 1 (dropWhile (\<lambda>c. c \<noteq> CHR ''/'') (rev path))))
     else None)"

subsection \<open>Splitting and joining are inverse\<close>

lemma split_on_part:
  assumes "sep \<notin> set p" "p \<noteq> []" shows "split_on sep p = [p]"
proof (cases p)
  case (Cons c s)
  have "takeWhile (\<lambda>d. d \<noteq> sep) p = p" "dropWhile (\<lambda>d. d \<noteq> sep) p = []"
    using assms(1) by (auto simp: takeWhile_eq_all_conv dropWhile_eq_Nil_conv)
  then show ?thesis unfolding Cons split_on.simps by simp
qed (use assms in simp)

lemma split_on_Cons_part:
  "sep \<notin> set p \<Longrightarrow> split_on sep (p @ sep # s) = p # split_on sep s"
proof (cases "p @ sep # s")
  case (Cons c r)
  assume p: "sep \<notin> set p"
  then have "takeWhile (\<lambda>d. d \<noteq> sep) (p @ sep # s) = p" "dropWhile (\<lambda>d. d \<noteq> sep) (p @ sep # s) = sep # s"
    by (auto simp: takeWhile_append2 dropWhile_append2 takeWhile_tail)
       (induction p; auto)+
  then show ?thesis using split_on.simps(2) [of sep c r] by (simp add: Cons [symmetric])
qed simp

definition clean_parts :: "char \<Rightarrow> string list \<Rightarrow> bool" where
  "clean_parts sep ps \<longleftrightarrow> (\<forall>p \<in> set ps. p \<noteq> [] \<and> sep \<notin> set p)"

lemma split_join: "clean_parts sep ps \<Longrightarrow> split_on sep (join_with sep ps) = ps"
  by (induction sep ps rule: join_with.induct)
    (auto simp: clean_parts_def split_on_part split_on_Cons_part)

lemma split_on_no_sep: "p \<in> set (split_on sep s) \<Longrightarrow> sep \<notin> set p"
proof (induction sep s rule: split_on.induct)
  case (2 sep c s)
  then show ?case by (auto dest: set_takeWhileD)
qed simp

lemma join_split:
  "s \<noteq> [] \<Longrightarrow> last s \<noteq> sep \<Longrightarrow> join_with sep (split_on sep s) = s"
proof (induction s rule: length_induct)
  case (1 s)
  show ?case
  proof (cases "sep \<in> set s")
    case False
    then show ?thesis using 1(2) by (simp add: split_on_part)
  next
    case True
    then obtain p r where s: "s = p @ sep # r" "sep \<notin> set p" by (meson split_list_first)
    have r: "r \<noteq> []" "last r \<noteq> sep" using 1(3) s(1) by (auto split: if_splits)
    then have IH: "join_with sep (split_on sep r) = r" using 1(1) s(1) by simp
    obtain x xs where x: "split_on sep r = x # xs" using r(1) by (cases r) auto
    show ?thesis using IH x by (simp add: s split_on_Cons_part)
  qed
qed

lemma set_join: "set (join_with sep ps) \<subseteq> (\<Union>p \<in> set ps. set p) \<union> {sep}"
  by (induction sep ps rule: join_with.induct) auto

lemma set_split_on: "p \<in> set (split_on sep s) \<Longrightarrow> set p \<subseteq> set s"
proof (induction s arbitrary: p rule: length_induct)
  case (1 s)
  show ?case
  proof (cases "sep \<in> set s")
    case False
    then show ?thesis using 1(2) by (cases "s = []") (auto simp: split_on_part)
  next
    case True
    then obtain q r where s: "s = q @ sep # r" "sep \<notin> set q" by (meson split_list_first)
    then have "p = q \<or> p \<in> set (split_on sep r)"
      using 1(2) by (simp add: split_on_Cons_part)
    moreover have "p \<in> set (split_on sep r) \<Longrightarrow> set p \<subseteq> set r" using 1(1) s(1) by simp
    ultimately show ?thesis using s(1) by auto
  qed
qed

lemma join_snoc: "ps \<noteq> [] \<Longrightarrow> join_with sep (ps @ [p]) = join_with sep ps @ sep # p"
  by (induction sep ps rule: join_with.induct) auto

lemma split_on_Nil_iff [simp]: "split_on sep s = [] \<longleftrightarrow> s = []"
  by (cases s) auto

section \<open>Numbers\<close>

definition digit_char :: "nat \<Rightarrow> char" where
  "digit_char n = char_of (48 + n)"

fun dec :: "nat \<Rightarrow> string" where
  "dec n = (if n < 10 then [digit_char n] else dec (n div 10) @ [digit_char (n mod 10)])"

declare dec.simps [simp del]

definition is_digit :: "char \<Rightarrow> bool" where
  "is_digit c \<longleftrightarrow> 48 \<le> (of_char c :: nat) \<and> (of_char c :: nat) \<le> 57"

definition digit_val :: "char \<Rightarrow> nat" where
  "digit_val c = of_char c - 48"

definition digits_val :: "string \<Rightarrow> nat" where
  "digits_val s = foldl (\<lambda>v c. 10 * v + digit_val c) 0 s"

definition ULONG_MAX :: nat where
  "ULONG_MAX = 18446744073709551615"

text \<open>\<^verbatim>\<open>strtoul(s, nullptr, 10)\<close> of a string of digits: the value and whether it overflowed
  (\<^verbatim>\<open>ERANGE\<close>).\<close>

definition strtoul_digits :: "string \<Rightarrow> nat \<times> bool" where
  "strtoul_digits s =
    (let v = digits_val s in if v > ULONG_MAX then (ULONG_MAX, True) else (v, False))"

lemma digits_val_Nil [simp]: "digits_val [] = 0"
  by (simp add: digits_val_def)

lemma digits_val_snoc [simp]: "digits_val (s @ [c]) = 10 * digits_val s + digit_val c"
  by (simp add: digits_val_def)

lemma of_char_digit [simp]: "n < 10 \<Longrightarrow> (of_char (digit_char n) :: nat) = 48 + n"
  by (simp add: digit_char_def of_char_of)

lemma digit_val_char [simp]: "n < 10 \<Longrightarrow> digit_val (digit_char n) = n"
  by (simp add: digit_val_def)

lemma is_digit_char [simp]: "n < 10 \<Longrightarrow> is_digit (digit_char n)"
  by (simp add: is_digit_def)

lemma digits_val_dec [simp]: "digits_val (dec n) = n"
proof (induction n rule: dec.induct)
  case (1 n)
  then show ?case
    using digits_val_snoc [of "[]"] by (cases "n < 10") (simp_all add: dec.simps [of n])
qed

lemma dec_digits: "c \<in> set (dec n) \<Longrightarrow> is_digit c"
proof (induction n rule: dec.induct)
  case (1 n)
  then show ?case by (cases "n < 10") (auto simp: dec.simps [of n])
qed

lemma dec_not_Nil [simp]: "dec n \<noteq> []"
  by (simp add: dec.simps [of n])

lemma length_dec: "0 < k \<Longrightarrow> n < 10 ^ k \<Longrightarrow> length (dec n) \<le> k"
proof (induction n arbitrary: k rule: dec.induct)
  case (1 n)
  show ?case
  proof (cases "n < 10")
    case True
    then show ?thesis using 1(2) by (simp add: dec.simps [of n])
  next
    case False
    then obtain j where j: "k = Suc j" "0 < j"
      using 1(2,3) by (cases k; cases "k - 1") auto
    have "n div 10 < 10 ^ j" using 1(3) j by (simp add: less_mult_imp_div_less mult.commute)
    then show ?thesis using 1(1) [OF False j(2)] False j by (simp add: dec.simps [of n])
  qed
qed

lemma digit_chars:
  "digit_char 0 = CHR ''0''" "digit_char 1 = CHR ''1''" 
  "digit_char (Suc 0) = CHR ''1''" "digit_char 2 = CHR ''2''"
  "digit_char 3 = CHR ''3''" "digit_char 4 = CHR ''4''" "digit_char 5 = CHR ''5''"
  "digit_char 6 = CHR ''6''" "digit_char 7 = CHR ''7''" "digit_char 8 = CHR ''8''"
  "digit_char 9 = CHR ''9''"
  by (simp_all add: digit_char_def char_of_def bit_0)
definition hex_digit :: "nat \<Rightarrow> char" where
  "hex_digit n = char_of (if n < 10 then 48 + n else 55 + n)"

text \<open>The format \<^verbatim>\<open>%02X\<close> of an octet.\<close>

definition hex2 :: "u8 \<Rightarrow> string" where
  "hex2 b = [hex_digit (unat b div 16), hex_digit (unat b mod 16)]"

lemma length_hex2 [simp]: "length (hex2 b) = 2"
  by (simp add: hex2_def)

section \<open>Bounded buffers\<close>

text \<open>\<^verbatim>\<open>snprintf(buf + used, cap - used, ...)\<close>: the contents of a buffer of
  \<^verbatim>\<open>cap\<close> characters after its first \<^verbatim>\<open>used\<close> ones, the terminating null left out.\<close>

definition append_bounded :: "nat \<Rightarrow> string \<Rightarrow> string \<Rightarrow> string" where
  "append_bounded cap buf s = buf @ take (cap - length buf - 1) s"

lemma length_append_bounded: "length buf < cap \<Longrightarrow> length (append_bounded cap buf s) < cap"
  by (simp add: append_bounded_def)

lemma append_bounded_fits:
  "length buf + length s < cap \<Longrightarrow> append_bounded cap buf s = buf @ s"
  by (simp add: append_bounded_def)

end
