(* ===== verification/Frame_Summary.thy ===== *)
theory Frame_Summary
  imports Bacnet_Frame Id_Names Text_Util
begin

text \<open>
  The one-line summary of a frame, \<^verbatim>\<open>SummarizeBacnetFrame\<close> of
  \<^verbatim>\<open>src/common/CASExampleHelper.cpp\<close>, with its bounded buffers: the caller's
  \<^verbatim>\<open>outSummary\<close> and the local \<^verbatim>\<open>body[128]\<close>.
\<close>

section \<open>The route suffix\<close>

text \<open>\<^verbatim>\<open>AppendHex\<close>: the loop stops at \<^verbatim>\<open>length\<close> octets or when no two
  characters are left; reading an octet outside the frame is \<^verbatim>\<open>None\<close>.\<close>

fun AppendHex :: "nat \<Rightarrow> bytes \<Rightarrow> nat \<Rightarrow> nat \<Rightarrow> string \<Rightarrow> string option" where
  "AppendHex cap frame pos 0 buf = Some buf"
| "AppendHex cap frame pos (Suc n) buf =
    (if length buf + 2 < cap
     then do { b \<leftarrow> rd frame pos; AppendHex cap frame (pos + 1) n (append_bounded cap buf (hex2 b)) }
     else Some buf)"

definition AppendRouteSuffix :: "nat \<Rightarrow> bytes \<Rightarrow> string \<Rightarrow> decoded_frame \<Rightarrow> string option" where
  "AppendRouteSuffix cap frame buf d =
    (if \<not> hasDest d then Some buf
     else
       let buf = append_bounded cap buf ('' DNET='' @ dec (unat (dnet d))) in
       (case dadr d of
          None \<Rightarrow> Some buf
        | Some pos \<Rightarrow>
            if dadrLength d > 0
            then AppendHex cap frame pos (unat (dadrLength d)) (append_bounded cap buf '' DADR='')
            else Some buf))"

section \<open>The body\<close>

definition BODY_SIZE :: nat where
  "BODY_SIZE = 128"

text \<open>One case of the switch: the PDU alone, with the name of its service or reason, or with the
  number.\<close>

definition describe ::
  "string \<Rightarrow> string \<Rightarrow> bool \<Rightarrow> (u8 \<Rightarrow> string option) \<Rightarrow> u8 \<Rightarrow> string" where
  "describe pdu what present name_of v =
    append_bounded BODY_SIZE []
      (if \<not> present then pdu
       else (case name_of v of
               Some name \<Rightarrow> pdu @ '': '' @ name
             | None \<Rightarrow> pdu @ '': '' @ what @ ''='' @ dec (unat v)))"

definition pdu_body :: "decoded_frame \<Rightarrow> string" where
  "pdu_body d =
    (let service = (\<lambda>pdu. describe pdu ''service'' (hasServiceChoice d) ConfirmedServiceName
          (serviceChoice d)) in
     if pduType d = 0 then service ''ConfirmedRequest''
     else if pduType d = 1 then
       describe ''Unconfirmed'' ''service'' (hasServiceChoice d) UnconfirmedServiceName (serviceChoice d)
     else if pduType d = 2 then service ''SimpleACK''
     else if pduType d = 3 then service ''ComplexACK''
     else if pduType d = 4 then ''SegmentACK''
     else if pduType d = 5 then service ''Error''
     else if pduType d = 6 then describe ''Reject'' ''reason'' (hasReason d) RejectReasonName (reason d)
     else if pduType d = 7 then describe ''Abort'' ''reason'' (hasReason d) AbortReasonName (reason d)
     else ''?'')"

definition object_property_text :: "decoded_frame \<Rightarrow> string option" where
  "object_property_text d = do {
     typeName \<leftarrow> ObjectTypeName (objectType d);
     propName \<leftarrow> PropertyName (propertyId d);
     let index = (if hasArrayIndex d then ''['' @ dec (unat (arrayIndex d)) @ '']'' else []);
     Some
       (case (typeName, propName) of
          (Some ty, Some pid) \<Rightarrow>
            '' '' @ ty @ '' '' @ dec (unat (objectInstance d)) @ ''.'' @ pid @ index
        | _ \<Rightarrow>
            '' object-type='' @ dec (unat (objectType d)) @ '' '' @ dec (unat (objectInstance d)) @
            ''.property='' @ dec (unat (propertyId d)) @ index) }"

definition summary_body :: "decoded_frame \<Rightarrow> string option" where
  "summary_body d =
    (if hasObjectProperty d
     then do {
       detail \<leftarrow> object_property_text d;
       Some (append_bounded BODY_SIZE (pdu_body d) detail) }
     else Some (pdu_body d))"

section \<open>The summary\<close>

text \<open>The contents of \<^verbatim>\<open>outSummary\<close> when the function returns; a null or empty buffer is
  left alone and has no contents here.\<close>

definition SummarizeBacnetFrame :: "bytes option \<Rightarrow> nat \<Rightarrow> nat \<Rightarrow> string option" where
  "SummarizeBacnetFrame memory frameLength outLength =
    (if outLength = 0 then Some []
     else do {
       d \<leftarrow> DecodeBacnetFrame memory frameLength;
       let out = append_bounded outLength [];
       let frame = (case memory of Some f \<Rightarrow> f | None \<Rightarrow> []);
       if \<not> bacnetIp d then Some (out ''?'')
       else if \<not> hasNpdu d then Some (out (''BVLC function=0x'' @ hex2 (bvlcFunction d)))
       else if isNetworkMessage d then
         AppendRouteSuffix outLength frame
           (out (case NetworkMessageName (networkMessageType d) of
                   Some name \<Rightarrow> ''Network-Layer-Message: '' @ name
                 | None \<Rightarrow> ''Network-Layer-Message: type='' @ dec (unat (networkMessageType d)))) d
       else if \<not> hasApdu d then Some (out ''?'')
       else do {
         body \<leftarrow> summary_body d;
         AppendRouteSuffix outLength frame (out body) d } })"

section \<open>The pointers and the buffers\<close>

text \<open>The route pointers of a decoded frame stay inside it.\<close>

fun pointer_inside :: "nat \<Rightarrow> nat option \<Rightarrow> u8 \<Rightarrow> bool" where
  "pointer_inside n None len \<longleftrightarrow> True"
| "pointer_inside n (Some p) len \<longleftrightarrow> p + unat len \<le> n"

definition routes_inside :: "nat \<Rightarrow> decoded_frame \<Rightarrow> bool" where
  "routes_inside n d \<longleftrightarrow>
    pointer_inside n (dadr d) (dadrLength d) \<and> pointer_inside n (sadr d) (sadrLength d)"

fun walk_inside :: "nat \<Rightarrow> walk \<Rightarrow> bool" where
  "walk_inside n None \<longleftrightarrow> True"
| "walk_inside n (Some (Inl d)) \<longleftrightarrow> routes_inside n d"
| "walk_inside n (Some (Inr (offset, d))) \<longleftrightarrow> routes_inside n d"

lemma walk_inside_then:
  "walk_inside n w \<Longrightarrow> (\<And>offset d. routes_inside n d \<Longrightarrow> walk_inside n (f offset d)) \<Longrightarrow>
    walk_inside n (walk_then w f)"
  by (induction w f rule: walk_then.induct) simp_all

lemma DecodeNpduControl_inside:
  "routes_inside n d \<Longrightarrow> walk_inside n (DecodeNpduControl frame n offset d)"
  by (simp add: DecodeNpduControl_def routes_inside_def split: Option.bind_split)

lemma wrap_end: "n \<le> 65535 \<Longrightarrow> wrap32 a \<le> n \<Longrightarrow> wrap32 (wrap32 a + unat (b :: u8)) = wrap32 a + unat b"
  by (rule wrap32_small) (use unat_u8_less [of b] in linarith)

lemma DecodeDestination_inside:
  "n \<le> 65535 \<Longrightarrow> routes_inside n d \<Longrightarrow> walk_inside n (DecodeDestination frame n offset d)"
  by (simp add: DecodeDestination_def routes_inside_def Let_def wrap_end not_less split: Option.bind_split)

lemma DecodeSource_inside:
  "n \<le> 65535 \<Longrightarrow> routes_inside n d \<Longrightarrow> walk_inside n (DecodeSource frame n offset d)"
  by (simp add: DecodeSource_def routes_inside_def Let_def wrap_end not_less split: Option.bind_split)

lemma DecodeHopCount_inside:
  "routes_inside n d \<Longrightarrow> walk_inside n (DecodeHopCount frame n offset d)"
  by (simp add: DecodeHopCount_def Let_def)

lemma DecodeBvlc_inside: "walk_inside n (DecodeBvlc m n)"
  by (simp add: DecodeBvlc_def Let_def DecodedFrame_def routes_inside_def split: option.split Option.bind_split)

lemma DecodeNpdu_inside:
  "n \<le> 65535 \<Longrightarrow> routes_inside n d \<Longrightarrow> walk_inside n (DecodeNpdu frame n offset d)"
  unfolding DecodeNpdu_def
  by (intro walk_inside_then DecodeNpduControl_inside DecodeDestination_inside DecodeSource_inside DecodeHopCount_inside)

fun same_routes :: "decoded_frame \<Rightarrow> decoded_frame option \<Rightarrow> bool" where
  "same_routes d None \<longleftrightarrow> True"
| "same_routes d (Some e) \<longleftrightarrow> dadr e = dadr d \<and> dadrLength e = dadrLength d \<and> sadr e = sadr d \<and> sadrLength e = sadrLength d"

lemma DecodeArrayIndex_routes: "same_routes d (DecodeArrayIndex frame n pos d)"
  by (simp add: DecodeArrayIndex_def split: option.split Option.bind_split)

lemma same_routes_trans: "same_routes d' m \<Longrightarrow> same_routes d (Some d') \<Longrightarrow> same_routes d m"
  by (cases m) simp_all

lemma DecodePropertyId_routes: "same_routes d (DecodePropertyId frame n pos v d)"
  by (auto simp: DecodePropertyId_def Let_def intro!: same_routes_trans [OF DecodeArrayIndex_routes] split: option.split Option.bind_split)

lemma DecodeObjectAndProperty_routes: "same_routes d (DecodeObjectAndProperty frame n pos d)"
  by (simp add: DecodeObjectAndProperty_def Let_def DecodePropertyId_routes split: option.split Option.bind_split)

lemma object_property_routes:
  "same_routes d (Some e) \<Longrightarrow> same_routes d (DecodeObjectAndProperty frame n pos e)"
  by (rule same_routes_trans [OF DecodeObjectAndProperty_routes])

lemma DecodeTwoOctets_routes:
  "put = put_service \<or> put = put_reason \<Longrightarrow> same_routes d (Some e) \<Longrightarrow>
    same_routes d (DecodeTwoOctets frame n offset put e)"
  by (elim disjE) (simp_all add: DecodeTwoOctets_def put_service_def put_reason_def split: Option.bind_split)

lemma DecodeConfirmedRequest_routes:
  "same_routes d (Some e) \<Longrightarrow> same_routes d (DecodeConfirmedRequest frame n offset b e)"
  by (simp add: DecodeConfirmedRequest_def put_service_def Let_def object_property_routes
      split: Option.bind_split)

lemma DecodeComplexAck_routes:
  "same_routes d (Some e) \<Longrightarrow> same_routes d (DecodeComplexAck frame n offset b e)"
  by (simp add: DecodeComplexAck_def put_service_def Let_def object_property_routes
      split: Option.bind_split)

lemma DecodeApdu_routes: "same_routes d (DecodeApdu frame n offset d)"
  by (simp add: DecodeApdu_def Let_def DecodeConfirmedRequest_routes DecodeComplexAck_routes
      DecodeTwoOctets_routes put_service_def split: Option.bind_split)

lemma DecodeBacnetFrame_inside:
  assumes "n \<le> 65535" "DecodeBacnetFrame m n = Some d" shows "routes_inside n d"
proof -
  define frame where "frame = (case m of Some frame \<Rightarrow> frame | None \<Rightarrow> [])"
  obtain w where w: "walk_then (DecodeBvlc m n) (\<lambda>offset d. DecodeNpdu frame n offset d) = Some w"
    "(case w of Inl d \<Rightarrow> Some d | Inr (offset, d) \<Rightarrow> DecodeApdu frame n offset d) = Some d"
    using assms(2) unfolding DecodeBacnetFrame_def frame_def [symmetric] Option.bind_eq_Some_conv
    by blast
  have inside: "walk_inside n (Some w)"
    unfolding w(1) [symmetric]
    by (intro walk_inside_then DecodeBvlc_inside DecodeNpdu_inside assms(1))
  show ?thesis
  proof (cases w)
    case (Inl e) then show ?thesis using inside w(2) by simp
  next
    case (Inr p)
    obtain offset e where p: "p = (offset, e)" by fastforce
    have "same_routes e (Some d)"
      using DecodeApdu_routes [of e frame n offset] w(2) Inr p by simp
    then show ?thesis using inside Inr p by (simp add: routes_inside_def)
  qed
qed

lemma AppendHex_safe: "pos + k \<le> length frame \<Longrightarrow> safe (AppendHex cap frame pos k buf)"
  by (induction cap frame pos k buf rule: AppendHex.induct) (auto simp: safe_bind)

lemma AppendHex_bounded:
  "AppendHex cap frame pos k buf = Some s \<Longrightarrow> length buf < cap \<Longrightarrow> length s < cap"
  by (induction cap frame pos k buf rule: AppendHex.induct)
    (auto simp: Option.bind_eq_Some_conv length_append_bounded split: if_splits)

lemma AppendRouteSuffix_safe:
  "routes_inside n d \<Longrightarrow> n \<le> length frame \<Longrightarrow> safe (AppendRouteSuffix cap frame buf d)"
  by (auto simp: AppendRouteSuffix_def Let_def routes_inside_def intro!: AppendHex_safe split: option.split)

lemma AppendRouteSuffix_bounded:
  "AppendRouteSuffix cap frame buf d = Some s \<Longrightarrow> length buf < cap \<Longrightarrow> length s < cap"
  by (auto simp: AppendRouteSuffix_def Let_def length_append_bounded dest!: AppendHex_bounded split: option.splits if_splits)

lemma object_property_text_safe: "safe (object_property_text d)"
  by (simp add: object_property_text_def ObjectTypeName_map_of PropertyName_map_of Let_def)

lemma summary_body_safe: "safe (summary_body d)"
  by (simp add: summary_body_def safe_bind object_property_text_safe)

lemma SummarizeBacnetFrame_safe:
  assumes "fits frame n" shows "safe (SummarizeBacnetFrame (Some frame) n cap)"
proof -
  have "safe (AppendRouteSuffix cap frame buf d)" if "DecodeBacnetFrame (Some frame) n = Some d" for d buf
    using that assms by (intro AppendRouteSuffix_safe [of n]) (auto simp: fits_def intro: DecodeBacnetFrame_inside)
  then show ?thesis
    by (simp add: SummarizeBacnetFrame_def safe_bind DecodeBacnetFrame_safe [OF assms] summary_body_safe Let_def)
qed

lemma SummarizeBacnetFrame_bounded:
  assumes "SummarizeBacnetFrame m n cap = Some s" "0 < cap" shows "length s < cap"
  using assms
  by (auto simp: SummarizeBacnetFrame_def Let_def Option.bind_eq_Some_conv length_append_bounded
     dest!: AppendRouteSuffix_bounded split: if_splits)

section \<open>What a summary says\<close>

lemma service_12: "ConfirmedServiceName 12 = Some ''ReadProperty''"
  by (simp add: ConfirmedServiceName_def index_name_def confirmed_service_names_def)

definition index_text :: "u32 option \<Rightarrow> string" where
  "index_text idx = (case idx of None \<Rightarrow> [] | Some i \<Rightarrow> ''['' @ dec (unat i) @ '']'')"

definition read_property_text :: "string \<Rightarrow> u32 \<Rightarrow> string \<Rightarrow> u32 option \<Rightarrow> string" where
  "read_property_text type_name inst property_name idx =
    ''ConfirmedRequest: ReadProperty '' @ type_name @ '' '' @ dec (unat inst) @ ''.'' @
    property_name @ index_text idx"

lemma summary_body_read_property:
  assumes "unat ty < 1024" "map_of OBJECT_TYPE_NAMES (unat ty) = Some tn"
    "map_of PROPERTY_NAMES (unat pid) = Some pn"
    "length (read_property_text tn inst pn idx) < 128"
  shows "summary_body (read_property_fields invoke ty inst pid idx d) =
    Some (read_property_text tn inst pn idx)"
proof -
  have ty: "unat (ucast ty :: u16) = unat ty"
    using assms(1) by (simp add: unsigned_ucast_eq unsigned_take_bit_eq take_bit_nat_eq_self)
  have idx: "(if idx \<noteq> None then ''['' @ dec (unat (case idx of None \<Rightarrow> 0 | Some i \<Rightarrow> i)) @ '']'' else []) = index_text idx"
    by (cases idx) (simp_all add: index_text_def)
  have body: "pdu_body (read_property_fields invoke ty inst pid idx d) = ''ConfirmedRequest: ReadProperty''"
    by (simp add: pdu_body_def read_property_fields_def property_fields_def describe_def service_12
        append_bounded_def BODY_SIZE_def)
  have "object_property_text (read_property_fields invoke ty inst pid idx d) =
      Some ('' '' @ tn @ '' '' @ dec (unat inst) @ ''.'' @ pn @ index_text idx)"
    unfolding idx [symmetric]
    by (simp add: object_property_text_def ObjectTypeName_map_of PropertyName_map_of
        read_property_fields_def property_fields_def ty assms(2,3) Let_def)
  moreover have "hasObjectProperty (read_property_fields invoke ty inst pid idx d)"
    by (simp add: read_property_fields_def property_fields_def)
  ultimately show ?thesis
    using assms(4)
    by (simp add: summary_body_def body append_bounded_fits BODY_SIZE_def read_property_text_def)
qed

lemma read_property_decoded_flags:
  "bacnetIp (read_property_fields invoke ty inst pid idx
      (header_fields bvlc len origin control None src))"
  "hasNpdu (read_property_fields invoke ty inst pid idx
      (header_fields bvlc len origin control None src))"
  "hasApdu (read_property_fields invoke ty inst pid idx
      (header_fields bvlc len origin control None src))"
  "\<not> hasDest (read_property_fields invoke ty inst pid idx
      (header_fields bvlc len origin control None src))"
  "isNetworkMessage (read_property_fields invoke ty inst pid idx
      (header_fields bvlc len origin control None src)) = (control AND 0x80 \<noteq> 0)"
  by (simp_all add: read_property_fields_def property_fields_def header_fields_def npdu_fields_def
      DecodedFrame_def)

text \<open>The one-line summary of a ReadProperty request of any object and property the tables name,
  sent without a destination specifier, is its service, object, property and index, cut to the
  caller's buffer.\<close>

theorem read_property_summary:
  assumes "header_ok bvlc origin control None src" "control AND 0x80 = 0"
    "unat ty < 1024" "unat inst < 4194304"
    "n = length (encode_frame bvlc len origin control None src hop
      (read_property_apdu max_apdu invoke ty inst pid idx))" "n \<le> 65535"
    "map_of OBJECT_TYPE_NAMES (unat ty) = Some tn"
    "map_of PROPERTY_NAMES (unat pid) = Some pn"
    "length (read_property_text tn inst pn idx) < 128" "0 < cap"
  shows "SummarizeBacnetFrame (Some (encode_frame bvlc len origin control None src hop
      (read_property_apdu max_apdu invoke ty inst pid idx))) n cap =
    Some (take (cap - 1) (read_property_text tn inst pn idx))"
proof -
  define frame where "frame = encode_frame bvlc len origin control None src hop
      (read_property_apdu max_apdu invoke ty inst pid idx)"
  define d where "d = read_property_fields invoke ty inst pid idx
      (header_fields bvlc len origin control None src)"
  have "DecodeBacnetFrame (Some frame) n = Some d"
    unfolding frame_def d_def by (rule read_property_frame_decodes [OF assms(1-6)])
  moreover have "summary_body d = Some (read_property_text tn inst pn idx)"
    unfolding d_def by (rule summary_body_read_property [OF assms(3,7-9)])
  moreover have "bacnetIp d" "hasNpdu d" "hasApdu d" "\<not> hasDest d" "\<not> isNetworkMessage d"
    using assms(2) by (simp_all add: d_def read_property_decoded_flags)
  ultimately show ?thesis
    unfolding frame_def [symmetric]
    using assms(10) by (simp add: SummarizeBacnetFrame_def AppendRouteSuffix_def append_bounded_def)
qed

lemma object_name_named: "map_of PROPERTY_NAMES 77 = Some ''Object_Name''"
  by (rule map_of_is_SomeI [OF ascending_distinct [OF property_names_ascending]])
    (simp add: PROPERTY_NAMES_def PROPERTY_NAMES_1_def)

lemma device_named: "map_of OBJECT_TYPE_NAMES 8 = Some ''Device''"
  by (simp add: OBJECT_TYPE_NAMES_def)

lemma read_property_example_length:
  "length (encode_frame 0x0A 17 [] 4 None None 0 (read_property_apdu 5 1 8 389022 77 None)) = 17"
  by (simp add: encode_frame_def encode_bvlc_def encode_npdu_def encode_hop_def read_property_apdu_def
      encode_object_property_def encode_context_unsigned_def encode_tag_def encode_number_def
      encode_length_def unsigned_octets_def)

lemma dec_389022: "dec 389022 = ''389022''"
  by (simp add: dec.simps digit_chars)

theorem read_property_summary_witness:
  "SummarizeBacnetFrame (Some (encode_frame 0x0A 17 [] 4 None None 0
      (read_property_apdu 5 1 8 389022 77 None))) 17 200 =
    Some ''ConfirmedRequest: ReadProperty Device 389022.Object_Name''"
proof -
  have shown: "read_property_text ''Device'' 389022 ''Object_Name'' None =
      ''ConfirmedRequest: ReadProperty Device 389022.Object_Name''"
    by (simp add: read_property_text_def index_text_def dec_389022)
  have "header_ok 0x0A [] 4 None None"
    by (simp add: header_ok_def bvlc_ok_def control_ok_def)
  then have "SummarizeBacnetFrame (Some (encode_frame 0x0A 17 [] 4 None None 0
      (read_property_apdu 5 1 8 389022 77 None))) 17 200 =
    Some (take (200 - 1) (read_property_text ''Device'' 389022 ''Object_Name'' None))"
    by (rule read_property_summary) (simp_all add: shown read_property_example_length object_name_named device_named)
  then show ?thesis unfolding shown by simp
qed

text \<open>A network layer message that ends after its NPCI, without a message type, is summarised as
  a Who-Is-Router-To-Network: the decoder leaves the type at its initial 0.\<close>

theorem truncated_network_message_summary:
  "SummarizeBacnetFrame (Some [0x81, 0x0A, 0, 6, 1, 0x80]) 6 cap =
    Some (take (cap - 1) ''Network-Layer-Message: Who-Is-Router-To-Network'')"
proof -
  have "DecodeBacnetFrame (Some [0x81, 0x0A, 0, 6, 1, 0x80]) 6 =
      Some (DecodedFrame\<lparr>bacnetIp := True, bvlcFunction := 0x0A, hasNpdu := True, npduVersion := 1,
        npduControl := 0x80, isNetworkMessage := True\<rparr>)"
    by (simp add: DecodeBacnetFrame_def DecodeBvlc_def DecodeNpdu_def DecodeNpduControl_def
        DecodeDestination_def DecodeSource_def DecodeHopCount_def DecodedFrame_def)
  then show ?thesis
    by (simp add: SummarizeBacnetFrame_def NetworkMessageName_def AppendRouteSuffix_def DecodedFrame_def
        append_bounded_def Let_def)
qed

text \<open>For any frame of a \<^verbatim>\<open>uint16_t\<close> length and any buffer, the summary reads only the
  frame's octets and writes less than the buffer's size, its terminating null included.\<close>

theorem summary_stays_in_its_buffers:
  assumes "n \<le> length frame" "n \<le> 65535" "0 < cap"
  shows "\<exists>s. SummarizeBacnetFrame (Some frame) n cap = Some s \<and> length s < cap"
proof -
  have "safe (SummarizeBacnetFrame (Some frame) n cap)"
    using assms by (intro SummarizeBacnetFrame_safe) (simp add: fits_def)
  then show ?thesis
    using SummarizeBacnetFrame_bounded [OF _ assms(3)] by (auto simp: safe_def)
qed

theorem summary_stays_in_its_buffers_witness:
  "\<exists>s. SummarizeBacnetFrame (Some [0x81, 0x0A, 0, 9, 1, 0x20, 0, 5, 3]) 9 20 = Some s \<and> length s < 20"
  using summary_stays_in_its_buffers [of 9 "[0x81, 0x0A, 0, 9, 1, 0x20, 0, 5, 3]" 20] by simp

end
