(* ===== verification/Ordered_Map.thy ===== *)
theory Ordered_Map
  imports Prelude
begin

text \<open>
  \<^verbatim>\<open>std::map\<close> and \<^verbatim>\<open>std::set\<close>, whose iteration order the sources rely on: an
  association list, or a list, in strictly ascending key order.  The laws their clients use are
  the locales \<^verbatim>\<open>ordered_map\<close> and \<^verbatim>\<open>ordered_set\<close>, interpreted on these models.
\<close>

section \<open>The interfaces\<close>

locale ordered_map =
  fixes ok :: "'m \<Rightarrow> bool"
    and none :: "'m"
    and look :: "'m \<Rightarrow> 'k \<Rightarrow> 'v option"
    and put :: "'k \<Rightarrow> 'v \<Rightarrow> 'm \<Rightarrow> 'm"
    and del :: "'k \<Rightarrow> 'm \<Rightarrow> 'm"
  assumes ok_none: "ok none"
    and look_none: "look none k = None"
    and ok_put: "ok m \<Longrightarrow> ok (put k v m)"
    and look_put: "ok m \<Longrightarrow> look (put k v m) = (look m)(k := Some v)"
    and ok_del: "ok m \<Longrightarrow> ok (del k m)"
    and look_del: "ok m \<Longrightarrow> look (del k m) = (look m)(k := None)"
    and same: "ok a \<Longrightarrow> ok b \<Longrightarrow> look a = look b \<Longrightarrow> a = b"
begin

lemma put_put: "ok m \<Longrightarrow> put k v (put k w m) = put k v m"
  by (rule same) (simp_all add: ok_put look_put)

lemma put_commute: "ok m \<Longrightarrow> k \<noteq> l \<Longrightarrow> put k v (put l w m) = put l w (put k v m)"
  by (rule same) (simp_all add: ok_put look_put fun_upd_twist)

lemma put_present: "ok m \<Longrightarrow> look m k = Some v \<Longrightarrow> put k v m = m"
  by (rule same) (auto simp: ok_put look_put)

lemma del_absent: "ok m \<Longrightarrow> look m k = None \<Longrightarrow> del k m = m"
  by (rule same) (auto simp: ok_del look_del)

lemma del_put: "ok m \<Longrightarrow> look m k = None \<Longrightarrow> del k (put k v m) = m"
  by (rule same) (auto simp: ok_del ok_put look_del look_put)

definition put_all :: "('k \<times> 'v) list \<Rightarrow> 'm \<Rightarrow> 'm" where
  "put_all kvs m = fold (\<lambda>(k, v). put k v) kvs m"

lemma put_all_Nil: "put_all [] m = m"
  by (simp add: put_all_def)

lemma put_all_Cons: "put_all ((k, v) # kvs) m = put_all kvs (put k v m)"
  by (simp add: put_all_def)

lemma ok_put_all: "ok m \<Longrightarrow> ok (put_all kvs m)"
  by (induction kvs arbitrary: m) (auto simp: put_all_def ok_put)

lemma look_put_all:
  "ok m \<Longrightarrow> distinct (map fst kvs) \<Longrightarrow> look (put_all kvs m) = look m ++ map_of kvs"
proof (induction kvs arbitrary: m)
  case Nil
  then show ?case by (simp add: put_all_def)
next
  case (Cons kv kvs)
  obtain k v where kv: "kv = (k, v)" by fastforce
  have "look (put_all (kv # kvs) m) = look (put k v m) ++ map_of kvs"
    using Cons kv by (simp add: put_all_Cons ok_put)
  also have "\<dots> = look m ++ map_of (kv # kvs)"
  proof -
    have "map_of kvs k = None" using Cons.prems kv by (simp add: map_of_eq_None_iff)
    then show ?thesis
      using Cons.prems kv by (auto simp: look_put map_add_def fun_eq_iff split: option.split)
  qed
  finally show ?case .
qed

end

locale ordered_set =
  fixes ok :: "'s \<Rightarrow> bool"
    and none :: "'s"
    and elems :: "'s \<Rightarrow> 'a set"
    and add :: "'a \<Rightarrow> 's \<Rightarrow> 's"
  assumes ok_none: "ok none"
    and elems_none: "elems none = {}"
    and ok_add: "ok s \<Longrightarrow> ok (add x s)"
    and elems_add: "ok s \<Longrightarrow> elems (add x s) = insert x (elems s)"
    and same: "ok a \<Longrightarrow> ok b \<Longrightarrow> elems a = elems b \<Longrightarrow> a = b"
begin

lemma add_present: "ok s \<Longrightarrow> x \<in> elems s \<Longrightarrow> add x s = s"
  by (rule same) (auto simp: ok_add elems_add)

lemma add_commute: "ok s \<Longrightarrow> add x (add y s) = add y (add x s)"
  by (rule same) (auto simp: ok_add elems_add)

lemma ok_add_all: "ok s \<Longrightarrow> ok (fold add xs s)"
  by (induction xs arbitrary: s) (auto simp: ok_add)

lemma elems_add_all: "ok s \<Longrightarrow> elems (fold add xs s) = elems s \<union> set xs"
  by (induction xs arbitrary: s) (auto simp: ok_add elems_add)

lemma add_all_present: "ok s \<Longrightarrow> set xs \<subseteq> elems s \<Longrightarrow> fold add xs s = s"
  by (rule same) (auto simp: ok_add_all elems_add_all)

end

section \<open>std::map\<close>

type_synonym ('k, 'v) omap = "('k \<times> 'v) list"

definition omap_ok :: "('k::linorder, 'v) omap \<Rightarrow> bool" where
  "omap_ok m \<longleftrightarrow> sorted_wrt (<) (map fst m)"

fun omap_put :: "'k::linorder \<Rightarrow> 'v \<Rightarrow> ('k, 'v) omap \<Rightarrow> ('k, 'v) omap" where
  "omap_put k v [] = [(k, v)]"
| "omap_put k v ((k', v') # m) =
    (if k < k' then (k, v) # (k', v') # m
     else if k = k' then (k, v) # m
     else (k', v') # omap_put k v m)"

fun omap_del :: "'k::linorder \<Rightarrow> ('k, 'v) omap \<Rightarrow> ('k, 'v) omap" where
  "omap_del k [] = []"
| "omap_del k ((k', v') # m) = (if k = k' then m else (k', v') # omap_del k m)"

definition omap_has :: "('k, 'v) omap \<Rightarrow> 'k \<Rightarrow> bool" where
  "omap_has m k \<longleftrightarrow> map_of m k \<noteq> None"

lemma omap_ok_Nil [simp]: "omap_ok []"
  by (simp add: omap_ok_def)

lemma omap_ok_Cons [simp]:
  "omap_ok ((k, v) # m) \<longleftrightarrow> (\<forall>k' \<in> fst ` set m. k < k') \<and> omap_ok m"
  by (auto simp: omap_ok_def)

lemma omap_ok_distinct: "omap_ok m \<Longrightarrow> distinct (map fst m)"
  by (simp add: omap_ok_def strict_sorted_iff)

lemma map_of_omap_put [simp]: "omap_ok m \<Longrightarrow> map_of (omap_put k v m) = (map_of m)(k \<mapsto> v)"
  by (induction k v m rule: omap_put.induct) (auto simp: fun_eq_iff)

lemma keys_omap_put [simp]: "fst ` set (omap_put k v m) = insert k (fst ` set m)"
  by (induction k v m rule: omap_put.induct) auto

lemma omap_ok_put [simp]: "omap_ok m \<Longrightarrow> omap_ok (omap_put k v m)"
  by (induction k v m rule: omap_put.induct) auto

lemma keys_omap_del: "fst ` set (omap_del k m) \<subseteq> fst ` set m"
  by (induction k m rule: omap_del.induct) auto

lemma omap_ok_del [simp]: "omap_ok m \<Longrightarrow> omap_ok (omap_del k m)"
  using keys_omap_del by (induction k m rule: omap_del.induct) fastforce+

lemma map_of_omap_del [simp]: "omap_ok m \<Longrightarrow> map_of (omap_del k m) = (map_of m)(k := None)"
proof (induction k m rule: omap_del.induct)
  case (2 k k' v' m)
  moreover have "map_of m k = None" if "\<forall>l \<in> fst ` set m. k < l"
    using that by (auto simp: map_of_eq_None_iff)
  ultimately show ?case by (auto simp: fun_eq_iff)
qed simp

lemma omap_rebuild: "omap_ok m \<Longrightarrow> m = map (\<lambda>k. (k, the (map_of m k))) (map fst m)"
  using omap_ok_distinct [of m] by (auto intro!: map_idI [symmetric] simp: comp_def)

lemma omap_same:
  assumes "omap_ok a" "omap_ok b" "map_of a = map_of b" shows "a = b"
proof -
  have "fst ` set a = fst ` set b"
    using assms(3) by (metis dom_map_of_conv_image_fst)
  then have "map fst a = map fst b"
    using assms(1,2) by (intro strict_sorted_equal) (auto simp: omap_ok_def)
  then show ?thesis
    using assms by (metis omap_rebuild)
qed

interpretation std_map: ordered_map omap_ok "[]" map_of omap_put omap_del
  by unfold_locales (auto intro: omap_same)

section \<open>std::set\<close>

type_synonym 'a oset = "'a list"

definition oset_ok :: "('a::linorder) oset \<Rightarrow> bool" where
  "oset_ok s \<longleftrightarrow> sorted_wrt (<) s"

fun oset_add :: "'a::linorder \<Rightarrow> 'a oset \<Rightarrow> 'a oset" where
  "oset_add x [] = [x]"
| "oset_add x (y # s) = (if x < y then x # y # s else if x = y then y # s else y # oset_add x s)"

lemma set_oset_add [simp]: "set (oset_add x s) = insert x (set s)"
  by (induction x s rule: oset_add.induct) auto

lemma oset_ok_add [simp]: "oset_ok s \<Longrightarrow> oset_ok (oset_add x s)"
  by (induction x s rule: oset_add.induct) (auto simp: oset_ok_def)

lemma oset_ok_Nil [simp]: "oset_ok []"
  by (simp add: oset_ok_def)

lemma oset_same: "oset_ok a \<Longrightarrow> oset_ok b \<Longrightarrow> set a = set b \<Longrightarrow> a = b"
  unfolding oset_ok_def by (rule strict_sorted_equal) auto

interpretation std_set: ordered_set oset_ok "[]" set oset_add
  by unfold_locales (auto intro: oset_same)

text \<open>Inserting the elements of a set, or the entries of a map, one by one rebuilds it.\<close>

lemma rebuild_set: "oset_ok s \<Longrightarrow> fold oset_add s [] = s"
  by (rule oset_same) (auto simp: std_set.ok_add_all std_set.elems_add_all)

lemma rebuild_map: "omap_ok m \<Longrightarrow> std_map.put_all m [] = m"
  by (rule omap_same) (auto simp: std_map.ok_put_all std_map.look_put_all omap_ok_distinct)

end
