(* ===== verification/Cari_Zip.thy ===== *)
theory Cari_Zip
  imports Ordered_Map Text_Util
begin

text \<open>
  The CARI tree and its zip form, \<^verbatim>\<open>src/cari.cpp\<close> up to \<^verbatim>\<open>WriteZip\<close>.  The zlib
  operations \<^verbatim>\<open>Inflate\<close>, \<^verbatim>\<open>Deflate\<close> and \<^verbatim>\<open>crc32\<close>, and the DOS time and date
  of now, are arguments.  Sums of offsets are natural numbers: on the 64-bit targets a
  \<^verbatim>\<open>size_t\<close> or \<^verbatim>\<open>uint64_t\<close> sum of three fields of at most 32 bits does not wrap.
\<close>

section \<open>Fields\<close>

definition byte :: "char \<Rightarrow> u8" where
  "byte c = word_of_nat (of_char c)"

definition char_of_byte :: "u8 \<Rightarrow> char" where
  "char_of_byte b = char_of (unat b)"

definition Get16 :: "string \<Rightarrow> nat \<Rightarrow> u16 option" where
  "Get16 b at = do {
     lo \<leftarrow> rd b at;
     hi \<leftarrow> rd b (at + 1);
     Some (ucast (byte lo) OR push_bit 8 (ucast (byte hi))) }"

definition Get32 :: "string \<Rightarrow> nat \<Rightarrow> u32 option" where
  "Get32 b at = do {
     lo \<leftarrow> Get16 b at;
     hi \<leftarrow> Get16 b (at + 2);
     Some (ucast lo OR push_bit 16 (ucast hi)) }"

definition Put16 :: "u16 \<Rightarrow> string" where
  "Put16 v = [char_of_byte (ucast (v AND 0xFF)), char_of_byte (ucast (drop_bit 8 v))]"

definition Put32 :: "u32 \<Rightarrow> string" where
  "Put32 v = Put16 (ucast (v AND 0xFFFF)) @ Put16 (ucast (drop_bit 16 v))"

definition LOCAL_HEADER_SIG :: u32 where
  "LOCAL_HEADER_SIG = 0x04034b50"

definition CENTRAL_HEADER_SIG :: u32 where
  "CENTRAL_HEADER_SIG = 0x02014b50"

definition END_OF_CENTRAL_DIR_SIG :: u32 where
  "END_OF_CENTRAL_DIR_SIG = 0x06054b50"

text \<open>The limits of \<^verbatim>\<open>src/cari.h\<close>.\<close>

definition MAX_ZIP_BYTES :: nat where
  "MAX_ZIP_BYTES = 4 * 1024 * 1024"

definition MAX_ENTRIES :: nat where
  "MAX_ENTRIES = 4096"

definition MAX_TOTAL_UNCOMPRESSED :: nat where
  "MAX_TOTAL_UNCOMPRESSED = 16 * 1024 * 1024"

section \<open>The tree\<close>

record cari_tree =
  files :: "(string, string) omap"
  folders :: "string oset"

definition Tree :: cari_tree where
  "Tree = \<lparr>files = [], folders = []\<rparr>"

text \<open>The values \<^verbatim>\<open>partial\<close> takes in the loop of \<^verbatim>\<open>AddFolder\<close>.\<close>

fun partials :: "string \<Rightarrow> string list \<Rightarrow> string list" where
  "partials acc [] = []"
| "partials acc (p # ps) =
    (let acc = acc @ (if acc = [] then [] else ''/'') @ p in acc # partials acc ps)"

definition AddFolder :: "string \<Rightarrow> cari_tree \<Rightarrow> cari_tree" where
  "AddFolder path t = t\<lparr>folders := fold oset_add (partials [] (Split path)) (folders t)\<rparr>"

definition AddFile :: "string \<Rightarrow> string \<Rightarrow> cari_tree \<Rightarrow> cari_tree" where
  "AddFile path contents t =
    (let t = (case parent_path path of Some dir \<Rightarrow> AddFolder dir t | None \<Rightarrow> t) in
     t\<lparr>files := omap_put path contents (files t)\<rparr>)"

definition Remove :: "string \<Rightarrow> cari_tree \<Rightarrow> cari_tree" where
  "Remove path t = t\<lparr>files := omap_del path (files t)\<rparr>"

definition Has :: "cari_tree \<Rightarrow> string \<Rightarrow> bool" where
  "Has t path \<longleftrightarrow> omap_has (files t) path"

section \<open>Paths\<close>

definition control_char :: "char \<Rightarrow> bool" where
  "control_char c \<longleftrightarrow> (of_char c :: nat) < 0x20 \<or> (of_char c :: nat) = 0x7F"

definition safe_part :: "string \<Rightarrow> bool" where
  "safe_part part \<longleftrightarrow>
    \<not> (part = [] \<or> part = ''.'' \<or> part = ''..'') \<and> \<not> list_ex control_char part"

definition IsSafeZipPath :: "string \<Rightarrow> bool" where
  "IsSafeZipPath path =
    (if path = [] \<or> hd path = CHR ''/'' \<or> CHR 0x5C \<in> set path \<or> CHR '':'' \<in> set path then False
     else list_all safe_part (split_on (CHR ''/'') path))"

section \<open>Reading a zip\<close>

datatype zip_error =
    ZipTooBig
  | NotAZip
  | NoEndRecord
  | MultiPart
  | TooManyEntries
  | CentralOutOfRange
  | BadCentralEntry nat
  | NameOutOfRange
  | Encrypted string
  | Zip64
  | BadMethod string u16
  | UnsafePath string
  | UnpacksTooBig
  | BadLocalHeader string
  | DataOutOfRange string
  | BadSize string
  | CannotDecompress string
  | BadCrc string
  | AppearsTwice string

datatype inflate_rc = Z_STREAM_END | Z_BUF_ERROR | Z_FAILED

text \<open>What zlib does with a stream and an output buffer of the given size: nothing when
  \<^verbatim>\<open>inflateInit2\<close> fails, else the code of \<^verbatim>\<open>inflate\<close>,
  \<^verbatim>\<open>total_out\<close> and the buffer.\<close>

type_synonym zinflate = "string \<Rightarrow> nat \<Rightarrow> (inflate_rc \<times> nat \<times> string) option"
type_synonym crc = "string \<Rightarrow> u32"

definition Inflate :: "zinflate \<Rightarrow> string \<Rightarrow> nat \<Rightarrow> string option" where
  "Inflate zinflate input expected =
    (case zinflate input expected of
       None \<Rightarrow> None
     | Some (rc, total_out, out) \<Rightarrow>
         if rc = Z_STREAM_END \<and> total_out = expected \<or> expected = 0 \<and> rc = Z_BUF_ERROR
         then Some out else None)"

text \<open>The search for the end record, downwards from \<^verbatim>\<open>at - 1\<close> to
  \<^verbatim>\<open>lowest\<close>; the inner \<^verbatim>\<open>None\<close> is \<^verbatim>\<open>npos\<close>.\<close>

fun find_eocd :: "string \<Rightarrow> nat \<Rightarrow> nat \<Rightarrow> nat option option" where
  "find_eocd archive lowest at =
    (if at > lowest
     then do {
       sig \<leftarrow> Get32 archive (at - 1);
       if sig = END_OF_CENTRAL_DIR_SIG then Some (Some (at - 1))
       else find_eocd archive lowest (at - 1) }
     else Some None)"

declare find_eocd.simps [simp del]

record central_header =
  c_flags :: u16
  c_method :: u16
  c_crc :: u32
  c_csize :: u32
  c_usize :: u32
  c_nameLen :: u16
  c_extraLen :: u16
  c_commentLen :: u16
  c_localOffset :: u32

definition read_central :: "string \<Rightarrow> nat \<Rightarrow> central_header option" where
  "read_central archive at = do {
     flags \<leftarrow> Get16 archive (at + 8);
     method \<leftarrow> Get16 archive (at + 10);
     crc \<leftarrow> Get32 archive (at + 16);
     csize \<leftarrow> Get32 archive (at + 20);
     usize \<leftarrow> Get32 archive (at + 24);
     nameLen \<leftarrow> Get16 archive (at + 28);
     extraLen \<leftarrow> Get16 archive (at + 30);
     commentLen \<leftarrow> Get16 archive (at + 32);
     localOffset \<leftarrow> Get32 archive (at + 42);
     Some \<lparr>c_flags = flags, c_method = method, c_crc = crc, c_csize = csize, c_usize = usize,
       c_nameLen = nameLen, c_extraLen = extraLen, c_commentLen = commentLen,
       c_localOffset = localOffset\<rparr> }"

text \<open>\<^verbatim>\<open>substr\<close> throws when the position is beyond the end.\<close>

definition substr :: "string \<Rightarrow> nat \<Rightarrow> nat \<Rightarrow> string option" where
  "substr s pos n = (if pos > length s then None else Some (take n (drop pos s)))"

text \<open>The data of a file entry, from its local header on.\<close>

definition read_data ::
  "zinflate \<Rightarrow> crc \<Rightarrow> string \<Rightarrow> string \<Rightarrow> central_header \<Rightarrow> (zip_error + string) option" where
  "read_data zinflate crc32 archive name h =
    (if unat (c_localOffset h) + 30 > length archive then Some (Inl (BadLocalHeader name))
     else do {
       sig \<leftarrow> Get32 archive (unat (c_localOffset h));
       if sig \<noteq> LOCAL_HEADER_SIG then Some (Inl (BadLocalHeader name))
       else do {
         n \<leftarrow> Get16 archive (unat (c_localOffset h) + 26);
         x \<leftarrow> Get16 archive (unat (c_localOffset h) + 28);
         let dataAt = unat (c_localOffset h) + 30 + unat n + unat x;
         if dataAt + unat (c_csize h) > length archive then Some (Inl (DataOutOfRange name))
         else do {
           compressed \<leftarrow> substr archive dataAt (unat (c_csize h));
           let unpacked =
             (if c_method h = 0
              then if c_csize h \<noteq> c_usize h then Inl (BadSize name) else Inr compressed
              else (case Inflate zinflate compressed (unat (c_usize h)) of
                      None \<Rightarrow> Inl (CannotDecompress name)
                    | Some data \<Rightarrow> Inr data));
           Some (bindE unpacked (\<lambda>data.
             if crc32 data \<noteq> c_crc h then Inl (BadCrc name) else Inr data)) } } })"

text \<open>One iteration of the loop over the central directory: the position, the running total and the
  tree after it.\<close>

type_synonym zip_state = "nat \<times> nat \<times> cari_tree"

definition read_entry_body ::
  "zinflate \<Rightarrow> crc \<Rightarrow> string \<Rightarrow> central_header \<Rightarrow> string \<Rightarrow> zip_state \<Rightarrow> (zip_error + zip_state) option" where
  "read_entry_body zinflate crc32 archive h rawName st =
    (case st of (at, unpacked_size, out) \<Rightarrow>
      if c_flags h AND 1 \<noteq> 0 then Some (Inl (Encrypted rawName))
      else if c_csize h = 0xFFFFFFFF \<or> c_usize h = 0xFFFFFFFF \<or> c_localOffset h = 0xFFFFFFFF
      then Some (Inl Zip64)
      else if c_method h \<noteq> 0 \<and> c_method h \<noteq> 8 then Some (Inl (BadMethod rawName (c_method h)))
      else
        let isFolder = (rawName \<noteq> [] \<and> last rawName = CHR ''/'');
            name = (if isFolder then butlast rawName else rawName) in
        if \<not> IsSafeZipPath name then Some (Inl (UnsafePath name))
        else if isFolder then Some (Inr (at, unpacked_size, AddFolder name out))
        else if unpacked_size + unat (c_usize h) > MAX_TOTAL_UNCOMPRESSED then Some (Inl UnpacksTooBig)
        else do {
          data \<leftarrow> read_data zinflate crc32 archive name h;
          Some (bindE data (\<lambda>contents.
            if omap_has (files out) name then Inl (AppearsTwice name)
            else Inr (at, unpacked_size + unat (c_usize h), AddFile name contents out))) })"

definition read_entry ::
  "zinflate \<Rightarrow> crc \<Rightarrow> string \<Rightarrow> nat \<Rightarrow> nat \<Rightarrow> zip_state \<Rightarrow> (zip_error + zip_state) option" where
  "read_entry zinflate crc32 archive eocd i st =
    (case st of (at, unpacked_size, out) \<Rightarrow>
      if at + 46 > eocd then Some (Inl (BadCentralEntry i))
      else do {
        sig \<leftarrow> Get32 archive at;
        if sig \<noteq> CENTRAL_HEADER_SIG then Some (Inl (BadCentralEntry i))
        else do {
          h \<leftarrow> read_central archive at;
          if at + 46 + unat (c_nameLen h) > eocd then Some (Inl NameOutOfRange)
          else do {
            name \<leftarrow> substr archive (at + 46) (unat (c_nameLen h));
            read_entry_body zinflate crc32 archive h name
              (at + (46 + unat (c_nameLen h) + unat (c_extraLen h) + unat (c_commentLen h)), unpacked_size, out) } } })"

text \<open>\<^verbatim>\<open>n\<close> more entries, from entry \<^verbatim>\<open>i\<close> on.\<close>

fun read_entries ::
  "zinflate \<Rightarrow> crc \<Rightarrow> string \<Rightarrow> nat \<Rightarrow> nat \<Rightarrow> nat \<Rightarrow> zip_state \<Rightarrow> (zip_error + cari_tree) option" where
  "read_entries zinflate crc32 archive eocd i 0 st = Some (Inr (snd (snd st)))"
| "read_entries zinflate crc32 archive eocd i (Suc n) st = do {
     r \<leftarrow> read_entry zinflate crc32 archive eocd i st;
     (case r of
        Inl e \<Rightarrow> Some (Inl e)
      | Inr st \<Rightarrow> read_entries zinflate crc32 archive eocd (i + 1) n st) }"

text \<open>The end record and the loop.\<close>

definition read_from_end ::
  "zinflate \<Rightarrow> crc \<Rightarrow> string \<Rightarrow> nat \<Rightarrow> (zip_error + cari_tree) option" where
  "read_from_end zinflate crc32 archive eocd = do {
     entries \<leftarrow> Get16 archive (eocd + 10);
     cdSize \<leftarrow> Get32 archive (eocd + 12);
     cdOffset \<leftarrow> Get32 archive (eocd + 16);
     disk \<leftarrow> Get16 archive (eocd + 4);
     cdDisk \<leftarrow> Get16 archive (eocd + 6);
     diskEntries \<leftarrow> Get16 archive (eocd + 8);
     if disk \<noteq> 0 \<or> cdDisk \<noteq> 0 \<or> entries \<noteq> diskEntries then Some (Inl MultiPart)
     else if unat entries > MAX_ENTRIES then Some (Inl TooManyEntries)
     else if unat cdOffset + unat cdSize > eocd then Some (Inl CentralOutOfRange)
     else read_entries zinflate crc32 archive eocd 0 (unat entries) (unat cdOffset, 0, Tree) }"

definition ReadZip :: "zinflate \<Rightarrow> crc \<Rightarrow> string \<Rightarrow> (zip_error + cari_tree) option" where
  "ReadZip zinflate crc32 archive =
    (if length archive > MAX_ZIP_BYTES then Some (Inl ZipTooBig)
     else if length archive < 22 then Some (Inl NotAZip)
     else do {
       sig \<leftarrow> Get32 archive 0;
       if sig \<noteq> LOCAL_HEADER_SIG then Some (Inl NotAZip)
       else do {
         let lowest = (if length archive > 65557 then length archive - 65557 else 0);
         found \<leftarrow> find_eocd archive lowest (length archive - 22 + 1);
         (case found of
            None \<Rightarrow> Some (Inl NoEndRecord)
          | Some eocd \<Rightarrow> read_from_end zinflate crc32 archive eocd) } })"

section \<open>Writing a zip\<close>

record dos_now =
  dosTime :: u16
  dosDate :: u16

record zip_entry =
  e_name :: string
  e_data :: string

definition tree_entries :: "cari_tree \<Rightarrow> zip_entry list" where
  "tree_entries t =
    map (\<lambda>folder. \<lparr>e_name = folder @ ''/'', e_data = []\<rparr>) (folders t) @
    map (\<lambda>(path, contents). \<lparr>e_name = path, e_data = contents\<rparr>) (files t)"

definition entry_is_folder :: "zip_entry \<Rightarrow> bool" where
  "entry_is_folder e \<longleftrightarrow> last (e_name e) = CHR ''/''"

definition entry_body :: "(string \<Rightarrow> string) \<Rightarrow> zip_entry \<Rightarrow> string" where
  "entry_body deflate e = (if entry_is_folder e then [] else deflate (e_data e))"

definition entry_method :: "zip_entry \<Rightarrow> u16" where
  "entry_method e = (if entry_is_folder e then 0 else 8)"

definition local_record :: "(string \<Rightarrow> string) \<Rightarrow> crc \<Rightarrow> dos_now \<Rightarrow> zip_entry \<Rightarrow> string" where
  "local_record deflate crc32 now e =
    Put32 LOCAL_HEADER_SIG @ Put16 20 @ Put16 0x0800 @ Put16 (entry_method e) @
    Put16 (dosTime now) @ Put16 (dosDate now) @ Put32 (crc32 (e_data e)) @
    Put32 (word_of_nat (length (entry_body deflate e))) @
    Put32 (word_of_nat (length (e_data e))) @ Put16 (word_of_nat (length (e_name e))) @ Put16 0 @
    e_name e @ entry_body deflate e"

definition central_record ::
  "(string \<Rightarrow> string) \<Rightarrow> crc \<Rightarrow> dos_now \<Rightarrow> u32 \<Rightarrow> zip_entry \<Rightarrow> string" where
  "central_record deflate crc32 now offset e =
    Put32 CENTRAL_HEADER_SIG @ Put16 20 @ Put16 20 @ Put16 0x0800 @ Put16 (entry_method e) @
    Put16 (dosTime now) @ Put16 (dosDate now) @ Put32 (crc32 (e_data e)) @
    Put32 (word_of_nat (length (entry_body deflate e))) @
    Put32 (word_of_nat (length (e_data e))) @ Put16 (word_of_nat (length (e_name e))) @ Put16 0 @
    Put16 0 @ Put16 0 @ Put16 0 @ Put32 (if entry_is_folder e then 0x10 else 0) @ Put32 offset @
    e_name e"

text \<open>The loop that appends to \<^verbatim>\<open>zip\<close> and \<^verbatim>\<open>central\<close>.\<close>

fun write_entries ::
  "(string \<Rightarrow> string) \<Rightarrow> crc \<Rightarrow> dos_now \<Rightarrow> zip_entry list \<Rightarrow> string \<Rightarrow> string \<Rightarrow> string \<times> string" where
  "write_entries deflate crc32 now [] archive central = (archive, central)"
| "write_entries deflate crc32 now (e # es) archive central =
    write_entries deflate crc32 now es
      (archive @ local_record deflate crc32 now e)
      (central @ central_record deflate crc32 now (word_of_nat (length archive)) e)"

definition end_record :: "nat \<Rightarrow> nat \<Rightarrow> nat \<Rightarrow> string" where
  "end_record entries cdSize cdOffset =
    Put32 END_OF_CENTRAL_DIR_SIG @ Put16 0 @ Put16 0 @ Put16 (word_of_nat entries) @
    Put16 (word_of_nat entries) @ Put32 (word_of_nat cdSize) @ Put32 (word_of_nat cdOffset) @ Put16 0"

definition WriteZip :: "(string \<Rightarrow> string) \<Rightarrow> crc \<Rightarrow> dos_now \<Rightarrow> cari_tree \<Rightarrow> string" where
  "WriteZip deflate crc32 now t =
    (case write_entries deflate crc32 now (tree_entries t) [] [] of
       (archive, central) \<Rightarrow>
         archive @ central @ end_record (length (tree_entries t)) (length central) (length archive))"

section \<open>No read outside the archive\<close>

lemma Get16_safe [simp]: "safe (Get16 b at) \<longleftrightarrow> at + 1 < length b"
  by (auto simp: Get16_def safe_bind)

lemma Get16_Some: "at + 1 < length b \<Longrightarrow> \<exists>v. Get16 b at = Some v"
  by (simp add: Get16_def)

lemma Get32_safe [simp]: "safe (Get32 b at) \<longleftrightarrow> at + 3 < length b"
  using Get16_Some [of at b] by (auto simp: Get32_def safe_bind)

lemma substr_safe [simp]: "safe (substr s pos n) \<longleftrightarrow> pos \<le> length s"
  by (simp add: substr_def)

lemma read_central_safe: "at + 46 \<le> length z \<Longrightarrow> safe (read_central z at)"
  by (simp add: read_central_def safe_bind)

lemma read_data_safe: "safe (read_data zinflate crc32 z name h)"
  by (simp add: read_data_def safe_bind Let_def)

lemma read_entry_body_safe: "safe (read_entry_body zinflate crc32 z h name st)"
  by (cases st) (simp add: read_entry_body_def safe_bind Let_def read_data_safe)

lemma read_entry_safe: "eocd \<le> length z \<Longrightarrow> safe (read_entry zinflate crc32 z eocd i st)"
  by (cases st) (simp add: read_entry_def safe_bind read_central_safe read_entry_body_safe)

lemma read_entries_safe: "eocd \<le> length z \<Longrightarrow> safe (read_entries zinflate crc32 z eocd i n st)"
  by (induction n arbitrary: i st) (auto simp: safe_bind read_entry_safe split: sum.split)

lemma find_eocd_safe: "at + 3 \<le> length z \<Longrightarrow> safe (find_eocd z lowest at)"
  by (induction z lowest at rule: find_eocd.induct) (auto simp: find_eocd.simps safe_bind)

lemma find_eocd_bound: "find_eocd z lowest at = Some (Some e) \<Longrightarrow> lowest \<le> e \<and> e < at"
proof (induction z lowest at rule: find_eocd.induct)
  case (1 z lowest at)
  then show ?case
    using find_eocd.simps [of z lowest at]
    by (fastforce simp: Option.bind_eq_Some_conv split: if_splits)
qed

lemma read_from_end_safe: "eocd + 22 \<le> length z \<Longrightarrow> safe (read_from_end zinflate crc32 z eocd)"
  by (simp add: read_from_end_def safe_bind read_entries_safe)

lemma ReadZip_safe: "safe (ReadZip zinflate crc32 z)"
proof (cases "length z < 22")
  case False
  have "find_eocd z lowest (length z - 22 + 1) = Some (Some e) \<Longrightarrow> e + 22 \<le> length z" for lowest e
    using find_eocd_bound [of z lowest "length z - 22 + 1" e] False by linarith
  then show ?thesis
    using False by (auto simp: ReadZip_def safe_bind Let_def find_eocd_safe intro: read_from_end_safe split: option.split)
qed (simp add: ReadZip_def)

section \<open>Paths and their parents\<close>

abbreviation slash :: char where "slash \<equiv> CHR ''/''"

lemma join_not_Nil: "clean_parts sep ps \<Longrightarrow> ps \<noteq> [] \<Longrightarrow> join_with sep ps \<noteq> []"
  by (cases "(sep, ps)" rule: join_with.cases) (auto simp: clean_parts_def)

lemma partials_join:
  "clean_parts slash (qs @ ps) \<Longrightarrow> qs \<noteq> [] \<Longrightarrow>
    partials (join_with slash qs) ps = map (\<lambda>k. join_with slash (qs @ take (Suc k) ps)) [0..<length ps]"
proof (induction ps arbitrary: qs)
  case (Cons p ps)
  have ne: "join_with slash qs \<noteq> []"
    using Cons.prems by (intro join_not_Nil) (auto simp: clean_parts_def)
  have "partials (join_with slash (qs @ [p])) ps =
      map (\<lambda>k. join_with slash ((qs @ [p]) @ take (Suc k) ps)) [0..<length ps]"
    using Cons.prems by (intro Cons.IH) auto
  then show ?case
    using ne Cons.prems(2) by (simp add: join_snoc Let_def map_upt_Suc del: upt_Suc)
qed simp

lemma partials_parts:
  assumes "clean_parts slash ps"
  shows "partials [] ps = map (\<lambda>k. join_with slash (take (Suc k) ps)) [0..<length ps]"
proof (cases ps)
  case (Cons p qs)
  then show ?thesis
    using partials_join [of "[p]" qs] assms by (simp add: map_upt_Suc del: upt_Suc)
qed simp

definition path_ok :: "string \<Rightarrow> bool" where
  "path_ok q \<longleftrightarrow> IsSafeZipPath q \<and> last q \<noteq> slash"

definition safe_parts :: "string list \<Rightarrow> bool" where
  "safe_parts ps \<longleftrightarrow> ps \<noteq> [] \<and> (\<forall>p \<in> set ps. safe_part p \<and> slash \<notin> set p \<and> CHR 0x5C \<notin> set p \<and> CHR '':'' \<notin> set p)"

lemma safe_parts_clean: "safe_parts ps \<Longrightarrow> clean_parts slash ps"
  by (auto simp: safe_parts_def clean_parts_def safe_part_def)

lemma IsSafe_parts: "IsSafeZipPath q \<Longrightarrow> safe_parts (Split q)"
  using split_on_no_sep set_split_on
  by (fastforce simp: IsSafeZipPath_def safe_parts_def Split_def list_all_iff split: if_splits)

lemma last_join: "clean_parts sep ps \<Longrightarrow> ps \<noteq> [] \<Longrightarrow> last (join_with sep ps) \<noteq> sep"
  by (induction sep ps rule: join_with.induct) (auto simp: clean_parts_def join_not_Nil)

lemma hd_join: "clean_parts sep ps \<Longrightarrow> ps \<noteq> [] \<Longrightarrow> hd (join_with sep ps) \<noteq> sep"
  by (cases "(sep, ps)" rule: join_with.cases) (auto simp: clean_parts_def hd_append)

lemma path_ok_join:
  assumes "safe_parts ps" shows "path_ok (join_with slash ps)"
proof -
  have clean: "clean_parts slash ps" "ps \<noteq> []" using assms by (auto simp: safe_parts_clean safe_parts_def)
  have "CHR 0x5C \<notin> set (join_with slash ps)" "CHR '':'' \<notin> set (join_with slash ps)"
    using set_join [of slash ps] assms by (auto simp: safe_parts_def)
  then show ?thesis
    using clean assms
    by (auto simp: path_ok_def IsSafeZipPath_def split_join last_join join_not_Nil list_all_iff safe_parts_def
        dest: hd_join)
qed

lemma safe_parts_take: "safe_parts ps \<Longrightarrow> safe_parts (take (Suc k) ps)"
  by (auto simp: safe_parts_def dest: in_set_takeD)

lemma partials_closed:
  assumes "safe_parts ps" "q \<in> set (partials [] ps)"
  shows "path_ok q \<and> set (partials [] (Split q)) \<subseteq> set (partials [] ps)"
proof -
  have clean: "clean_parts slash ps" using assms(1) by (rule safe_parts_clean)
  obtain k where k: "k < length ps" "q = join_with slash (take (Suc k) ps)"
    using assms(2) by (auto simp: partials_parts [OF clean])
  have safe: "safe_parts (take (Suc k) ps)" using assms(1) by (rule safe_parts_take)
  have "Split q = take (Suc k) ps"
    unfolding k(2) Split_def using safe by (intro split_join safe_parts_clean)
  then have "set (partials [] (Split q)) \<subseteq> set (partials [] ps)"
    using k(1) by (auto simp: partials_parts [OF clean] partials_parts [OF safe_parts_clean [OF safe]] min_def)
  then show ?thesis using path_ok_join [OF safe] k(2) by simp
qed

lemma path_ok_parts: "path_ok q \<Longrightarrow> join_with slash (Split q) = q \<and> safe_parts (Split q)"
  unfolding Split_def path_ok_def
  by (metis IsSafe_parts IsSafeZipPath_def Split_def join_split)

lemma path_ok_self: "path_ok q \<Longrightarrow> q \<in> set (partials [] (Split q))"
proof -
  assume "path_ok q"
  then have q: "join_with slash (Split q) = q" "safe_parts (Split q)" using path_ok_parts by blast+
  then have "Split q \<noteq> []" by (simp add: safe_parts_def)
  then show ?thesis
    unfolding partials_parts [OF safe_parts_clean [OF q(2)]]
    using q(1) by (auto intro!: image_eqI [where x = "length (Split q) - 1"])
qed

lemma parent_parts:
  assumes "path_ok q" "parent_path q = Some dir"
  shows "dir = join_with slash (butlast (Split q)) \<and> safe_parts (butlast (Split q))"
proof -
  obtain ps p where ps: "Split q = ps @ [p]"
    using path_ok_parts [OF assms(1)] by (metis rev_exhaust safe_parts_def)
  have q: "join_with slash (ps @ [p]) = q" "safe_parts (ps @ [p])"
    using path_ok_parts [OF assms(1)] ps by auto
  have p: "slash \<notin> set p" "p \<noteq> []" using q(2) by (auto simp: safe_parts_def safe_part_def)
  show ?thesis
  proof (cases "ps = []")
    case True
    then show ?thesis using assms(2) q p by (auto simp: parent_path_def split: if_splits)
  next
    case False
    then have "q = join_with slash ps @ slash # p" using q(1) by (simp add: join_snoc)
    then have rev_q: "rev q = rev p @ slash # rev (join_with slash ps)" by simp
    have "dropWhile (\<lambda>c. c \<noteq> slash) (rev q) = slash # rev (join_with slash ps)"
      using p by (subst rev_q, subst dropWhile_append2) auto
    then have "dir = join_with slash ps"
      using assms(2) by (simp add: parent_path_def split: if_splits)
    then show ?thesis using False q(2) ps by (auto simp: safe_parts_def)
  qed
qed

section \<open>What the reader accepts\<close>

text \<open>A well-formed tree: its maps are ordered, every path is one a zip may name, and every parent
  folder of an entry is an entry.\<close>

definition parents_in :: "string list \<Rightarrow> string oset \<Rightarrow> bool" where
  "parents_in ps fs \<longleftrightarrow> set (partials [] ps) \<subseteq> set fs"

definition file_ok :: "string oset \<Rightarrow> string \<Rightarrow> bool" where
  "file_ok fs q \<longleftrightarrow> path_ok q \<and> (\<forall>dir. parent_path q = Some dir \<longrightarrow> parents_in (Split dir) fs)"

definition tree_ok :: "cari_tree \<Rightarrow> bool" where
  "tree_ok t \<longleftrightarrow> omap_ok (files t) \<and> oset_ok (folders t) \<and>
    (\<forall>q \<in> set (folders t). path_ok q \<and> parents_in (Split q) (folders t)) \<and>
    (\<forall>q \<in> fst ` set (files t). file_ok (folders t) q)"

lemma tree_ok_Tree: "tree_ok Tree"
  by (simp add: tree_ok_def Tree_def)

lemma set_folders_AddFolder:
  "oset_ok (folders t) \<Longrightarrow> set (folders (AddFolder p t)) = set (folders t) \<union> set (partials [] (Split p))"
  by (simp add: AddFolder_def std_set.elems_add_all)

lemma files_AddFolder [simp]: "files (AddFolder p t) = files t"
  by (simp add: AddFolder_def)

lemma parents_in_mono: "parents_in ps fs \<Longrightarrow> set fs \<subseteq> set gs \<Longrightarrow> parents_in ps gs"
  by (auto simp: parents_in_def)

lemma file_ok_mono: "file_ok fs q \<Longrightarrow> set fs \<subseteq> set gs \<Longrightarrow> file_ok gs q"
  by (auto simp: file_ok_def intro: parents_in_mono)

lemma AddFolder_ok:
  assumes "tree_ok t" "safe_parts (Split p)" shows "tree_ok (AddFolder p t)"
proof -
  have ok: "oset_ok (folders t)" using assms(1) by (simp add: tree_ok_def)
  have set: "set (folders (AddFolder p t)) = set (folders t) \<union> set (partials [] (Split p))"
    using ok by (rule set_folders_AddFolder)
  have "path_ok q \<and> parents_in (Split q) (folders (AddFolder p t))" if "q \<in> set (folders (AddFolder p t))" for q
  proof (cases "q \<in> set (folders t)")
    case True
    then show ?thesis using assms(1) set by (auto simp: tree_ok_def intro: parents_in_mono)
  next
    case False
    then have "q \<in> set (partials [] (Split p))" using that set by auto
    from partials_closed [OF assms(2) this] show ?thesis
      using set by (auto simp: parents_in_def)
  qed
  moreover have "file_ok (folders (AddFolder p t)) q" if "q \<in> fst ` set (files t)" for q
    using that assms(1) set by (auto simp: tree_ok_def intro: file_ok_mono)
  moreover have "oset_ok (folders (AddFolder p t))"
    using ok by (simp add: AddFolder_def std_set.ok_add_all)
  ultimately show ?thesis using assms(1) by (simp add: tree_ok_def)
qed

lemma parents_in_AddFolder: "oset_ok (folders t) \<Longrightarrow> parents_in (Split p) (folders (AddFolder p t))"
  by (simp add: parents_in_def set_folders_AddFolder)

lemma Split_join: "safe_parts ps \<Longrightarrow> Split (join_with slash ps) = ps"
  unfolding Split_def by (intro split_join safe_parts_clean)

lemma AddFile_ok:
  assumes "tree_ok t" "path_ok p" shows "tree_ok (AddFile p c t)"
proof -
  define u where "u = (case parent_path p of Some dir \<Rightarrow> AddFolder dir t | None \<Rightarrow> t)"
  have u: "tree_ok u" "\<And>dir. parent_path p = Some dir \<Longrightarrow> parents_in (Split dir) (folders u)"
  proof -
    have dir: "safe_parts (Split dir)" if "parent_path p = Some dir" for dir
      using parent_parts [OF assms(2) that] by (simp add: Split_join)
    then show "tree_ok u" using assms(1) by (auto simp: u_def AddFolder_ok split: option.split)
    show "parents_in (Split dir) (folders u)" if "parent_path p = Some dir" for dir
      using that assms(1) by (simp add: u_def parents_in_AddFolder tree_ok_def)
  qed
  have "file_ok (folders u) p" using u(2) assms(2) by (simp add: file_ok_def)
  then show ?thesis
    using u(1) by (auto simp: AddFile_def u_def [symmetric] Let_def tree_ok_def)
qed

definition unpacked :: "cari_tree \<Rightarrow> nat" where
  "unpacked t = sum_list (map (length \<circ> snd) (files t))"

lemma sum_put_new:
  "\<not> omap_has m k \<Longrightarrow> sum_list (map (length \<circ> snd) (omap_put k v m)) = length v + sum_list (map (length \<circ> snd) m)"
  by (induction k v m rule: omap_put.induct) (auto simp: omap_has_def split: if_splits)

lemma length_put_new: "\<not> omap_has m k \<Longrightarrow> length (omap_put k v m) = Suc (length m)"
  by (induction k v m rule: omap_put.induct) (auto simp: omap_has_def split: if_splits)

lemma files_AddFile: "files (AddFile p c t) = omap_put p c (files t)"
  by (simp add: AddFile_def Let_def split: option.split)

definition inflate_sized :: "zinflate \<Rightarrow> bool" where
  "inflate_sized zinflate \<longleftrightarrow>
    (\<forall>i n rc k out. zinflate i n = Some (rc, k, out) \<longrightarrow> length out = n)"

lemma Inflate_length: "inflate_sized zinflate \<Longrightarrow> Inflate zinflate i n = Some out \<Longrightarrow> length out = n"
  by (auto simp: Inflate_def inflate_sized_def split: option.splits prod.splits if_splits)

lemma read_data_length:
  "read_data zinflate crc32 z name h = Some (Inr c) \<Longrightarrow> inflate_sized zinflate \<Longrightarrow>
    length c = unat (c_usize h) \<and> crc32 c = c_crc h"
  by (auto simp: read_data_def Let_def Option.bind_eq_Some_conv bindE_eq_Inr substr_def Inflate_length
      split: if_splits option.splits)

text \<open>What holds of the state of the loop after \<^verbatim>\<open>i\<close> entries.\<close>

fun read_inv :: "nat \<Rightarrow> zip_state \<Rightarrow> bool" where
  "read_inv i (at, sum_size, t) \<longleftrightarrow>
    tree_ok t \<and> unpacked t = sum_size \<and> sum_size \<le> MAX_TOTAL_UNCOMPRESSED \<and> length (files t) \<le> i"

lemma AddFolder_step: "IsSafeZipPath name \<Longrightarrow> read_inv i (at, n, t) \<Longrightarrow> read_inv (Suc i) (at, n, AddFolder name t)"
  by (auto simp: unpacked_def intro: AddFolder_ok IsSafe_parts)

lemma AddFile_step:
  assumes "path_ok name" "read_inv i (at, n, t)" "\<not> omap_has (files t) name" "n + length c \<le> MAX_TOTAL_UNCOMPRESSED"
  shows "read_inv (Suc i) (at, n + length c, AddFile name c t)"
  using assms AddFile_ok [of t name c]
  by (auto simp: unpacked_def files_AddFile sum_put_new length_put_new)

lemma read_entry_body_inv:
  assumes "read_entry_body zinflate crc32 z h raw (at, n, t) = Some (Inr st)" "read_inv i (at, n, t)"
    "inflate_sized zinflate"
  shows "read_inv (Suc i) st"
proof -
  define name where "name = (if raw \<noteq> [] \<and> last raw = slash then butlast raw else raw)"
  show ?thesis
  proof (cases "raw \<noteq> [] \<and> last raw = slash")
    case True
    then show ?thesis
      using assms(1,2) by (auto simp: read_entry_body_def Let_def simp del: read_inv.simps intro!: AddFolder_step split: if_splits)
  next
    case False
    then obtain c where c: "IsSafeZipPath raw" "n + unat (c_usize h) \<le> MAX_TOTAL_UNCOMPRESSED"
      "read_data zinflate crc32 z raw h = Some (Inr c)" "\<not> omap_has (files t) raw"
      "st = (at, n + unat (c_usize h), AddFile raw c t)"
      using assms(1) by (auto simp: read_entry_body_def Let_def Option.bind_eq_Some_conv bindE_eq_Inr not_less
        split: if_splits)
    have "length c = unat (c_usize h)" using read_data_length [OF c(3) assms(3)] by simp
    moreover have "path_ok raw" using c(1) False by (auto simp: path_ok_def IsSafeZipPath_def)
    ultimately show ?thesis using AddFile_step [of raw i at n t c] assms(2) c by simp
  qed
qed

lemma read_entries_inv:
  assumes "read_entries zinflate crc32 z eocd i n st = Some (Inr t)" "read_inv i st" "inflate_sized zinflate"
  shows "\<exists>at k. read_inv (i + n) (at, k, t)"
  using assms
proof (induction n arbitrary: i st)
  case 0
  then show ?case by (cases st) auto
next
  case (Suc n)
  obtain at k u where st: "st = (at, k, u)" by (cases st) auto
  obtain w where w: "read_entry zinflate crc32 z eocd i st = Some w"
    "(case w of Inl e \<Rightarrow> Some (Inl e) | Inr st \<Rightarrow> read_entries zinflate crc32 z eocd (i + 1) n st) = Some (Inr t)"
    using Suc.prems(1) unfolding read_entries.simps Option.bind_eq_Some_conv by blast
  then obtain st' where r: "read_entry zinflate crc32 z eocd i st = Some (Inr st')"
    "read_entries zinflate crc32 z eocd (i + 1) n st' = Some (Inr t)"
    by (cases w) auto
  obtain h raw at' where "read_entry_body zinflate crc32 z h raw (at', k, u) = Some (Inr st')"
    using r(1) by (auto simp: st read_entry_def Option.bind_eq_Some_conv split: if_splits)
  then have "read_inv (Suc i) st'"
    using Suc.prems(2,3) st by (intro read_entry_body_inv) auto
  then show ?case using Suc.IH [of "i + 1" st'] r(2) Suc.prems(3) by simp
qed

lemma ReadZip_inv:
  assumes "ReadZip zinflate crc32 z = Some (Inr t)" "inflate_sized zinflate"
  shows "tree_ok t \<and> unpacked t \<le> MAX_TOTAL_UNCOMPRESSED \<and> length (files t) \<le> MAX_ENTRIES"
proof -
  obtain eocd entries at where e: "unat (entries :: u16) \<le> MAX_ENTRIES"
    "read_entries zinflate crc32 z eocd 0 (unat entries) (at, 0, Tree) = Some (Inr t)"
    using assms(1) by (auto simp: ReadZip_def read_from_end_def Let_def Option.bind_eq_Some_conv not_less
      split: if_splits option.splits)
  have "read_inv 0 (at, 0, Tree)"
    by (simp add: tree_ok_Tree unpacked_def) (simp add: Tree_def)
  from read_entries_inv [OF e(2) this assms(2)] show ?thesis using e(1) by auto
qed

section \<open>Reading what was written\<close>

lemma byte_char [simp]: "byte (char_of_byte b) = b"
  by (simp add: byte_def char_of_byte_def of_char_of)

lemma u16_octets:
  "ucast (ucast (v AND 0xFF) :: u8) OR push_bit 8 (ucast (ucast (drop_bit 8 v) :: u8)) = (v :: u16)"
proof -
  have m: "(v :: u16) AND 0xFF = take_bit 8 v" by (simp add: take_bit_eq_mask mask_eq_exp_minus_1)
  show ?thesis unfolding m by (rule bit_eqI) (auto simp: bit_simps)
qed

lemma u32_halves:
  "ucast (ucast (v AND 0xFFFF) :: u16) OR push_bit 16 (ucast (ucast (drop_bit 16 v) :: u16)) = (v :: u32)"
proof -
  have m: "(v :: u32) AND 0xFFFF = take_bit 16 v" by (simp add: take_bit_eq_mask mask_eq_exp_minus_1)
  show ?thesis unfolding m by (rule bit_eqI) (auto simp: bit_simps)
qed

lemma Get16_Put16 [simp]: "Get16 (Put16 v @ s) 0 = Some v"
  using u16_octets [of v] by (simp add: Get16_def Put16_def)

lemma Get16_skip [simp]: "Get16 (xs @ ys) (length xs + k) = Get16 ys k"
  using rd_append_len_add [of xs ys k] rd_append_len_add [of xs ys "k + 1"]
  by (simp add: Get16_def)

lemma Get32_skip [simp]: "Get32 (xs @ ys) (length xs + k) = Get32 ys k"
  using Get16_skip [of xs ys k] Get16_skip [of xs ys "k + 2"]
  by (simp add: Get32_def)

lemma length_Put [simp]: "length (Put16 v) = 2" "length (Put32 w) = 4"
  by (simp_all add: Put16_def Put32_def)

lemma Get16_past16 [simp]: "2 \<le> k \<Longrightarrow> Get16 (Put16 v @ s) k = Get16 s (k - 2)"
  using Get16_skip [of "Put16 v" s "k - 2"] by (simp only: length_Put le_add_diff_inverse)

lemma Put32_append: "Put32 v @ s = Put16 (ucast (v AND 0xFFFF)) @ Put16 (ucast (drop_bit 16 v)) @ s"
  by (simp add: Put32_def)

lemma Get16_past32 [simp]: "4 \<le> k \<Longrightarrow> Get16 (Put32 v @ s) k = Get16 s (k - 4)"
  by (simp add: Put32_append del: append_assoc)

lemma Get32_Put32 [simp]: "Get32 (Put32 v @ s) 0 = Some v"
  using u32_halves [of v] by (simp add: Get32_def Put32_append)

lemma Get32_past16 [simp]: "2 \<le> k \<Longrightarrow> Get32 (Put16 v @ s) k = Get32 s (k - 2)"
  using Get32_skip [of "Put16 v" s "k - 2"] by (simp only: length_Put le_add_diff_inverse)

lemma Get32_past32 [simp]: "4 \<le> k \<Longrightarrow> Get32 (Put32 v @ s) k = Get32 s (k - 4)"
  using Get32_skip [of "Put32 v" s "k - 4"] by simp

lemma Get_here [simp]: "Get16 (xs @ ys) (length xs) = Get16 ys 0" "Get32 (xs @ ys) (length xs) = Get32 ys 0"
  using Get16_skip [of xs ys 0] Get32_skip [of xs ys 0] by simp_all

definition entry_header :: "(string \<Rightarrow> string) \<Rightarrow> crc \<Rightarrow> u32 \<Rightarrow> zip_entry \<Rightarrow> central_header" where
  "entry_header deflate crc32 offset e =
    \<lparr>c_flags = 0x0800, c_method = entry_method e, c_crc = crc32 (e_data e),
     c_csize = word_of_nat (length (entry_body deflate e)), c_usize = word_of_nat (length (e_data e)),
     c_nameLen = word_of_nat (length (e_name e)), c_extraLen = 0, c_commentLen = 0, c_localOffset = offset\<rparr>"

lemma read_central_record:
  "read_central (xs @ central_record deflate crc32 now offset e @ ys) (length xs) =
    Some (entry_header deflate crc32 offset e)"
  by (simp add: read_central_def central_record_def entry_header_def)

lemma central_signature:
  "Get32 (xs @ central_record deflate crc32 now offset e @ ys) (length xs) = Some CENTRAL_HEADER_SIG"
  by (simp add: central_record_def)

lemma length_central [simp]: "length (central_record deflate crc32 now offset e) = 46 + length (e_name e)"
  by (simp add: central_record_def)

lemma length_local [simp]:
  "length (local_record deflate crc32 now e) = 30 + length (e_name e) + length (entry_body deflate e)"
  by (simp add: local_record_def)

lemma central_name:
  "substr (xs @ central_record deflate crc32 now offset e @ ys) (length xs + 46) (length (e_name e)) = Some (e_name e)"
proof -
  obtain fixed where "central_record deflate crc32 now offset e = fixed @ e_name e" "length fixed = 46"
    using length_central [of deflate crc32 now offset e] unfolding central_record_def append_assoc [symmetric]
    by (metis add_right_cancel length_append)
  then show ?thesis by (simp add: substr_def)
qed

lemma local_fields:
  "Get32 (xs @ local_record deflate crc32 now e @ ys) (length xs) = Some LOCAL_HEADER_SIG"
  "Get16 (xs @ local_record deflate crc32 now e @ ys) (length xs + 26) = Some (word_of_nat (length (e_name e)))"
  "Get16 (xs @ local_record deflate crc32 now e @ ys) (length xs + 28) = Some 0"
  by (simp_all add: local_record_def)

lemma local_body:
  "substr (xs @ local_record deflate crc32 now e @ ys) (length xs + 30 + length (e_name e)) (length (entry_body deflate e)) =
    Some (entry_body deflate e)"
proof -
  obtain fixed where "local_record deflate crc32 now e = fixed @ entry_body deflate e"
      "length fixed = 30 + length (e_name e)"
    using length_local [of deflate crc32 now e] unfolding local_record_def append_assoc [symmetric]
    by (metis add_right_cancel length_append)
  then show ?thesis by (simp add: substr_def)
qed

lemma unat_u32 [simp]: "m < 4294967296 \<Longrightarrow> unat (word_of_nat m :: u32) = m"
  by (simp add: unsigned_of_nat take_bit_nat_eq_self)

lemma unat_u16 [simp]: "m < 65536 \<Longrightarrow> unat (word_of_nat m :: u16) = m"
  by (simp add: unsigned_of_nat take_bit_nat_eq_self)

lemma not_all_ones: "m < 4294967295 \<Longrightarrow> (word_of_nat m :: u32) \<noteq> 0xFFFFFFFF"
  using unat_u32 [of m] by (auto dest: arg_cong [where f = unat])

definition zlib_inverse :: "zinflate \<Rightarrow> (string \<Rightarrow> string) \<Rightarrow> bool" where
  "zlib_inverse zinflate deflate \<longleftrightarrow> (\<forall>s. Inflate zinflate (deflate s) (length s) = Some s)"

definition entry_ok :: "zip_entry \<Rightarrow> bool" where
  "entry_ok e \<longleftrightarrow>
    (if entry_is_folder e then e_name e \<noteq> [] \<and> IsSafeZipPath (butlast (e_name e)) \<and> e_data e = []
     else path_ok (e_name e)) \<and> length (e_name e) < 65536"

definition add_entry :: "zip_entry \<Rightarrow> cari_tree \<Rightarrow> cari_tree" where
  "add_entry e t =
    (if entry_is_folder e then AddFolder (butlast (e_name e)) t else AddFile (e_name e) (e_data e) t)"

lemma read_data_written:
  assumes z: "z = ps @ local_record deflate crc32 now e @ ss" "length z < 4294967295"
    and e: "\<not> entry_is_folder e" "length (e_name e) < 65536" "length (e_data e) < 4294967295"
    and zlib: "zlib_inverse zinflate deflate"
  shows "read_data zinflate crc32 z name (entry_header deflate crc32 (word_of_nat (length ps)) e) =
    Some (Inr (e_data e))"
proof -
  let ?h = "entry_header deflate crc32 (word_of_nat (length ps)) e"
  have lens: "length ps + 30 + length (e_name e) + length (entry_body deflate e) \<le> length z"
    using z(1) by simp
  have h: "unat (c_localOffset ?h) = length ps" "unat (c_csize ?h) = length (entry_body deflate e)"
      "unat (c_usize ?h) = length (e_data e)" "c_method ?h = 8" "c_crc ?h = crc32 (e_data e)"
    using lens z(2) e by (simp_all add: entry_header_def entry_method_def)
  have body: "entry_body deflate e = deflate (e_data e)" using e(1) by (simp add: entry_body_def)
  have fields: "Get32 z (length ps) = Some LOCAL_HEADER_SIG"
    "Get16 z (length ps + 26) = Some (word_of_nat (length (e_name e)))" "Get16 z (length ps + 28) = Some 0"
    "substr z (length ps + 30 + length (e_name e)) (length (entry_body deflate e)) = Some (entry_body deflate e)"
    unfolding z(1) by (rule local_fields local_body)+
  have "Inflate zinflate (entry_body deflate e) (length (e_data e)) = Some (e_data e)"
    using zlib body by (simp add: zlib_inverse_def)
  then show ?thesis
    unfolding read_data_def h Let_def
    using lens fields e(2) by simp
qed

lemma read_entry_body_written:
  assumes z: "z = ps @ local_record deflate crc32 now e @ ss" "length z < 4294967295"
    and e: "entry_ok e" "n + length (e_data e) \<le> MAX_TOTAL_UNCOMPRESSED"
      "\<not> entry_is_folder e \<Longrightarrow> \<not> omap_has (files t) (e_name e)"
    and zlib: "zlib_inverse zinflate deflate"
  shows "read_entry_body zinflate crc32 z (entry_header deflate crc32 (word_of_nat (length ps)) e) (e_name e)
      (at, n, t) = Some (Inr (at, n + length (e_data e), add_entry e t))"
proof -
  let ?h = "entry_header deflate crc32 (word_of_nat (length ps)) e"
  have lens: "length ps + 30 + length (e_name e) + length (entry_body deflate e) \<le> length z"
    using z(1) by simp
  have data: "length (e_data e) < 4294967295" using e(2) by (simp add: MAX_TOTAL_UNCOMPRESSED_def)
  have h: "c_flags ?h AND 1 = 0" "c_csize ?h \<noteq> 0xFFFFFFFF" "c_usize ?h \<noteq> 0xFFFFFFFF"
      "c_localOffset ?h \<noteq> 0xFFFFFFFF" "c_method ?h = 0 \<or> c_method ?h = 8" "unat (c_usize ?h) = length (e_data e)"
    using lens z(2) data not_all_ones
    by (simp_all add: entry_header_def entry_method_def)
  show ?thesis
  proof (cases "entry_is_folder e")
    case True
    then show ?thesis
      using e(1) h by (auto simp: read_entry_body_def entry_ok_def entry_is_folder_def add_entry_def Let_def)
  next
    case False
    have safe: "IsSafeZipPath (e_name e)" "last (e_name e) \<noteq> slash" "length (e_name e) < 65536"
      using e(1) False by (auto simp: entry_ok_def path_ok_def)
    show ?thesis
      using h safe False e(2,3) read_data_written [OF z False safe(3) data zlib, of "e_name e"]
      by (auto simp: read_entry_body_def add_entry_def Let_def)
  qed
qed

lemma read_entry_written:
  assumes z: "z = ps @ local_record deflate crc32 now e @ ss" "length z < 4294967295"
    and c: "z = qs @ central_record deflate crc32 now (word_of_nat (length ps)) e @ rs"
      "length qs + 46 + length (e_name e) \<le> eocd"
    and e: "entry_ok e" "n + length (e_data e) \<le> MAX_TOTAL_UNCOMPRESSED"
      "\<not> entry_is_folder e \<Longrightarrow> \<not> omap_has (files t) (e_name e)"
    and zlib: "zlib_inverse zinflate deflate"
  shows "read_entry zinflate crc32 z eocd i (length qs, n, t) =
    Some (Inr (length qs + (46 + length (e_name e)), n + length (e_data e), add_entry e t))"
proof -
  let ?h = "entry_header deflate crc32 (word_of_nat (length ps)) e"
  have fields: "Get32 z (length qs) = Some CENTRAL_HEADER_SIG" "read_central z (length qs) = Some ?h"
    "substr z (length qs + 46) (length (e_name e)) = Some (e_name e)"
    unfolding c(1) by (rule central_signature read_central_record central_name)+
  have "length (e_name e) < 65536" using e(1) by (simp add: entry_ok_def)
  then have h: "unat (c_nameLen ?h) = length (e_name e)" "unat (c_extraLen ?h) = 0" "unat (c_commentLen ?h) = 0"
    by (simp_all add: entry_header_def)
  show ?thesis
    unfolding read_entry_def using c(2) fields read_entry_body_written [OF z e zlib]
    by (simp add: h)
qed

fun centrals :: "(string \<Rightarrow> string) \<Rightarrow> crc \<Rightarrow> dos_now \<Rightarrow> nat \<Rightarrow> zip_entry list \<Rightarrow> string" where
  "centrals deflate crc32 now off [] = []"
| "centrals deflate crc32 now off (e # es) =
    central_record deflate crc32 now (word_of_nat off) e @
    centrals deflate crc32 now (off + length (local_record deflate crc32 now e)) es"

definition locals :: "(string \<Rightarrow> string) \<Rightarrow> crc \<Rightarrow> dos_now \<Rightarrow> zip_entry list \<Rightarrow> string" where
  "locals deflate crc32 now es = concat (map (local_record deflate crc32 now) es)"

lemma write_entries_eq:
  "write_entries deflate crc32 now es z c =
    (z @ locals deflate crc32 now es, c @ centrals deflate crc32 now (length z) es)"
  by (induction es arbitrary: z c) (simp_all add: locals_def)

fun names_fresh :: "zip_entry list \<Rightarrow> cari_tree \<Rightarrow> bool" where
  "names_fresh [] t \<longleftrightarrow> True"
| "names_fresh (e # es) t \<longleftrightarrow>
    (entry_is_folder e \<or> \<not> omap_has (files t) (e_name e)) \<and> names_fresh es (add_entry e t)"

lemma read_entries_written:
  assumes "z = ps @ locals deflate crc32 now es @ ss" "length z < 4294967295"
    "z = qs @ centrals deflate crc32 now (length ps) es @ rs"
    "length qs + length (centrals deflate crc32 now (length ps) es) \<le> eocd"
    "\<forall>e \<in> set es. entry_ok e" "n + sum_list (map (length \<circ> e_data) es) \<le> MAX_TOTAL_UNCOMPRESSED"
    "names_fresh es t" "zlib_inverse zinflate deflate"
  shows "read_entries zinflate crc32 z eocd i (length es) (length qs, n, t) = Some (Inr (fold add_entry es t))"
  using assms
proof (induction es arbitrary: ps qs n t i)
  case (Cons e es)
  let ?l = "local_record deflate crc32 now e"
  let ?c = "central_record deflate crc32 now (word_of_nat (length ps)) e"
  have step: "read_entry zinflate crc32 z eocd i (length qs, n, t) =
    Some (Inr (length qs + (46 + length (e_name e)), n + length (e_data e), add_entry e t))"
    using Cons.prems
    by (intro read_entry_written [of z ps deflate crc32 now e "locals deflate crc32 now es @ ss" qs
          "centrals deflate crc32 now (length (ps @ ?l)) es @ rs"])
      (auto simp: locals_def)
  have "read_entries zinflate crc32 z eocd (i + 1) (length es)
      (length (qs @ ?c), n + length (e_data e), add_entry e t) =
    Some (Inr (fold add_entry es (add_entry e t)))"
    using Cons.prems by (intro Cons.IH [of "ps @ ?l"]) (auto simp: locals_def)
  then show ?case by (simp add: step)
qed simp

lemma AddFolder_present: "oset_ok (folders t) \<Longrightarrow> parents_in (Split p) (folders t) \<Longrightarrow> AddFolder p t = t"
  by (simp add: AddFolder_def parents_in_def std_set.add_all_present)

lemma fold_AddFolder:
  "oset_ok (folders u) \<Longrightarrow> oset_ok (folders (fold AddFolder fs u)) \<and> files (fold AddFolder fs u) = files u \<and>
    set (folders (fold AddFolder fs u)) = set (folders u) \<union> (\<Union>f \<in> set fs. set (partials [] (Split f)))"
proof (induction fs arbitrary: u)
  case (Cons f fs)
  have "oset_ok (folders (AddFolder f u))" using Cons.prems by (simp add: AddFolder_def std_set.ok_add_all)
  from Cons.IH [OF this] show ?case using Cons.prems by (auto simp: set_folders_AddFolder)
qed simp

lemma rebuild_folders:
  assumes "tree_ok t" shows "fold AddFolder (folders t) Tree = Tree\<lparr>folders := folders t\<rparr>"
proof -
  have f: "oset_ok (folders (fold AddFolder (folders t) Tree))" "files (fold AddFolder (folders t) Tree) = []"
    "set (folders (fold AddFolder (folders t) Tree)) = (\<Union>f \<in> set (folders t). set (partials [] (Split f)))"
    using fold_AddFolder [of Tree "folders t"] by (simp_all add: Tree_def)
  have "(\<Union>f \<in> set (folders t). set (partials [] (Split f))) = set (folders t)"
    using assms path_ok_self by (fastforce simp: tree_ok_def parents_in_def)
  then have "folders (fold AddFolder (folders t) Tree) = folders t"
    using f assms by (intro oset_same) (auto simp: tree_ok_def)
  then show ?thesis using f(2) by (intro cari_tree.equality) (simp_all add: Tree_def)
qed

lemma AddFile_present:
  assumes "oset_ok (folders u)" "file_ok (folders u) p"
  shows "AddFile p c u = u\<lparr>files := omap_put p c (files u)\<rparr>"
  using assms AddFolder_present [OF assms(1)]
  by (auto simp: AddFile_def Let_def file_ok_def split: option.split)

lemma rebuild_files:
  "oset_ok (folders u) \<Longrightarrow> \<forall>p \<in> fst ` set m. file_ok (folders u) p \<Longrightarrow>
    fold (\<lambda>(p, c). AddFile p c) m u = u\<lparr>files := std_map.put_all m (files u)\<rparr>"
proof (induction m arbitrary: u)
  case (Cons pc m)
  obtain p c where pc: "pc = (p, c)" by fastforce
  have "AddFile p c u = u\<lparr>files := omap_put p c (files u)\<rparr>"
    using Cons.prems pc by (intro AddFile_present) auto
  then show ?case using Cons.prems pc by (simp add: Cons.IH std_map.put_all_Cons)
qed (simp add: std_map.put_all_Nil)

lemma add_entry_folder: "add_entry \<lparr>e_name = f @ ''/'', e_data = []\<rparr> = AddFolder f"
  by (rule ext) (simp add: add_entry_def entry_is_folder_def)

lemma add_entry_file: "last p \<noteq> slash \<Longrightarrow> add_entry \<lparr>e_name = p, e_data = c\<rparr> = AddFile p c"
  by (rule ext) (simp add: add_entry_def entry_is_folder_def)

lemma file_last: "tree_ok t \<Longrightarrow> (p, c) \<in> set (files t) \<Longrightarrow> last p \<noteq> slash"
  by (force simp: tree_ok_def file_ok_def path_ok_def)

lemma fold_add_entries:
  assumes "tree_ok t" shows "fold add_entry (tree_entries t) Tree = t"
proof -
  have "fold add_entry (map (\<lambda>f. \<lparr>e_name = f @ ''/'', e_data = []\<rparr>) (folders t)) Tree =
      Tree\<lparr>folders := folders t\<rparr>"
    using rebuild_folders [OF assms] by (simp add: fold_map comp_def add_entry_folder)
  moreover have "fold add_entry (map (\<lambda>(p, c). \<lparr>e_name = p, e_data = c\<rparr>) (files t)) u =
      fold (\<lambda>(p, c). AddFile p c) (files t) u" for u
    unfolding fold_map
    by (rule fold_cong) (auto simp: add_entry_file file_last [OF assms])
  moreover have "fold (\<lambda>(p, c). AddFile p c) (files t) (Tree\<lparr>folders := folders t\<rparr>) = t"
    using assms by (subst rebuild_files) (auto simp: tree_ok_def Tree_def rebuild_map)
  ultimately show ?thesis by (simp add: tree_entries_def)
qed

lemma names_fresh_files:
  assumes "omap_ok (files u)" "distinct (map fst m)" "\<forall>k \<in> fst ` set m. map_of (files u) k = None"
  shows "names_fresh (map (\<lambda>(p, c). \<lparr>e_name = p, e_data = c\<rparr>) m) u"
  using assms
proof (induction m arbitrary: u)
  case (Cons pc m)
  obtain p c where pc: "pc = (p, c)" by fastforce
  show ?case
  proof (cases "last p = slash")
    case True
    then have "files (add_entry \<lparr>e_name = p, e_data = c\<rparr> u) = files u"
      by (simp add: add_entry_def entry_is_folder_def)
    then show ?thesis using Cons pc True by (simp add: entry_is_folder_def)
  next
    case False
    have "names_fresh (map (\<lambda>(p, c). \<lparr>e_name = p, e_data = c\<rparr>) m) (AddFile p c u)"
      using Cons.prems pc by (intro Cons.IH) (auto simp: files_AddFile)
    then show ?thesis using Cons.prems pc False by (simp add: add_entry_file omap_has_def)
  qed
qed simp

lemma names_fresh_folders:
  "names_fresh (map (\<lambda>f. \<lparr>e_name = f @ ''/'', e_data = []\<rparr>) fs @ es) u =
    names_fresh es (fold AddFolder fs u)"
  by (induction fs arbitrary: u) (simp_all add: entry_is_folder_def add_entry_folder)

lemma names_fresh_tree:
  assumes "tree_ok t" shows "names_fresh (tree_entries t) Tree"
  unfolding tree_entries_def names_fresh_folders rebuild_folders [OF assms]
  using assms by (intro names_fresh_files) (auto simp: tree_ok_def Tree_def omap_ok_distinct)

lemma tree_entries_ok:
  assumes "tree_ok t" "\<forall>f \<in> set (folders t). length f < 65535" "\<forall>p \<in> fst ` set (files t). length p < 65536"
  shows "\<forall>e \<in> set (tree_entries t). entry_ok e"
  using assms by (fastforce simp: tree_entries_def entry_ok_def entry_is_folder_def tree_ok_def file_ok_def path_ok_def)

lemma tree_entries_size: "sum_list (map (length \<circ> e_data) (tree_entries t)) = unpacked t"
proof -
  have "map (length \<circ> e_data) (tree_entries t) = map (\<lambda>_. 0) (folders t) @ map (length \<circ> snd) (files t)"
    by (auto simp: tree_entries_def)
  then show ?thesis by (simp add: unpacked_def)
qed

lemma end_fields:
  assumes "entries < 65536"
  shows "Get32 (xs @ end_record entries s off) (length xs) = Some END_OF_CENTRAL_DIR_SIG"
   "Get16 (xs @ end_record entries s off) (length xs + 10) = Some (word_of_nat entries)"
   "Get16 (xs @ end_record entries s off) (length xs + 8) = Some (word_of_nat entries)"
   "Get16 (xs @ end_record entries s off) (length xs + 4) = Some 0"
   "Get16 (xs @ end_record entries s off) (length xs + 6) = Some 0"
   "Get32 (xs @ end_record entries s off) (length xs + 12) = Some (word_of_nat s)"
   "Get32 (xs @ end_record entries s off) (length xs + 16) = Some (word_of_nat off)"
  by (simp_all add: end_record_def)

lemma length_end [simp]: "length (end_record entries s off) = 22"
  by (simp add: end_record_def)

lemma find_eocd_first:
  "Get32 z at = Some END_OF_CENTRAL_DIR_SIG \<Longrightarrow> lowest \<le> at \<Longrightarrow> find_eocd z lowest (at + 1) = Some (Some at)"
  by (simp add: find_eocd.simps)

lemma ReadZip_WriteZip:
  assumes t: "tree_ok t" "folders t \<noteq> []"
    and names: "\<forall>f \<in> set (folders t). length f < 65535" "\<forall>p \<in> fst ` set (files t). length p < 65536"
    and limits: "length (folders t) + length (files t) \<le> MAX_ENTRIES"
      "unpacked t \<le> MAX_TOTAL_UNCOMPRESSED" "length (WriteZip deflate crc32 now t) \<le> MAX_ZIP_BYTES"
    and zlib: "zlib_inverse zinflate deflate"
  shows "ReadZip zinflate crc32 (WriteZip deflate crc32 now t) = Some (Inr t)"
proof -
  define es where "es = tree_entries t"
  define L where "L = locals deflate crc32 now es"
  define C where "C = centrals deflate crc32 now 0 es"
  define E where "E = end_record (length es) (length C) (length L)"
  define z where "z = WriteZip deflate crc32 now t"
  have z: "z = (L @ C) @ E"
    by (simp add: z_def WriteZip_def write_entries_eq es_def L_def C_def E_def)
  have len: "length z = length L + length C + 22" "length z \<le> MAX_ZIP_BYTES"
    using limits(3) by (simp_all add: z E_def z_def [symmetric])
  have n: "length es \<le> MAX_ENTRIES" using limits(1) by (simp add: es_def tree_entries_def)
  then have n16: "length es < 65536" by (simp add: MAX_ENTRIES_def)
  have bound: "length z < 4294967295" using len(2) by (simp add: MAX_ZIP_BYTES_def)
  obtain e es' where es': "es = e # es'" using t(2) by (cases "folders t") (auto simp: es_def tree_entries_def)
  then obtain L' where L': "L = local_record deflate crc32 now e @ L'" by (simp add: L_def locals_def)
  have sig: "Get32 z 0 = Some LOCAL_HEADER_SIG"
    using local_fields(1) [of "[]" deflate crc32 now e "L' @ C @ E"] by (simp add: z L')
  have eocd: "find_eocd z (if length z > 65557 then length z - 65557 else 0) (length z - 22 + 1) =
      Some (Some (length (L @ C)))"
    using find_eocd_first [of z "length (L @ C)"] end_fields(1) [OF n16, of "L @ C"] len(1)
    by (simp add: z E_def)
  have "read_entries zinflate crc32 z (length (L @ C)) 0 (length es) (length L, 0, Tree) = Some (Inr (fold add_entry es Tree))"
    using names_fresh_tree [OF t(1)] tree_entries_ok [OF t(1) names] limits(2) zlib bound
    by (intro read_entries_written [where ps = "[]" and deflate = deflate and now = now and ss = "C @ E" and rs = E])
      (simp_all add: z L_def C_def es_def tree_entries_size)
  then have entries: "read_entries zinflate crc32 z (length (L @ C)) 0 (length es) (length L, 0, Tree) = Some (Inr t)"
    using fold_add_entries [OF t(1)] by (simp add: es_def)
  define k where "k = length (L @ C)"
  have fields: "Get16 z (k + 10) = Some (word_of_nat (length es))"
    "Get16 z (k + 8) = Some (word_of_nat (length es))" "Get16 z (k + 4) = Some 0" "Get16 z (k + 6) = Some 0"
    "Get32 z (k + 12) = Some (word_of_nat (length C))" "Get32 z (k + 16) = Some (word_of_nat (length L))"
    by (simp_all only: z E_def k_def end_fields [OF n16])
  have small: "length L < 4294967296" "length C < 4294967296" "length L + length C \<le> k"
    using len bound by (simp_all add: k_def)
  have "read_from_end zinflate crc32 z k = Some (Inr t)"
    unfolding read_from_end_def
    using fields n n16 entries [folded k_def] small by simp
  then show ?thesis
    unfolding z_def [symmetric] ReadZip_def
    using len sig eocd by (simp add: k_def)
qed

section \<open>Properties\<close>

text \<open>The properties of the zip reader and writer.  The example archive stores its entries as they
  are, with a checksum that is their length.\<close>

definition stored_inflate :: zinflate where
  "stored_inflate input expected = Some (Z_STREAM_END, length input, take expected (input @ replicate expected (CHR ''0'')))"

definition length_crc :: crc where
  "length_crc s = word_of_nat (length s)"

definition example_now :: dos_now where
  "example_now = \<lparr>dosTime = 0, dosDate = 33\<rparr>"

definition example_tree :: cari_tree where
  "example_tree = \<lparr>files = [(''cert1/errors.txt'', ''none''), (''cert1/issuer/iss-1.pem'', ''A'')],
    folders = [''cert1'', ''cert1/issuer'']\<rparr>"

lemma stored_inverse: "zlib_inverse stored_inflate (\<lambda>s. s)"
  by (simp add: zlib_inverse_def Inflate_def stored_inflate_def)

lemma stored_sized: "inflate_sized stored_inflate"
  by (simp add: inflate_sized_def stored_inflate_def min_def)

lemma example_ok: "tree_ok example_tree"
proof -
  have parts: "Split ''cert1'' = [''cert1'']" "Split ''cert1/issuer'' = [''cert1'', ''issuer'']"
    by (simp_all add: Split_def)
  have paths: "path_ok ''cert1''" "path_ok ''cert1/issuer''" "path_ok ''cert1/errors.txt''" "path_ok ''cert1/issuer/iss-1.pem''"
    by (simp_all add: path_ok_def IsSafeZipPath_def safe_part_def control_char_def)
  have parents: "parent_path ''cert1/errors.txt'' = Some ''cert1''" "parent_path ''cert1/issuer/iss-1.pem'' = Some ''cert1/issuer''"
    by (simp_all add: parent_path_def)
  show ?thesis
    by (simp add: tree_ok_def example_tree_def file_ok_def parts paths parents parents_in_def oset_ok_def)
qed

lemma example_reads:
  "ReadZip stored_inflate length_crc (WriteZip (\<lambda>s. s) length_crc example_now example_tree) =
    Some (Inr example_tree)"
proof -
  have entries: "tree_entries example_tree =
      [\<lparr>e_name = ''cert1/'', e_data = []\<rparr>, \<lparr>e_name = ''cert1/issuer/'', e_data = []\<rparr>,
       \<lparr>e_name = ''cert1/errors.txt'', e_data = ''none''\<rparr>, \<lparr>e_name = ''cert1/issuer/iss-1.pem'', e_data = ''A''\<rparr>]"
    by (simp add: tree_entries_def example_tree_def)
  have "length (WriteZip (\<lambda>s. s) length_crc example_now example_tree) \<le> MAX_ZIP_BYTES"
    by (simp add: WriteZip_def entries entry_body_def entry_is_folder_def MAX_ZIP_BYTES_def)
  then show ?thesis
    using example_ok stored_inverse
    by (intro ReadZip_WriteZip) (simp_all add: example_tree_def unpacked_def MAX_ENTRIES_def
        MAX_TOTAL_UNCOMPRESSED_def)
qed

definition root_tree :: cari_tree where
  "root_tree = \<lparr>files = [], folders = [''cert1'']\<rparr>"

lemma root_ok: "tree_ok root_tree"
proof -
  have "Split ''cert1'' = [''cert1'']" "path_ok ''cert1''"
    by (simp_all add: Split_def path_ok_def IsSafeZipPath_def safe_part_def control_char_def)
  then show ?thesis by (simp add: root_tree_def tree_ok_def oset_ok_def parents_in_def)
qed

lemma root_length: "length (WriteZip (\<lambda>s. s) length_crc example_now root_tree) \<le> MAX_ZIP_BYTES"
proof -
  have "tree_entries root_tree = [\<lparr>e_name = ''cert1/'', e_data = []\<rparr>]"
    by (simp add: tree_entries_def root_tree_def)
  then show ?thesis
    by (simp add: WriteZip_def entry_body_def entry_is_folder_def MAX_ZIP_BYTES_def)
qed

text \<open>C35: The zip reader never reads outside the archive, whatever its octets, and whatever zlib
  answers: it always returns a tree or an error.\<close>

theorem read_zip_stays_inside:
  "\<exists>r. ReadZip zinflate crc32 archive = Some r"
  using ReadZip_safe [of zinflate crc32 archive] by (auto simp: safe_def)

text \<open>C33: Reading back a written archive gives the tree, for every well-formed tree within the limits,
  if zlib's inflate undoes its deflate: every path, every content and every empty folder survives.\<close>

theorem zip_round_trip:
  assumes "zlib_inverse zinflate deflate"
    and "tree_ok t" "folders t \<noteq> []"
    and "\<forall>f \<in> set (folders t). length f < 65535" "\<forall>p \<in> fst ` set (files t). length p < 65536"
    and "length (folders t) + length (files t) \<le> MAX_ENTRIES" "unpacked t \<le> MAX_TOTAL_UNCOMPRESSED"
      "length (WriteZip deflate crc32 now t) \<le> MAX_ZIP_BYTES"
  shows "ReadZip zinflate crc32 (WriteZip deflate crc32 now t) = Some (Inr t)"
  by (rule ReadZip_WriteZip [OF assms(2-8,1)])

theorem zip_round_trip_witness:
  "ReadZip stored_inflate length_crc (WriteZip (\<lambda>s. s) length_crc example_now root_tree) =
    Some (Inr root_tree)"
  by (rule zip_round_trip [OF stored_inverse root_ok])
    (use root_length in \<open>simp_all add: root_tree_def unpacked_def MAX_ENTRIES_def MAX_TOTAL_UNCOMPRESSED_def\<close>)

lemma safe_path_parts:
  assumes "IsSafeZipPath p"
  shows "hd p \<noteq> CHR ''/'' \<and> CHR 0x5C \<notin> set p \<and>
      (\<forall>part \<in> set (Split p). part \<noteq> [] \<and> part \<noteq> ''.'' \<and> part \<noteq> ''..'')"
proof -
  have "list_all safe_part (Split p)" "hd p \<noteq> CHR ''/''" "CHR 0x5C \<notin> set p"
    using assms by (simp_all add: IsSafeZipPath_def Split_def split: if_splits)
  then show ?thesis by (simp add: list_all_iff safe_part_def)
qed

text \<open>Every tree the reader accepts is within the limits and safe to extract: its contents add up
  to at most 16 MiB in at most 4096 files, no path is absolute or has an empty, \<^verbatim>\<open>.\<close> or
  \<^verbatim>\<open>..\<close> part, and every parent folder of a path is in the tree.\<close>

theorem read_zip_accepts_safe_trees:
  assumes "inflate_sized zinflate" "ReadZip zinflate crc32 archive = Some (Inr t)"
  shows "tree_ok t \<and> unpacked t \<le> 16777216 \<and> length (files t) \<le> 4096 \<and>
    (\<forall>p \<in> set (folders t) \<union> fst ` set (files t).
      hd p \<noteq> CHR ''/'' \<and> CHR 0x5C \<notin> set p \<and>
      (\<forall>part \<in> set (Split p). part \<noteq> [] \<and> part \<noteq> ''.'' \<and> part \<noteq> ''..''))"
proof -
  have t: "tree_ok t" "unpacked t \<le> 16777216" "length (files t) \<le> 4096"
    using ReadZip_inv [OF assms(2,1)] by (simp_all add: MAX_TOTAL_UNCOMPRESSED_def MAX_ENTRIES_def)
  have "path_ok p" if "p \<in> set (folders t) \<union> fst ` set (files t)" for p
    using that t(1) by (auto simp: tree_ok_def file_ok_def)
  then have "IsSafeZipPath p" if "p \<in> set (folders t) \<union> fst ` set (files t)" for p
    using that by (simp add: path_ok_def)
  then show ?thesis using t safe_path_parts by blast
qed

theorem read_zip_accepts_safe_trees_witness:
  "tree_ok example_tree \<and> unpacked example_tree \<le> 16777216"
  using read_zip_accepts_safe_trees [OF stored_sized example_reads] by simp

end
