(* ===== verification/Cari_Rules.thy ===== *)
theory Cari_Rules
  imports Cari_Zip
begin

text \<open>
  The rules of a CARI tree and its form on disk: \<^verbatim>\<open>DeviceInstance\<close>,
  \<^verbatim>\<open>FileName\<close>, \<^verbatim>\<open>IsValidName\<close>, \<^verbatim>\<open>Validate\<close>,
  \<^verbatim>\<open>ListCsrs\<close>, \<^verbatim>\<open>WriteToDir\<close> and \<^verbatim>\<open>ReadFromDir\<close> of
  \<^verbatim>\<open>src/cari.cpp\<close>.  A problem line is a constructor of \<^verbatim>\<open>problem\<close>; the
  file system is the sequence of operations the code makes on it, or the entries it iterates over.
\<close>

section \<open>Names\<close>

definition MAX_INSTANCE :: nat where
  "MAX_INSTANCE = 4194302"

definition all_digits :: "string \<Rightarrow> bool" where
  "all_digits s \<longleftrightarrow> list_all is_digit s"

definition DeviceInstance :: "string \<Rightarrow> nat option" where
  "DeviceInstance folder =
    (if \<not> StartsWith folder ''device-'' \<or> length folder = 7 \<or> length folder > 14 then None
     else
       let digits = drop 7 folder in
       if \<not> all_digits digits then None
       else
         let v = fst (strtoul_digits digits) in
         if v > MAX_INSTANCE then None else Some v)"

definition forbidden_char :: "char \<Rightarrow> bool" where
  "forbidden_char c \<longleftrightarrow> control_char c \<or> c \<in> set [CHR ''<'', CHR ''>'', CHR '':'', CHR 0x22, CHR ''/'',
     CHR 0x5C, CHR ''|'', CHR ''?'', CHR ''*'']"

definition IsValidName :: "string \<Rightarrow> bool" where
  "IsValidName name \<longleftrightarrow> \<not> (name = [] \<or> length name > 128) \<and> \<not> list_ex forbidden_char name"

text \<open>The length of the middle part is an unsigned subtraction; it cannot wrap for the prefixes the
  callers pass, whose last character is not the suffix's first.\<close>

definition FileName :: "string \<Rightarrow> string \<Rightarrow> string option" where
  "FileName file pre =
    (if \<not> StartsWith file pre \<or> \<not> EndsWith file ''.pem'' then None
     else
       let name = take (length file - length pre - 4) (drop (length pre) file) in
       if IsValidName name then Some name else None)"

section \<open>Validation\<close>

definition MAX_VENDOR_DATA :: nat where
  "MAX_VENDOR_DATA = 1024 * 1024"

definition MAX_NOTES :: nat where
  "MAX_NOTES = 10 * 1024"

definition MAX_PEM :: nat where
  "MAX_PEM = 64 * 1024"

datatype problem =
    OutsideCert1
  | IssuerFolderInRequest
  | BadCert1Folder
  | BadDeviceSubfolder
  | UnexpectedFolder
  | LargerThan nat
  | NotACariName
  | IssuerFileInRequest
  | BadIssuerFile
  | BadPortFile
  | NotACariPlace
  | NoDeviceFolder
  | NoPortFolder

text \<open>What the first loop does with one folder: a problem, nothing, the note that a device was
  seen, or that a device has a port.  \<^verbatim>\<open>p[0]\<close> of an empty vector is undefined.\<close>

datatype folder_class = FolderProblem problem | FolderFine | DeviceFolder | PortFolder string

definition classify_folder :: "bool \<Rightarrow> string list \<Rightarrow> folder_class option" where
  "classify_folder response p = do {
     root \<leftarrow> rd p 0;
     Some
       (if root \<noteq> ''cert1'' then FolderProblem OutsideCert1
        else if length p = 1 then FolderFine
        else if length p = 2 \<and> p ! 1 = ''issuer'' then
          (if \<not> response then FolderProblem IssuerFolderInRequest else FolderFine)
        else if DeviceInstance (p ! 1) = None then FolderProblem BadCert1Folder
        else if length p = 2 then DeviceFolder
        else if length p = 3 \<and> p ! 2 = ''router'' then FolderFine
        else if \<not> StartsWith (p ! 2) ''port-'' \<or> \<not> IsValidName (drop 5 (p ! 2))
        then FolderProblem BadDeviceSubfolder
        else if length p = 3 then PortFolder (p ! 1)
        else if length p = 4 \<and> p ! 3 = ''hub'' then FolderFine
        else FolderProblem UnexpectedFolder) }"

definition known_port_file :: "bool \<Rightarrow> string \<Rightarrow> bool" where
  "known_port_file response file \<longleftrightarrow>
    FileName file ''csr-'' \<noteq> None \<or> FileName file ''key-'' \<noteq> None \<or>
    (response \<and> FileName file ''opr-'' \<noteq> None)"

definition file_problem :: "bool \<Rightarrow> string list \<Rightarrow> nat \<Rightarrow> problem option option" where
  "file_problem response p len = do {
     root \<leftarrow> rd p 0;
     Some
       (if root \<noteq> ''cert1'' \<or> length p < 2 then Some OutsideCert1
        else if length p = 2 then
          (if p ! 1 = ''vendor-data'' then
             (if len > MAX_VENDOR_DATA then Some (LargerThan MAX_VENDOR_DATA) else None)
           else if p ! 1 = ''request-notes.txt'' then
             (if len > MAX_NOTES then Some (LargerThan MAX_NOTES) else None)
           else if response \<and> (p ! 1 = ''response-notes.txt'' \<or> p ! 1 = ''errors.txt'') then
             (if len > MAX_NOTES \<and> p ! 1 \<noteq> ''errors.txt'' then Some (LargerThan MAX_NOTES) else None)
           else Some NotACariName)
        else if length p = 3 \<and> p ! 1 = ''issuer'' then
          (if \<not> response then Some IssuerFileInRequest
           else if p ! 2 \<noteq> ''iss-1.pem'' \<and> p ! 2 \<noteq> ''iss-2.pem'' then Some BadIssuerFile
           else None)
        else if length p = 4 \<and> DeviceInstance (p ! 1) \<noteq> None \<and> StartsWith (p ! 2) ''port-'' then
          (if \<not> known_port_file response (p ! 3) then Some BadPortFile
           else if len > MAX_PEM then Some (LargerThan MAX_PEM)
           else None)
        else Some NotACariPlace) }"

text \<open>The first loop: the problems so far, \<^verbatim>\<open>sawDevice\<close> and
  \<^verbatim>\<open>devicesWithPort\<close>.\<close>

type_synonym folder_scan = "(string \<times> problem) list \<times> bool \<times> string oset"

definition scan_folder :: "bool \<Rightarrow> string \<Rightarrow> folder_scan \<Rightarrow> folder_scan option" where
  "scan_folder response folder st = do {
     cl \<leftarrow> classify_folder response (Split folder);
     Some (case st of (problems, sawDevice, withPort) \<Rightarrow>
       (case cl of
          FolderProblem why \<Rightarrow> (problems @ [(folder, why)], sawDevice, withPort)
        | FolderFine \<Rightarrow> (problems, sawDevice, withPort)
        | DeviceFolder \<Rightarrow> (problems, True, withPort)
        | PortFolder device \<Rightarrow> (problems, sawDevice, oset_add device withPort))) }"

fun scan_folders :: "bool \<Rightarrow> string list \<Rightarrow> folder_scan \<Rightarrow> folder_scan option" where
  "scan_folders response [] st = Some st"
| "scan_folders response (f # fs) st = do {
     st \<leftarrow> scan_folder response f st;
     scan_folders response fs st }"

fun scan_files :: "bool \<Rightarrow> (string, string) omap \<Rightarrow> (string \<times> problem) list option" where
  "scan_files response [] = Some []"
| "scan_files response ((path, contents) # fs) = do {
     why \<leftarrow> file_problem response (Split path) (length contents);
     rest \<leftarrow> scan_files response fs;
     Some (case why of None \<Rightarrow> rest | Some w \<Rightarrow> (path, w) # rest) }"

definition lacks_port :: "string oset \<Rightarrow> string \<Rightarrow> bool" where
  "lacks_port withPort folder \<longleftrightarrow>
    (let p = Split folder in
     length p = 2 \<and> DeviceInstance (p ! 1) \<noteq> None \<and> p ! 1 \<notin> set withPort)"

text \<open>The problems, in the order they are pushed; the tree is valid when there is none.\<close>

definition Validate :: "cari_tree \<Rightarrow> bool \<Rightarrow> (string \<times> problem) list option" where
  "Validate t response = do {
     scan \<leftarrow> scan_folders response (folders t) ([], False, []);
     fileProblems \<leftarrow> scan_files response (files t);
     Some (case scan of (folderProblems, sawDevice, withPort) \<Rightarrow>
       folderProblems @ fileProblems @
       (if sawDevice then [] else [(''cert1/'', NoDeviceFolder)]) @
       map (\<lambda>folder. (folder, NoPortFolder)) (filter (lacks_port withPort) (folders t))) }"

section \<open>The requests of a tree\<close>

record csr_entry =
  deviceFolder :: string
  deviceInstance :: nat
  portFolder :: string
  csr_name :: string
  csrPath :: string
  oprPath :: string
  keyPath :: string
  isHubPort :: bool
  isRouter :: bool

definition csr_of :: "cari_tree \<Rightarrow> string \<Rightarrow> csr_entry option" where
  "csr_of t path =
    (let p = Split path in
     if length p \<noteq> 4 \<or> p ! 0 \<noteq> ''cert1'' then None
     else
       (case DeviceInstance (p ! 1) of
          None \<Rightarrow> None
        | Some inst \<Rightarrow>
            if \<not> StartsWith (p ! 2) ''port-'' then None
            else
              (case FileName (p ! 3) ''csr-'' of
                 None \<Rightarrow> None
               | Some name \<Rightarrow>
                   let port = ''cert1/'' @ p ! 1 @ ''/'' @ p ! 2;
                       key = port @ ''/key-'' @ name @ ''.pem'' in
                   Some \<lparr>deviceFolder = p ! 1, deviceInstance = inst, portFolder = p ! 2,
                     csr_name = name, csrPath = path, oprPath = port @ ''/opr-'' @ name @ ''.pem'',
                     keyPath = (if Has t key then key else []),
                     isHubPort = port @ ''/hub'' \<in> set (folders t),
                     isRouter = ''cert1/'' @ p ! 1 @ ''/router'' \<in> set (folders t)\<rparr>)))"

definition ListCsrs :: "cari_tree \<Rightarrow> csr_entry list" where
  "ListCsrs t = List.map_filter (csr_of t) (map fst (files t))"

section \<open>The tree on disk\<close>

datatype disk_op = CreateDirectories string | WriteFile string string | OwnerOnly string

datatype write_error = UnsafeFolder string | UnsafeFile string | CouldNotWrite string

text \<open>\<^verbatim>\<open>base / relative\<close> for a relative path that is not empty.\<close>

definition under :: "string \<Rightarrow> string \<Rightarrow> string" where
  "under base path = base @ (if base = [] \<or> last base = slash then [] else ''/'') @ path"

definition file_name :: "string \<Rightarrow> string" where
  "file_name path = last (Split path)"

definition parent_of :: "string \<Rightarrow> string \<Rightarrow> string" where
  "parent_of base path = (case parent_path path of Some dir \<Rightarrow> under base dir | None \<Rightarrow> base)"

fun write_folders :: "string \<Rightarrow> string list \<Rightarrow> disk_op list \<times> write_error option" where
  "write_folders base [] = ([], None)"
| "write_folders base (f # fs) =
    (if \<not> IsSafeZipPath f then ([], Some (UnsafeFolder f))
     else (case write_folders base fs of (ops, e) \<Rightarrow> (CreateDirectories (under base f) # ops, e)))"

text \<open>\<^verbatim>\<open>opens\<close> says which files \<^verbatim>\<open>std::ofstream\<close> can open.\<close>

fun write_files ::
  "(string \<Rightarrow> bool) \<Rightarrow> string \<Rightarrow> (string, string) omap \<Rightarrow> disk_op list \<times> write_error option" where
  "write_files opens base [] = ([], None)"
| "write_files opens base ((path, contents) # fs) =
    (if \<not> IsSafeZipPath path then ([], Some (UnsafeFile path))
     else if \<not> opens (under base path)
     then ([CreateDirectories (parent_of base path)], Some (CouldNotWrite (under base path)))
     else
       (case write_files opens base fs of (ops, e) \<Rightarrow>
         ([CreateDirectories (parent_of base path), WriteFile (under base path) contents] @
          (if StartsWith (file_name path) ''key-'' then [OwnerOnly (under base path)] else []) @ ops,
          e)))"

definition WriteToDir ::
  "(string \<Rightarrow> bool) \<Rightarrow> cari_tree \<Rightarrow> string \<Rightarrow> disk_op list \<times> write_error option" where
  "WriteToDir opens t base =
    (case write_folders base (folders t) of
       (ops, Some e) \<Rightarrow> (ops, Some e)
     | (ops, None) \<Rightarrow>
         (case write_files opens base (files t) of (fileOps, e) \<Rightarrow> (ops @ fileOps, e)))"

text \<open>What the recursive iteration below \<^verbatim>\<open>cert1\<close> finds, with the path relative to the
  base: a folder, a regular file with its contents, or something else.\<close>

datatype dir_entry = DirFolder string | DirFile string string | DirOther string

fun add_dir_entry :: "dir_entry \<Rightarrow> cari_tree \<Rightarrow> cari_tree" where
  "add_dir_entry (DirFolder rel) t = AddFolder rel t"
| "add_dir_entry (DirFile rel contents) t = AddFile rel contents t"
| "add_dir_entry (DirOther rel) t = t"

text \<open>\<^verbatim>\<open>None\<close> for the argument is a base without a \<^verbatim>\<open>cert1\<close> folder.\<close>

definition ReadFromDir :: "dir_entry list option \<Rightarrow> cari_tree option" where
  "ReadFromDir listing =
    (case listing of
       None \<Rightarrow> None
     | Some found \<Rightarrow> Some (fold add_dir_entry found (AddFolder ''cert1'' Tree)))"

section \<open>What validation accepts\<close>

subsection \<open>The grammar\<close>

definition device_name :: "string \<Rightarrow> bool" where
  "device_name dev \<longleftrightarrow> DeviceInstance dev \<noteq> None"

definition port_name :: "string \<Rightarrow> bool" where
  "port_name c \<longleftrightarrow> (\<exists>ident. IsValidName ident \<and> c = ''port-'' @ ident)"

definition legal_folder :: "bool \<Rightarrow> string list \<Rightarrow> bool" where
  "legal_folder response p \<longleftrightarrow>
    p = [''cert1''] \<or> response \<and> p = [''cert1'', ''issuer''] \<or>
    (\<exists>dev. device_name dev \<and> (p = [''cert1'', dev] \<or> p = [''cert1'', dev, ''router''])) \<or>
    (\<exists>dev port. device_name dev \<and> port_name port \<and>
      (p = [''cert1'', dev, port] \<or> p = [''cert1'', dev, port, ''hub'']))"

definition legal_file :: "bool \<Rightarrow> string list \<Rightarrow> nat \<Rightarrow> bool" where
  "legal_file response p len \<longleftrightarrow>
    p = [''cert1'', ''vendor-data''] \<and> len \<le> MAX_VENDOR_DATA \<or>
    p = [''cert1'', ''request-notes.txt''] \<and> len \<le> MAX_NOTES \<or>
    response \<and> p = [''cert1'', ''response-notes.txt''] \<and> len \<le> MAX_NOTES \<or>
    response \<and> p = [''cert1'', ''errors.txt''] \<or>
    response \<and> (p = [''cert1'', ''issuer'', ''iss-1.pem''] \<or> p = [''cert1'', ''issuer'', ''iss-2.pem'']) \<or>
    (\<exists>dev port kind name. device_name dev \<and> IsValidName name \<and> len \<le> MAX_PEM \<and>
      (kind = ''csr-'' \<or> kind = ''key-'' \<or> response \<and> kind = ''opr-'') \<and>
      p = [''cert1'', dev, ''port-'' @ port, kind @ name @ ''.pem''])"

lemma StartsWith_iff: "StartsWith s pre \<longleftrightarrow> (\<exists>r. s = pre @ r)"
  by (auto simp: StartsWith_prefix prefix_def)

lemma EndsWith_iff: "EndsWith s suf \<longleftrightarrow> (\<exists>r. s = r @ suf)"
  by (auto simp: EndsWith_suffix suffix_def)

lemma DeviceInstance_issuer: "DeviceInstance ''issuer'' = None"
  by (simp add: DeviceInstance_def StartsWith_def)

lemma FileName_iff:
  assumes "pre = ''csr-'' \<or> pre = ''key-'' \<or> pre = ''opr-''"
  shows "FileName file pre = Some name \<longleftrightarrow> file = pre @ name @ ''.pem'' \<and> IsValidName name"
proof -
  have len: "length pre = 4" using assms by auto
  have dot: "CHR ''.'' \<notin> set pre" using assms by auto
  have "\<exists>name. file = pre @ name @ ''.pem''" if start: "StartsWith file pre" and ending: "EndsWith file ''.pem''"
  proof -
    obtain a where a: "file = pre @ a" using start unfolding StartsWith_iff by blast
    obtain b where b: "file = b @ ''.pem''" using ending unfolding EndsWith_iff by blast
    have "length b \<ge> 4"
    proof (rule ccontr)
      assume "\<not> length b \<ge> 4"
      then have "file ! length b \<in> set pre" using a len by (simp add: nth_append)
      then show False using b dot by (simp add: nth_append)
    qed
    then have "take 4 b = pre" using a b len by (metis append_eq_conv_conj take_append diff_is_0_eq take0 append_Nil2)
    then have "b = pre @ drop 4 b" by (metis append_take_drop_id)
    then show ?thesis using b by (metis append_assoc)
  qed
  note split = this
  show ?thesis
  proof (cases "\<exists>m. file = pre @ m @ ''.pem''")
    case True
    then obtain m where m: "file = pre @ m @ ''.pem''" by blast
    have "StartsWith file pre" "EndsWith file ''.pem''"
      unfolding StartsWith_iff EndsWith_iff m by (blast, metis append_assoc)
    then show ?thesis using len by (auto simp: FileName_def m)
  next
    case False
    then have "FileName file pre = None" using split by (auto simp: FileName_def)
    then show ?thesis using False by auto
  qed
qed

lemma length_parts:
  "p \<noteq> [] \<Longrightarrow>
    (\<exists>a. p = [a]) \<or> (\<exists>a b. p = [a, b]) \<or> (\<exists>a b c. p = [a, b, c]) \<or> (\<exists>a b c d. p = [a, b, c, d]) \<or>
    (\<exists>a b c d e es. p = a # b # c # d # e # es)"
  by (metis neq_Nil_conv)

lemma port_name_iff: "port_name c \<longleftrightarrow> StartsWith c ''port-'' \<and> IsValidName (drop 5 c)"
  by (auto simp: port_name_def StartsWith_iff)

lemma router_no_port: "\<not> StartsWith ''router'' ''port-''"
  by (simp add: StartsWith_def)

fun problem_free :: "folder_class option \<Rightarrow> bool" where
  "problem_free None \<longleftrightarrow> False"
| "problem_free (Some (FolderProblem why)) \<longleftrightarrow> False"
| "problem_free (Some cl) \<longleftrightarrow> True"

lemma classify_folder_legal:
  assumes "p \<noteq> []" shows "problem_free (classify_folder response p) = legal_folder response p"
proof -
  have issuer: "\<not> device_name ''issuer''" by (simp add: device_name_def DeviceInstance_issuer)
  have dev: "(DeviceInstance x = None) = (\<not> device_name x)" for x by (simp add: device_name_def)
  note defs = classify_folder_def legal_folder_def port_name_iff dev
  from length_parts [OF assms] show ?thesis
  proof (elim disjE exE)
    fix a assume "p = [a]" then show ?thesis by (simp add: defs)
  next
    fix a b assume "p = [a, b]" then show ?thesis using issuer by (auto simp: defs)
  next
    fix a b c assume "p = [a, b, c]" then show ?thesis using router_no_port by (auto simp: defs)
  next
    fix a b c d assume "p = [a, b, c, d]" then show ?thesis by (auto simp: defs)
  next
    fix a b c d e es assume "p = a # b # c # d # e # es" then show ?thesis by (simp add: defs)
  qed
qed

lemma FileName_dev: "(FileName file ''csr-'' \<noteq> None) = (\<exists>name. file = ''csr-'' @ name @ ''.pem'' \<and> IsValidName name)"
  "(FileName file ''key-'' \<noteq> None) = (\<exists>name. file = ''key-'' @ name @ ''.pem'' \<and> IsValidName name)"
  "(FileName file ''opr-'' \<noteq> None) = (\<exists>name. file = ''opr-'' @ name @ ''.pem'' \<and> IsValidName name)"
  by (simp_all add: FileName_iff)

definition port_file_name :: "bool \<Rightarrow> string \<Rightarrow> bool" where
  "port_file_name response file \<longleftrightarrow> (\<exists>kind name. IsValidName name \<and> file = kind @ name @ ''.pem'' \<and>
      (kind = ''csr-'' \<or> kind = ''key-'' \<or> response \<and> kind = ''opr-''))"

lemma known_port_file_iff: "known_port_file response file = port_file_name response file"
  unfolding known_port_file_def port_file_name_def FileName_dev by blast

lemma file_problem_legal:
  assumes "p \<noteq> []" shows "file_problem response p len = Some None \<longleftrightarrow> legal_file response p len"
proof -
  have dev: "(DeviceInstance x = None) = (\<not> device_name x)" for x by (simp add: device_name_def)
  have issuer: "\<not> device_name ''issuer''" by (simp add: device_name_def DeviceInstance_issuer)
  have legal4: "legal_file response [a, b, c, d] len \<longleftrightarrow>
      a = ''cert1'' \<and> device_name b \<and> StartsWith c ''port-'' \<and> port_file_name response d \<and> len \<le> MAX_PEM" for a b c d
    unfolding legal_file_def port_file_name_def StartsWith_iff by (auto; metis)
  note defs = file_problem_def known_port_file_iff dev
  from length_parts [OF assms] show ?thesis
  proof (elim disjE exE)
    fix a assume "p = [a]" then show ?thesis by (simp add: defs legal_file_def)
  next
    fix a b assume "p = [a, b]" then show ?thesis by (auto simp: defs legal_file_def)
  next
    fix a b c assume "p = [a, b, c]" then show ?thesis by (auto simp: defs legal_file_def)
  next
    fix a b c d assume "p = [a, b, c, d]" then show ?thesis by (auto simp: defs legal4 not_less)
  next
    fix a b c d e es assume "p = a # b # c # d # e # es" then show ?thesis by (simp add: defs legal_file_def)
  qed
qed

lemma Split_Nil_iff [simp]: "Split p = [] \<longleftrightarrow> p = []"
  by (simp add: Split_def)

lemma classify_defined: "p \<noteq> [] \<Longrightarrow> \<exists>cl. classify_folder response p = Some cl"
  by (cases p) (simp_all add: classify_folder_def)

definition class_of :: "bool \<Rightarrow> string \<Rightarrow> folder_class" where
  "class_of response f = the (classify_folder response (Split f))"

lemma classify_class_of: "f \<noteq> [] \<Longrightarrow> classify_folder response (Split f) = Some (class_of response f)"
  using classify_defined [of "Split f" response] by (auto simp: class_of_def)

fun step_scan :: "bool \<Rightarrow> string \<Rightarrow> folder_scan \<Rightarrow> folder_scan" where
  "step_scan response f (ps, saw, ports) =
    (case class_of response f of
       FolderProblem why \<Rightarrow> (ps @ [(f, why)], saw, ports)
     | FolderFine \<Rightarrow> (ps, saw, ports)
     | DeviceFolder \<Rightarrow> (ps, True, ports)
     | PortFolder dev \<Rightarrow> (ps, saw, oset_add dev ports))"

lemma scan_folders_fold:
  "\<forall>f \<in> set fs. f \<noteq> [] \<Longrightarrow> scan_folders response fs st = Some (fold (step_scan response) fs st)"
  by (induction fs arbitrary: st)
    (auto simp: scan_folder_def classify_class_of split: folder_class.split)

lemma fold_step_scan:
  "fold (step_scan response) fs (ps, saw, ports) = (qs, saw', ports') \<Longrightarrow>
    (qs = [] \<longleftrightarrow> ps = [] \<and> (\<forall>f \<in> set fs. \<forall>why. class_of response f \<noteq> FolderProblem why)) \<and>
    (saw' \<longleftrightarrow> saw \<or> (\<exists>f \<in> set fs. class_of response f = DeviceFolder)) \<and>
    set ports' = set ports \<union> {dev. \<exists>f \<in> set fs. class_of response f = PortFolder dev}"
proof (induction fs arbitrary: ps saw ports)
  case (Cons f fs)
  show ?case
  proof (cases "class_of response f")
    case (FolderProblem why)
    then show ?thesis using Cons.IH [of "ps @ [(f, why)]" saw ports] Cons.prems by auto
  next
    case FolderFine
    then show ?thesis using Cons.IH [of ps saw ports] Cons.prems by auto
  next
    case DeviceFolder
    then show ?thesis using Cons.IH [of ps True ports] Cons.prems by auto
  next
    case (PortFolder dev)
    then show ?thesis using Cons.IH [of ps saw "oset_add dev ports"] Cons.prems by auto
  qed
qed simp

lemma file_problem_defined: "p \<noteq> [] \<Longrightarrow> \<exists>w. file_problem response p len = Some w"
  by (cases p) (simp_all add: file_problem_def)

lemma scan_files_legal:
  "\<forall>(p, c) \<in> set fs. p \<noteq> [] \<Longrightarrow>
    \<exists>ps. scan_files response fs = Some ps \<and>
      (ps = [] \<longleftrightarrow> (\<forall>(p, c) \<in> set fs. legal_file response (Split p) (length c)))"
proof (induction fs)
  case (Cons pc fs)
  obtain p c where pc: "pc = (p, c)" by fastforce
  then have "Split p \<noteq> []" using Cons.prems by simp
  moreover obtain w where "file_problem response (Split p) (length c) = Some w"
    using file_problem_defined [OF calculation] by blast
  moreover obtain ps where "scan_files response fs = Some ps"
    "ps = [] \<longleftrightarrow> (\<forall>(p, c) \<in> set fs. legal_file response (Split p) (length c))"
    using Cons by auto
  ultimately show ?case
    using file_problem_legal [of "Split p" response "length c"] pc by (cases w) auto
qed simp

lemma class_legal:
  "f \<noteq> [] \<Longrightarrow> (\<forall>why. class_of response f \<noteq> FolderProblem why) \<longleftrightarrow> legal_folder response (Split f)"
  using classify_folder_legal [of "Split f" response] classify_class_of [of f response]
  by (cases "class_of response f") auto

lemma class_device:
  "f \<noteq> [] \<Longrightarrow> class_of response f = DeviceFolder \<longleftrightarrow> (\<exists>dev. device_name dev \<and> Split f = [''cert1'', dev])"
proof -
  assume f: "f \<noteq> []"
  then have p: "Split f \<noteq> []" by simp
  have issuer: "\<not> device_name ''issuer''" by (simp add: device_name_def DeviceInstance_issuer)
  have dev: "(DeviceInstance x = None) = (\<not> device_name x)" for x by (simp add: device_name_def)
  have "class_of response f = the (classify_folder response (Split f))" by (simp add: class_of_def)
  with length_parts [OF p] show ?thesis
    by (elim disjE exE) (use issuer in \<open>auto simp: classify_folder_def dev\<close>)
qed

lemma class_port:
  "f \<noteq> [] \<Longrightarrow> class_of response f = PortFolder dev \<longleftrightarrow>
    device_name dev \<and> (\<exists>port. port_name port \<and> Split f = [''cert1'', dev, port])"
proof -
  assume f: "f \<noteq> []"
  then have p: "Split f \<noteq> []" by simp
  have dev: "(DeviceInstance x = None) = (\<not> device_name x)" for x by (simp add: device_name_def)
  have "class_of response f = the (classify_folder response (Split f))" by (simp add: class_of_def)
  with length_parts [OF p] show ?thesis
    by (elim disjE exE) (use router_no_port in \<open>auto simp: classify_folder_def dev port_name_iff\<close>)
qed

definition cari_valid :: "cari_tree \<Rightarrow> bool \<Rightarrow> bool" where
  "cari_valid t response \<longleftrightarrow>
    (\<forall>f \<in> set (folders t). legal_folder response (Split f)) \<and>
    (\<forall>(p, c) \<in> set (files t). legal_file response (Split p) (length c)) \<and>
    (\<exists>f \<in> set (folders t). \<exists>dev. device_name dev \<and> Split f = [''cert1'', dev]) \<and>
    (\<forall>f \<in> set (folders t). \<forall>dev. device_name dev \<longrightarrow> Split f = [''cert1'', dev] \<longrightarrow>
      (\<exists>g \<in> set (folders t). \<exists>port. port_name port \<and> Split g = [''cert1'', dev, port]))"

lemma Validate_iff:
  assumes "\<forall>f \<in> set (folders t). f \<noteq> []" "\<forall>(p, c) \<in> set (files t). p \<noteq> []"
  shows "\<exists>ps. Validate t response = Some ps \<and> (ps = [] \<longleftrightarrow> cari_valid t response)"
proof -
  obtain qs saw ports where scan: "fold (step_scan response) (folders t) ([], False, []) = (qs, saw, ports)"
    by (metis prod_cases3)
  note f = fold_step_scan [OF scan]
  obtain fps where fps: "scan_files response (files t) = Some fps"
    "fps = [] \<longleftrightarrow> (\<forall>(p, c) \<in> set (files t). legal_file response (Split p) (length c))"
    using scan_files_legal [OF assms(2)] by blast
  have qs: "qs = [] \<longleftrightarrow> (\<forall>f \<in> set (folders t). legal_folder response (Split f))"
    using f assms(1) class_legal by auto
  have saw: "saw \<longleftrightarrow> (\<exists>f \<in> set (folders t). \<exists>dev. device_name dev \<and> Split f = [''cert1'', dev])"
    using f assms(1) class_device by auto
  have ports: "dev \<in> set ports \<longleftrightarrow> device_name dev \<and> (\<exists>f \<in> set (folders t). \<exists>port. port_name port \<and> Split f = [''cert1'', dev, port])" for dev
    using f assms(1) class_port by auto
  have dev2: "length (Split f) = 2 \<and> DeviceInstance (Split f ! 1) \<noteq> None \<longleftrightarrow>
      (\<exists>dev. device_name dev \<and> Split f = [''cert1'', dev])" if "legal_folder response (Split f)" for f
    using that DeviceInstance_issuer by (auto simp: legal_folder_def device_name_def)
  have lacks: "filter (lacks_port ports) (folders t) = [] \<longleftrightarrow>
     (\<forall>f \<in> set (folders t). \<forall>dev. device_name dev \<longrightarrow> Split f = [''cert1'', dev] \<longrightarrow>
      (\<exists>g \<in> set (folders t). \<exists>port. port_name port \<and> Split g = [''cert1'', dev, port]))"
    if "\<forall>f \<in> set (folders t). legal_folder response (Split f)"
    unfolding filter_empty_conv lacks_port_def Let_def ports
    using dev2 that by fastforce
  have "Validate t response = Some (qs @ fps @ (if saw then [] else [(''cert1/'', NoDeviceFolder)]) @
      map (\<lambda>folder. (folder, NoPortFolder)) (filter (lacks_port ports) (folders t)))"
    using scan_folders_fold [OF assms(1)] by (simp add: Validate_def scan fps)
  moreover have "(qs @ fps @ (if saw then [] else [(''cert1/'', NoDeviceFolder)]) @
      map (\<lambda>folder. (folder, NoPortFolder)) (filter (lacks_port ports) (folders t)) = []) \<longleftrightarrow> cari_valid t response"
    unfolding cari_valid_def append_is_Nil_conv map_is_Nil_conv fps(2) qs
    using lacks saw by auto
  ultimately show ?thesis by blast
qed

section \<open>The disk\<close>

lemma split_on_snoc_sep:
  "split_on sep (q @ [sep]) = (if q = [] \<or> last q = sep then split_on sep q @ [[]] else split_on sep q)"
proof (induction q rule: length_induct)
  case (1 q)
  show ?case
  proof (cases "sep \<in> set q")
    case False
    show ?thesis
    proof (cases "q = []")
      case False
      moreover have "last q \<noteq> sep" using False \<open>sep \<notin> set q\<close> by (metis last_in_set)
      ultimately show ?thesis
        using \<open>sep \<notin> set q\<close> split_on_Cons_part [of sep q "[]"] by (simp add: split_on_part)
    qed simp
  next
    case True
    then obtain a r where q: "q = a @ sep # r" "sep \<notin> set a" by (meson split_list_first)
    have "split_on sep (r @ [sep]) = (if r = [] \<or> last r = sep then split_on sep r @ [[]] else split_on sep r)"
      using 1 q(1) by simp
    then show ?thesis using q by (auto simp: split_on_Cons_part)
  qed
qed

lemma safe_parent:
  assumes "IsSafeZipPath p" "parent_path p = Some dir" shows "IsSafeZipPath dir"
proof (cases "last p = slash")
  case False
  then have ok: "path_ok p" using assms(1) by (simp add: path_ok_def)
  from parent_parts [OF ok assms(2)] show ?thesis
    using path_ok_join by (auto simp: path_ok_def)
next
  case True
  then obtain q where q: "p = q @ [slash]" using assms(1) by (metis IsSafeZipPath_def append_butlast_last_id)
  then have dir: "dir = q" using assms(2) by (simp add: parent_path_def)
  have "q \<noteq> []" "last q \<noteq> slash"
    using assms(1) q split_on_snoc_sep [of slash q] by (auto simp: IsSafeZipPath_def safe_part_def split: if_splits)
  then show ?thesis
    using assms(1) q split_on_snoc_sep [of slash q] by (auto simp: IsSafeZipPath_def dir split: if_splits)
qed

fun op_path :: "disk_op \<Rightarrow> string" where
  "op_path (CreateDirectories p) = p"
| "op_path (WriteFile p c) = p"
| "op_path (OwnerOnly p) = p"

definition inside :: "string \<Rightarrow> string \<Rightarrow> bool" where
  "inside base p \<longleftrightarrow> p = base \<or> (\<exists>rel. IsSafeZipPath rel \<and> p = under base rel)"

lemma write_folders_inside: "op \<in> set (fst (write_folders base fs)) \<Longrightarrow> inside base (op_path op)"
  by (induction base fs rule: write_folders.induct) (auto simp: inside_def split: if_splits prod.splits)

lemma parent_inside: "IsSafeZipPath p \<Longrightarrow> inside base (parent_of base p)"
  by (auto simp: parent_of_def inside_def dest: safe_parent split: option.split)

lemma write_files_inside: "op \<in> set (fst (write_files opens base fs)) \<Longrightarrow> inside base (op_path op)"
proof (induction opens base fs rule: write_files.induct)
  case (2 opens base path contents fs)
  have "inside base (under base path)" if "IsSafeZipPath path" using that by (auto simp: inside_def)
  then show ?case
    using 2 parent_inside [of path base] by (auto split: if_splits prod.splits)
qed simp

lemma WriteToDir_inside: "op \<in> set (fst (WriteToDir opens t base)) \<Longrightarrow> inside base (op_path op)"
  using write_folders_inside [of op base "folders t"] write_files_inside [of op opens base "files t"]
  by (auto simp: WriteToDir_def split: prod.splits option.splits)

definition files_written :: "disk_op list \<Rightarrow> (string \<times> string) list" where
  "files_written ops = List.map_filter (\<lambda>op. case op of WriteFile p c \<Rightarrow> Some (p, c) | _ \<Rightarrow> None) ops"

lemma files_written_simps [simp]:
  "files_written [] = []"
  "files_written (CreateDirectories p # ops) = files_written ops"
  "files_written (OwnerOnly p # ops) = files_written ops"
  "files_written (WriteFile p c # ops) = (p, c) # files_written ops"
  "files_written (xs @ ys) = files_written xs @ files_written ys"
  by (simp_all add: files_written_def List.map_filter_def)

lemma write_folders_all:
  "\<forall>f \<in> set fs. IsSafeZipPath f \<Longrightarrow>
    write_folders base fs = (map (\<lambda>f. CreateDirectories (under base f)) fs, None)"
  by (induction fs) auto

lemma write_files_all:
  "\<forall>(p, c) \<in> set fs. IsSafeZipPath p \<and> opens (under base p) \<Longrightarrow>
    snd (write_files opens base fs) = None \<and>
    files_written (fst (write_files opens base fs)) = map (\<lambda>(p, c). (under base p, c)) fs \<and>
    (\<forall>(p, c) \<in> set fs. StartsWith (file_name p) ''key-'' \<longrightarrow>
      OwnerOnly (under base p) \<in> set (fst (write_files opens base fs)))"
proof (induction fs)
  case (Cons pc fs)
  obtain p c where pc: "pc = (p, c)" by fastforce
  show ?case using Cons pc by (auto split: prod.split)
qed simp

lemma files_written_folders [simp]: "files_written (map (\<lambda>f. CreateDirectories (g f)) fs) = []"
  by (induction fs) simp_all

lemma WriteToDir_complete:
  assumes "tree_ok t" "\<forall>p \<in> fst ` set (files t). opens (under base p)"
  defines "r \<equiv> WriteToDir opens t base"
  shows "snd r = None \<and> files_written (fst r) = map (\<lambda>(p, c). (under base p, c)) (files t) \<and>
    (\<forall>f \<in> set (folders t). CreateDirectories (under base f) \<in> set (fst r)) \<and>
    (\<forall>p \<in> fst ` set (files t). StartsWith (file_name p) ''key-'' \<longrightarrow> OwnerOnly (under base p) \<in> set (fst r))"
proof -
  have "\<forall>f \<in> set (folders t). IsSafeZipPath f" using assms(1) by (simp add: tree_ok_def path_ok_def)
  note f = write_folders_all [OF this, of base]
  have "\<forall>(p, c) \<in> set (files t). IsSafeZipPath p \<and> opens (under base p)"
    using assms(1,2) by (force simp: tree_ok_def file_ok_def path_ok_def)
  note g = write_files_all [OF this]
  show ?thesis
    using f g by (auto simp: r_def WriteToDir_def split: prod.split)
qed

text \<open>An iteration that lists the tree: its folders but the first, and its files, in any order.\<close>

definition lists_tree :: "cari_tree \<Rightarrow> dir_entry list \<Rightarrow> bool" where
  "lists_tree t es \<longleftrightarrow>
    insert ''cert1'' {f. DirFolder f \<in> set es} = set (folders t) \<and>
    {(p, c). DirFile p c \<in> set es} = set (files t)"

fun entry_folders :: "dir_entry \<Rightarrow> string set" where
  "entry_folders (DirFolder f) = set (partials [] (Split f))"
| "entry_folders (DirFile p c) = (case parent_path p of Some d \<Rightarrow> set (partials [] (Split d)) | None \<Rightarrow> {})"
| "entry_folders (DirOther p) = {}"

lemma oset_ok_AddFolder: "oset_ok (folders u) \<Longrightarrow> oset_ok (folders (AddFolder p u))"
  by (simp add: AddFolder_def std_set.ok_add_all)

lemma add_dir_entry_folders:
  "oset_ok (folders u) \<Longrightarrow> oset_ok (folders (add_dir_entry e u)) \<and>
    set (folders (add_dir_entry e u)) = set (folders u) \<union> entry_folders e"
  by (cases e) (auto simp: set_folders_AddFolder oset_ok_AddFolder AddFile_def Let_def split: option.splits)

lemma fold_dir_folders:
  "oset_ok (folders u) \<Longrightarrow> oset_ok (folders (fold add_dir_entry es u)) \<and>
    set (folders (fold add_dir_entry es u)) = set (folders u) \<union> (\<Union>e \<in> set es. entry_folders e)"
proof (induction es arbitrary: u)
  case (Cons e es)
  then show ?case using add_dir_entry_folders [of u e] by auto
qed simp

lemma fold_dir_files:
  assumes "omap_ok (files u)" "\<And>p c d. DirFile p c \<in> set es \<Longrightarrow> DirFile p d \<in> set es \<Longrightarrow> c = d"
  shows "omap_ok (files (fold add_dir_entry es u)) \<and>
    (\<forall>p. map_of (files (fold add_dir_entry es u)) p =
      (if \<exists>c. DirFile p c \<in> set es then Some (THE c. DirFile p c \<in> set es) else map_of (files u) p))"
  using assms
proof (induction es rule: rev_induct)
  case (snoc e es)
  have IH: "omap_ok (files (fold add_dir_entry es u))"
    "map_of (files (fold add_dir_entry es u)) p =
      (if \<exists>c. DirFile p c \<in> set es then Some (THE c. DirFile p c \<in> set es) else map_of (files u) p)" for p
  proof -
    have "c = d" if "DirFile p c \<in> set es" "DirFile p d \<in> set es" for p c d
      using snoc.prems(2) [of p c d] that by simp
    then have "omap_ok (files (fold add_dir_entry es u)) \<and>
    (\<forall>p. map_of (files (fold add_dir_entry es u)) p =
      (if \<exists>c. DirFile p c \<in> set es then Some (THE c. DirFile p c \<in> set es) else map_of (files u) p))"
      by (rule snoc.IH [OF snoc.prems(1)])
    then show "omap_ok (files (fold add_dir_entry es u))"
      "map_of (files (fold add_dir_entry es u)) p =
      (if \<exists>c. DirFile p c \<in> set es then Some (THE c. DirFile p c \<in> set es) else map_of (files u) p)"
      by blast+
  qed
  show ?case
  proof (cases e)
    case (DirFile q d)
    have q: "DirFile q c \<in> set (es @ [e]) \<longleftrightarrow> c = d" for c
      using snoc.prems(2) [of q c d] DirFile by auto
    then have "(THE c. DirFile q c \<in> set (es @ [e])) = d" by simp
    then show ?thesis using IH DirFile q by (auto simp: files_AddFile)
  qed (use IH in auto)
qed simp

lemma ReadFromDir_lists:
  assumes t: "tree_ok t" and es: "lists_tree t es"
  shows "ReadFromDir (Some es) = Some t"
proof -
  let ?u = "AddFolder ''cert1'' Tree"
  let ?r = "fold add_dir_entry es ?u"
  have u: "oset_ok (folders ?u)" "files ?u = []" "set (folders ?u) = {''cert1''}"
    using set_folders_AddFolder [of Tree "''cert1''"] by (simp_all add: oset_ok_AddFolder Tree_def Split_def)
  have ok: "oset_ok (folders ?r)" and set: "set (folders ?r) = {''cert1''} \<union> (\<Union>e \<in> set es. entry_folders e)"
    using fold_dir_folders [OF u(1), of es] u(3) by auto
  have listed: "DirFolder f \<in> set es \<Longrightarrow> f \<in> set (folders t)" "DirFile p c \<in> set es \<longleftrightarrow> (p, c) \<in> set (files t)"
    "''cert1'' \<in> set (folders t)" for f p c
    using es by (auto simp: lists_tree_def)
  have sub: "entry_folders e \<subseteq> set (folders t)" if "e \<in> set es" for e
  proof (cases e)
    case (DirFolder f)
    then show ?thesis using that listed(1) t by (auto simp: tree_ok_def parents_in_def)
  next
    case (DirFile p c)
    then have "file_ok (folders t) p" using that listed(2) t by (force simp: tree_ok_def)
    then show ?thesis using DirFile by (auto simp: file_ok_def parents_in_def split: option.split)
  qed simp
  have "set (folders ?r) = set (folders t)"
  proof
    show "set (folders ?r) \<subseteq> set (folders t)" using set sub listed(3) by auto
    show "set (folders t) \<subseteq> set (folders ?r)"
    proof
      fix f assume f: "f \<in> set (folders t)"
      then have "f = ''cert1'' \<or> DirFolder f \<in> set es" using es by (auto simp: lists_tree_def)
      moreover have "f \<in> entry_folders (DirFolder f)"
        using path_ok_self f t by (simp add: tree_ok_def)
      ultimately have "f = ''cert1'' \<or> (\<exists>e \<in> set es. f \<in> entry_folders e)" by blast
      then show "f \<in> set (folders ?r)" using set by auto
    qed
  qed
  then have folders: "folders ?r = folders t" using ok t by (intro oset_same) (auto simp: tree_ok_def)
  have dist: "distinct (map fst (files t))" using t by (simp add: tree_ok_def omap_ok_distinct)
  then have unique: "c = d" if "DirFile p c \<in> set es" "DirFile p d \<in> set es" for p c d
    using that listed(2) by (auto dest: eq_key_imp_eq_value)
  have "omap_ok (files ?u)" using u(2) by simp
  from fold_dir_files [OF this unique] have ok2: "omap_ok (files ?r)"
    and look: "map_of (files ?r) p = (if \<exists>c. DirFile p c \<in> set es then Some (THE c. DirFile p c \<in> set es) else None)" for p
    using u(2) by auto
  have "map_of (files ?r) p = map_of (files t) p" for p
  proof (cases "map_of (files t) p")
    case None
    then have "\<not> (\<exists>c. DirFile p c \<in> set es)" using listed(2) by (force simp: map_of_eq_None_iff)
    then show ?thesis using None look by simp
  next
    case (Some c)
    then have "DirFile p c \<in> set es" using listed(2) by (simp add: map_of_SomeD)
    then have "(THE c. DirFile p c \<in> set es) = c" using unique by blast
    then show ?thesis using Some look \<open>DirFile p c \<in> set es\<close> by auto
  qed
  then have "files ?r = files t" using ok2 t by (intro omap_same) (auto simp: tree_ok_def)
  then have "?r = t" using folders by (intro cari_tree.equality) auto
  then show ?thesis by (simp add: ReadFromDir_def)
qed

section \<open>The answers to the requests\<close>

lemma csr_of_shape:
  assumes "csr_of t path = Some e" "path_ok path"
  shows "\<exists>dev port name. device_name dev \<and> IsValidName name \<and> StartsWith port ''port-'' \<and>
    Split path = [''cert1'', dev, port, ''csr-'' @ name @ ''.pem''] \<and>
    csrPath e = path \<and> csr_name e = name \<and>
    oprPath e = join_with slash [''cert1'', dev, port, ''opr-'' @ name @ ''.pem''] \<and>
    safe_parts [''cert1'', dev, port, ''opr-'' @ name @ ''.pem'']"
proof -
  obtain n where len: "length (Split path) = 4" and root: "Split path ! 0 = ''cert1''"
    and dev: "DeviceInstance (Split path ! 1) = Some n" and port: "StartsWith (Split path ! 2) ''port-''"
    and name: "FileName (Split path ! 3) ''csr-'' \<noteq> None"
    using assms(1) by (auto simp: csr_of_def Let_def split: if_splits option.splits)
  obtain a b c d where p: "Split path = [a, b, c, d]"
    using length_parts [of "Split path"] len by (cases "Split path = []") auto
  obtain name where d: "FileName d ''csr-'' = Some name" using name p by auto
  then have d': "d = ''csr-'' @ name @ ''.pem''" "IsValidName name" by (simp_all add: FileName_iff)
  have safe: "safe_parts [a, b, c, d]" using path_ok_parts [OF assms(2)] p by simp
  moreover have "\<not> control_char CHR ''o''" by (simp add: control_char_def)
  ultimately have "safe_parts [a, b, c, ''opr-'' @ name @ ''.pem'']"
    using d' by (auto simp: safe_parts_def safe_part_def)
  then show ?thesis
    using assms(1) p root dev port d d' by (auto simp: csr_of_def Let_def device_name_def)
qed

lemma csr_keys_ok: "tree_ok t \<Longrightarrow> e \<in> set (ListCsrs t) \<Longrightarrow> \<exists>path \<in> fst ` set (files t). path_ok path \<and> csr_of t path = Some e"
  by (force simp: ListCsrs_def List.map_filter_def tree_ok_def file_ok_def)

lemma list_csrs_entry:
  assumes "tree_ok t" "e \<in> set (ListCsrs t)"
  shows "csrPath e \<in> fst ` set (files t) \<and>
    Split (oprPath e) = butlast (Split (csrPath e)) @ [''opr-'' @ csr_name e @ ''.pem''] \<and>
    last (Split (csrPath e)) = ''csr-'' @ csr_name e @ ''.pem'' \<and>
    legal_file True (Split (oprPath e)) MAX_PEM"
proof -
  obtain path where path: "path \<in> fst ` set (files t)" "path_ok path" "csr_of t path = Some e"
    using csr_keys_ok [OF assms] by blast
  obtain dev port name where s: "device_name dev" "IsValidName name" "StartsWith port ''port-''"
    "Split path = [''cert1'', dev, port, ''csr-'' @ name @ ''.pem'']" "csrPath e = path" "csr_name e = name"
    "oprPath e = join_with slash [''cert1'', dev, port, ''opr-'' @ name @ ''.pem'']"
    "safe_parts [''cert1'', dev, port, ''opr-'' @ name @ ''.pem'']"
    using csr_of_shape [OF path(3,2)] by blast
  have opr: "Split (oprPath e) = [''cert1'', dev, port, ''opr-'' @ name @ ''.pem'']"
    unfolding s(7) using s(8) by (rule Split_join)
  obtain port_id where port: "port = ''port-'' @ port_id" using s(3) by (auto simp: StartsWith_iff)
  have "legal_file True [''cert1'', dev, port, ''opr-'' @ name @ ''.pem''] MAX_PEM"
    unfolding legal_file_def port using s(1,2) by blast
  then show ?thesis using opr s path(1) by simp
qed

lemma list_csrs_same_answer:
  assumes "tree_ok t" "e \<in> set (ListCsrs t)" "f \<in> set (ListCsrs t)" "oprPath e = oprPath f"
  shows "csrPath e = csrPath f"
proof -
  note e = list_csrs_entry [OF assms(1,2)] and f = list_csrs_entry [OF assms(1,3)]
  obtain pe where pe: "path_ok pe" "csr_of t pe = Some e" using csr_keys_ok [OF assms(1,2)] by blast
  obtain pf where pf: "path_ok pf" "csr_of t pf = Some f" using csr_keys_ok [OF assms(1,3)] by blast
  have csr: "csrPath e = pe" "csrPath f = pf"
    using csr_of_shape [OF pe(2,1)] csr_of_shape [OF pf(2,1)] by blast+
  then have ne: "Split (csrPath e) \<noteq> []" "Split (csrPath f) \<noteq> []"
    using path_ok_parts [OF pe(1)] path_ok_parts [OF pf(1)] by (simp_all only: csr safe_parts_def) blast+
  have "Split (csrPath e) = butlast (Split (csrPath e)) @ [''csr-'' @ csr_name e @ ''.pem'']"
    using e ne(1) append_butlast_last_id [of "Split (csrPath e)"] by simp
  moreover have "Split (csrPath f) = butlast (Split (csrPath f)) @ [''csr-'' @ csr_name f @ ''.pem'']"
    using f ne(2) append_butlast_last_id [of "Split (csrPath f)"] by simp
  moreover have "butlast (Split (csrPath e)) = butlast (Split (csrPath f)) \<and> csr_name e = csr_name f"
    using e f assms(4) by simp
  ultimately have "Split (csrPath e) = Split (csrPath f)" by metis
  then have "Split pe = Split pf" using csr by simp
  then show ?thesis using path_ok_parts [OF pe(1)] path_ok_parts [OF pf(1)] unfolding csr by metis
qed

section \<open>Properties\<close>

definition request_tree :: cari_tree where
  "request_tree =
    \<lparr>files = [(''cert1/device-12/port-1/csr-a.pem'', ''CSR'')],
     folders = [''cert1'', ''cert1/device-12'', ''cert1/device-12/port-1'']\<rparr>"

lemma request_splits:
  "Split ''cert1'' = [''cert1'']" "Split ''cert1/device-12'' = [''cert1'', ''device-12'']"
  "Split ''cert1/device-12/port-1'' = [''cert1'', ''device-12'', ''port-1'']"
  "Split ''cert1/device-12/port-1/csr-a.pem'' = [''cert1'', ''device-12'', ''port-1'', ''csr-a.pem'']"
  by (simp_all add: Split_def)

lemma device_12: "DeviceInstance ''device-12'' = Some 12"
  by (simp add: DeviceInstance_def StartsWith_def all_digits_def is_digit_def strtoul_digits_def
      digits_val_def digit_val_def ULONG_MAX_def MAX_INSTANCE_def)

lemma request_names: "IsValidName ''1''" "IsValidName ''a''"
  by (simp_all add: IsValidName_def forbidden_char_def control_char_def)

lemma request_tree_ok: "tree_ok request_tree"
proof -
  have paths: "path_ok ''cert1''" "path_ok ''cert1/device-12''" "path_ok ''cert1/device-12/port-1''"
      "path_ok ''cert1/device-12/port-1/csr-a.pem''"
    by (simp_all add: path_ok_def IsSafeZipPath_def safe_part_def control_char_def)
  have parent: "parent_path ''cert1/device-12/port-1/csr-a.pem'' = Some ''cert1/device-12/port-1''"
    by (simp add: parent_path_def)
  show ?thesis
    by (simp add: tree_ok_def request_tree_def file_ok_def request_splits paths parent parents_in_def oset_ok_def)
qed

text \<open>Validation is exactly the grammar of AA.2.1: for any tree without an empty path it never
  indexes an empty vector, and it reports no problem if and only if every folder and every file is
  one the grammar allows, there is a device folder, and every device folder has a port folder.\<close>

theorem validate_exact:
  assumes "\<forall>f \<in> set (folders t). f \<noteq> []" "\<forall>(p, c) \<in> set (files t). p \<noteq> []"
  shows "\<exists>problems. Validate t response = Some problems \<and> (problems = [] \<longleftrightarrow> cari_valid t response)"
  by (rule Validate_iff [OF assms])

theorem validate_exact_witness:
  "\<exists>problems. Validate request_tree False = Some problems \<and> (problems = [] \<longleftrightarrow> cari_valid request_tree False)"
  by (rule validate_exact) (simp_all add: request_tree_def)



text \<open>A well-formed tree is written completely when its files can be opened: no error, every
  folder created, every file with its contents, and owner-only permissions on every private key.\<close>

theorem write_to_dir_complete:
  assumes "tree_ok t" "\<forall>p \<in> fst ` set (files t). opens (under base p)"
  shows "snd (WriteToDir opens t base) = None \<and>
    files_written (fst (WriteToDir opens t base)) = map (\<lambda>(p, c). (under base p, c)) (files t) \<and>
    (\<forall>f \<in> set (folders t). CreateDirectories (under base f) \<in> set (fst (WriteToDir opens t base))) \<and>
    (\<forall>p \<in> fst ` set (files t). StartsWith (file_name p) ''key-'' \<longrightarrow>
      OwnerOnly (under base p) \<in> set (fst (WriteToDir opens t base)))"
  by (rule WriteToDir_complete [OF assms])

theorem write_to_dir_complete_witness:
  "snd (WriteToDir (\<lambda>_. True) request_tree ''out'') = None"
  using write_to_dir_complete [OF request_tree_ok, of "\<lambda>_. True" "''out''"] by simp

text \<open>Reading a folder back does not depend on the order in which the file system lists it: any
  listing of exactly the folders and files of a well-formed tree rebuilds that tree.\<close>

theorem read_from_dir_any_order:
  assumes "tree_ok t" "lists_tree t listing"
  shows "ReadFromDir (Some listing) = Some t"
  by (rule ReadFromDir_lists [OF assms])

theorem read_from_dir_any_order_witness:
  "ReadFromDir (Some [DirFolder ''cert1/device-12/port-1'', DirFile ''cert1/device-12/port-1/csr-a.pem'' ''CSR'',
     DirFolder ''cert1/device-12'']) = Some request_tree"
  by (rule read_from_dir_any_order [OF request_tree_ok]) (auto simp: lists_tree_def request_tree_def)

text \<open>Every request the tool lists is a file of the tree, and its certificate goes to the same
  port folder, to a path a response may hold; two requests never share a certificate path.\<close>

theorem list_csrs_answers:
  assumes "tree_ok t" "e \<in> set (ListCsrs t)" "f \<in> set (ListCsrs t)"
  shows "csrPath e \<in> fst ` set (files t) \<and>
    butlast (Split (oprPath e)) = butlast (Split (csrPath e)) \<and>
    legal_file True (Split (oprPath e)) MAX_PEM \<and>
    (oprPath e = oprPath f \<longrightarrow> csrPath e = csrPath f)"
  using list_csrs_entry [OF assms(1,2)] list_csrs_same_answer [OF assms] by auto

lemma request_csrs:
  "ListCsrs request_tree = [\<lparr>deviceFolder = ''device-12'', deviceInstance = 12, portFolder = ''port-1'',
     csr_name = ''a'', csrPath = ''cert1/device-12/port-1/csr-a.pem'',
     oprPath = ''cert1/device-12/port-1/opr-a.pem'', keyPath = [], isHubPort = False, isRouter = False\<rparr>]"
proof -
  have "FileName ''csr-a.pem'' ''csr-'' = Some ''a''"
    by (simp add: FileName_iff request_names)
  then show ?thesis
    by (simp add: ListCsrs_def csr_of_def request_tree_def request_splits device_12 StartsWith_def
        List.map_filter_def Has_def omap_has_def)
qed

theorem list_csrs_answers_witness:
  "legal_file True (Split ''cert1/device-12/port-1/opr-a.pem'') MAX_PEM"
  using list_csrs_answers [OF request_tree_ok, unfolded request_csrs, OF list.set_intros(1) list.set_intros(1)]
  by simp

end
