(* ===== verification/Cert_Layout.thy ===== *)
theory Cert_Layout
  imports Cari_Rules
begin

text \<open>
  Where the hub's certificate files are, \<^verbatim>\<open>src/cert_layout.cpp\<close>.  The folder
  iterations are arguments: what \<^verbatim>\<open>directory_iterator\<close> lists, in its order.
\<close>

section \<open>Paths\<close>

definition HUB_PORT_ID :: string where
  "HUB_PORT_ID = ''2''"

definition HUB_FILE_NAME :: string where
  "HUB_FILE_NAME = ''hub''"

record hub_cert_paths =
  certDir :: string
  hubPortFolder :: string
  folderDeviceInstance :: nat
  layoutNote :: string
  operationalCertificate :: string
  certificateSigningRequest :: string
  issuerCertificate1 :: string
  issuerCertificate2 :: string
  privateKey :: string
  pendingPrivateKey :: string
  trustedIssuers :: string
  revocationList :: string

text \<open>\<^verbatim>\<open>Join\<close> is \<^verbatim>\<open>(dir / relative).generic_string()\<close> for a relative
  path.\<close>

definition Join :: "string \<Rightarrow> string \<Rightarrow> string" where
  "Join dir relative = under dir relative"

definition ParseDeviceFolder :: "string \<Rightarrow> nat option" where
  "ParseDeviceFolder name =
    (if \<not> StartsWith name ''device-'' \<or> length name = length ''device-'' then None
     else
       let digits = drop (length ''device-'') name in
       if \<not> all_digits digits \<or> length digits > 7 then None
       else
         let (v, erange) = strtoul_digits digits in
         if erange \<or> v > 4194302 then None else Some v)"

section \<open>Finding the hub's folder\<close>

record port_listing =
  port_name_of :: string
  port_is_dir :: bool
  port_has_hub :: bool

record device_listing =
  device_name_of :: string
  device_is_dir :: bool
  device_ports :: "port_listing list"

definition hub_port :: "port_listing \<Rightarrow> bool" where
  "hub_port p \<longleftrightarrow> port_is_dir p \<and> StartsWith (port_name_of p) ''port-'' \<and> port_has_hub p"

definition FindHubPorts :: "device_listing list \<Rightarrow> (string \<times> nat) list" where
  "FindHubPorts devices =
    concat (map (\<lambda>d.
      (case (if device_is_dir d then ParseDeviceFolder (device_name_of d) else None) of
         None \<Rightarrow> []
       | Some inst \<Rightarrow>
           map (\<lambda>p. (''cert1/'' @ device_name_of d @ ''/'' @ port_name_of p, inst))
             (filter hub_port (device_ports d)))) devices)"

definition FillCari :: "string \<Rightarrow> string \<Rightarrow> nat \<Rightarrow> hub_cert_paths" where
  "FillCari dir folder inst =
    \<lparr>certDir = dir, hubPortFolder = folder, folderDeviceInstance = inst, layoutNote = [],
     operationalCertificate = Join dir (folder @ ''/opr-'' @ HUB_FILE_NAME @ ''.pem''),
     certificateSigningRequest = Join dir (folder @ ''/csr-'' @ HUB_FILE_NAME @ ''.pem''),
     issuerCertificate1 = Join dir ''cert1/issuer/iss-1.pem'',
     issuerCertificate2 = Join dir ''cert1/issuer/iss-2.pem'',
     privateKey = Join dir (folder @ ''/key-'' @ HUB_FILE_NAME @ ''.pem''),
     pendingPrivateKey = Join dir (''key-'' @ HUB_FILE_NAME @ ''-pending.pem''),
     trustedIssuers = Join dir ''trusted-issuers.pem'',
     revocationList = Join dir ''issuer-crl.pem''\<rparr>"

definition NewHubCertPaths :: "string \<Rightarrow> nat \<Rightarrow> hub_cert_paths" where
  "NewHubCertPaths dir inst =
    FillCari dir (''cert1/device-'' @ dec inst @ ''/port-'' @ HUB_PORT_ID) inst"

text \<open>The loop that chooses: the last entry of the device's own instance, else the first
  entry.\<close>

fun choose_port :: "(string \<times> nat) list \<Rightarrow> nat \<Rightarrow> nat \<Rightarrow> nat \<Rightarrow> nat" where
  "choose_port [] inst i chosen = chosen"
| "choose_port ((_, other) # ports) inst i chosen =
    choose_port ports inst (i + 1) (if other = inst then i else chosen)"

definition mismatch_note :: "string \<Rightarrow> nat \<Rightarrow> nat \<Rightarrow> string" where
  "mismatch_note folder found inst =
    ''the certificate folder '' @ folder @ '' is for device instance '' @ dec found @
    '', but this device is '' @ dec inst @ ''; using it anyway (rename the folder to device-'' @
    dec inst @ '' to match)''"

text \<open>\<^verbatim>\<open>listing\<close> is \<^verbatim>\<open>None\<close> when there is no
  \<^verbatim>\<open>cert1\<close> folder.\<close>

definition ResolveHubCertPaths ::
  "string \<Rightarrow> nat \<Rightarrow> device_listing list option \<Rightarrow> hub_cert_paths" where
  "ResolveHubCertPaths dir inst listing =
    (case listing of
       None \<Rightarrow> NewHubCertPaths dir inst
     | Some devices \<Rightarrow>
         let ports = FindHubPorts devices in
         if ports = [] then NewHubCertPaths dir inst
         else
           let (folder, found) = ports ! choose_port ports inst 0 0;
               p = FillCari dir folder found;
               p = (if found \<noteq> inst then p\<lparr>layoutNote := mismatch_note folder found inst\<rparr> else p) in
           if length ports > 1
           then p\<lparr>layoutNote := layoutNote p @ (if layoutNote p = [] then [] else ''; '') @
                  dec (length ports) @ '' hub port folders found under cert1/, using '' @ folder\<rparr>
           else p)"

text \<open>\<^verbatim>\<open>rel\<close> is what \<^verbatim>\<open>fs::relative\<close> answers, \<^verbatim>\<open>None\<close> with
  an error code.\<close>

definition RelativeTo :: "string option \<Rightarrow> string \<Rightarrow> string" where
  "RelativeTo rel path =
    (case rel of
       None \<Rightarrow> path
     | Some r \<Rightarrow> if r = [] \<or> StartsWith r ''..'' then path else r)"

section \<open>Lemmas\<close>

lemma strtoul_short: "all_digits s \<Longrightarrow> length s \<le> 7 \<Longrightarrow> \<not> snd (strtoul_digits s)"
proof -
  assume s: "all_digits s" "length s \<le> 7"
  have "digits_val s < 10 ^ length s" if "all_digits s" for s
    using that
  proof (induction s rule: rev_induct)
    case (snoc c s)
    then have "digit_val c \<le> 9" "digits_val s < 10 ^ length s"
      by (auto simp: all_digits_def is_digit_def digit_val_def)
    then show ?case by simp
  qed simp
  then have "digits_val s < 10 ^ length s" using s(1) by blast
  also have "(10 :: nat) ^ length s \<le> 10 ^ 7" using s(2) by (intro power_increasing) auto
  finally show ?thesis by (simp add: strtoul_digits_def Let_def ULONG_MAX_def)
qed

lemma ParseDeviceFolder_DeviceInstance: "ParseDeviceFolder name = DeviceInstance name"
proof (cases "StartsWith name ''device-''")
  case True
  then obtain digits where name: "name = ''device-'' @ digits" by (auto simp: StartsWith_iff)
  show ?thesis
    using strtoul_short [of digits]
    by (cases "length digits \<le> 7")
      (auto simp: ParseDeviceFolder_def DeviceInstance_def name StartsWith_def MAX_INSTANCE_def
        Let_def split: prod.split)
qed (simp add: ParseDeviceFolder_def DeviceInstance_def)

lemma choose_port_none:
  "\<forall>p \<in> set ports. snd p \<noteq> inst \<Longrightarrow> choose_port ports inst i chosen = chosen"
  by (induction ports inst i chosen rule: choose_port.induct) auto

lemma choose_port_last:
  "\<forall>p \<in> set after. snd p \<noteq> inst \<Longrightarrow>
    choose_port (before @ (folder, inst) # after) inst i chosen = i + length before"
proof (induction before arbitrary: i chosen)
  case Nil
  then show ?case by (simp add: choose_port_none)
next
  case (Cons p before)
  then show ?case by (cases p) simp
qed

lemma choose_port_cases:
  assumes "ports \<noteq> []"
  shows "choose_port ports inst 0 0 < length ports \<and>
    (if \<exists>p \<in> set ports. snd p = inst then snd (ports ! choose_port ports inst 0 0) = inst
     else choose_port ports inst 0 0 = 0)"
proof (cases "\<exists>p \<in> set ports. snd p = inst")
  case True
  then obtain before p after where p: "ports = before @ p # after" "snd p = inst" "\<forall>q \<in> set after. snd q \<noteq> inst"
    using split_list_last_prop [of ports "\<lambda>p. snd p = inst"] by blast
  then show ?thesis
    using choose_port_last [of after inst before "fst p" 0 0] by (cases p) auto
next
  case False
  then show ?thesis using choose_port_none [of ports inst 0 0] assms by auto
qed

lemma FindHubPorts_sound:
  assumes "(folder, inst) \<in> set (FindHubPorts devices)"
  shows "\<exists>d \<in> set devices. \<exists>p \<in> set (device_ports d). device_is_dir d \<and> hub_port p \<and>
    ParseDeviceFolder (device_name_of d) = Some inst \<and>
    folder = ''cert1/'' @ device_name_of d @ ''/'' @ port_name_of p"
  using assms by (force simp: FindHubPorts_def split: option.splits if_splits)

lemma under_inject: "under base p = under base q \<longleftrightarrow> p = q"
  by (simp add: under_def)

section \<open>Properties\<close>

definition all_paths :: "hub_cert_paths \<Rightarrow> string list" where
  "all_paths p = [operationalCertificate p, certificateSigningRequest p, issuerCertificate1 p,
     issuerCertificate2 p, privateKey p, pendingPrivateKey p, trustedIssuers p, revocationList p]"

lemma ends_differ: "rev s @ rev a \<noteq> rev t \<Longrightarrow> a @ s \<noteq> t"
  by auto

lemma FillCari_distinct: "distinct (all_paths (FillCari dir folder inst))"
proof -
  have "folder @ ''/opr-hub.pem'' \<noteq> ''cert1/issuer/iss-1.pem''" "folder @ ''/opr-hub.pem'' \<noteq> ''cert1/issuer/iss-2.pem''"
    "folder @ ''/csr-hub.pem'' \<noteq> ''cert1/issuer/iss-1.pem''" "folder @ ''/csr-hub.pem'' \<noteq> ''cert1/issuer/iss-2.pem''"
    "folder @ ''/key-hub.pem'' \<noteq> ''cert1/issuer/iss-1.pem''" "folder @ ''/key-hub.pem'' \<noteq> ''cert1/issuer/iss-2.pem''"
    "folder @ ''/opr-hub.pem'' \<noteq> ''key-hub-pending.pem''" "folder @ ''/csr-hub.pem'' \<noteq> ''key-hub-pending.pem''"
    "folder @ ''/key-hub.pem'' \<noteq> ''key-hub-pending.pem''"
    "folder @ ''/opr-hub.pem'' \<noteq> ''trusted-issuers.pem''" "folder @ ''/csr-hub.pem'' \<noteq> ''trusted-issuers.pem''"
    "folder @ ''/key-hub.pem'' \<noteq> ''trusted-issuers.pem''"
    "folder @ ''/opr-hub.pem'' \<noteq> ''issuer-crl.pem''" "folder @ ''/csr-hub.pem'' \<noteq> ''issuer-crl.pem''"
    "folder @ ''/key-hub.pem'' \<noteq> ''issuer-crl.pem''"
    by (rule ends_differ; simp)+
  then show ?thesis
    by (simp add: all_paths_def FillCari_def Join_def under_inject HUB_FILE_NAME_def not_sym)
qed

lemma Resolve_FillCari:
  "\<exists>folder inst'. all_paths (ResolveHubCertPaths dir inst listing) = all_paths (FillCari dir folder inst')"
  by (auto simp: ResolveHubCertPaths_def NewHubCertPaths_def all_paths_def Let_def split: option.split prod.split)

text \<open>The two parsers of a device folder's name, the layout's and the CARI rules', accept the same
  names with the same instance.\<close>

theorem device_folder_parsers_agree:
  "ParseDeviceFolder name = DeviceInstance name"
  by (rule ParseDeviceFolder_DeviceInstance)

text \<open>Whatever the folder holds, the eight files of the hub have eight different paths, so no
  write to one of them can replace another.\<close>

theorem hub_paths_distinct:
  "distinct (all_paths (ResolveHubCertPaths dir inst listing))"
  using Resolve_FillCari [of dir inst listing] FillCari_distinct by metis

text \<open>The hub uses the port folder of its own device instance whenever one with a hub marker
  exists; otherwise it uses an existing hub port and says so in the note, and only without any it
  names a new folder.\<close>

theorem resolve_prefers_own_instance:
  assumes "listing = Some devices"
  shows "(FindHubPorts devices = [] \<longrightarrow> ResolveHubCertPaths dir inst listing = NewHubCertPaths dir inst) \<and>
    (FindHubPorts devices \<noteq> [] \<longrightarrow>
      (hubPortFolder (ResolveHubCertPaths dir inst listing), folderDeviceInstance (ResolveHubCertPaths dir inst listing))
        \<in> set (FindHubPorts devices) \<and>
      ((\<exists>folder. (folder, inst) \<in> set (FindHubPorts devices)) \<longrightarrow>
        folderDeviceInstance (ResolveHubCertPaths dir inst listing) = inst) \<and>
      (folderDeviceInstance (ResolveHubCertPaths dir inst listing) \<noteq> inst \<longrightarrow>
        layoutNote (ResolveHubCertPaths dir inst listing) \<noteq> []))"
proof (cases "FindHubPorts devices = []")
  case True
  then show ?thesis using assms by (simp add: ResolveHubCertPaths_def)
next
  case False
  obtain folder found where f: "FindHubPorts devices ! choose_port (FindHubPorts devices) inst 0 0 = (folder, found)"
    by fastforce
  note c = choose_port_cases [OF False, of inst]
  have r: "hubPortFolder (ResolveHubCertPaths dir inst listing) = folder"
    "folderDeviceInstance (ResolveHubCertPaths dir inst listing) = found"
    "found \<noteq> inst \<Longrightarrow> layoutNote (ResolveHubCertPaths dir inst listing) \<noteq> []"
    using False f assms by (simp_all add: ResolveHubCertPaths_def Let_def FillCari_def mismatch_note_def)
  have "(folder, found) \<in> set (FindHubPorts devices)" using c f by (metis nth_mem)
  moreover have "found = inst" if "(g, inst) \<in> set (FindHubPorts devices)" for g
    using c f that by (metis snd_conv)
  ultimately show ?thesis using False r by auto
qed

theorem resolve_prefers_own_instance_witness:
  "folderDeviceInstance (ResolveHubCertPaths ''certs'' 12 (Some
      [\<lparr>device_name_of = ''device-7'', device_is_dir = True,
        device_ports = [\<lparr>port_name_of = ''port-2'', port_is_dir = True, port_has_hub = True\<rparr>]\<rparr>,
       \<lparr>device_name_of = ''device-12'', device_is_dir = True,
        device_ports = [\<lparr>port_name_of = ''port-2'', port_is_dir = True, port_has_hub = True\<rparr>]\<rparr>])) = 12"
proof -
  let ?devices = "[\<lparr>device_name_of = ''device-7'', device_is_dir = True,
        device_ports = [\<lparr>port_name_of = ''port-2'', port_is_dir = True, port_has_hub = True\<rparr>]\<rparr>,
       \<lparr>device_name_of = ''device-12'', device_is_dir = True,
        device_ports = [\<lparr>port_name_of = ''port-2'', port_is_dir = True, port_has_hub = True\<rparr>]\<rparr>]"
  have "(''cert1/device-12/port-2'', 12) \<in> set (FindHubPorts ?devices)"
    by (simp add: FindHubPorts_def hub_port_def ParseDeviceFolder_DeviceInstance device_12 StartsWith_def)
  then show ?thesis
    using resolve_prefers_own_instance [of "Some ?devices" ?devices "''certs''" 12] by auto
qed

end
