(* ===== verification/Cert_Store.thy ===== *)
theory Cert_Store
  imports Ordered_Map Text_Util
begin

text \<open>
  The certificate files of the hub, \<^verbatim>\<open>src/cert_store.cpp\<close>: the staged copies that
  AtomicWriteFile and File_Size writes make, their validation against the issuers and the private
  key, their commit to disk, and the pending key of GENERATE_CSR_FILE.

  The disk maps a path to a file.  What OpenSSL answers is the record \<^verbatim>\<open>openssl\<close>,
  and which operations the file system lets succeed the record \<^verbatim>\<open>os\<close>; both are
  arguments.  A reason text is a constructor of \<^verbatim>\<open>reason\<close>.
\<close>

section \<open>State\<close>

definition MAX_FILE_BYTES :: nat where
  "MAX_FILE_BYTES = 64 * 1024"

datatype error_code = INVALID_FILE_START_POSITION | FILE_FULL | VALUE_OUT_OF_RANGE

definition error_code_number :: "error_code \<Rightarrow> nat" where
  "error_code_number e =
    (case e of INVALID_FILE_START_POSITION \<Rightarrow> 11 | FILE_FULL \<Rightarrow> 128 | VALUE_OUT_OF_RANGE \<Rightarrow> 37)"

record cert_layout =
  paths :: "(nat, string) omap"
  readFallbackInstances :: "(nat, nat) omap"
  operationalInstance :: nat
  issuerInstances :: "nat list"
  privateKeyPath :: string
  pendingPrivateKeyPath :: string
  csrInstance :: nat

record staged_file =
  s_bytes :: string
  s_modified :: int

record disk_file =
  d_bytes :: string
  d_private :: bool
  d_mtime :: int

type_synonym disk = "string \<Rightarrow> disk_file option"

record store =
  g_layout :: cert_layout
  g_staged :: "(nat, staged_file) omap"
  g_commitPromotesPendingKey :: bool
  g_disk :: disk

text \<open>The file system: which existing files can be opened, which temporary files can be written and
  flushed, which renames succeed.\<close>

record os =
  can_read :: "string \<Rightarrow> bool"
  can_write_temp :: "string \<Rightarrow> bool"
  can_rename_to :: "string \<Rightarrow> bool"
  clock_now :: int

definition SetLayout :: "cert_layout \<Rightarrow> store \<Rightarrow> store" where
  "SetLayout l st = st\<lparr>g_layout := l, g_staged := []\<rparr>"

section \<open>Reading\<close>

definition ReadDisk :: "os \<Rightarrow> disk \<Rightarrow> string \<Rightarrow> string option" where
  "ReadDisk e d path = (if can_read e path then map_option d_bytes (d path) else None)"

definition disk_exists :: "disk \<Rightarrow> string \<Rightarrow> bool" where
  "disk_exists d path \<longleftrightarrow> d path \<noteq> None"

definition OwnPath :: "store \<Rightarrow> nat \<Rightarrow> string" where
  "OwnPath st inst = (case map_of (paths (g_layout st)) inst of None \<Rightarrow> [] | Some path \<Rightarrow> path)"

definition FallbackInstance :: "store \<Rightarrow> nat \<Rightarrow> nat" where
  "FallbackInstance st inst =
    (if omap_has (g_staged st) inst then 0
     else
       let path = OwnPath st inst in
       if path = [] \<or> disk_exists (g_disk st) path then 0
       else (case map_of (readFallbackInstances (g_layout st)) inst of None \<Rightarrow> 0 | Some fb \<Rightarrow> fb))"

text \<open>\<^verbatim>\<open>Read\<close> calls itself on the fallback, which the layout could make circular: not
  returning is \<^verbatim>\<open>None\<close>, and the inner option is the result \<^verbatim>\<open>false\<close>.\<close>

partial_function (option) store_read :: "os \<Rightarrow> store \<Rightarrow> nat \<Rightarrow> string option option" where
  "store_read e st inst =
    (case map_of (g_staged st) inst of
       Some s \<Rightarrow> Some (Some (s_bytes s))
     | None \<Rightarrow>
         if FallbackInstance st inst \<noteq> 0 then store_read e st (FallbackInstance st inst)
         else if OwnPath st inst = [] then Some None
         else Some (ReadDisk e (g_disk st) (OwnPath st inst)))"

text \<open>\<^verbatim>\<open>Stat\<close>: the size and the modification time.\<close>

partial_function (option) store_stat :: "store \<Rightarrow> nat \<Rightarrow> (nat \<times> int) option option" where
  "store_stat st inst =
    (case map_of (g_staged st) inst of
       Some s \<Rightarrow> Some (Some (length (s_bytes s), s_modified s))
     | None \<Rightarrow>
         if FallbackInstance st inst \<noteq> 0 then store_stat st (FallbackInstance st inst)
         else if OwnPath st inst = [] then Some None
         else
           (case g_disk st (OwnPath st inst) of
              None \<Rightarrow> Some None
            | Some f \<Rightarrow> Some (Some (length (d_bytes f), d_mtime f))))"

definition Effective :: "os \<Rightarrow> store \<Rightarrow> nat \<Rightarrow> string option" where
  "Effective e st inst = do {
     r \<leftarrow> store_read e st inst;
     Some (case r of Some bytes \<Rightarrow> bytes | None \<Rightarrow> []) }"

section \<open>Staging\<close>

text \<open>The staged copy, and the store with it; \<^verbatim>\<open>None\<close> inside is the null pointer.\<close>

definition Stage :: "os \<Rightarrow> store \<Rightarrow> nat \<Rightarrow> (staged_file \<times> store) option option" where
  "Stage e st inst =
    (case map_of (g_staged st) inst of
       Some s \<Rightarrow> Some (Some (s, st))
     | None \<Rightarrow>
         if \<not> omap_has (paths (g_layout st)) inst then Some None
         else do {
           bytes \<leftarrow> Effective e st inst;
           let s = \<lparr>s_bytes = bytes, s_modified = clock_now e\<rparr>;
           Some (Some (s, st\<lparr>g_staged := omap_put inst s (g_staged st)\<rparr>)) })"

definition splice :: "string \<Rightarrow> nat \<Rightarrow> string \<Rightarrow> string" where
  "splice old start data = take start old @ data @ drop (start + length data) old"

text \<open>The acknowledged start or the error, and the store afterwards.\<close>

definition Write ::
  "os \<Rightarrow> store \<Rightarrow> nat \<Rightarrow> int \<Rightarrow> string \<Rightarrow> ((error_code + nat) \<times> store) option" where
  "Write e st inst fileStart data = do {
     stagedCopy \<leftarrow> Stage e st inst;
     Some
       (case stagedCopy of
          None \<Rightarrow> (Inl INVALID_FILE_START_POSITION, st)
        | Some (s, st) \<Rightarrow>
            if fileStart < -1 then (Inl INVALID_FILE_START_POSITION, st)
            else
              let start = (if fileStart = -1 then length (s_bytes s) else nat fileStart) in
              if start > length (s_bytes s) then (Inl INVALID_FILE_START_POSITION, st)
              else if start + length data > MAX_FILE_BYTES then (Inl FILE_FULL, st)
              else
                (Inr start,
                 st\<lparr>g_staged := omap_put inst
                    \<lparr>s_bytes = splice (s_bytes s) start data, s_modified = clock_now e\<rparr> (g_staged st)\<rparr>)) }"

definition resize_string :: "string \<Rightarrow> nat \<Rightarrow> string" where
  "resize_string s n = take n s @ replicate (n - length s) (CHR 0x00)"

text \<open>\<^verbatim>\<open>None\<close> in the result is the failure that leaves the error code alone.\<close>

definition Resize ::
  "os \<Rightarrow> store \<Rightarrow> nat \<Rightarrow> nat \<Rightarrow> ((error_code option + unit) \<times> store) option" where
  "Resize e st inst newSize =
    (if newSize > MAX_FILE_BYTES then Some (Inl (Some VALUE_OUT_OF_RANGE), st)
     else do {
       stagedCopy \<leftarrow> Stage e st inst;
       Some
         (case stagedCopy of
            None \<Rightarrow> (Inl None, st)
          | Some (s, st) \<Rightarrow>
              (Inr (),
               st\<lparr>g_staged := omap_put inst
                  \<lparr>s_bytes = resize_string (s_bytes s) newSize, s_modified = clock_now e\<rparr> (g_staged st)\<rparr>)) })"

definition HasStagedChanges :: "store \<Rightarrow> bool" where
  "HasStagedChanges st \<longleftrightarrow> g_staged st \<noteq> []"

definition DiscardStaged :: "store \<Rightarrow> store" where
  "DiscardStaged st = st\<lparr>g_staged := [], g_commitPromotesPendingKey := False\<rparr>"

section \<open>PEM text\<close>

text \<open>\<^verbatim>\<open>s.find(pat, pos)\<close> and \<^verbatim>\<open>s.find_first_not_of(" \t\r\n", pos)\<close>;
  \<^verbatim>\<open>None\<close> is \<^verbatim>\<open>npos\<close>.\<close>

function find_from :: "string \<Rightarrow> string \<Rightarrow> nat \<Rightarrow> nat option" where
  "find_from pat s pos =
    (if pos + length pat > length s then None
     else if take (length pat) (drop pos s) = pat then Some pos
     else if pos < length s then find_from pat s (pos + 1)
     else None)"
  by pat_completeness auto
termination
  by (relation "measure (\<lambda>(pat, s, pos). length s - pos)") auto

declare find_from.simps [simp del]

definition blank :: "char \<Rightarrow> bool" where
  "blank c \<longleftrightarrow> c = CHR '' '' \<or> c = CHR 0x09 \<or> c = CHR 0x0D \<or> c = CHR 0x0A"

text \<open>The test \<^verbatim>\<open>find_first_not_of(...) < gapEnd\<close>.\<close>

definition text_between :: "string \<Rightarrow> nat \<Rightarrow> nat \<Rightarrow> bool" where
  "text_between s pos gapEnd \<longleftrightarrow> \<not> list_all blank (take (gapEnd - pos) (drop pos s))"

datatype pem_error =
    TextOutsideBlock
  | UnterminatedHeader
  | WrongLabel string
  | NoEndLine string
  | NotAPemCertificate
  | BadCertificateBlock

definition kBegin :: string where
  "kBegin = ''-----BEGIN ''"

definition kDashes :: string where
  "kDashes = ''-----''"

definition endMarker :: "string \<Rightarrow> string" where
  "endMarker label = ''-----END '' @ label @ kDashes"

lemma find_from_bounds: "find_from pat s pos = Some i \<Longrightarrow> pos \<le> i \<and> i + length pat \<le> length s"
proof (induction pat s pos rule: find_from.induct)
  case (1 pat s pos)
  then show ?case
    using find_from.simps [of pat s pos] by (fastforce split: if_splits)
qed

definition shown_label :: "string \<Rightarrow> string" where
  "shown_label found =
    map (\<lambda>c. if 0x20 \<le> (of_char c :: nat) \<and> (of_char c :: nat) < 0x7F then c else CHR ''?'') (take 40 found)"

function split_pem :: "string \<Rightarrow> string \<Rightarrow> nat \<Rightarrow> string list \<Rightarrow> pem_error + string list" where
  "split_pem pem label pos blocks =
    (case find_from kBegin pem pos of
       None \<Rightarrow> if text_between pem pos (length pem) then Inl TextOutsideBlock else Inr blocks
     | Some start \<Rightarrow>
         if text_between pem pos start then Inl TextOutsideBlock
         else
           (case find_from kDashes pem (start + length kBegin) of
              None \<Rightarrow> Inl UnterminatedHeader
            | Some labelEnd \<Rightarrow>
                let found = take (labelEnd - (start + length kBegin)) (drop (start + length kBegin) pem) in
                if found \<noteq> label then Inl (WrongLabel (shown_label found))
                else
                  (case find_from (endMarker label) pem labelEnd of
                     None \<Rightarrow> Inl (NoEndLine label)
                   | Some stop \<Rightarrow>
                       let pos' = stop + length (endMarker label) in
                       split_pem pem label pos' (blocks @ [take (pos' - start) (drop start pem)]))))"
  by pat_completeness auto

termination
proof (relation "measure (\<lambda>(pem, label, pos, blocks). length pem - pos)")
  fix pem label :: string and pos :: nat and blocks :: "string list"
    and start labelEnd stop :: nat and found :: string and pos' :: nat
  assume a: "find_from kBegin pem pos = Some start"
    and b: "find_from kDashes pem (start + length kBegin) = Some labelEnd"
    and c: "find_from (endMarker label) pem labelEnd = Some stop"
    and pos': "pos' = stop + length (endMarker label)"
  have len: "length kBegin = 11" "length (endMarker label) > 0"
    by (simp_all add: kBegin_def endMarker_def)
  have "pos < pos'" "pos' \<le> length pem"
    using find_from_bounds [OF a] find_from_bounds [OF b] find_from_bounds [OF c] pos' len by linarith+
  then show "((pem, label, pos', blocks @ [take (pos' - start) (drop start pem)]), pem, label, pos, blocks)
      \<in> measure (\<lambda>(pem, label, pos, blocks). length pem - pos)"
    by (simp add: diff_less_mono2)
qed simp

declare split_pem.simps [simp del]

definition SplitPemBlocks :: "string \<Rightarrow> string \<Rightarrow> pem_error + string list" where
  "SplitPemBlocks pem label = split_pem pem label 0 []"

section \<open>Certificates\<close>

datatype purpose = SslServer | SslClient

text \<open>\<^verbatim>\<open>verify\<close> is one \<^verbatim>\<open>X509_verify_cert\<close>: the purpose, the leaf, the
  intermediates and the store; it answers \<^verbatim>\<open>None\<close>, or its error text.\<close>

record ('c, 'k) openssl =
  parse_cert :: "string \<Rightarrow> 'c option"
  parse_key :: "string \<Rightarrow> 'k option"
  check_private_key :: "'c \<Rightarrow> 'k \<Rightarrow> bool"
  is_ca :: "'c \<Rightarrow> bool"
  verify :: "purpose \<Rightarrow> 'c \<Rightarrow> 'c list \<Rightarrow> 'c list \<Rightarrow> string option"
  new_key_and_request :: "'c \<Rightarrow> (string \<times> string) option"
  write_cert :: "'c \<Rightarrow> string"

fun parse_blocks :: "('c, 'k) openssl \<Rightarrow> string list \<Rightarrow> pem_error + 'c list" where
  "parse_blocks ssl [] = Inr []"
| "parse_blocks ssl (block # blocks) =
    (case parse_cert ssl block of
       None \<Rightarrow> Inl BadCertificateBlock
     | Some cert \<Rightarrow> bindE (parse_blocks ssl blocks) (\<lambda>certs. Inr (cert # certs)))"

definition ParseCertificates :: "('c, 'k) openssl \<Rightarrow> string \<Rightarrow> pem_error + 'c list" where
  "ParseCertificates ssl pem =
    bindE (SplitPemBlocks pem ''CERTIFICATE'') (\<lambda>blocks.
      if blocks = [] then if list_all blank pem then Inr [] else Inl NotAPemCertificate
      else parse_blocks ssl blocks)"

text \<open>The attempts of \<^verbatim>\<open>ChainsToIssuers\<close>: each issuer on its own, then all of them when
  there are at least two.\<close>

definition chain_attempts :: "'c list \<Rightarrow> 'c list list" where
  "chain_attempts issuers = map (\<lambda>c. [c]) issuers @ (if length issuers < 2 then [] else [issuers])"

datatype chain_failure = NoIssuerCertificate | VerifyError string

fun try_chains ::
  "('c list \<Rightarrow> string option) \<Rightarrow> 'c list list \<Rightarrow> chain_failure \<Rightarrow> chain_failure option" where
  "try_chains ver [] why = Some why"
| "try_chains ver (store # stores) why =
    (case ver store of None \<Rightarrow> None | Some e \<Rightarrow> try_chains ver stores (VerifyError e))"

text \<open>\<^verbatim>\<open>None\<close> is success, as in \<^verbatim>\<open>verify\<close>.\<close>

definition ChainsToIssuers ::
  "('c, 'k) openssl \<Rightarrow> 'c \<Rightarrow> 'c list \<Rightarrow> 'c list \<Rightarrow> purpose \<Rightarrow> chain_failure option" where
  "ChainsToIssuers ssl leaf intermediates issuers purpose =
    try_chains (verify ssl purpose leaf intermediates) (chain_attempts issuers) NoIssuerCertificate"

definition LoadKey :: "os \<Rightarrow> ('c, 'k) openssl \<Rightarrow> disk \<Rightarrow> string \<Rightarrow> 'k option" where
  "LoadKey e ssl d path =
    (if path = [] then None
     else (case ReadDisk e d path of None \<Rightarrow> None | Some pem \<Rightarrow> parse_key ssl pem))"

section \<open>Validation\<close>

datatype reason =
    BadIssuerFile nat pem_error
  | NoIssuer
  | BadOperationalFile nat "pem_error option"
  | NoPrivateKey string
  | KeyMismatch
  | CaCertificate
  | DoesNotChain purpose chain_failure
  | CouldNotWriteTemp string
  | CouldNotReplace string
  | CouldNotPromote
  | NoReason
  | ChangesStaged
  | NoRequestFile
  | NoSubject "pem_error option"
  | OpenSslFailed
  | NoIssuerToTrust

fun collect_issuers ::
  "os \<Rightarrow> ('c, 'k) openssl \<Rightarrow> store \<Rightarrow> nat list \<Rightarrow> 'c list \<Rightarrow> (reason + 'c list) option" where
  "collect_issuers e ssl st [] acc = Some (Inr acc)"
| "collect_issuers e ssl st (inst # insts) acc = do {
     pem \<leftarrow> Effective e st inst;
     (case ParseCertificates ssl pem of
        Inl why \<Rightarrow> Some (Inl (BadIssuerFile inst why))
      | Inr certs \<Rightarrow> collect_issuers e ssl st insts (acc @ certs)) }"

text \<open>The key test: \<^verbatim>\<open>Inr\<close> says whether the pending key is promoted.\<close>

definition choose_key ::
  "os \<Rightarrow> ('c, 'k) openssl \<Rightarrow> store \<Rightarrow> 'c \<Rightarrow> reason + bool" where
  "choose_key e ssl st leaf =
    (let key = LoadKey e ssl (g_disk st) (privateKeyPath (g_layout st));
         pendingKey = LoadKey e ssl (g_disk st) (pendingPrivateKeyPath (g_layout st));
         fits = (\<lambda>k. case k of None \<Rightarrow> False | Some k \<Rightarrow> check_private_key ssl leaf k) in
     if fits key then Inr False
     else if fits pendingKey then Inr True
     else if key = None then Inl (NoPrivateKey (privateKeyPath (g_layout st)))
     else Inl KeyMismatch)"

definition check_roles ::
  "('c, 'k) openssl \<Rightarrow> 'c \<Rightarrow> 'c list \<Rightarrow> 'c list \<Rightarrow> reason option" where
  "check_roles ssl leaf intermediates issuers =
    (case ChainsToIssuers ssl leaf intermediates issuers SslServer of
       Some f \<Rightarrow> Some (DoesNotChain SslServer f)
     | None \<Rightarrow>
         (case ChainsToIssuers ssl leaf intermediates issuers SslClient of
            Some f \<Rightarrow> Some (DoesNotChain SslClient f)
          | None \<Rightarrow> None))"

text \<open>\<^verbatim>\<open>None\<close> for the reason is \<^verbatim>\<open>true\<close>.  The flag is reset before the
  key test, and only there.\<close>

definition ValidateStaged ::
  "os \<Rightarrow> ('c, 'k) openssl \<Rightarrow> store \<Rightarrow> (reason option \<times> store) option" where
  "ValidateStaged e ssl st = do {
     collected \<leftarrow> collect_issuers e ssl st (issuerInstances (g_layout st)) [];
     (case collected of
        Inl why \<Rightarrow> Some (Some why, st)
      | Inr issuers \<Rightarrow>
          if issuers = [] then Some (Some NoIssuer, st)
          else do {
            let inst = operationalInstance (g_layout st);
            pem \<leftarrow> Effective e st inst;
            Some
              (case ParseCertificates ssl pem of
                 Inl why \<Rightarrow> (Some (BadOperationalFile inst (Some why)), st)
               | Inr [] \<Rightarrow> (Some (BadOperationalFile inst None), st)
               | Inr (leaf # intermediates) \<Rightarrow>
                   (case choose_key e ssl st leaf of
                      Inl why \<Rightarrow> (Some why, st\<lparr>g_commitPromotesPendingKey := False\<rparr>)
                    | Inr promotes \<Rightarrow>
                        (if is_ca ssl leaf then Some CaCertificate
                         else check_roles ssl leaf intermediates issuers,
                         st\<lparr>g_commitPromotesPendingKey := promotes\<rparr>))) }) }"

section \<open>Writing files\<close>

definition tmp :: "string \<Rightarrow> string" where
  "tmp path = path @ ''.tmp''"

definition remove_file :: "string \<Rightarrow> disk \<Rightarrow> disk" where
  "remove_file path d = d(path := None)"

text \<open>The first step removes a leftover, the last one a file that could not be written.\<close>

definition WriteTempFile :: "os \<Rightarrow> string \<Rightarrow> string \<Rightarrow> bool \<Rightarrow> disk \<Rightarrow> bool \<times> disk" where
  "WriteTempFile e path bytes privateFile d =
    (if can_write_temp e (tmp path)
     then (True, d(tmp path \<mapsto> \<lparr>d_bytes = bytes, d_private = privateFile, d_mtime = clock_now e\<rparr>))
     else (False, remove_file (tmp path) d))"

text \<open>A rename: the source must exist; it takes the target's place with its mode and time.\<close>

definition rename_file :: "os \<Rightarrow> string \<Rightarrow> string \<Rightarrow> disk \<Rightarrow> bool \<times> disk" where
  "rename_file e source target d =
    (if can_rename_to e target \<and> d source \<noteq> None
     then (True, (d(target := d source))(source := (if source = target then d source else None)))
     else (False, d))"

definition ReplaceWithTemp :: "os \<Rightarrow> string \<Rightarrow> disk \<Rightarrow> bool \<times> disk" where
  "ReplaceWithTemp e path d = rename_file e (tmp path) path d"

definition AtomicWriteFileToDisk ::
  "os \<Rightarrow> string \<Rightarrow> string \<Rightarrow> bool \<Rightarrow> disk \<Rightarrow> reason option \<times> disk" where
  "AtomicWriteFileToDisk e path bytes privateFile d =
    (case WriteTempFile e path bytes privateFile d of
       (False, d) \<Rightarrow> (Some (CouldNotWriteTemp path), d)
     | (True, d) \<Rightarrow>
         (case ReplaceWithTemp e path d of
            (False, d) \<Rightarrow> (Some (CouldNotReplace path), remove_file (tmp path) d)
          | (True, d) \<Rightarrow> (None, d)))"

definition PromotePendingKey :: "os \<Rightarrow> store \<Rightarrow> bool \<times> store" where
  "PromotePendingKey e st =
    (case rename_file e (pendingPrivateKeyPath (g_layout st)) (privateKeyPath (g_layout st)) (g_disk st) of
       (ok, d) \<Rightarrow> (ok, st\<lparr>g_disk := d\<rparr>))"

section \<open>Commit\<close>

text \<open>The first loop: the temporary files, with the paths written so far; a failure removes them.\<close>

fun write_temps ::
  "os \<Rightarrow> cert_layout \<Rightarrow> (nat, staged_file) omap \<Rightarrow> string list \<Rightarrow> disk \<Rightarrow> (reason + string list) \<times> disk" where
  "write_temps e l [] written d = (Inr written, d)"
| "write_temps e l ((inst, s) # rest) written d =
    (case map_of (paths l) inst of
       None \<Rightarrow> (Inl NoReason, fold (\<lambda>p. remove_file (tmp p)) written d)
     | Some path \<Rightarrow>
         (case WriteTempFile e path (s_bytes s) False d of
            (False, d) \<Rightarrow> (Inl (CouldNotWriteTemp path), fold (\<lambda>p. remove_file (tmp p)) written d)
          | (True, d) \<Rightarrow> write_temps e l rest (written @ [path]) d))"

fun replace_all :: "os \<Rightarrow> string list \<Rightarrow> disk \<Rightarrow> reason option \<times> disk" where
  "replace_all e [] d = (None, d)"
| "replace_all e (path # rest) d =
    (case ReplaceWithTemp e path d of
       (False, d) \<Rightarrow> (Some (CouldNotReplace path), d)
     | (True, d) \<Rightarrow> replace_all e rest d)"

definition CommitStaged :: "os \<Rightarrow> store \<Rightarrow> reason option \<times> store" where
  "CommitStaged e st =
    (case write_temps e (g_layout st) (g_staged st) [] (g_disk st) of
       (Inl why, d) \<Rightarrow> (Some why, st\<lparr>g_disk := d\<rparr>)
     | (Inr written, d) \<Rightarrow>
         (case replace_all e written d of
            (Some why, d) \<Rightarrow> (Some why, st\<lparr>g_disk := d\<rparr>)
          | (None, d) \<Rightarrow>
              let st = st\<lparr>g_disk := d, g_staged := []\<rparr> in
              if g_commitPromotesPendingKey st then
                (case PromotePendingKey e st of
                   (False, st) \<Rightarrow> (Some CouldNotPromote, st)
                 | (True, st) \<Rightarrow> (None, st\<lparr>g_commitPromotesPendingKey := False\<rparr>))
              else (None, st)))"

datatype reconcile = NothingToDo | KeySwapped | SwapFailed

text \<open>\<^verbatim>\<open>SwapFailed\<close> is \<^verbatim>\<open>false\<close>; the other two are \<^verbatim>\<open>true\<close>,
  without and with a message.\<close>

definition ReconcilePendingKey :: "os \<Rightarrow> ('c, 'k) openssl \<Rightarrow> store \<Rightarrow> reconcile \<times> store" where
  "ReconcilePendingKey e ssl st =
    (let l = g_layout st; d = g_disk st in
     if pendingPrivateKeyPath l = [] \<or> \<not> disk_exists d (pendingPrivateKeyPath l) then (NothingToDo, st)
     else
       (case Option.bind (map_of (paths l) (operationalInstance l)) (ReadDisk e d) of
          None \<Rightarrow> (NothingToDo, st)
        | Some pem \<Rightarrow>
            (case ParseCertificates ssl pem of
               Inl _ \<Rightarrow> (NothingToDo, st)
             | Inr [] \<Rightarrow> (NothingToDo, st)
             | Inr (leaf # _) \<Rightarrow>
                 let fits = (\<lambda>path. case LoadKey e ssl d path of None \<Rightarrow> False
                       | Some k \<Rightarrow> check_private_key ssl leaf k) in
                 if fits (privateKeyPath l) \<or> \<not> fits (pendingPrivateKeyPath l) then (NothingToDo, st)
                 else
                   (case PromotePendingKey e st of
                      (False, st) \<Rightarrow> (SwapFailed, st)
                    | (True, st) \<Rightarrow> (KeySwapped, st)))))"

section \<open>GENERATE_CSR_FILE and the trusted issuers\<close>

text \<open>Writing the new pending key and its request.\<close>

definition write_key_and_request ::
  "os \<Rightarrow> string \<Rightarrow> string \<Rightarrow> string \<Rightarrow> string \<Rightarrow> disk \<Rightarrow> reason option \<times> disk" where
  "write_key_and_request e pending csrPath keyPem csrPem d =
    (case WriteTempFile e pending keyPem True d of
       (False, d) \<Rightarrow> (Some (CouldNotWriteTemp pending), d)
     | (True, d) \<Rightarrow>
         (case WriteTempFile e csrPath csrPem False d of
            (False, d) \<Rightarrow> (Some (CouldNotWriteTemp csrPath), remove_file (tmp pending) d)
          | (True, d) \<Rightarrow>
              (case ReplaceWithTemp e pending d of
                 (False, d) \<Rightarrow>
                   (Some (CouldNotReplace pending), remove_file (tmp csrPath) (remove_file (tmp pending) d))
               | (True, d) \<Rightarrow>
                   (case ReplaceWithTemp e csrPath d of
                      (False, d) \<Rightarrow> (Some (CouldNotReplace csrPath), d)
                    | (True, d) \<Rightarrow> (None, d)))))"

definition GenerateKeyAndCsr ::
  "os \<Rightarrow> ('c, 'k) openssl \<Rightarrow> store \<Rightarrow> (reason option \<times> store) option" where
  "GenerateKeyAndCsr e ssl st =
    (let l = g_layout st in
     if g_staged st \<noteq> [] then Some (Some ChangesStaged, st)
     else
       (case map_of (paths l) (csrInstance l) of
          None \<Rightarrow> Some (Some NoRequestFile, st)
        | Some csrPath \<Rightarrow>
            if pendingPrivateKeyPath l = [] then Some (Some NoRequestFile, st)
            else do {
              pem \<leftarrow> Effective e st (operationalInstance l);
              Some
                (case ParseCertificates ssl pem of
                   Inl why \<Rightarrow> (Some (NoSubject (Some why)), st)
                 | Inr [] \<Rightarrow> (Some (NoSubject None), st)
                 | Inr (leaf # _) \<Rightarrow>
                     (case new_key_and_request ssl leaf of
                        None \<Rightarrow> (Some OpenSslFailed, st)
                      | Some (keyPem, csrPem) \<Rightarrow>
                          (case write_key_and_request e (pendingPrivateKeyPath l) csrPath keyPem csrPem (g_disk st) of
                             (why, d) \<Rightarrow> (why, st\<lparr>g_disk := d\<rparr>)))) }))"

text \<open>The bundle's blocks, each written once: \<^verbatim>\<open>seen\<close> and the text so far.\<close>

fun add_certs :: "string list \<Rightarrow> string list \<times> string \<Rightarrow> string list \<times> string" where
  "add_certs [] acc = acc"
| "add_certs (pem # pems) (seen, bundle) =
    add_certs pems (if pem \<in> set seen then (seen, bundle) else (oset_add pem seen, bundle @ pem))"

fun collect_bundle ::
  "os \<Rightarrow> ('c, 'k) openssl \<Rightarrow> store \<Rightarrow> nat list \<Rightarrow> string list \<times> string \<Rightarrow> (string list \<times> string) option" where
  "collect_bundle e ssl st [] acc = Some acc"
| "collect_bundle e ssl st (inst # insts) acc = do {
     r \<leftarrow> store_read e st inst;
     let pems = (case r of None \<Rightarrow> [] | Some pem \<Rightarrow>
           (case ParseCertificates ssl pem of Inl _ \<Rightarrow> [] | Inr certs \<Rightarrow> map (write_cert ssl) certs));
     collect_bundle e ssl st insts (add_certs pems acc) }"

definition WriteTrustedIssuerBundle ::
  "os \<Rightarrow> ('c, 'k) openssl \<Rightarrow> string \<Rightarrow> store \<Rightarrow> (reason option \<times> store) option" where
  "WriteTrustedIssuerBundle e ssl bundlePath st = do {
     acc \<leftarrow> collect_bundle e ssl st (issuerInstances (g_layout st)) ([], []);
     Some
       (if snd acc = [] then (Some NoIssuerToTrust, st)
        else
          (case AtomicWriteFileToDisk e bundlePath (snd acc) False (g_disk st) of
             (why, d) \<Rightarrow> (why, st\<lparr>g_disk := d\<rparr>))) }"

section \<open>The store is sound\<close>

text \<open>The layouts the program makes: ordered maps, different paths for different files, none of them
  another one's temporary file, and no fallback of a fallback.\<close>

definition file_paths :: "cert_layout \<Rightarrow> string list" where
  "file_paths l = map snd (paths l) @ [privateKeyPath l, pendingPrivateKeyPath l]"

definition layout_ok :: "cert_layout \<Rightarrow> bool" where
  "layout_ok l \<longleftrightarrow> omap_ok (paths l) \<and> omap_ok (readFallbackInstances l) \<and>
    (\<forall>fb \<in> snd ` set (readFallbackInstances l). map_of (readFallbackInstances l) fb = None) \<and>
    distinct (file_paths l) \<and> [] \<notin> set (file_paths l) \<and>
    (\<forall>p \<in> set (file_paths l). \<forall>q \<in> set (file_paths l). tmp p \<noteq> q) \<and>
    omap_has (paths l) (operationalInstance l) \<and> \<not> omap_has (readFallbackInstances l) (operationalInstance l)"

definition store_ok :: "store \<Rightarrow> bool" where
  "store_ok st \<longleftrightarrow> layout_ok (g_layout st) \<and> omap_ok (g_staged st) \<and>
    fst ` set (g_staged st) \<subseteq> fst ` set (paths (g_layout st))"

text \<open>What a read gives when the fallback is followed at most once.\<close>

definition read_own :: "os \<Rightarrow> store \<Rightarrow> nat \<Rightarrow> string option" where
  "read_own e st inst =
    (case map_of (g_staged st) inst of
       Some s \<Rightarrow> Some (s_bytes s)
     | None \<Rightarrow> if OwnPath st inst = [] then None else ReadDisk e (g_disk st) (OwnPath st inst))"

definition read_once :: "os \<Rightarrow> store \<Rightarrow> nat \<Rightarrow> string option" where
  "read_once e st inst =
    (if omap_has (g_staged st) inst then read_own e st inst
     else if FallbackInstance st inst \<noteq> 0 then read_own e st (FallbackInstance st inst)
     else read_own e st inst)"

lemma FallbackInstance_staged: "omap_has (g_staged st) inst \<Longrightarrow> FallbackInstance st inst = 0"
  by (simp add: FallbackInstance_def)

lemma FallbackInstance_flat:
  "layout_ok (g_layout st) \<Longrightarrow> FallbackInstance st inst \<noteq> 0 \<Longrightarrow> FallbackInstance st (FallbackInstance st inst) = 0"
  by (force simp: FallbackInstance_def layout_ok_def Let_def split: if_splits option.splits dest: map_of_SomeD)

lemma store_read_own: "FallbackInstance st inst = 0 \<Longrightarrow> store_read e st inst = Some (read_own e st inst)"
  by (simp add: store_read.simps [of e st inst] read_own_def split: option.split)

lemma store_read_total:
  assumes "layout_ok (g_layout st)" shows "store_read e st inst = Some (read_once e st inst)"
proof (cases "FallbackInstance st inst = 0")
  case True
  then show ?thesis by (simp add: store_read_own read_once_def)
next
  case False
  then have "\<not> omap_has (g_staged st) inst" using FallbackInstance_staged [of st inst] by auto
  then have "store_read e st inst = store_read e st (FallbackInstance st inst)"
    using False by (simp add: store_read.simps [of e st inst] omap_has_def)
  then show ?thesis
    using False FallbackInstance_flat [OF assms False] \<open>\<not> omap_has (g_staged st) inst\<close>
    by (simp add: store_read_own read_once_def)
qed

definition contents :: "os \<Rightarrow> store \<Rightarrow> nat \<Rightarrow> string" where
  "contents e st inst = (case read_once e st inst of Some b \<Rightarrow> b | None \<Rightarrow> [])"

lemma Effective_total: "layout_ok (g_layout st) \<Longrightarrow> Effective e st inst = Some (contents e st inst)"
  by (simp add: Effective_def store_read_total contents_def)

lemma read_once_staged: "map_of (g_staged st) inst = Some s \<Longrightarrow> read_once e st inst = Some (s_bytes s)"
  by (simp add: read_once_def read_own_def omap_has_def)

lemma store_ok_put:
  "store_ok st \<Longrightarrow> omap_has (paths (g_layout st)) inst \<Longrightarrow> store_ok (st\<lparr>g_staged := omap_put inst s (g_staged st)\<rparr>)"
  by (auto simp: store_ok_def omap_has_def map_of_eq_None_iff)

lemma Stage_result:
  assumes "store_ok st" "Stage e st inst = Some (Some (s, st'))"
  shows "s_bytes s = contents e st inst \<and> store_ok st' \<and> g_disk st' = g_disk st \<and> g_layout st' = g_layout st \<and>
    map_of (g_staged st') inst = Some s \<and> (\<forall>j. j \<noteq> inst \<longrightarrow> map_of (g_staged st') j = map_of (g_staged st) j) \<and>
    g_commitPromotesPendingKey st' = g_commitPromotesPendingKey st"
proof (cases "map_of (g_staged st) inst")
  case (Some s')
  then show ?thesis using assms by (simp add: Stage_def contents_def read_once_staged)
next
  case None
  have ok: "layout_ok (g_layout st)" "omap_ok (g_staged st)" using assms(1) by (simp_all add: store_ok_def)
  have has: "omap_has (paths (g_layout st)) inst" using assms(2) None by (auto simp: Stage_def split: if_splits)
  have s: "s = \<lparr>s_bytes = contents e st inst, s_modified = clock_now e\<rparr>"
    "st' = st\<lparr>g_staged := omap_put inst s (g_staged st)\<rparr>"
    using assms(2) None has by (auto simp: Stage_def Effective_total [OF ok(1)] Let_def)
  have "store_ok st'" unfolding s(2) by (rule store_ok_put [OF assms(1) has])
  then show ?thesis using s ok(2) by simp
qed

lemma Stage_defined:
  assumes "store_ok st"
  shows "if omap_has (paths (g_layout st)) inst then \<exists>s st'. Stage e st inst = Some (Some (s, st'))
    else Stage e st inst = Some None"
proof (cases "map_of (g_staged st) inst")
  case (Some s)
  then have "inst \<in> fst ` set (g_staged st)" by (force dest: map_of_SomeD)
  then have "omap_has (paths (g_layout st)) inst"
    using assms by (auto simp: store_ok_def omap_has_def map_of_eq_None_iff)
  then show ?thesis using Some by (simp add: Stage_def)
next
  case None
  then show ?thesis using assms by (simp add: Stage_def Effective_total store_ok_def Let_def)
qed

lemma read_once_put:
  "omap_ok (g_staged st) \<Longrightarrow> read_once e (st\<lparr>g_staged := omap_put inst s (g_staged st)\<rparr>) inst = Some (s_bytes s)"
  by (rule read_once_staged) simp

lemma Write_accepted:
  assumes "store_ok st" "Write e st inst fileStart data = Some (Inr start, st')"
  shows "store_ok st' \<and> g_disk st' = g_disk st \<and> g_layout st' = g_layout st \<and> start \<le> length (contents e st inst) \<and>
    (fileStart = -1 \<longrightarrow> start = length (contents e st inst)) \<and> (fileStart \<ge> 0 \<longrightarrow> int start = fileStart) \<and>
    start + length data \<le> MAX_FILE_BYTES \<and>
    store_read e st' inst = Some (Some (splice (contents e st inst) start data))"
proof -
  have has: "omap_has (paths (g_layout st)) inst"
    using assms Stage_defined [OF assms(1), of inst e] by (auto simp: Write_def split: if_splits)
  then obtain s st1 where s: "Stage e st inst = Some (Some (s, st1))"
    using Stage_defined [OF assms(1), of inst e] by auto
  note r = Stage_result [OF assms(1) s]
  have st': "st' = st1\<lparr>g_staged := omap_put inst
      \<lparr>s_bytes = splice (s_bytes s) start data, s_modified = clock_now e\<rparr> (g_staged st1)\<rparr>"
    and start: "start \<le> length (s_bytes s)" "start + length data \<le> MAX_FILE_BYTES"
      "start = (if fileStart = -1 then length (s_bytes s) else nat fileStart)" "\<not> fileStart < -1"
    using assms(2) s by (auto simp: Write_def Let_def split: if_splits)
  have lay: "g_layout st1 = g_layout st" and "store_ok st1" using r by blast+
  then have ok1: "omap_has (paths (g_layout st1)) inst" "store_ok st1" "omap_ok (g_staged st1)"
    using has by (simp_all add: store_ok_def)
  have ok': "store_ok st'" unfolding st' by (rule store_ok_put [OF ok1(2,1)])
  have "read_once e st' inst = Some (splice (s_bytes s) start data)"
    unfolding st' by (subst read_once_put [OF ok1(3)]) simp
  then have "store_read e st' inst = Some (Some (splice (contents e st inst) start data))"
    using ok' r by (simp add: store_read_total store_ok_def)
  then show ?thesis
    using ok' r start by (auto simp: st')
qed

lemma Write_stages:
  assumes "store_ok st" "omap_has (paths (g_layout st)) inst" "Write e st inst fileStart data = Some (r, st')"
  shows "HasStagedChanges st'"
proof -
  obtain s st1 where s: "Stage e st inst = Some (Some (s, st1))"
    using Stage_defined [OF assms(1), of inst e] assms(2) by auto
  have "map_of (g_staged st1) inst = Some s" "omap_ok (g_staged st1)"
    using Stage_result [OF assms(1) s] by (auto simp: store_ok_def)
  then have "map_of (g_staged st') inst \<noteq> None"
    using assms(3) s by (auto simp: Write_def Let_def split: if_splits)
  then show ?thesis by (auto simp: HasStagedChanges_def)
qed

lemma Resize_accepted:
  assumes "store_ok st" "Resize e st inst n = Some (Inr u, st')"
  shows "store_ok st' \<and> g_disk st' = g_disk st \<and> g_layout st' = g_layout st \<and> n \<le> MAX_FILE_BYTES \<and>
    store_read e st' inst = Some (Some (take n (contents e st inst) @ replicate (n - length (contents e st inst)) (CHR 0x00)))"
proof -
  have n: "n \<le> MAX_FILE_BYTES" using assms(2) by (auto simp: Resize_def split: if_splits)
  have has: "omap_has (paths (g_layout st)) inst"
    using assms Stage_defined [OF assms(1), of inst e] n by (auto simp: Resize_def split: if_splits)
  then obtain s st1 where s: "Stage e st inst = Some (Some (s, st1))"
    using Stage_defined [OF assms(1), of inst e] by auto
  note r = Stage_result [OF assms(1) s]
  have st': "st' = st1\<lparr>g_staged := omap_put inst
      \<lparr>s_bytes = resize_string (s_bytes s) n, s_modified = clock_now e\<rparr> (g_staged st1)\<rparr>"
    using assms(2) s n by (auto simp: Resize_def split: if_splits)
  have lay: "g_layout st1 = g_layout st" and "store_ok st1" using r by blast+
  then have ok1: "omap_has (paths (g_layout st1)) inst" "store_ok st1" "omap_ok (g_staged st1)"
    using has by (simp_all add: store_ok_def)
  have ok': "store_ok st'" unfolding st' by (rule store_ok_put [OF ok1(2,1)])
  have "read_once e st' inst = Some (resize_string (s_bytes s) n)"
    unfolding st' by (subst read_once_put [OF ok1(3)]) simp
  then show ?thesis
    using ok' r n by (simp add: store_read_total store_ok_def resize_string_def st')
qed

lemma Write_keeps:
  assumes "store_ok st" "Write e st inst fileStart data = Some (r, st')"
  shows "store_ok st' \<and> g_disk st' = g_disk st \<and> g_layout st' = g_layout st"
proof (cases "omap_has (paths (g_layout st)) inst")
  case True
  then obtain s st1 where s: "Stage e st inst = Some (Some (s, st1))"
    using Stage_defined [OF assms(1), of inst e] by auto
  note r = Stage_result [OF assms(1) s]
  then have "store_ok (st1\<lparr>g_staged := omap_put inst t (g_staged st1)\<rparr>)" for t
    using True by (intro store_ok_put) auto
  then show ?thesis
    using assms(2) s r by (auto simp: Write_def Let_def split: if_splits)
next
  case False
  then have "Stage e st inst = Some None" using Stage_defined [OF assms(1), of inst e] by simp
  then show ?thesis using assms by (simp add: Write_def)
qed

lemma Resize_keeps:
  assumes "store_ok st" "Resize e st inst n = Some (r, st')"
  shows "store_ok st' \<and> g_disk st' = g_disk st \<and> g_layout st' = g_layout st"
proof (cases "n > MAX_FILE_BYTES \<or> \<not> omap_has (paths (g_layout st)) inst")
  case True
  then show ?thesis
    using assms Stage_defined [OF assms(1), of inst e] by (auto simp: Resize_def split: if_splits)
next
  case False
  then show ?thesis
    using assms Stage_defined [OF assms(1), of inst e] Resize_accepted [OF assms(1), of e inst n _ st']
    by (auto simp: Resize_def split: if_splits)
qed

lemma FallbackInstance_put_other:
  assumes "omap_ok (g_staged st)" "j \<noteq> inst"
  shows "FallbackInstance (st\<lparr>g_staged := omap_put inst s (g_staged st)\<rparr>) j = FallbackInstance st j"
  using assms by (simp add: FallbackInstance_def OwnPath_def omap_has_def Let_def split: option.split)

lemma read_own_put_other:
  assumes "omap_ok (g_staged st)" "j \<noteq> inst"
  shows "read_own e (st\<lparr>g_staged := omap_put inst s (g_staged st)\<rparr>) j = read_own e st j"
  using assms by (simp add: read_own_def OwnPath_def cong: option.case_cong)

lemma read_own_put:
  assumes "omap_ok (g_staged st)"
  shows "read_own e (st\<lparr>g_staged := omap_put inst s (g_staged st)\<rparr>) inst = Some (s_bytes s)"
  using assms by (simp add: read_own_def)

text \<open>Staging a copy with the contents the file has changes what it reads as at most from missing
  to empty; a different copy changes that file and the ones that fall back on it.\<close>

lemma contents_put_other:
  assumes "omap_ok (g_staged st)" "j \<noteq> inst" "FallbackInstance st j \<noteq> inst"
  shows "contents e (st\<lparr>g_staged := omap_put inst s (g_staged st)\<rparr>) j = contents e st j"
  using assms by (simp add: contents_def read_once_def FallbackInstance_put_other read_own_put_other omap_has_def)

lemma contents_put:
  assumes "omap_ok (g_staged st)"
  shows "contents e (st\<lparr>g_staged := omap_put inst s (g_staged st)\<rparr>) inst = s_bytes s"
  using read_once_put [OF assms] by (simp add: contents_def)

lemma Stage_shape:
  assumes "layout_ok (g_layout st)" "Stage e st inst = Some (Some (s, st'))"
  shows "st' = st \<or> (\<exists>t. st' = st\<lparr>g_staged := omap_put inst t (g_staged st)\<rparr>)"
  using assms by (auto simp: Stage_def Effective_total Let_def split: option.splits if_splits)

lemma staged_put: "omap_ok (g_staged st) \<Longrightarrow> HasStagedChanges (st\<lparr>g_staged := omap_put inst t (g_staged st)\<rparr>)"
  using keys_omap_put [of inst t "g_staged st"] by (auto simp: HasStagedChanges_def simp del: keys_omap_put)


text \<open>A write to File_Size above 64 KB is refused as value-out-of-range with nothing
  staged; any other truncates the current contents or extends them with zero octets, and that is what
  the file then reads as.\<close>

theorem file_size_write_exact:
  assumes "store_ok st" "omap_has (paths (g_layout st)) inst"
  shows "if n > MAX_FILE_BYTES then Resize e st inst n = Some (Inl (Some VALUE_OUT_OF_RANGE), st)
    else \<exists>st'. Resize e st inst n = Some (Inr (), st') \<and>
      contents e st' inst = take n (contents e st inst) @ replicate (n - length (contents e st inst)) (CHR 0x00) \<and>
      (\<forall>j. j \<noteq> inst \<and> FallbackInstance st j \<noteq> inst \<longrightarrow> contents e st' j = contents e st j) \<and>
      g_disk st' = g_disk st \<and> store_ok st' \<and> HasStagedChanges st'"
proof -
  obtain s st1 where s: "Stage e st inst = Some (Some (s, st1))"
    using Stage_defined [OF assms(1), of inst e] assms(2) by auto
  note r = Stage_result [OF assms(1) s]
  have bytes: "s_bytes s = contents e st inst" using r by blast
  have ok: "omap_ok (g_staged st)" "omap_ok (g_staged st1)" using assms(1) r by (auto simp: store_ok_def)
  have others: "contents e st1 j = contents e st j \<and> FallbackInstance st1 j = FallbackInstance st j"
    if "j \<noteq> inst" "FallbackInstance st j \<noteq> inst" for j
    using Stage_shape [OF _ s] assms(1) contents_put_other [OF ok(1) that] FallbackInstance_put_other [OF ok(1) that(1)]
    by (auto simp: store_ok_def)
  have put: "store_ok (st1\<lparr>g_staged := omap_put inst t (g_staged st1)\<rparr>)" for t
    using r assms(2) by (intro store_ok_put) auto
  show ?thesis
    using s others staged_put [OF ok(2)] put r contents_put [OF ok(2)] contents_put_other [OF ok(2)]
    by (simp add: Resize_def resize_string_def bytes)
qed

text \<open>A small store for the concrete instances.\<close>

definition example_layout :: cert_layout where
  "example_layout = \<lparr>paths = [(1, ''opr''), (2, ''csr''), (3, ''iss1''), (4, ''iss2'')],
    readFallbackInstances = [(4, 3)], operationalInstance = 1, issuerInstances = [3, 4],
    privateKeyPath = ''key'', pendingPrivateKeyPath = ''newkey'', csrInstance = 2\<rparr>"

definition example_os :: os where
  "example_os = \<lparr>can_read = (\<lambda>_. True), can_write_temp = (\<lambda>_. True), can_rename_to = (\<lambda>_. True), clock_now = 7\<rparr>"

definition disk_text :: "string \<Rightarrow> disk_file" where
  "disk_text s = \<lparr>d_bytes = s, d_private = False, d_mtime = 1\<rparr>"

definition example_store :: store where
  "example_store = \<lparr>g_layout = example_layout, g_staged = [], g_commitPromotesPendingKey = False,
    g_disk = [''opr'' \<mapsto> disk_text ''abc'']\<rparr>"

lemma example_layout_ok: "layout_ok example_layout"
  by (simp add: example_layout_def layout_ok_def file_paths_def omap_has_def tmp_def)

lemma example_store_ok: "store_ok example_store"
  by (simp add: store_ok_def example_store_def example_layout_ok)

lemma example_contents: "contents example_os example_store 1 = ''abc''"
  by (simp add: contents_def read_once_def read_own_def example_store_def example_layout_def example_os_def
      omap_has_def FallbackInstance_def OwnPath_def Let_def disk_exists_def ReadDisk_def disk_text_def)

lemma example_managed: "omap_has (paths (g_layout example_store)) 1"
  by (simp add: example_store_def example_layout_def omap_has_def)


lemma file_size_write_exact_witness:
  "\<exists>st'. Resize example_os example_store 1 0 = Some (Inr (), st') \<and> contents example_os st' 1 = []"
  using file_size_write_exact [OF example_store_ok example_managed, of 0 example_os]
  by (auto simp: example_contents [simplified] MAX_FILE_BYTES_def)

section \<open>PEM blocks are framed\<close>

lemma find_from_found: "find_from pat s pos = Some i \<Longrightarrow> take (length pat) (drop i s) = pat"
proof (induction pat s pos rule: find_from.induct)
  case (1 pat s pos)
  then show ?case using find_from.simps [of pat s pos] by (auto split: if_splits)
qed

definition framed :: "string \<Rightarrow> string \<Rightarrow> bool" where
  "framed label block \<longleftrightarrow> StartsWith block (kBegin @ label @ kDashes) \<and> EndsWith block (endMarker label)"

text \<open>The text a list of blocks came from: a blank gap before each block and one at the end.\<close>

fun interleave :: "string list \<Rightarrow> string list \<Rightarrow> string" where
  "interleave (gap # gaps) (block # blocks) = gap @ block @ interleave gaps blocks"
| "interleave gaps [] = concat gaps"
| "interleave [] blocks = concat blocks"

lemma take_drop_split: "i \<le> j \<Longrightarrow> drop i s = take (j - i) (drop i s) @ drop j s"
  by (metis append_take_drop_id drop_drop le_add_diff_inverse2)

lemma prefix_at:
  "take (length p) (drop i s) = p \<Longrightarrow> drop i s = p @ drop (i + length p) s"
  by (metis append_take_drop_id drop_drop add.commute)

lemma framed_block:
  assumes a: "find_from kBegin s pos = Some start"
    and b: "find_from kDashes s (start + length kBegin) = Some labelEnd"
    and l: "take (labelEnd - (start + length kBegin)) (drop (start + length kBegin) s) = label"
    and c: "find_from (endMarker label) s labelEnd = Some stop"
  shows "framed label (take (stop + length (endMarker label) - start) (drop start s))"
proof -
  note ba = find_from_bounds [OF a] and bb = find_from_bounds [OF b] and bc = find_from_bounds [OF c]
  have "drop start s = kBegin @ drop (start + length kBegin) s"
    by (rule prefix_at [OF find_from_found [OF a]])
  also have "drop (start + length kBegin) s = label @ drop labelEnd s"
    using take_drop_split [of "start + length kBegin" labelEnd s] bb l by simp
  also have "drop labelEnd s = kDashes @ drop (labelEnd + length kDashes) s"
    by (rule prefix_at [OF find_from_found [OF b]])
  finally have pre: "drop start s = (kBegin @ label @ kDashes) @ drop (labelEnd + length kDashes) s" by simp
  have len: "labelEnd = start + length kBegin + length label" using l ba bb by auto
  let ?n = "stop + length (endMarker label) - start"
  have n: "?n = (stop - start) + length (endMarker label)" and at: "drop (stop - start) (drop start s) = drop stop s"
    using ba bb bc by auto
  have "take ?n (drop start s) = take (stop - start) (drop start s) @ endMarker label"
    unfolding n take_add at by (simp only: find_from_found [OF c])
  then have "EndsWith (take ?n (drop start s)) (endMarker label)" by (simp add: EndsWith_def)
  moreover have "length (kBegin @ label @ kDashes) \<le> ?n"
  proof -
    have "length kDashes = 5" "length (endMarker label) = length label + 14"
      by (simp_all add: kDashes_def endMarker_def)
    then show ?thesis using bc len by auto
  qed
  then have "take ?n (drop start s) = (kBegin @ label @ kDashes) @
      take (?n - length (kBegin @ label @ kDashes)) (drop (labelEnd + length kDashes) s)"
    unfolding pre by (simp only: take_append [of _ "kBegin @ label @ kDashes"] take_all)
  then have "StartsWith (take ?n (drop start s)) (kBegin @ label @ kDashes)"
    by (simp add: StartsWith_def)
  ultimately show ?thesis by (simp only: framed_def)
qed

lemma split_pem_structure:
  "split_pem s label pos blocks = Inr out \<Longrightarrow> pos \<le> length s \<Longrightarrow>
   \<exists>gaps new. out = blocks @ new \<and> length gaps = Suc (length new) \<and> list_all (list_all blank) gaps \<and>
     list_all (framed label) new \<and> drop pos s = interleave gaps new"
proof (induction s label pos blocks rule: split_pem.induct)
  case (1 s label pos blocks)
  show ?case
  proof (cases "find_from kBegin s pos")
    case None
    then have "list_all blank (drop pos s)" "out = blocks"
      using "1.prems" split_pem.simps [of s label pos blocks] by (auto simp: text_between_def split: if_splits)
    then show ?thesis by (intro exI [of _ "[drop pos s]"] exI [of _ "[]"]) simp
  next
    case (Some start)
    have gap: "list_all blank (take (start - pos) (drop pos s))"
      using "1.prems"(1) Some split_pem.simps [of s label pos blocks] by (auto simp: text_between_def split: if_splits)
    then have tb: "\<not> text_between s pos start" by (simp add: text_between_def)
    obtain labelEnd where b: "find_from kDashes s (start + length kBegin) = Some labelEnd"
      using "1.prems"(1) Some tb split_pem.simps [of s label pos blocks] by (auto split: option.splits)
    have l: "take (labelEnd - (start + length kBegin)) (drop (start + length kBegin) s) = label"
      using "1.prems"(1) Some tb b split_pem.simps [of s label pos blocks] by (auto simp: Let_def split: if_splits)
    obtain stop where c: "find_from (endMarker label) s labelEnd = Some stop"
      using "1.prems"(1) Some tb b l split_pem.simps [of s label pos blocks] by (auto simp: Let_def split: option.splits)
    let ?pos = "stop + length (endMarker label)" and ?block = "take (stop + length (endMarker label) - start) (drop start s)"
    have rec: "split_pem s label ?pos (blocks @ [?block]) = Inr out"
      using "1.prems"(1) Some tb b l c split_pem.simps [of s label pos blocks] by (simp add: Let_def)
    note ba = find_from_bounds [OF Some] and bb = find_from_bounds [OF b] and bc = find_from_bounds [OF c]
    obtain gaps new where ih: "out = (blocks @ [?block]) @ new" "length gaps = Suc (length new)"
        "list_all (list_all blank) gaps" "list_all (framed label) new" "drop ?pos s = interleave gaps new"
      using "1.IH" [OF Some tb b refl _ c refl rec] l bc by blast
    have "drop pos s = take (start - pos) (drop pos s) @ ?block @ drop ?pos s"
      using ba bb bc take_drop_split [of pos start s] take_drop_split [of start ?pos s] by simp
    then show ?thesis
      using gap ih framed_block [OF Some b l c]
      by (intro exI [of _ "take (start - pos) (drop pos s) # gaps"] exI [of _ "?block # new"]) simp
  qed
qed

text \<open>Text that SplitPemBlocks accepts is nothing but its blocks with white space before,
  between and after them, and each block opens with the label's BEGIN line and closes with its END
  line: no private key or other text can be carried along unseen.\<close>

theorem split_pem_blocks_exact:
  assumes "SplitPemBlocks pem label = Inr blocks"
  shows "\<exists>gaps. length gaps = Suc (length blocks) \<and> list_all (list_all blank) gaps \<and>
    list_all (framed label) blocks \<and> pem = interleave gaps blocks"
  using split_pem_structure [OF assms [unfolded SplitPemBlocks_def]] by auto

lemma split_pem_blocks_exact_witness:
  "\<exists>gaps. length gaps = 2 \<and> list_all (list_all blank) gaps \<and>
    list_all (framed ''K'') [''-----BEGIN K-----A-----END K-----''] \<and>
    '' -----BEGIN K-----A-----END K-----'' = interleave gaps [''-----BEGIN K-----A-----END K-----'']"
proof -
  have "SplitPemBlocks '' -----BEGIN K-----A-----END K-----'' ''K'' = Inr [''-----BEGIN K-----A-----END K-----'']"
    by (simp add: SplitPemBlocks_def split_pem.simps find_from.simps kBegin_def kDashes_def endMarker_def
        text_between_def blank_def Let_def)
  from split_pem_blocks_exact [OF this] show ?thesis by (simp add: numeral_2_eq_2)
qed

section \<open>A PEM bundle reads back\<close>

lemma find_skip:
  assumes "take (length pat) (x # w) \<noteq> pat"
  shows "find_from pat (p @ x # w) (length p) = find_from pat ((p @ [x]) @ w) (length (p @ [x]))"
proof (cases "length pat \<le> Suc (length w)")
  case True
  then show ?thesis using assms find_from.simps [of pat "p @ x # w" "length p"] by simp
next
  case False
  then show ?thesis using find_from.simps [of pat "p @ x # w" "length p"] find_from.simps [of pat "p @ x # w" "length p + 1"] by simp
qed

lemma find_here: "find_from pat (p @ pat @ v) (length p) = Some (length p)"
  by (simp add: find_from.simps)

lemma find_after:
  "\<forall>c \<in> set u. c \<noteq> d \<Longrightarrow> find_from (d # pat) (p @ u @ (d # pat) @ v) (length p) = Some (length p + length u)"
proof (induction u arbitrary: p)
  case Nil
  then show ?case using find_here [of "d # pat" p v] by simp
next
  case (Cons c u)
  then show ?case using find_skip [of "d # pat" c "u @ (d # pat) @ v" p] Cons.IH [of "p @ [c]"] by simp
qed

lemma find_none: "\<forall>c \<in> set u. c \<noteq> d \<Longrightarrow> find_from (d # pat) (p @ u) (length p) = None"
proof (induction u arbitrary: p)
  case Nil
  then show ?case by (simp add: find_from.simps)
next
  case (Cons c u)
  then show ?case using find_skip [of "d # pat" c u p] Cons.IH [of "p @ [c]"] by simp
qed

text \<open>A block as PEM writers make it: no dash in the label or the body, which starts with a line end.\<close>

definition pem_block :: "string \<Rightarrow> string \<Rightarrow> string" where
  "pem_block label body = kBegin @ label @ kDashes @ (CHR 0x0A) # body @ endMarker label"

definition dashless :: "string \<Rightarrow> bool" where
  "dashless s \<longleftrightarrow> CHR ''-'' \<notin> set s"

lemma kBegin_cons: "kBegin = CHR ''-'' # ''----BEGIN ''"
  and kDashes_cons: "kDashes = CHR ''-'' # ''----''"
  and endMarker_cons: "endMarker label = CHR ''-'' # ''----END '' @ label @ ''-----''"
  by (simp_all add: kBegin_def kDashes_def endMarker_def)

lemma find_end:
  assumes "dashless body"
  shows "find_from (endMarker label) (p @ kDashes @ (CHR 0x0A) # body @ endMarker label @ v) (length p)
    = Some (length p + 6 + length body)"
proof -
  let ?f = "\<lambda>q w. find_from (endMarker label) (q @ w) (length q)"
  let ?w = "(CHR 0x0A) # body @ endMarker label @ v"
  have "?f p (kDashes @ ?w) = ?f (p @ kDashes) ?w"
    using find_skip [of "endMarker label" "CHR ''-''" "''----'' @ ?w" p]
      find_skip [of "endMarker label" "CHR ''-''" "''---'' @ ?w" "p @ ''-''"]
      find_skip [of "endMarker label" "CHR ''-''" "''--'' @ ?w" "p @ ''--''"]
      find_skip [of "endMarker label" "CHR ''-''" "''-'' @ ?w" "p @ ''---''"]
      find_skip [of "endMarker label" "CHR ''-''" "?w" "p @ ''----''"]
    by (simp add: endMarker_cons kDashes_cons)
  also have "\<dots> = Some (length (p @ kDashes) + length ((CHR 0x0A) # body))"
    using find_after [of "(CHR 0x0A) # body" "CHR ''-''" "''----END '' @ label @ ''-----''" "p @ kDashes" v] assms
    by (auto simp: endMarker_cons dashless_def)
  finally show ?thesis by (simp add: kDashes_def)
qed

lemma split_one_block:
  assumes "dashless label" "dashless body" "dashless gap" "list_all blank gap"
  shows "split_pem (p @ gap @ pem_block label body @ v) label (length p) blocks =
    split_pem ((p @ gap @ pem_block label body) @ v) label (length (p @ gap @ pem_block label body))
      (blocks @ [pem_block label body])"
proof -
  let ?s = "p @ gap @ pem_block label body @ v"
  let ?rest = "(CHR 0x0A) # body @ endMarker label @ v"
  have a: "find_from kBegin ?s (length p) = Some (length p + length gap)"
    using find_after [of gap "CHR ''-''" "''----BEGIN ''" p "label @ kDashes @ ?rest"] assms(3)
    by (auto simp: pem_block_def kBegin_cons dashless_def)
  have b: "find_from kDashes ?s (length p + length gap + length kBegin) = Some (length p + length gap + length kBegin + length label)"
    using find_after [of label "CHR ''-''" "''----''" "p @ gap @ kBegin" ?rest] assms(1)
    by (auto simp: pem_block_def kDashes_cons dashless_def add.assoc)
  have c: "find_from (endMarker label) ?s (length p + length gap + length kBegin + length label)
      = Some (length p + length gap + length kBegin + length label + 6 + length body)"
    using find_end [OF assms(2), of label "p @ gap @ kBegin @ label" v] by (simp add: pem_block_def add.assoc)
  have tb: "\<not> text_between ?s (length p) (length p + length gap)" using assms(4) by (simp add: text_between_def)
  have len: "length p + length gap + length kBegin + length label + 6 + length body + length (endMarker label)
      = length (p @ gap @ pem_block label body)"
    by (simp add: pem_block_def kDashes_def)
  let ?stop = "length p + length gap + length kBegin + length label + 6 + length body"
  have found: "take (length p + length gap + length kBegin + length label - (length p + length gap + length kBegin))
      (drop (length p + length gap + length kBegin) ?s) = label"
    by (simp add: pem_block_def)
  have block: "take (length (p @ gap @ pem_block label body) - (length p + length gap)) (drop (length p + length gap) ?s)
      = pem_block label body"
    by simp
  show ?thesis
    by (simp only: split_pem.simps [of ?s label "length p" blocks] a b c tb found len block option.case if_False Let_def
        simp_thms append_assoc)
qed

lemma split_blocks:
  "dashless label \<Longrightarrow> list_all dashless bodies \<Longrightarrow> dashless gap \<Longrightarrow> list_all blank gap \<Longrightarrow>
   split_pem (p @ gap @ concat (map (\<lambda>b. pem_block label b @ ''\<newline>'') bodies)) label (length p) blocks
   = Inr (blocks @ map (pem_block label) bodies)"
proof (induction bodies arbitrary: p gap blocks)
  case Nil
  have "find_from kBegin (p @ gap) (length p) = None"
    using find_none [of gap "CHR ''-''"] Nil(3) by (auto simp: kBegin_cons dashless_def)
  then show ?case using Nil(4) by (simp add: split_pem.simps text_between_def)
next
  case (Cons b bodies)
  have nl: "dashless ''\<newline>''" "list_all blank ''\<newline>''" by (simp_all add: dashless_def blank_def)
  from Cons.prems show ?case
    using nl split_one_block [of label b gap p _ blocks] Cons.IH [of "''\<newline>''" "p @ gap @ pem_block label b" "blocks @ [pem_block label b]"]
    by simp
qed

text \<open>A bundle of PEM blocks, each followed by a line end, splits back into exactly those
  blocks in their order, however many there are: what WriteTrustedIssuerBundle writes and what the
  hub's own certificate files hold reads back whole.\<close>

theorem pem_bundle_round_trip:
  assumes "dashless label" "list_all dashless bodies"
  shows "SplitPemBlocks (concat (map (\<lambda>b. pem_block label b @ ''\<newline>'') bodies)) label
    = Inr (map (pem_block label) bodies)"
  using split_blocks [of label bodies "[]" "[]" "[]"] assms by (simp add: SplitPemBlocks_def dashless_def)

lemma pem_bundle_round_trip_witness:
  "SplitPemBlocks (concat (map (\<lambda>b. pem_block ''CERTIFICATE'' b @ ''\<newline>'') [''MIIB\<newline>'', ''AA==\<newline>''])) ''CERTIFICATE''
    = Inr (map (pem_block ''CERTIFICATE'') [''MIIB\<newline>'', ''AA==\<newline>''])"
  by (rule pem_bundle_round_trip) (simp_all add: dashless_def)

section \<open>The trusted issuers\<close>

text \<open>The certificates of the issuer files, in order, as PEM texts: an unreadable or malformed file
  contributes none.\<close>

definition issuer_pems :: "os \<Rightarrow> ('c, 'k) openssl \<Rightarrow> store \<Rightarrow> nat \<Rightarrow> string list" where
  "issuer_pems e ssl st inst =
    (case read_once e st inst of None \<Rightarrow> [] | Some pem \<Rightarrow>
       (case ParseCertificates ssl pem of Inl _ \<Rightarrow> [] | Inr certs \<Rightarrow> map (write_cert ssl) certs))"

text \<open>Each text once, where it first occurs.\<close>

definition firsts :: "'a list \<Rightarrow> 'a list" where
  "firsts xs = rev (remdups (rev xs))"

lemma firsts_facts: "distinct (firsts xs)" "set (firsts xs) = set xs"
  by (simp_all add: firsts_def)

lemma add_certs_append: "add_certs (xs @ ys) acc = add_certs ys (add_certs xs acc)"
  by (induction xs acc rule: add_certs.induct) simp_all

lemma add_certs_firsts:
  "set (fst (add_certs xs ([], []))) = set xs \<and> snd (add_certs xs ([], [])) = concat (firsts xs)"
proof (induction xs rule: rev_induct)
  case Nil
  then show ?case by (simp add: firsts_def)
next
  case (snoc x xs)
  then show ?case
    by (cases "add_certs xs ([], [])") (auto simp: add_certs_append firsts_def)
qed

lemma collect_bundle_total:
  assumes "layout_ok (g_layout st)"
  shows "collect_bundle e ssl st insts acc = Some (add_certs (concat (map (issuer_pems e ssl st) insts)) acc)"
  by (induction insts arbitrary: acc)
    (simp_all add: store_read_total [OF assms] issuer_pems_def add_certs_append Let_def)

text \<open>The trusted-issuers file that TLS loads holds every certificate of the readable issuer
  files exactly once, in the order of its first occurrence.  It is written only when there is one, and
  then replaces the old file whole, touching no other file; a failure leaves the old file.\<close>

theorem trusted_issuers_written:
  assumes "layout_ok (g_layout st)" "bundlePath \<noteq> []"
  shows "\<exists>why st'. WriteTrustedIssuerBundle e ssl bundlePath st = Some (why, st') \<and>
    (let text = concat (firsts (concat (map (issuer_pems e ssl st) (issuerInstances (g_layout st))))) in
     (why = None \<longleftrightarrow> text \<noteq> [] \<and> can_write_temp e (tmp bundlePath) \<and> can_rename_to e bundlePath) \<and>
     map_option d_bytes (g_disk st' bundlePath) =
       (if why = None then Some text else map_option d_bytes (g_disk st bundlePath)) \<and>
     (\<forall>p. p \<noteq> bundlePath \<and> p \<noteq> tmp bundlePath \<longrightarrow> g_disk st' p = g_disk st p))"
proof -
  have ne: "tmp bundlePath \<noteq> bundlePath" by (simp add: tmp_def)
  show ?thesis
    using ne add_certs_firsts [of "concat (map (issuer_pems e ssl st) (issuerInstances (g_layout st)))"]
    by (auto simp: WriteTrustedIssuerBundle_def collect_bundle_total [OF assms(1)] Let_def AtomicWriteFileToDisk_def
        WriteTempFile_def ReplaceWithTemp_def rename_file_def remove_file_def)
qed

text \<open>A toy cryptography for the concrete instances: a certificate or a key is its first
  body character, a key fits the certificate with the same one, and every chain verifies.\<close>

definition example_ssl :: "(char, char) openssl" where
  "example_ssl = \<lparr>parse_cert = (\<lambda>s. if length s > 28 then Some (s ! 28) else None),
    parse_key = (\<lambda>s. case s of [] \<Rightarrow> None | c # _ \<Rightarrow> Some c), check_private_key = (=), is_ca = (\<lambda>c. False),
    verify = (\<lambda>_ _ _ _. None), new_key_and_request = (\<lambda>_. Some (''new key'', ''request'')),
    write_cert = (\<lambda>c. pem_block ''CERTIFICATE'' [c])\<rparr>"

definition cert_file :: "char \<Rightarrow> string" where
  "cert_file c = pem_block ''CERTIFICATE'' [c] @ ''\<newline>''"

lemma example_parse:
  assumes "c \<noteq> CHR ''-''"
  shows "ParseCertificates example_ssl (cert_file c) = Inr [c]"
proof -
  have "SplitPemBlocks (cert_file c) ''CERTIFICATE'' = Inr [pem_block ''CERTIFICATE'' [c]]"
    using split_blocks [of "''CERTIFICATE''" "[[c]]" "[]" "[]" "[]"] assms
    by (simp add: SplitPemBlocks_def dashless_def cert_file_def)
  moreover have "parse_cert example_ssl (pem_block ''CERTIFICATE'' [c]) = Some c"
    by (simp add: example_ssl_def pem_block_def kBegin_def kDashes_def endMarker_def)
  ultimately show ?thesis by (simp add: ParseCertificates_def)
qed

definition issuer_store :: store where
  "issuer_store = example_store\<lparr>g_disk := [''iss1'' \<mapsto> disk_text (cert_file (CHR ''z''))]\<rparr>"

lemma trusted_issuers_written_witness:
  "\<exists>st'. WriteTrustedIssuerBundle example_os example_ssl ''ca'' issuer_store = Some (None, st') \<and>
    map_option d_bytes (g_disk st' ''ca'') = Some (pem_block ''CERTIFICATE'' ''z'')"
proof -
  have ok: "layout_ok (g_layout issuer_store)" by (simp add: issuer_store_def example_store_def example_layout_ok)
  have read: "read_once example_os issuer_store 3 = Some (cert_file (CHR ''z''))"
    "read_once example_os issuer_store 4 = Some (cert_file (CHR ''z''))"
    by (simp_all add: issuer_store_def example_store_def example_layout_def read_once_def read_own_def omap_has_def
        FallbackInstance_def OwnPath_def Let_def disk_exists_def ReadDisk_def disk_text_def example_os_def)
  have "concat (map (issuer_pems example_os example_ssl issuer_store) (issuerInstances (g_layout issuer_store)))
      = [pem_block ''CERTIFICATE'' ''z'', pem_block ''CERTIFICATE'' ''z'']"
  proof -
    have "issuerInstances (g_layout issuer_store) = [3, 4]"
      by (simp add: issuer_store_def example_store_def example_layout_def)
    then show ?thesis using read by (simp add: issuer_pems_def example_parse) (simp add: example_ssl_def)
  qed
  then show ?thesis
    using trusted_issuers_written [OF ok, of "''ca''" example_os example_ssl]
    by (auto simp: firsts_def example_os_def pem_block_def kBegin_def)
qed

end
