(* ===== verification/Cert_Commit.thy ===== *)
theory Cert_Commit
  imports Cert_Store
begin

text \<open>
  What activating certificate changes does, the second half of \<^verbatim>\<open>src/cert_store.cpp\<close>: which files a
  commit leaves on disk, when a failure changes nothing, and that the hub never ends with a certificate
  whose key it does not have, with the orders of failures in which it does.
\<close>

section \<open>What a commit writes\<close>

lemma tmp_inj [simp]: "tmp p = tmp q \<longleftrightarrow> p = q"
  and tmp_ne [simp]: "tmp p \<noteq> p" "p \<noteq> tmp p"
  by (auto simp: tmp_def)

text \<open>The path of each staged file, and the file it becomes.\<close>

definition staged_paths :: "cert_layout \<Rightarrow> (nat, staged_file) omap \<Rightarrow> string list" where
  "staged_paths l staged = map (\<lambda>(inst, s). the (map_of (paths l) inst)) staged"

definition new_file :: "os \<Rightarrow> staged_file \<Rightarrow> disk_file" where
  "new_file e s = \<lparr>d_bytes = s_bytes s, d_private = False, d_mtime = clock_now e\<rparr>"

definition managed :: "cert_layout \<Rightarrow> (nat, staged_file) omap \<Rightarrow> bool" where
  "managed l staged \<longleftrightarrow> (\<forall>(inst, s) \<in> set staged. map_of (paths l) inst \<noteq> None)"

lemma remove_temps:
  "fold (\<lambda>p. remove_file (tmp p)) ps d = (\<lambda>q. if q \<in> tmp ` set ps then None else d q)"
  by (induction ps arbitrary: d) (auto simp: remove_file_def fun_eq_iff)

lemma write_temps_ok:
  "write_temps e l staged w d = (Inr ws, d') \<Longrightarrow>
   ws = w @ staged_paths l staged \<and>
   (\<forall>q. q \<notin> tmp ` set (staged_paths l staged) \<longrightarrow> d' q = d q) \<and>
   (distinct (staged_paths l staged) \<longrightarrow>
     (\<forall>(inst, s) \<in> set staged. d' (tmp (the (map_of (paths l) inst))) = Some (new_file e s)))"
proof (induction e l staged w d rule: write_temps.induct)
  case (1 e l w d)
  then show ?case by (simp add: staged_paths_def)
next
  case (2 e l inst s rest w d)
  then obtain path where p: "map_of (paths l) inst = Some path"
    by (auto split: option.splits)
  let ?d = "d(tmp path \<mapsto> new_file e s)"
  have w: "WriteTempFile e path (s_bytes s) False d = (True, ?d)"
    using "2.prems" p by (auto simp: WriteTempFile_def new_file_def split: if_splits)
  have rec: "write_temps e l rest (w @ [path]) ?d = (Inr ws, d')" using "2.prems" p w by simp
  note ih = "2.IH" [OF p w [symmetric] refl rec]
  have "d' (tmp path) = ?d (tmp path)" if "path \<notin> set (staged_paths l rest)"
    using ih that by (metis image_iff tmp_inj)
  then have "d' (tmp path) = Some (new_file e s)" if "path \<notin> set (staged_paths l rest)"
    using that by simp
  then show ?case
    using ih p by (auto simp: staged_paths_def)
qed

lemma write_temps_fail:
  "write_temps e l staged w d = (Inl why, d') \<Longrightarrow> q \<notin> tmp ` (set w \<union> set (staged_paths l staged)) \<Longrightarrow> d' q = d q"
proof (induction e l staged w d rule: write_temps.induct)
  case (1 e l w d)
  then show ?case by simp
next
  case (2 e l inst s rest w d)
  show ?case
  proof (cases "map_of (paths l) inst")
    case None
    then show ?thesis using "2.prems" by (auto simp: remove_temps staged_paths_def)
  next
    case (Some path)
    show ?thesis
    proof (cases "can_write_temp e (tmp path)")
      case True
      obtain d1 where d1: "d1 = d(tmp path \<mapsto> new_file e s)" by simp
      have w: "WriteTempFile e path (s_bytes s) False d = (True, d1)"
        using True by (simp add: WriteTempFile_def new_file_def d1)
      have "d' q = d1 q"
        using "2.IH" [OF Some w [symmetric] refl] "2.prems" Some w by (auto simp: staged_paths_def)
      then show ?thesis using "2.prems"(2) Some by (auto simp: d1 staged_paths_def)
    next
      case False
      then show ?thesis
        using "2.prems" Some by (auto simp: WriteTempFile_def remove_temps remove_file_def staged_paths_def)
    qed
  qed
qed

lemma replace_all_ok:
  "replace_all e ps d = (None, d') \<Longrightarrow> distinct ps \<Longrightarrow> tmp ` set ps \<inter> set ps = {} \<Longrightarrow>
   d' q = (if q \<in> set ps then d (tmp q) else if q \<in> tmp ` set ps then None else d q) \<and>
   (q \<in> set ps \<longrightarrow> d (tmp q) \<noteq> None)"
proof (induction e ps d arbitrary: q rule: replace_all.induct)
  case (1 e d)
  then show ?case by simp
next
  case (2 e path rest d)
  let ?d = "(d(path := d (tmp path)))(tmp path := None)"
  have r: "ReplaceWithTemp e path d = (True, ?d)" "d (tmp path) \<noteq> None"
    using "2.prems"(1) by (auto simp: ReplaceWithTemp_def rename_file_def split: if_splits)
  have "replace_all e rest ?d = (None, d')" using "2.prems"(1) r(1) by simp
  note ih = "2.IH" [OF r(1) [symmetric] refl this]
  have "tmp ` set rest \<inter> set rest = {}" "distinct rest" using "2.prems" by auto
  note ih = ih [OF this(2,1)]
  show ?case
    using ih [of q] r(2) "2.prems"(2,3) by (auto split: if_splits)
qed

lemma replace_all_total:
  "(\<forall>p \<in> set ps. can_rename_to e p \<and> d (tmp p) \<noteq> None) \<Longrightarrow> distinct ps \<Longrightarrow> tmp ` set ps \<inter> set ps = {} \<Longrightarrow>
   \<exists>d'. replace_all e ps d = (None, d')"
proof (induction e ps d rule: replace_all.induct)
  case (1 e d)
  then show ?case by simp
next
  case (2 e path rest d)
  obtain d1 where d1: "d1 = (d(path := d (tmp path)))(tmp path := None)" by simp
  have r: "ReplaceWithTemp e path d = (True, d1)"
    using "2.prems"(1) by (auto simp: ReplaceWithTemp_def rename_file_def d1)
  have "can_rename_to e p \<and> d1 (tmp p) \<noteq> None" if "p \<in> set rest" for p
  proof -
    have "tmp p \<noteq> path" "p \<noteq> path" using that "2.prems"(2,3) by auto
    then show ?thesis using that "2.prems"(1) by (simp add: d1)
  qed
  then show ?case using "2.IH" [OF r [symmetric] refl] "2.prems"(2,3) r by auto
qed

lemma layout_ok_facts:
  assumes "layout_ok l"
  shows "distinct (map fst (paths l))" "distinct (map snd (paths l))" "snd ` set (paths l) \<subseteq> set (file_paths l)"
    "privateKeyPath l \<in> set (file_paths l)" "pendingPrivateKeyPath l \<in> set (file_paths l)"
    "privateKeyPath l \<notin> snd ` set (paths l)" "pendingPrivateKeyPath l \<notin> snd ` set (paths l)"
    "privateKeyPath l \<noteq> pendingPrivateKeyPath l" "[] \<notin> set (file_paths l)"
  using assms by (simp_all add: layout_ok_def file_paths_def omap_ok_distinct) blast+

lemma layout_ok_tmp:
  "layout_ok l \<Longrightarrow> p \<in> set (file_paths l) \<Longrightarrow> q \<in> set (file_paths l) \<Longrightarrow> tmp p \<noteq> q"
  unfolding layout_ok_def by blast

lemma path_unique:
  assumes "layout_ok l" "map_of (paths l) i = Some p" "map_of (paths l) j = Some p"
  shows "i = j"
  using layout_ok_facts(2) [OF assms(1)] map_of_SomeD [OF assms(2)] map_of_SomeD [OF assms(3)]
  unfolding distinct_map by (metis inj_onD prod.inject snd_conv)

lemma path_in: "map_of (paths l) i = Some p \<Longrightarrow> p \<in> snd ` set (paths l)"
  by (drule map_of_SomeD) force

lemma staged_lookup: "store_ok st \<Longrightarrow> (inst, s) \<in> set (g_staged st) \<longleftrightarrow> map_of (g_staged st) inst = Some s"
  by (simp add: store_ok_def omap_ok_distinct)

lemma staged_has_path:
  assumes "store_ok st" "(inst, s) \<in> set (g_staged st)"
  obtains p where "map_of (paths (g_layout st)) inst = Some p"
proof -
  have "inst \<in> fst ` set (g_staged st)" using assms(2) by force
  then have "inst \<in> fst ` set (paths (g_layout st))" using assms(1) by (auto simp: store_ok_def)
  then show thesis using that map_of_eq_None_iff [of "paths (g_layout st)" inst] by (cases "map_of (paths (g_layout st)) inst") auto
qed

lemma staged_paths_mem:
  assumes "store_ok st"
  shows "p \<in> set (staged_paths (g_layout st) (g_staged st)) \<longleftrightarrow>
    (\<exists>inst s. map_of (g_staged st) inst = Some s \<and> map_of (paths (g_layout st)) inst = Some p)"
proof
  assume "p \<in> set (staged_paths (g_layout st) (g_staged st))"
  then obtain inst s where m: "(inst, s) \<in> set (g_staged st)" "p = the (map_of (paths (g_layout st)) inst)"
    by (auto simp: staged_paths_def)
  then show "\<exists>inst s. map_of (g_staged st) inst = Some s \<and> map_of (paths (g_layout st)) inst = Some p"
    using staged_has_path [OF assms m(1)] staged_lookup [OF assms] by (metis option.sel)
next
  assume "\<exists>inst s. map_of (g_staged st) inst = Some s \<and> map_of (paths (g_layout st)) inst = Some p"
  then show "p \<in> set (staged_paths (g_layout st) (g_staged st))"
    using staged_lookup [OF assms] by (force simp: staged_paths_def)
qed

lemma staged_paths_ok:
  assumes "store_ok st"
  shows "distinct (staged_paths (g_layout st) (g_staged st))"
    "tmp ` set (staged_paths (g_layout st) (g_staged st)) \<inter> set (file_paths (g_layout st)) = {}"
    "set (staged_paths (g_layout st) (g_staged st)) \<subseteq> snd ` set (paths (g_layout st))"
proof -
  have ok: "layout_ok (g_layout st)" "distinct (map fst (g_staged st))"
    using assms by (simp_all add: store_ok_def omap_ok_distinct)
  show sub: "set (staged_paths (g_layout st) (g_staged st)) \<subseteq> snd ` set (paths (g_layout st))"
    using path_in by (auto simp: staged_paths_mem [OF assms])
  show "tmp ` set (staged_paths (g_layout st) (g_staged st)) \<inter> set (file_paths (g_layout st)) = {}"
    using sub layout_ok_facts(3) [OF ok(1)] layout_ok_tmp [OF ok(1)] by blast
  have "x = y" if "x \<in> set (g_staged st)" "y \<in> set (g_staged st)"
    "the (map_of (paths (g_layout st)) (fst x)) = the (map_of (paths (g_layout st)) (fst y))" for x y
  proof -
    have "fst x = fst y"
      using that staged_has_path [OF assms, of "fst x" "snd x"] staged_has_path [OF assms, of "fst y" "snd y"]
        path_unique [OF ok(1)] by (metis option.sel prod.collapse)
    then show ?thesis using that ok(2) by (metis eq_key_imp_eq_value prod.collapse)
  qed
  then have "inj_on (\<lambda>x. the (map_of (paths (g_layout st)) (fst x))) (set (g_staged st))" by (rule inj_onI)
  then show "distinct (staged_paths (g_layout st) (g_staged st))"
    using ok(2) by (simp add: staged_paths_def distinct_map case_prod_unfold)
qed

lemma commit_files:
  assumes "store_ok st" "write_temps e (g_layout st) (g_staged st) [] (g_disk st) = (Inr ws, d1)"
    "replace_all e ws d1 = (None, d2)"
  shows "map_of (g_staged st) inst = Some s \<Longrightarrow> map_of (paths (g_layout st)) inst = Some q \<Longrightarrow> d2 q = Some (new_file e s)"
    "q \<notin> set (staged_paths (g_layout st) (g_staged st)) \<Longrightarrow>
     q \<notin> tmp ` set (staged_paths (g_layout st) (g_staged st)) \<Longrightarrow> d2 q = g_disk st q"
proof -
  let ?ps = "staged_paths (g_layout st) (g_staged st)"
  note ok = staged_paths_ok [OF assms(1)]
  have lay: "layout_ok (g_layout st)" using assms(1) by (simp add: store_ok_def)
  note w = write_temps_ok [OF assms(2)]
  have ws: "ws = ?ps" using w by simp
  have disj: "tmp ` set ?ps \<inter> set ?ps = {}" using ok(2,3) layout_ok_facts(3) [OF lay] by blast
  note r = replace_all_ok [OF assms(3)[unfolded ws] ok(1) disj]
  show "d2 q = Some (new_file e s)" if "map_of (g_staged st) inst = Some s" "map_of (paths (g_layout st)) inst = Some q"
  proof -
    have "q \<in> set ?ps" using that staged_paths_mem [OF assms(1)] by blast
    moreover have "d1 (tmp q) = Some (new_file e s)"
      using w ok(1) that staged_lookup [OF assms(1), of inst s] by force
    ultimately show ?thesis using r [of q] by simp
  qed
  show "d2 q = g_disk st q" if "q \<notin> set ?ps" "q \<notin> tmp ` set ?ps"
    using r [of q] w that by simp
qed

definition all_readable :: "os \<Rightarrow> bool" where
  "all_readable e \<longleftrightarrow> (\<forall>p. can_read e p)"

lemma commit_reads:
  assumes ok: "store_ok st" and rd: "all_readable e"
    and staged: "\<And>inst s q. map_of (g_staged st) inst = Some s \<Longrightarrow> map_of (paths (g_layout st)) inst = Some q \<Longrightarrow>
      d2 q = Some (new_file e s)"
    and rest: "\<And>inst q. map_of (g_staged st) inst = None \<Longrightarrow> map_of (paths (g_layout st)) inst = Some q \<Longrightarrow>
      d2 q = g_disk st q"
  shows "read_once e (st\<lparr>g_disk := d2, g_staged := []\<rparr>) inst = read_once e st inst"
proof -
  let ?st = "st\<lparr>g_disk := d2, g_staged := []\<rparr>"
  have own: "read_own e ?st i = read_own e st i" for i
  proof (cases "map_of (g_staged st) i")
    case None
    then show ?thesis
      using rest [OF None] by (cases "map_of (paths (g_layout st)) i") (auto simp: read_own_def OwnPath_def ReadDisk_def)
  next
    case (Some s)
    then obtain q where q: "map_of (paths (g_layout st)) i = Some q"
      using staged_has_path [OF ok] staged_lookup [OF ok] by metis
    have "q \<noteq> []" using path_in [OF q] layout_ok_facts(3,9) [of "g_layout st"] ok by (auto simp: store_ok_def)
    then show ?thesis
      using Some q staged [OF Some q] rd by (simp add: read_own_def OwnPath_def ReadDisk_def all_readable_def new_file_def)
  qed
  have fb: "FallbackInstance ?st inst = FallbackInstance st inst" if none: "map_of (g_staged st) inst = None"
    using rest [OF none] none
    by (cases "map_of (paths (g_layout st)) inst") (auto simp: FallbackInstance_def OwnPath_def omap_has_def disk_exists_def Let_def)
  have fb0: "FallbackInstance ?st inst = 0" if some: "map_of (g_staged st) inst = Some s" for s
  proof -
    obtain q where q: "map_of (paths (g_layout st)) inst = Some q"
      using some staged_has_path [OF ok] staged_lookup [OF ok] by metis
    show ?thesis using staged [OF some q] q by (simp add: FallbackInstance_def OwnPath_def omap_has_def disk_exists_def Let_def)
  qed
  show ?thesis
  proof (cases "map_of (g_staged st) inst")
    case None
    then show ?thesis by (simp add: read_once_def own fb omap_has_def)
  next
    case (Some s)
    then show ?thesis by (simp add: read_once_def own fb0 omap_has_def)
  qed
qed

text \<open>The disk after a commit whose renames all worked, before the pending key moves.\<close>

definition committed :: "os \<Rightarrow> store \<Rightarrow> disk \<Rightarrow> bool" where
  "committed e st d \<longleftrightarrow>
    (\<forall>inst s q. map_of (g_staged st) inst = Some s \<longrightarrow> map_of (paths (g_layout st)) inst = Some q \<longrightarrow> d q = Some (new_file e s)) \<and>
    (\<forall>q. q \<notin> set (staged_paths (g_layout st) (g_staged st)) \<longrightarrow>
       q \<notin> tmp ` set (staged_paths (g_layout st) (g_staged st)) \<longrightarrow> d q = g_disk st q)"

lemma committed_reads:
  assumes "store_ok st" "all_readable e" "committed e st d"
  shows "read_once e (st\<lparr>g_disk := d, g_staged := []\<rparr>) inst = read_once e st inst"
proof (rule commit_reads [OF assms(1,2)])
  have lay: "layout_ok (g_layout st)" using assms(1) by (simp add: store_ok_def)
  fix i q assume a: "map_of (g_staged st) i = None" "map_of (paths (g_layout st)) i = Some q"
  have "q \<notin> set (staged_paths (g_layout st) (g_staged st))"
    using a staged_paths_mem [OF assms(1)] path_unique [OF lay] by (metis option.distinct(1))
  moreover have "q \<notin> tmp ` set (staged_paths (g_layout st) (g_staged st))"
    using staged_paths_ok(2) [OF assms(1)] layout_ok_facts(3) [OF lay] path_in [OF a(2)] by blast
  ultimately show "d q = g_disk st q" using assms(3) by (simp add: committed_def)
qed (use assms(3) in \<open>simp add: committed_def\<close>)

lemma write_temps_reason:
  "write_temps e l staged w d = (Inl why, d') \<Longrightarrow> why \<noteq> CouldNotPromote"
  by (induction e l staged w d rule: write_temps.induct) (auto split: option.splits prod.splits bool.splits)

lemma replace_all_reason: "replace_all e ps d = (Some why, d') \<Longrightarrow> why \<noteq> CouldNotPromote"
  by (induction e ps d rule: replace_all.induct) (auto split: prod.splits bool.splits)

text \<open>The three ways a commit that gets past its renames ends.\<close>

lemma CommitStaged_cases:
  assumes "store_ok st" "CommitStaged e st = (why, st')" "why = None \<or> why = Some CouldNotPromote"
  obtains d where "committed e st d"
    "if g_commitPromotesPendingKey st then
       (let l = g_layout st; (moved, d') = rename_file e (pendingPrivateKeyPath l) (privateKeyPath l) d in
        st' = st\<lparr>g_disk := d', g_staged := [], g_commitPromotesPendingKey := \<not> moved\<rparr> \<and>
        why = (if moved then None else Some CouldNotPromote))
     else st' = st\<lparr>g_disk := d, g_staged := []\<rparr> \<and> why = None"
proof -
  obtain w d1 where w: "write_temps e (g_layout st) (g_staged st) [] (g_disk st) = (w, d1)" by fastforce
  show thesis
  proof (cases w)
    case (Inl r)
    then show thesis using assms(2,3) w write_temps_reason [OF w [unfolded Inl]] by (auto simp: CommitStaged_def)
  next
    case (Inr ws)
    obtain r d2 where r: "replace_all e ws d1 = (r, d2)" by fastforce
    have "r = None"
      using assms(2,3) w Inr r replace_all_reason [of e ws d1 _ d2] by (cases r) (auto simp: CommitStaged_def)
    then have r: "replace_all e ws d1 = (None, d2)" using r by simp
    have "committed e st d2"
      using commit_files [OF assms(1) w [unfolded Inr] r] by (simp add: committed_def)
    then show thesis
      using that [of d2] assms(2) w Inr r
      by (auto simp: CommitStaged_def PromotePendingKey_def Let_def split: prod.splits if_splits bool.splits)
  qed
qed

section \<open>A commit keeps what was read\<close>

lemma read_once_cong:
  assumes "g_layout st' = g_layout st" "g_staged st' = g_staged st"
    "\<And>inst q. map_of (g_staged st) inst = None \<Longrightarrow> map_of (paths (g_layout st)) inst = Some q \<Longrightarrow> g_disk st' q = g_disk st q"
    "all_readable e" "all_readable e'"
  shows "read_once e' st' inst = read_once e st inst"
proof -
  have own: "read_own e' st' i = read_own e st i" for i
    using assms(3) [of i] assms(1,2,4,5)
    by (cases "map_of (paths (g_layout st)) i")
      (auto simp: read_own_def OwnPath_def ReadDisk_def all_readable_def split: option.split)
  have "FallbackInstance st' inst = FallbackInstance st inst"
    using assms(3) [of inst] assms(1,2)
    by (cases "map_of (paths (g_layout st)) inst")
      (auto simp: FallbackInstance_def OwnPath_def omap_has_def disk_exists_def Let_def)
  then show ?thesis using own assms(2) by (simp add: read_once_def)
qed

lemma rename_other:
  "rename_file e a b d = (moved, d') \<Longrightarrow> q \<noteq> a \<Longrightarrow> q \<noteq> b \<Longrightarrow> d' q = d q"
  by (auto simp: rename_file_def split: if_splits)

lemma CommitStaged_ends:
  assumes "store_ok st" "all_readable e" "CommitStaged e st = (why, st')" "why = None \<or> why = Some CouldNotPromote"
  shows "g_layout st' = g_layout st \<and> g_staged st' = [] \<and> store_ok st' \<and> read_once e st' inst = read_once e st inst \<and>
    (map_of (g_staged st) inst = Some s \<longrightarrow> map_of (paths (g_layout st)) inst = Some q \<longrightarrow> g_disk st' q = Some (new_file e s))"
proof -
  let ?l = "g_layout st"
  have lay: "layout_ok ?l" using assms(1) by (simp add: store_ok_def)
  obtain d where d: "committed e st d"
    and ends: "if g_commitPromotesPendingKey st then
       (let l = g_layout st; (moved, d') = rename_file e (pendingPrivateKeyPath l) (privateKeyPath l) d in
        st' = st\<lparr>g_disk := d', g_staged := [], g_commitPromotesPendingKey := \<not> moved\<rparr> \<and>
        why = (if moved then None else Some CouldNotPromote))
     else st' = st\<lparr>g_disk := d, g_staged := []\<rparr> \<and> why = None"
    by (rule CommitStaged_cases [OF assms(1,3,4)])
  have st': "g_layout st' = ?l" "g_staged st' = []"
    using ends by (auto simp: Let_def split: if_splits prod.splits)
  have same: "g_disk st' p = d p" if "p \<in> snd ` set (paths ?l)" for p
  proof -
    have "p \<noteq> pendingPrivateKeyPath ?l" "p \<noteq> privateKeyPath ?l" using that layout_ok_facts(6,7) [OF lay] by blast+
    then show ?thesis using ends rename_other [of e _ _ d _ _ p] by (auto simp: Let_def split: if_splits prod.splits)
  qed
  have "read_once e st' inst = read_once e (st\<lparr>g_disk := d, g_staged := []\<rparr>) inst"
    by (rule read_once_cong) (use st' same [OF path_in] assms(2) in simp_all)
  moreover have "g_disk st' q = Some (new_file e s)"
    if "map_of (g_staged st) inst = Some s" "map_of (paths (g_layout st)) inst = Some q"
    using d that same [OF path_in [OF that(2)]] by (simp add: committed_def)
  ultimately show ?thesis
    using st' committed_reads [OF assms(1,2) d] lay by (simp add: store_ok_def omap_ok_def)
qed

text \<open>A commit that succeeds makes the staged contents the files on disk and changes what
  no file reads as: every certificate file, staged or not and through the slot-2 fallback, reads the
  same before and after, and nothing stays staged.\<close>

theorem commit_preserves_reads:
  assumes "store_ok st" "all_readable e" "CommitStaged e st = (None, st')"
  shows "store_read e st' inst = store_read e st inst \<and> \<not> HasStagedChanges st' \<and> store_ok st' \<and>
    (\<forall>s q. map_of (g_staged st) inst = Some s \<longrightarrow> map_of (paths (g_layout st)) inst = Some q \<longrightarrow>
      map_option d_bytes (g_disk st' q) = Some (s_bytes s))"
proof -
  note c = CommitStaged_ends [OF assms(1-3), simplified]
  have lay: "layout_ok (g_layout st)" "layout_ok (g_layout st')" using assms(1) c by (auto simp: store_ok_def)
  show ?thesis
    using c by (auto simp: store_read_total [OF lay(1)] store_read_total [OF lay(2)] HasStagedChanges_def new_file_def)
qed

section \<open>A commit that fails\<close>

lemma replace_all_partial:
  "replace_all e ps d = (r, d') \<Longrightarrow> q \<notin> set ps \<Longrightarrow> q \<notin> tmp ` set ps \<Longrightarrow> d' q = d q"
proof (induction e ps d rule: replace_all.induct)
  case (1 e d)
  then show ?case by simp
next
  case (2 e path rest d)
  obtain ok d1 where r: "ReplaceWithTemp e path d = (ok, d1)" by fastforce
  have d1: "d1 q = d q" using r "2.prems"(2,3) by (auto simp: ReplaceWithTemp_def intro: rename_other)
  show ?case
  proof (cases ok)
    case True
    then show ?thesis using "2.IH" [OF r [symmetric]] "2.prems" r d1 by auto
  next
    case False
    then show ?thesis using "2.prems" r d1 by auto
  qed
qed

lemma replace_all_kind: "replace_all e ps d = (Some why, d') \<Longrightarrow> \<exists>p. why = CouldNotReplace p"
  by (induction e ps d rule: replace_all.induct) (auto split: prod.splits bool.splits)

lemma CommitStaged_fails:
  assumes "store_ok st" "CommitStaged e st = (Some why, st')" "why \<noteq> CouldNotPromote"
  shows "\<exists>d. st' = st\<lparr>g_disk := d\<rparr> \<and>
    (\<forall>q. q \<notin> tmp ` set (staged_paths (g_layout st) (g_staged st)) \<longrightarrow>
      q \<notin> set (staged_paths (g_layout st) (g_staged st)) \<or> (\<forall>p. why \<noteq> CouldNotReplace p) \<longrightarrow> d q = g_disk st q)"
proof -
  obtain w d1 where w: "write_temps e (g_layout st) (g_staged st) [] (g_disk st) = (w, d1)" by fastforce
  show ?thesis
  proof (cases w)
    case (Inl r)
    then show ?thesis using assms(2) w write_temps_fail [OF w [unfolded Inl]] by (auto simp: CommitStaged_def)
  next
    case (Inr ws)
    note ww = write_temps_ok [OF w [unfolded Inr]]
    obtain r d2 where r: "replace_all e ws d1 = (r, d2)" by fastforce
    have "r \<noteq> None"
      using assms(2,3) w Inr r
      by (cases r) (auto simp: CommitStaged_def Let_def split: if_splits prod.splits bool.splits)
    then obtain p where p: "r = Some (CouldNotReplace p)"
      using replace_all_kind [of e ws d1 _ d2] r by (cases r) auto
    then show ?thesis
      using assms(2) w Inr r ww replace_all_partial [OF r] by (auto simp: CommitStaged_def)
  qed
qed

lemma unstaged_path:
  assumes "store_ok st" "q \<in> set (file_paths (g_layout st))" "q \<notin> set (staged_paths (g_layout st) (g_staged st))"
  shows "q \<notin> set (staged_paths (g_layout st) (g_staged st)) \<union> tmp ` set (staged_paths (g_layout st) (g_staged st))"
  using staged_paths_ok(2) [OF assms(1)] assms(2,3) by (auto simp: disjoint_iff)

lemma pending_unstaged:
  assumes "store_ok st"
  shows "pendingPrivateKeyPath (g_layout st) \<notin>
    set (staged_paths (g_layout st) (g_staged st)) \<union> tmp ` set (staged_paths (g_layout st) (g_staged st))"
proof (rule unstaged_path [OF assms])
  have lay: "layout_ok (g_layout st)" using assms by (simp add: store_ok_def)
  show "pendingPrivateKeyPath (g_layout st) \<in> set (file_paths (g_layout st))" by (rule layout_ok_facts(5) [OF lay])
  show "pendingPrivateKeyPath (g_layout st) \<notin> set (staged_paths (g_layout st) (g_staged st))"
    using layout_ok_facts(7) [OF lay] staged_paths_ok(3) [OF assms] by (meson subsetD)
qed

lemma path_unstaged:
  assumes "store_ok st" "map_of (g_staged st) i = None" "map_of (paths (g_layout st)) i = Some q"
  shows "q \<notin> set (staged_paths (g_layout st) (g_staged st)) \<union> tmp ` set (staged_paths (g_layout st) (g_staged st))"
proof (rule unstaged_path [OF assms(1)])
  have lay: "layout_ok (g_layout st)" using assms by (simp add: store_ok_def)
  show "q \<in> set (file_paths (g_layout st))" using layout_ok_facts(3) [OF lay] path_in [OF assms(3)] by (meson subsetD)
  show "q \<notin> set (staged_paths (g_layout st) (g_staged st))"
    using assms(2,3) staged_paths_mem [OF assms(1)] path_unique [OF lay] by (metis option.distinct(1))
qed

lemma write_temps_total:
  "\<forall>p. can_write_temp e p \<Longrightarrow> \<forall>x \<in> set sts. map_of (paths l) (fst x) \<noteq> None \<Longrightarrow>
   \<exists>d'. write_temps e l sts w d = (Inr (w @ staged_paths l sts), d')"
proof (induction sts arbitrary: w d)
  case Nil
  then show ?case by (simp add: staged_paths_def)
next
  case (Cons x sts)
  obtain i s where x: "x = (i, s)" by fastforce
  obtain p where p: "map_of (paths l) i = Some p" using Cons.prems x by auto
  obtain d1 where d1: "WriteTempFile e p (s_bytes s) False d = (True, d1)"
    using Cons.prems(1) by (simp add: WriteTempFile_def)
  show ?case using Cons.IH [of "w @ [p]" d1] Cons.prems x p d1 by (simp add: staged_paths_def)
qed

lemma staged_temp_written:
  assumes "store_ok st" "write_temps e (g_layout st) (g_staged st) [] (g_disk st) = (Inr ws, d1)"
    "p \<in> set (staged_paths (g_layout st) (g_staged st))"
  shows "d1 (tmp p) \<noteq> None"
proof -
  obtain i s where it: "map_of (g_staged st) i = Some s" "map_of (paths (g_layout st)) i = Some p"
    using assms(3) staged_paths_mem [OF assms(1)] by blast
  then have "(i, s) \<in> set (g_staged st)" using staged_lookup [OF assms(1)] by simp
  then show ?thesis using write_temps_ok [OF assms(2)] staged_paths_ok(1) [OF assms(1)] it(2) by fastforce
qed

lemma CommitStaged_total:
  assumes "store_ok st" "\<forall>p. can_write_temp e p \<and> can_rename_to e p"
    "g_commitPromotesPendingKey st \<longrightarrow> g_disk st (pendingPrivateKeyPath (g_layout st)) \<noteq> None"
  shows "\<exists>st'. CommitStaged e st = (None, st')"
proof -
  let ?ps = "staged_paths (g_layout st) (g_staged st)"
  have lay: "layout_ok (g_layout st)" using assms(1) by (simp add: store_ok_def)
  note ok = staged_paths_ok [OF assms(1)]
  have "\<forall>x \<in> set (g_staged st). map_of (paths (g_layout st)) (fst x) \<noteq> None"
    using staged_has_path [OF assms(1)] by (metis option.distinct(1) prod.collapse)
  then obtain d1 where d1: "write_temps e (g_layout st) (g_staged st) [] (g_disk st) = (Inr ?ps, d1)"
    using write_temps_total [of e "g_staged st" "g_layout st" "[]" "g_disk st"] assms(2) by auto
  have disj: "tmp ` set ?ps \<inter> set ?ps = {}"
    using ok(2,3) layout_ok_facts(3) [OF lay] by (meson disjoint_iff subsetD)
  obtain d2 where d2: "replace_all e ?ps d1 = (None, d2)"
    using replace_all_total [of ?ps e d1] assms(2) ok(1) disj staged_temp_written [OF assms(1) d1] by blast
  have "d2 (pendingPrivateKeyPath (g_layout st)) = g_disk st (pendingPrivateKeyPath (g_layout st))"
    using commit_files(2) [OF assms(1) d1 d2] pending_unstaged [OF assms(1)] by simp
  then have "g_commitPromotesPendingKey st \<longrightarrow> d2 (pendingPrivateKeyPath (g_layout st)) \<noteq> None"
    using assms(3) by simp
  then show ?thesis
    using d1 d2 assms(2) by (simp add: CommitStaged_def PromotePendingKey_def rename_file_def Let_def)
qed

text \<open>C28: A commit that stops before all its files are in place loses nothing: every staged copy
  is kept, and unless a rename failed no file but a temporary one differs.  Reads are as before, and
  activating again when the file system works finishes the same change.\<close>

theorem failed_commit_can_be_retried:
  assumes "store_ok st" "all_readable e" "all_readable e'" "CommitStaged e st = (Some why, st1)" "why \<noteq> CouldNotPromote"
    "\<forall>p. can_write_temp e' p \<and> can_rename_to e' p"
    "g_commitPromotesPendingKey st \<longrightarrow> g_disk st (pendingPrivateKeyPath (g_layout st)) \<noteq> None"
  shows "g_staged st1 = g_staged st \<and> store_read e st1 inst = store_read e st inst \<and>
    ((\<forall>p. why \<noteq> CouldNotReplace p) \<longrightarrow>
      (\<forall>q. q \<notin> tmp ` set (staged_paths (g_layout st) (g_staged st)) \<longrightarrow> g_disk st1 q = g_disk st q)) \<and>
    (\<exists>st2. CommitStaged e' st1 = (None, st2) \<and> store_read e' st2 inst = store_read e st inst)"
proof -
  let ?ps = "staged_paths (g_layout st) (g_staged st)"
  have lay: "layout_ok (g_layout st)" using assms(1) by (simp add: store_ok_def)
  note ok = staged_paths_ok [OF assms(1)]
  obtain d where st1: "st1 = st\<lparr>g_disk := d\<rparr>"
    and d: "\<And>q. q \<notin> tmp ` set ?ps \<Longrightarrow> q \<notin> set ?ps \<or> (\<forall>p. why \<noteq> CouldNotReplace p) \<Longrightarrow> d q = g_disk st q"
    using CommitStaged_fails [OF assms(1,4,5)] by blast
  have ok1: "store_ok st1" using assms(1) by (simp add: st1 store_ok_def)
  have pend: "d (pendingPrivateKeyPath (g_layout st)) = g_disk st (pendingPrivateKeyPath (g_layout st))"
    using d pending_unstaged [OF assms(1)] by simp
  have unstaged: "d q = g_disk st q" if "map_of (g_staged st) i = None" "map_of (paths (g_layout st)) i = Some q" for i q
    using d path_unstaged [OF assms(1) that] by simp
  have read: "read_once e'' st1 inst = read_once e st inst" if "all_readable e''" for e''
    by (rule read_once_cong) (use that assms(2) unstaged in \<open>simp_all add: st1\<close>)
  have "g_commitPromotesPendingKey st1 \<longrightarrow> g_disk st1 (pendingPrivateKeyPath (g_layout st1)) \<noteq> None"
    using assms(7) pend unfolding st1 by simp
  then obtain st2 where st2: "CommitStaged e' st1 = (None, st2)"
    using CommitStaged_total [OF ok1 assms(6)] by blast
  have "store_ok st2 \<and> read_once e' st2 inst = read_once e st inst"
    using CommitStaged_ends [OF ok1 assms(3) st2] read [OF assms(3)] by simp
  then have "store_read e' st2 inst = store_read e st inst"
    by (simp add: store_read_total lay store_ok_def)
  moreover have "store_read e st1 inst = store_read e st inst"
    using read [OF assms(2)] ok1 by (simp add: store_read_total lay store_ok_def)
  moreover have "g_staged st1 = g_staged st" by (simp add: st1)
  moreover have "(\<forall>p. why \<noteq> CouldNotReplace p) \<longrightarrow> (\<forall>q. q \<notin> tmp ` set ?ps \<longrightarrow> g_disk st1 q = g_disk st q)"
    using d by (simp add: st1)
  ultimately show ?thesis using st2 by blast
qed

lemma commit_preserves_reads_witness:
  "\<exists>st'. CommitStaged example_os (example_store\<lparr>g_staged := [(1, \<lparr>s_bytes = ''new'', s_modified = 5\<rparr>)]\<rparr>) = (None, st') \<and>
    map_option d_bytes (g_disk st' ''opr'') = Some ''new''"
proof -
  let ?st = "example_store\<lparr>g_staged := [(1, \<lparr>s_bytes = ''new'', s_modified = 5\<rparr>)]\<rparr>"
  have ok: "store_ok ?st"
    using example_store_ok by (simp add: store_ok_def omap_ok_def example_store_def example_layout_def)
  have p: "map_of (paths (g_layout ?st)) 1 = Some ''opr''" "map_of (g_staged ?st) 1 = Some \<lparr>s_bytes = ''new'', s_modified = 5\<rparr>"
    by (simp_all add: example_store_def example_layout_def)
  have os: "all_readable example_os" "\<forall>p. can_write_temp example_os p \<and> can_rename_to example_os p"
    by (simp_all add: all_readable_def example_os_def)
  obtain st' where st': "CommitStaged example_os ?st = (None, st')"
    using CommitStaged_total [OF ok os(2)] by (auto simp: example_store_def)
  show ?thesis using commit_preserves_reads [OF ok os(1) st', of 1] st' p by auto
qed

text \<open>A file system on which the temporary copies cannot be written.\<close>

definition full_disk :: os where
  "full_disk = example_os\<lparr>can_write_temp := (\<lambda>_. False)\<rparr>"

lemma failed_commit_can_be_retried_witness:
  "\<exists>st1 st2. CommitStaged full_disk (example_store\<lparr>g_staged := [(1, \<lparr>s_bytes = ''new'', s_modified = 5\<rparr>)]\<rparr>) = (Some (CouldNotWriteTemp ''opr''), st1) \<and>
    CommitStaged example_os st1 = (None, st2) \<and> store_read example_os st2 1 = Some (Some ''new'')"
proof -
  let ?st = "example_store\<lparr>g_staged := [(1, \<lparr>s_bytes = ''new'', s_modified = 5\<rparr>)]\<rparr>"
  have ok: "store_ok ?st"
    using example_store_ok by (simp add: store_ok_def omap_ok_def example_store_def example_layout_def)
  have os: "all_readable full_disk" "all_readable example_os" "\<forall>p. can_write_temp example_os p \<and> can_rename_to example_os p"
    by (simp_all add: all_readable_def example_os_def full_disk_def)
  obtain st1 where st1: "CommitStaged full_disk ?st = (Some (CouldNotWriteTemp ''opr''), st1)"
    by (simp add: CommitStaged_def example_store_def example_layout_def WriteTempFile_def full_disk_def)
  have r: "store_read full_disk ?st 1 = Some (Some ''new'')"
    by (simp add: store_read.simps example_store_def)
  have "\<exists>st2. CommitStaged example_os st1 = (None, st2) \<and> store_read example_os st2 1 = Some (Some ''new'')"
    using failed_commit_can_be_retried [OF ok os(1,2) st1 _ os(3), of 1] unfolding r by (simp add: example_store_def)
  then show ?thesis using st1 by blast
qed

section \<open>The certificate and its key\<close>

text \<open>The operational certificate on disk, and whether the key in a file fits it.\<close>

definition disk_leaf :: "os \<Rightarrow> ('c, 'k) openssl \<Rightarrow> store \<Rightarrow> 'c option" where
  "disk_leaf e ssl st =
    (case Option.bind (map_of (paths (g_layout st)) (operationalInstance (g_layout st))) (ReadDisk e (g_disk st)) of
       None \<Rightarrow> None
     | Some pem \<Rightarrow> (case ParseCertificates ssl pem of Inr (leaf # _) \<Rightarrow> Some leaf | _ \<Rightarrow> None))"

definition key_fits :: "os \<Rightarrow> ('c, 'k) openssl \<Rightarrow> disk \<Rightarrow> string \<Rightarrow> 'c \<Rightarrow> bool" where
  "key_fits e ssl d path leaf \<longleftrightarrow>
    (case LoadKey e ssl d path of None \<Rightarrow> False | Some k \<Rightarrow> check_private_key ssl leaf k)"

definition working_pair :: "os \<Rightarrow> ('c, 'k) openssl \<Rightarrow> store \<Rightarrow> bool" where
  "working_pair e ssl st \<longleftrightarrow>
    (case disk_leaf e ssl st of None \<Rightarrow> False
     | Some leaf \<Rightarrow> key_fits e ssl (g_disk st) (privateKeyPath (g_layout st)) leaf)"

lemma choose_key_Inr:
  "choose_key e ssl st leaf = Inr promotes \<longleftrightarrow>
    (let l = g_layout st; d = g_disk st in
     if key_fits e ssl d (privateKeyPath l) leaf then \<not> promotes
     else promotes \<and> key_fits e ssl d (pendingPrivateKeyPath l) leaf)"
  by (auto simp: choose_key_def key_fits_def Let_def)

lemma ValidateStaged_ok:
  assumes "layout_ok (g_layout st)" "ValidateStaged e ssl st = Some (None, st')"
  obtains issuers leaf intermediates promotes where
    "collect_issuers e ssl st (issuerInstances (g_layout st)) [] = Some (Inr issuers)" "issuers \<noteq> []"
    "ParseCertificates ssl (contents e st (operationalInstance (g_layout st))) = Inr (leaf # intermediates)"
    "choose_key e ssl st leaf = Inr promotes" "\<not> is_ca ssl leaf"
    "check_roles ssl leaf intermediates issuers = None"
    "st' = st\<lparr>g_commitPromotesPendingKey := promotes\<rparr>"
  using assms(2) that
  by (auto simp: ValidateStaged_def Effective_total [OF assms(1)] Let_def
      split: Option.bind_splits sum.splits list.splits if_splits)

lemma ValidateStaged_frame:
  assumes "ValidateStaged e ssl st = Some (why, st')"
  shows "\<exists>b. st' = st\<lparr>g_commitPromotesPendingKey := b\<rparr>"
proof -
  have same: "\<exists>b. x = x\<lparr>g_commitPromotesPendingKey := b\<rparr>" for x :: store
    by (rule exI [of _ "g_commitPromotesPendingKey x"]) simp
  show ?thesis
    using assms
    by (auto simp: ValidateStaged_def Let_def same split: Option.bind_splits sum.splits list.splits if_splits)
qed

lemma operational_on_disk:
  assumes "layout_ok (g_layout st)" "g_staged st = []"
    "ParseCertificates ssl (contents e st (operationalInstance (g_layout st))) = Inr (leaf # rest)"
  shows "disk_leaf e ssl st = Some leaf"
proof -
  let ?op = "operationalInstance (g_layout st)"
  obtain q where q: "map_of (paths (g_layout st)) ?op = Some q"
    using assms(1) by (auto simp: layout_ok_def omap_has_def)
  have "map_of (readFallbackInstances (g_layout st)) ?op = None"
    using assms(1) by (auto simp: layout_ok_def omap_has_def)
  then have "FallbackInstance st ?op = 0" using assms(2) by (simp add: FallbackInstance_def omap_has_def Let_def)
  moreover have "q \<noteq> []" using path_in [OF q] layout_ok_facts(3,9) [OF assms(1)] by auto
  ultimately have r: "read_once e st ?op = ReadDisk e (g_disk st) q"
    using assms(2) q by (simp add: read_once_def read_own_def OwnPath_def omap_has_def)
  have "ParseCertificates ssl [] = Inr []"
    by (simp add: ParseCertificates_def SplitPemBlocks_def split_pem.simps find_from.simps kBegin_def text_between_def)
  then show ?thesis using assms(3) q r by (cases "ReadDisk e (g_disk st) q") (auto simp: disk_leaf_def contents_def)
qed

lemma commit_keeps_keys:
  assumes "store_ok st" "committed e st d" "p = privateKeyPath (g_layout st) \<or> p = pendingPrivateKeyPath (g_layout st)"
  shows "d p = g_disk st p"
proof -
  have lay: "layout_ok (g_layout st)" using assms(1) by (simp add: store_ok_def)
  have "p \<notin> set (staged_paths (g_layout st) (g_staged st)) \<union> tmp ` set (staged_paths (g_layout st) (g_staged st))"
  proof (rule unstaged_path [OF assms(1)])
    show "p \<in> set (file_paths (g_layout st))" using assms(3) layout_ok_facts(4,5) [OF lay] by auto
    show "p \<notin> set (staged_paths (g_layout st) (g_staged st))"
      using assms(3) layout_ok_facts(6,7) [OF lay] staged_paths_ok(3) [OF assms(1)] by (meson subsetD)
  qed
  then show ?thesis using assms(2) by (simp add: committed_def)
qed

lemma key_fits_cong: "d p = d' q \<Longrightarrow> p = [] \<longleftrightarrow> q = [] \<Longrightarrow> all_readable e \<Longrightarrow> all_readable e' \<Longrightarrow>
    key_fits e ssl d p leaf = key_fits e' ssl d' q leaf"
  by (simp add: key_fits_def LoadKey_def ReadDisk_def all_readable_def)

text \<open>After a validated commit: the certificate is on disk, and its key is the private key, or the
  pending key where the last rename failed.\<close>

lemma validated_commit:
  assumes ok: "store_ok st" and rd: "all_readable e"
    and v: "ValidateStaged e ssl st = Some (None, st1)"
    and c: "CommitStaged e st1 = (why, st2)" "why = None \<or> why = Some CouldNotPromote"
  obtains issuers leaf intermediates where
    "store_ok st2" "g_layout st2 = g_layout st" "g_staged st2 = []"
    "\<And>inst. read_once e st2 inst = read_once e st inst"
    "collect_issuers e ssl st (issuerInstances (g_layout st)) [] = Some (Inr issuers)" "issuers \<noteq> []"
    "ParseCertificates ssl (contents e st2 (operationalInstance (g_layout st))) = Inr (leaf # intermediates)"
    "disk_leaf e ssl st2 = Some leaf" "\<not> is_ca ssl leaf" "check_roles ssl leaf intermediates issuers = None"
    "if why = None then key_fits e ssl (g_disk st2) (privateKeyPath (g_layout st)) leaf
     else key_fits e ssl (g_disk st2) (pendingPrivateKeyPath (g_layout st)) leaf \<and>
       \<not> key_fits e ssl (g_disk st2) (privateKeyPath (g_layout st)) leaf"
proof -
  let ?l = "g_layout st"
  have lay: "layout_ok ?l" using ok by (simp add: store_ok_def)
  obtain issuers leaf intermediates promotes where vo:
    "collect_issuers e ssl st (issuerInstances ?l) [] = Some (Inr issuers)" "issuers \<noteq> []"
    "ParseCertificates ssl (contents e st (operationalInstance ?l)) = Inr (leaf # intermediates)"
    "choose_key e ssl st leaf = Inr promotes" "\<not> is_ca ssl leaf" "check_roles ssl leaf intermediates issuers = None"
    and st1: "st1 = st\<lparr>g_commitPromotesPendingKey := promotes\<rparr>"
    by (rule ValidateStaged_ok [OF lay v])
  have ok1: "store_ok st1" using ok by (simp add: st1 store_ok_def)
  have same1: "read_once e st1 inst = read_once e st inst" for inst
    by (rule read_once_cong) (simp_all add: st1 rd)
  note ends = CommitStaged_ends [OF ok1 rd c]
  have read: "read_once e st2 inst = read_once e st inst" for inst using ends same1 by simp
  have l2: "g_layout st2 = ?l" "g_staged st2 = []" "store_ok st2" using ends by (simp_all add: st1)
  have pc: "ParseCertificates ssl (contents e st2 (operationalInstance ?l)) = Inr (leaf # intermediates)"
    using vo(3) read by (simp add: contents_def)
  have leaf: "disk_leaf e ssl st2 = Some leaf"
    using operational_on_disk [of st2 ssl e leaf intermediates] pc lay by (simp add: l2)
  obtain d where d: "committed e st1 d"
    and e1: "if g_commitPromotesPendingKey st1 then
       (let l = g_layout st1; (moved, d') = rename_file e (pendingPrivateKeyPath l) (privateKeyPath l) d in
        st2 = st1\<lparr>g_disk := d', g_staged := [], g_commitPromotesPendingKey := \<not> moved\<rparr> \<and>
        why = (if moved then None else Some CouldNotPromote))
     else st2 = st1\<lparr>g_disk := d, g_staged := []\<rparr> \<and> why = None"
    by (rule CommitStaged_cases [OF ok1 c])
  obtain moved d' where r: "rename_file e (pendingPrivateKeyPath ?l) (privateKeyPath ?l) d = (moved, d')" by fastforce
  have flags: "g_commitPromotesPendingKey st1 = promotes" "g_layout st1 = ?l" by (simp_all add: st1)
  have e2: "g_disk st2 = (if promotes then d' else d)"
    "why = (if promotes \<and> \<not> moved then Some CouldNotPromote else None)"
    using e1 by (simp_all add: flags r Let_def split: if_splits)
  have keys: "d (privateKeyPath ?l) = g_disk st (privateKeyPath ?l)"
    "d (pendingPrivateKeyPath ?l) = g_disk st (pendingPrivateKeyPath ?l)"
    using commit_keeps_keys [OF ok1 d] by (simp_all add: st1)
  have ne: "privateKeyPath ?l \<noteq> []" "pendingPrivateKeyPath ?l \<noteq> []" using layout_ok_facts(4,5,9) [OF lay] by auto
  note cong = key_fits_cong [OF _ _ rd rd, of _ _ "g_disk st" _ ssl leaf]
  have "if why = None then key_fits e ssl (g_disk st2) (privateKeyPath ?l) leaf
     else key_fits e ssl (g_disk st2) (pendingPrivateKeyPath ?l) leaf \<and> \<not> key_fits e ssl (g_disk st2) (privateKeyPath ?l) leaf"
  proof (cases promotes)
    case False
    then have "g_disk st2 = d" "why = None" by (simp_all add: e2 False)
    then show ?thesis using False vo(4) cong [of d "privateKeyPath ?l" "privateKeyPath ?l"] keys by (simp add: choose_key_Inr Let_def split: if_splits)
  next
    case True
    have fits: "key_fits e ssl (g_disk st) (pendingPrivateKeyPath ?l) leaf" "\<not> key_fits e ssl (g_disk st) (privateKeyPath ?l) leaf"
      using True vo(4) by (auto simp: choose_key_Inr Let_def split: if_splits)
    then have g2: "g_disk st2 = d'" "why = (if moved then None else Some CouldNotPromote)" by (simp_all add: e2 True)
    show ?thesis
    proof (cases moved)
      case True
      then have "d' (privateKeyPath ?l) = g_disk st (pendingPrivateKeyPath ?l)"
        using r keys layout_ok_facts(8) [OF lay] by (auto simp: rename_file_def split: if_splits)
      then show ?thesis using True fits g2 cong [of d' "privateKeyPath ?l" "pendingPrivateKeyPath ?l"] ne by simp
    next
      case False
      then have "d' = d" using r by (auto simp: rename_file_def split: if_splits)
      then show ?thesis
        using False fits g2 keys cong [of d "privateKeyPath ?l" "privateKeyPath ?l"]
          cong [of d "pendingPrivateKeyPath ?l" "pendingPrivateKeyPath ?l"] by simp
    qed
  qed
  then show thesis by (rule that [OF l2(3,1,2) read vo(1,2) pc leaf vo(5,6)])
qed


text \<open>What the next start does with the two keys.\<close>

lemma Reconcile_swaps:
  assumes "layout_ok (g_layout st)" "disk_leaf e ssl st = Some leaf"
    "\<not> key_fits e ssl (g_disk st) (privateKeyPath (g_layout st)) leaf"
    "key_fits e ssl (g_disk st) (pendingPrivateKeyPath (g_layout st)) leaf"
  shows "ReconcilePendingKey e ssl st =
    (case PromotePendingKey e st of (False, st) \<Rightarrow> (SwapFailed, st) | (True, st) \<Rightarrow> (KeySwapped, st))"
proof -
  have "pendingPrivateKeyPath (g_layout st) \<noteq> []" using layout_ok_facts(5,9) [OF assms(1)] by auto
  moreover have "disk_exists (g_disk st) (pendingPrivateKeyPath (g_layout st))"
    using assms(4) by (auto simp: key_fits_def LoadKey_def ReadDisk_def disk_exists_def split: option.splits if_splits)
  ultimately show ?thesis
    using assms(2-4)
    by (auto simp: ReconcilePendingKey_def disk_leaf_def key_fits_def Let_def split: option.splits sum.splits list.splits)
qed

lemma Reconcile_leaves:
  assumes "disk_leaf e ssl st = Some leaf"
    "key_fits e ssl (g_disk st) (privateKeyPath (g_layout st)) leaf \<or>
     \<not> key_fits e ssl (g_disk st) (pendingPrivateKeyPath (g_layout st)) leaf"
  shows "ReconcilePendingKey e ssl st = (NothingToDo, st)"
  using assms
  by (auto simp: ReconcilePendingKey_def disk_leaf_def key_fits_def Let_def split: option.splits sum.splits list.splits)

lemma promote_result:
  assumes "layout_ok (g_layout st)" "all_readable e" "\<forall>p. can_rename_to e p"
    "key_fits e ssl (g_disk st) (pendingPrivateKeyPath (g_layout st)) leaf"
  shows "\<exists>d. PromotePendingKey e st = (True, st\<lparr>g_disk := d\<rparr>) \<and>
    key_fits e ssl d (privateKeyPath (g_layout st)) leaf \<and>
    (\<forall>q \<in> snd ` set (paths (g_layout st)). d q = g_disk st q)"
proof -
  let ?l = "g_layout st"
  let ?d = "(g_disk st)(privateKeyPath ?l := g_disk st (pendingPrivateKeyPath ?l), pendingPrivateKeyPath ?l := None)"
  have some: "g_disk st (pendingPrivateKeyPath ?l) \<noteq> None"
    using assms(4) by (auto simp: key_fits_def LoadKey_def ReadDisk_def split: option.splits if_splits)
  have ne: "privateKeyPath ?l \<noteq> pendingPrivateKeyPath ?l" "privateKeyPath ?l \<noteq> []" "pendingPrivateKeyPath ?l \<noteq> []"
    using layout_ok_facts(4,5,8,9) [OF assms(1)] by auto
  have "PromotePendingKey e st = (True, st\<lparr>g_disk := ?d\<rparr>)"
    using some ne(1) assms(3) by (simp add: PromotePendingKey_def rename_file_def)
  moreover have "key_fits e ssl ?d (privateKeyPath ?l) leaf"
    using assms(2,4) ne key_fits_cong [of ?d "privateKeyPath ?l" "g_disk st" "pendingPrivateKeyPath ?l" e e ssl leaf] by simp
  moreover have "?d q = g_disk st q" if "q \<in> snd ` set (paths ?l)" for q
  proof -
    have "q \<noteq> privateKeyPath ?l" "q \<noteq> pendingPrivateKeyPath ?l"
      using that layout_ok_facts(6,7) [OF assms(1)] by metis+
    then show ?thesis by simp
  qed
  ultimately show ?thesis by blast
qed

lemma disk_leaf_cong:
  assumes "g_layout st' = g_layout st" "\<forall>q \<in> snd ` set (paths (g_layout st)). g_disk st' q = g_disk st q"
    "all_readable e" "all_readable e'"
  shows "disk_leaf e' ssl st' = disk_leaf e ssl st"
proof (cases "map_of (paths (g_layout st)) (operationalInstance (g_layout st))")
  case None
  then show ?thesis by (simp add: disk_leaf_def assms(1))
next
  case (Some q)
  then have "g_disk st' q = g_disk st q" using path_in [OF Some] assms(2) by blast
  then show ?thesis using Some assms(1,3,4) by (simp add: disk_leaf_def ReadDisk_def all_readable_def)
qed

text \<open>C9: If the process stops, or the rename fails, between the certificate and its key, the
  next start repairs it: ReconcilePendingKey finds a certificate for the pending key, moves that key in
  place, and the pair works; a second run finds nothing to do.\<close>

theorem interrupted_key_swap_is_repaired:
  assumes "store_ok st" "all_readable e" "all_readable e'" "\<forall>p. can_rename_to e' p"
    "ValidateStaged e ssl st = Some (None, st1)" "CommitStaged e st1 = (Some CouldNotPromote, st2)"
  shows "\<exists>st3. ReconcilePendingKey e' ssl st2 = (KeySwapped, st3) \<and> working_pair e' ssl st3 \<and>
    ReconcilePendingKey e' ssl st3 = (NothingToDo, st3)"
proof -
  have some: "Some CouldNotPromote = None \<or> Some CouldNotPromote = Some CouldNotPromote" by simp
  obtain leaf where v: "store_ok st2" "g_layout st2 = g_layout st" "disk_leaf e ssl st2 = Some leaf"
      "key_fits e ssl (g_disk st2) (pendingPrivateKeyPath (g_layout st)) leaf"
      "\<not> key_fits e ssl (g_disk st2) (privateKeyPath (g_layout st)) leaf"
    by (rule validated_commit [OF assms(1,2,5,6) some]) auto
  have lay: "layout_ok (g_layout st2)" using v(1) by (simp add: store_ok_def)
  have leaf: "disk_leaf e' ssl st2 = Some leaf"
    using disk_leaf_cong [of st2 st2 e e' ssl] assms(2,3) v(3) by simp
  have cong: "key_fits e' ssl (g_disk st2) p leaf = key_fits e ssl (g_disk st2) p leaf" for p
    by (rule key_fits_cong) (use assms(2,3) in simp_all)
  have keys: "key_fits e' ssl (g_disk st2) (pendingPrivateKeyPath (g_layout st2)) leaf"
    "\<not> key_fits e' ssl (g_disk st2) (privateKeyPath (g_layout st2)) leaf"
    using v(2,4,5) cong by simp_all
  obtain d where d: "PromotePendingKey e' st2 = (True, st2\<lparr>g_disk := d\<rparr>)"
    "key_fits e' ssl d (privateKeyPath (g_layout st2)) leaf" "\<forall>q \<in> snd ` set (paths (g_layout st2)). d q = g_disk st2 q"
    using promote_result [OF lay assms(3,4) keys(1)] by blast
  let ?st3 = "st2\<lparr>g_disk := d\<rparr>"
  have leaf3: "disk_leaf e' ssl ?st3 = Some leaf"
    using disk_leaf_cong [of ?st3 st2 e' e' ssl] d(3) assms(3) leaf by simp
  have "ReconcilePendingKey e' ssl st2 = (KeySwapped, ?st3)"
    using Reconcile_swaps [OF lay leaf keys(2,1)] d(1) by simp
  moreover have "working_pair e' ssl ?st3" using leaf3 d(2) by (simp add: working_pair_def)
  moreover have "ReconcilePendingKey e' ssl ?st3 = (NothingToDo, ?st3)"
    using Reconcile_leaves [OF leaf3] d(2) by simp
  ultimately show ?thesis by blast
qed

section \<open>GENERATE_CSR_FILE\<close>

text \<open>What GenerateKeyAndCsr does once its guards have passed.\<close>

lemma GenerateKeyAndCsr_cases:
  assumes "layout_ok (g_layout st)" "GenerateKeyAndCsr e ssl st = Some (why, st')"
  obtains "st' = st" "why \<noteq> None"
  | csrPath leaf rest keyPem csrPem d where "g_staged st = []" "map_of (paths (g_layout st)) (csrInstance (g_layout st)) = Some csrPath"
    "ParseCertificates ssl (contents e st (operationalInstance (g_layout st))) = Inr (leaf # rest)"
    "new_key_and_request ssl leaf = Some (keyPem, csrPem)"
    "write_key_and_request e (pendingPrivateKeyPath (g_layout st)) csrPath keyPem csrPem (g_disk st) = (why, d)"
    "st' = st\<lparr>g_disk := d\<rparr>"
proof (cases "g_staged st = [] \<and> pendingPrivateKeyPath (g_layout st) \<noteq> [] \<and>
    map_of (paths (g_layout st)) (csrInstance (g_layout st)) \<noteq> None")
  case False
  then show thesis
    using assms(2) that(1) by (auto simp: GenerateKeyAndCsr_def Let_def split: if_splits option.splits)
next
  case True
  then obtain csrPath where p: "g_staged st = []" "pendingPrivateKeyPath (g_layout st) \<noteq> []"
    "map_of (paths (g_layout st)) (csrInstance (g_layout st)) = Some csrPath" by blast
  let ?parsed = "ParseCertificates ssl (contents e st (operationalInstance (g_layout st)))"
  show thesis
  proof (cases "\<exists>leaf rest. ?parsed = Inr (leaf # rest)")
    case False
    then show thesis
      using assms(2) p that(1)
      by (cases ?parsed) (auto simp: GenerateKeyAndCsr_def Effective_total [OF assms(1)] split: list.splits)
  next
    case True
    then obtain leaf rest where l: "?parsed = Inr (leaf # rest)" by blast
    show thesis
    proof (cases "new_key_and_request ssl leaf")
      case None
      then show thesis
        using assms(2) p l that(1) by (auto simp: GenerateKeyAndCsr_def Effective_total [OF assms(1)])
    next
      case (Some kc)
      obtain keyPem csrPem where kc: "kc = (keyPem, csrPem)" by fastforce
      obtain w d where w: "write_key_and_request e (pendingPrivateKeyPath (g_layout st)) csrPath keyPem csrPem (g_disk st) = (w, d)"
        by fastforce
      have "why = w" "st' = st\<lparr>g_disk := d\<rparr>"
        using assms(2) p l Some kc w by (simp_all add: GenerateKeyAndCsr_def Effective_total [OF assms(1)])
      then show thesis using that(2) [OF p(1,3) l] Some kc w by simp
    qed
  qed
qed

lemma write_key_and_request_result:
  assumes "write_key_and_request e pending csrPath keyPem csrPem d = (why, d')" "pending \<noteq> csrPath"
    "tmp pending \<noteq> csrPath" "tmp csrPath \<noteq> pending"
  shows "(\<forall>q. q \<notin> {pending, csrPath, tmp pending, tmp csrPath} \<longrightarrow> d' q = d q) \<and>
    (if why = None then d' pending = Some \<lparr>d_bytes = keyPem, d_private = True, d_mtime = clock_now e\<rparr> \<and>
       d' csrPath = Some \<lparr>d_bytes = csrPem, d_private = False, d_mtime = clock_now e\<rparr>
     else d' csrPath = d csrPath \<and>
       (if why = Some (CouldNotReplace csrPath)
        then d' pending = Some \<lparr>d_bytes = keyPem, d_private = True, d_mtime = clock_now e\<rparr>
        else d' pending = d pending))"
  using assms
  by (auto simp: write_key_and_request_def WriteTempFile_def ReplaceWithTemp_def rename_file_def remove_file_def
      split: if_splits)


text \<open>C27: The order of failures that loses a key: an activation whose last rename fails has
  already cleared the stage, so GENERATE_CSR_FILE is accepted and replaces the pending key, the only one
  that fits the certificate now on disk.  From then on no key on disk fits it, and no later start
  repairs it.\<close>

theorem pending_key_can_be_lost:
  assumes "store_ok st" "all_readable e" "ValidateStaged e ssl st = Some (None, st1)"
    "CommitStaged e st1 = (Some CouldNotPromote, st2)"
    "GenerateKeyAndCsr e ssl st2 = Some (None, st3)"
    "\<forall>leaf keyPem csrPem key. new_key_and_request ssl leaf = Some (keyPem, csrPem) \<longrightarrow> parse_key ssl keyPem = Some key \<longrightarrow>
      disk_leaf e ssl st2 = Some leaf \<longrightarrow> \<not> check_private_key ssl leaf key"
    "csrInstance (g_layout st) \<noteq> operationalInstance (g_layout st)"
  shows "\<exists>leaf. disk_leaf e ssl st3 = Some leaf \<and>
    \<not> key_fits e ssl (g_disk st3) (privateKeyPath (g_layout st)) leaf \<and>
    \<not> key_fits e ssl (g_disk st3) (pendingPrivateKeyPath (g_layout st)) leaf \<and>
    ReconcilePendingKey e ssl st3 = (NothingToDo, st3)"
proof -
  let ?l = "g_layout st" let ?pend = "pendingPrivateKeyPath ?l"
  have some: "Some CouldNotPromote = None \<or> Some CouldNotPromote = Some CouldNotPromote" by simp
  obtain leaf rest where v: "store_ok st2" "g_layout st2 = ?l" "disk_leaf e ssl st2 = Some leaf"
      "\<not> key_fits e ssl (g_disk st2) (privateKeyPath ?l) leaf"
      "ParseCertificates ssl (contents e st2 (operationalInstance ?l)) = Inr (leaf # rest)"
    by (rule validated_commit [OF assms(1,2,3,4) some]) auto
  have lay: "layout_ok ?l" "layout_ok (g_layout st2)" using v(1,2) by (simp_all add: store_ok_def)
  from lay(2) assms(5) show ?thesis
  proof (cases rule: GenerateKeyAndCsr_cases)
    case 1
    then show ?thesis by simp
  next
    case (2 csr leaf' rest' keyPem csrPem d)
    have leaf': "leaf' = leaf" using 2(3) v(2,5) by simp
    have f: "?pend \<in> set (file_paths ?l)" "csr \<in> set (file_paths ?l)" "csr \<in> snd ` set (paths ?l)"
      using layout_ok_facts(3,5) [OF lay(1)] path_in [of ?l _ csr] 2(2) v(2) by auto
    have ne: "?pend \<noteq> csr" using f(3) layout_ok_facts(7) [OF lay(1)] by metis
    have tmps: "q \<noteq> tmp ?pend" "q \<noteq> tmp csr" if "q \<in> set (file_paths ?l)" for q
      using layout_ok_tmp [OF lay(1) f(1) that] layout_ok_tmp [OF lay(1) f(2) that] by simp_all
    note w = write_key_and_request_result [OF 2(5)[unfolded v(2)] ne tmps(1)[OF f(2), symmetric] tmps(2)[OF f(1), symmetric]]
    have same: "d q = g_disk st2 q" if "q \<in> set (file_paths ?l)" "q \<noteq> ?pend" "q \<noteq> csr" for q
      using w tmps [OF that(1)] that(2,3) by simp
    have priv: "privateKeyPath ?l \<noteq> ?pend" "privateKeyPath ?l \<noteq> csr" "privateKeyPath ?l \<in> set (file_paths ?l)"
      using layout_ok_facts(4,6,8) [OF lay(1)] f(3) by metis+
    have "\<not> key_fits e ssl d (privateKeyPath ?l) leaf"
      using v(4) key_fits_cong [of d "privateKeyPath ?l" "g_disk st2" "privateKeyPath ?l" e e ssl leaf]
        same [OF priv(3,1,2)] assms(2) by simp
    moreover have "\<not> key_fits e ssl d ?pend leaf"
    proof -
      have "d ?pend = Some \<lparr>d_bytes = keyPem, d_private = True, d_mtime = clock_now e\<rparr>" using w by simp
      then show ?thesis
        using assms(6) 2(4) v(3) leaf' by (auto simp: key_fits_def LoadKey_def ReadDisk_def split: option.splits)
    qed
    moreover have "disk_leaf e ssl st3 = Some leaf"
    proof -
      obtain q where q: "map_of (paths ?l) (operationalInstance ?l) = Some q"
        using lay(1) by (auto simp: layout_ok_def omap_has_def)
      have "q \<noteq> csr" using q path_unique [OF lay(1)] 2(2) v(2) assms(7) by metis
      moreover have "q \<noteq> ?pend" using path_in [OF q] layout_ok_facts(7) [OF lay(1)] by metis
      ultimately have "d q = g_disk st2 q" using same layout_ok_facts(3) [OF lay(1)] path_in [OF q] by (meson subsetD)
      then have "disk_leaf e ssl st3 = disk_leaf e ssl st2" using 2(6) v(2) q by (simp add: disk_leaf_def ReadDisk_def)
      then show ?thesis using v(3) by simp
    qed
    ultimately show ?thesis using 2(6) v(2) Reconcile_leaves [of e ssl st3 leaf] by auto
  qed
qed

section \<open>Concrete instances\<close>

text \<open>A hub with key a, pending key b, and a staged certificate for b; on the second file
  system the private key cannot be replaced.\<close>

definition pair_store :: store where
  "pair_store = \<lparr>g_layout = example_layout,
    g_staged = [(1, \<lparr>s_bytes = cert_file (CHR ''b''), s_modified = 5\<rparr>)], g_commitPromotesPendingKey = False,
    g_disk = [''opr'' \<mapsto> disk_text (cert_file (CHR ''a'')), ''iss1'' \<mapsto> disk_text (cert_file (CHR ''z'')),
      ''key'' \<mapsto> disk_text ''a'', ''newkey'' \<mapsto> disk_text ''b'']\<rparr>"

definition key_locked :: os where
  "key_locked = example_os\<lparr>can_rename_to := (\<lambda>p. p \<noteq> ''key'')\<rparr>"

lemma pair_store_ok: "store_ok pair_store"
  using example_layout_ok by (simp add: store_ok_def pair_store_def omap_ok_def) (simp add: example_layout_def)

lemma os_readable: "all_readable example_os" "all_readable key_locked"
  by (simp_all add: all_readable_def example_os_def key_locked_def)

lemma pair_contents:
  assumes "all_readable e"
  shows "contents e pair_store 1 = cert_file (CHR ''b'')" "contents e pair_store 3 = cert_file (CHR ''z'')"
    "contents e pair_store 4 = cert_file (CHR ''z'')"
  using assms
  by (simp_all add: contents_def read_once_def read_own_def pair_store_def example_layout_def omap_has_def
      FallbackInstance_def OwnPath_def disk_exists_def ReadDisk_def disk_text_def all_readable_def)

definition promoted :: store where
  "promoted = pair_store\<lparr>g_commitPromotesPendingKey := True\<rparr>"

lemma pair_validates:
  assumes "all_readable e"
  shows "ValidateStaged e example_ssl pair_store = Some (None, promoted)"
proof -
  have lay: "layout_ok (g_layout pair_store)" using pair_store_ok by (simp add: store_ok_def)
  have l: "issuerInstances (g_layout pair_store) = [3, 4]" "operationalInstance (g_layout pair_store) = 1"
    by (simp_all add: pair_store_def example_layout_def)
  have issuers: "collect_issuers e example_ssl pair_store [3, 4] [] = Some (Inr [CHR ''z'', CHR ''z''])"
    using pair_contents [OF assms] by (simp add: Effective_total [OF lay] example_parse)
  have key: "choose_key e example_ssl pair_store (CHR ''b'') = Inr True"
    using assms by (simp add: choose_key_Inr key_fits_def LoadKey_def ReadDisk_def all_readable_def pair_store_def
        example_layout_def example_ssl_def disk_text_def)
  have roles: "check_roles example_ssl (CHR ''b'') [] [CHR ''z'', CHR ''z''] = None"
    by (simp add: check_roles_def ChainsToIssuers_def chain_attempts_def example_ssl_def)
  have ca: "\<not> is_ca example_ssl (CHR ''b'')" by (simp add: example_ssl_def)
  show ?thesis
    using pair_contents [OF assms] issuers key roles ca
    by (simp add: ValidateStaged_def l Effective_total [OF lay] example_parse promoted_def)
qed

lemma promoted_ok: "store_ok promoted"
  using pair_store_ok by (simp add: store_ok_def promoted_def)

lemma commit_works: "\<exists>st2. CommitStaged example_os promoted = (None, st2)"
  by (rule CommitStaged_total [OF promoted_ok])
    (simp_all add: example_os_def promoted_def pair_store_def example_layout_def)

lemma commit_stops: "\<exists>st2. CommitStaged key_locked promoted = (Some CouldNotPromote, st2) \<and> g_staged st2 = [] \<and> g_layout st2 = example_layout"
  by (simp add: CommitStaged_def promoted_def pair_store_def example_layout_def key_locked_def example_os_def
      WriteTempFile_def ReplaceWithTemp_def rename_file_def tmp_def PromotePendingKey_def Let_def)


lemma interrupted_key_swap_is_repaired_witness:
  "\<exists>st2 st3. CommitStaged key_locked promoted = (Some CouldNotPromote, st2) \<and>
    ReconcilePendingKey example_os example_ssl st2 = (KeySwapped, st3) \<and> working_pair example_os example_ssl st3"
proof -
  obtain st2 where c: "CommitStaged key_locked promoted = (Some CouldNotPromote, st2)" using commit_stops by blast
  have "\<forall>p. can_rename_to example_os p" by (simp add: example_os_def)
  from interrupted_key_swap_is_repaired [OF pair_store_ok os_readable(2,1) this pair_validates [OF os_readable(2)] c] c
  show ?thesis by blast
qed

lemma example_generates:
  assumes "g_layout st = example_layout" "g_staged st = []" "e = example_os \<or> e = key_locked"
    "ParseCertificates example_ssl (contents e st 1) = Inr (leaf # rest)"
  shows "\<exists>st'. GenerateKeyAndCsr e example_ssl st = Some (None, st')"
proof -
  have l: "pendingPrivateKeyPath example_layout = ''newkey''" "csrInstance example_layout = 2"
    "operationalInstance example_layout = 1" "map_of (paths example_layout) 2 = Some ''csr''"
    by (simp_all add: example_layout_def)
  have "\<exists>d. write_key_and_request e ''newkey'' ''csr'' k r (g_disk st) = (None, d)" for k r
    using assms(3)
    by (auto simp: write_key_and_request_def WriteTempFile_def ReplaceWithTemp_def rename_file_def tmp_def
        example_os_def key_locked_def)
  moreover have "new_key_and_request example_ssl leaf = Some (''new key'', ''request'')"
    by (simp add: example_ssl_def)
  moreover have "Effective e st 1 = Some (contents e st 1)" by (simp add: Effective_total assms(1) example_layout_ok)
  ultimately show ?thesis
    using assms(1,2,4) l
    by (auto simp: GenerateKeyAndCsr_def Let_def split: prod.split) (metis prod.inject)
qed


lemma pending_key_can_be_lost_witness:
  "\<exists>st2 st3 leaf. CommitStaged key_locked promoted = (Some CouldNotPromote, st2) \<and>
    GenerateKeyAndCsr key_locked example_ssl st2 = Some (None, st3) \<and> disk_leaf key_locked example_ssl st3 = Some leaf \<and>
    \<not> key_fits key_locked example_ssl (g_disk st3) ''key'' leaf \<and> \<not> key_fits key_locked example_ssl (g_disk st3) ''newkey'' leaf"
proof -
  obtain st2 where c: "CommitStaged key_locked promoted = (Some CouldNotPromote, st2)"
    and st2: "g_staged st2 = []" "g_layout st2 = example_layout" using commit_stops by blast
  note v = pair_validates [OF os_readable(2)]
  have "contents key_locked st2 1 = cert_file (CHR ''b'')"
    using CommitStaged_ends [OF promoted_ok os_readable(2) c, of 1]
    by (simp add: contents_def promoted_def pair_store_def read_once_staged)
  then have p: "ParseCertificates example_ssl (contents key_locked st2 1) = Inr [CHR ''b'']" by (simp add: example_parse)
  then obtain st3 where g: "GenerateKeyAndCsr key_locked example_ssl st2 = Some (None, st3)"
    using example_generates [OF st2(2,1)] by blast
  have "disk_leaf key_locked example_ssl st2 = Some (CHR ''b'')"
    using operational_on_disk [of st2 example_ssl key_locked "CHR ''b''" "[]"] p st2 example_layout_ok
    by (simp add: example_layout_def)
  then have new: "\<forall>leaf keyPem csrPem key. new_key_and_request example_ssl leaf = Some (keyPem, csrPem) \<longrightarrow>
      parse_key example_ssl keyPem = Some key \<longrightarrow> disk_leaf key_locked example_ssl st2 = Some leaf \<longrightarrow>
      \<not> check_private_key example_ssl leaf key"
    by (auto simp: example_ssl_def)
  have ne: "csrInstance (g_layout pair_store) \<noteq> operationalInstance (g_layout pair_store)"
    by (simp add: pair_store_def example_layout_def)
  show ?thesis
    using pending_key_can_be_lost [OF pair_store_ok os_readable(2) v c g new ne] c g
    by (auto simp: pair_store_def) (auto simp: example_layout_def)
qed

end
