(* ===== verification/Cert_Tool.thy ===== *)
theory Cert_Tool
  imports Cert_Layout Cert_Store "HOL-Library.Multiset"
begin

text \<open>
  The hub's own certificate request and the answer of its Certificate Authority,
  \<^verbatim>\<open>src/cert_tool.cpp\<close>.  What OpenSSL answers is the record \<^verbatim>\<open>tool_ssl\<close>, what the
  operating system does the record \<^verbatim>\<open>tool_os\<close>; a message is a constructor with the values it
  is made of.
\<close>

section \<open>The environment\<close>

text \<open>\<^verbatim>\<open>stored path bytes\<close> is what a truncating write leaves in the file, since the code does
  not look at the stream's state after it, or \<^verbatim>\<open>None\<close> when the file cannot be opened.\<close>

record tool_os =
  opens_for_reading :: "string \<Rightarrow> bool"
  stored :: "string \<Rightarrow> string \<Rightarrow> string option"
  gethostname :: "string option"
  absolute_path :: "string \<Rightarrow> string"
  tool_clock :: int

text \<open>The files, and the folders the program asked to be created.\<close>

record tool_state =
  t_files :: disk
  t_folders :: "string list"

record ('c, 'k, 'q, 'x) tool_ssl =
  pem_cert :: "string \<Rightarrow> 'c option"
  der_cert :: "string \<Rightarrow> 'c option"
  pem_req :: "string \<Rightarrow> 'q option"
  der_req :: "string \<Rightarrow> 'q option"
  cert_key :: "'c \<Rightarrow> 'k"
  req_key :: "'q \<Rightarrow> 'k option"
  same_key :: "'k \<Rightarrow> 'k \<Rightarrow> bool"
  expired :: "'c \<Rightarrow> bool"
  check_issued :: "'c \<Rightarrow> 'c \<Rightarrow> bool"
  signed_with :: "'c \<Rightarrow> 'k \<Rightarrow> bool"
  cert_pem :: "'c \<Rightarrow> string"
  subject_text :: "'c \<Rightarrow> string"
  issuer_text :: "'c \<Rightarrow> string"
  not_after :: "'c \<Rightarrow> string option"
  sha256 :: "'c \<Rightarrow> bytes"
  ec_gen :: "'k option"
  key_pem :: "'k \<Rightarrow> string"
  req_pem :: "'q \<Rightarrow> string"
  req_new :: "'q option"
  add_cn :: "'q \<Rightarrow> string \<Rightarrow> 'q"
  set_pubkey :: "'q \<Rightarrow> 'k \<Rightarrow> 'q"
  san_extension :: "'q \<Rightarrow> string \<Rightarrow> 'x option"
  eku_extension :: "'q \<Rightarrow> string \<Rightarrow> 'x option"
  add_extensions :: "'q \<Rightarrow> 'x list \<Rightarrow> 'q option"
  sign_req :: "'q \<Rightarrow> 'k \<Rightarrow> 'q option"

section \<open>The subject alternative name\<close>

definition LocalHostname :: "tool_os \<Rightarrow> string" where
  "LocalHostname e =
    (case gethostname e of None \<Rightarrow> ''localhost'' | Some name \<Rightarrow> if name = [] then ''localhost'' else name)"

definition uri_host :: "string \<Rightarrow> string" where
  "uri_host hubUri =
    (let rest = (case find_from ''://'' hubUri 0 of None \<Rightarrow> hubUri | Some scheme \<Rightarrow> drop (scheme + 3) hubUri) in
     takeWhile (\<lambda>c. c \<noteq> CHR '':'' \<and> c \<noteq> CHR ''/'') rest)"

definition san_entries :: "tool_os \<Rightarrow> string \<Rightarrow> string list" where
  "san_entries e hubUri =
    (let host = uri_host hubUri in
     [''DNS:localhost'', ''IP:127.0.0.1'', ''DNS:'' @ LocalHostname e] @
     (if host \<noteq> [] \<and> hd host \<noteq> CHR ''['' then
        [(if list_all (\<lambda>c. is_digit c \<or> c = CHR ''.'') host then ''IP:'' else ''DNS:'') @ host]
      else []))"

fun append_san :: "string list \<Rightarrow> string oset \<Rightarrow> string \<Rightarrow> string" where
  "append_san [] seen san = san"
| "append_san (entry # entries) seen san =
    (if entry \<in> set seen then append_san entries seen san
     else append_san entries (oset_add entry seen) (san @ (if san = [] then [] else '','') @ entry))"

definition HubSubjectAltName :: "tool_os \<Rightarrow> string \<Rightarrow> string" where
  "HubSubjectAltName e hubUri = append_san (san_entries e hubUri) [] []"

section \<open>Certificates and requests as bytes\<close>

definition CertFromBytes :: "('c, 'k, 'q, 'x) tool_ssl \<Rightarrow> string \<Rightarrow> 'c option" where
  "CertFromBytes ssl b = (case pem_cert ssl b of Some c \<Rightarrow> Some c | None \<Rightarrow> der_cert ssl b)"

definition ReqFromBytes :: "('c, 'k, 'q, 'x) tool_ssl \<Rightarrow> string \<Rightarrow> 'q option" where
  "ReqFromBytes ssl b = (case pem_req ssl b of Some q \<Rightarrow> Some q | None \<Rightarrow> der_req ssl b)"

text \<open>The result of adding the common name is not looked at.\<close>

definition MakeHubCsr ::
  "('c, 'k, 'q, 'x) tool_ssl \<Rightarrow> 'k \<Rightarrow> string \<Rightarrow> string \<Rightarrow> 'q option" where
  "MakeHubCsr ssl key subjectCn subjectAltName =
    (case req_new ssl of
       None \<Rightarrow> None
     | Some req \<Rightarrow>
         let req = set_pubkey ssl (add_cn ssl req subjectCn) key in
         (case (san_extension ssl req subjectAltName, eku_extension ssl req ''serverAuth,clientAuth'') of
            (Some san, Some eku) \<Rightarrow>
              (case add_extensions ssl req [san, eku] of
                 None \<Rightarrow> None
               | Some req \<Rightarrow> sign_req ssl req key)
          | _ \<Rightarrow> None))"

definition ReadFile :: "tool_os \<Rightarrow> disk \<Rightarrow> string \<Rightarrow> string" where
  "ReadFile e d path =
    (case d path of None \<Rightarrow> [] | Some f \<Rightarrow> if opens_for_reading e path then d_bytes f else [])"

definition was_private :: "disk \<Rightarrow> string \<Rightarrow> bool" where
  "was_private d path = (case d path of None \<Rightarrow> False | Some f \<Rightarrow> d_private f)"

text \<open>\<^verbatim>\<open>false\<close> only when the file cannot be opened; truncating keeps the permissions of an
  existing file.\<close>

definition tool_WriteFile :: "tool_os \<Rightarrow> string \<Rightarrow> string \<Rightarrow> bool \<Rightarrow> tool_state \<Rightarrow> bool \<times> tool_state" where
  "tool_WriteFile e path b isPrivate st =
    (let st = (case parent_path path of None \<Rightarrow> st | Some dir \<Rightarrow> st\<lparr>t_folders := t_folders st @ [dir]\<rparr>) in
     (case stored e path b of
        None \<Rightarrow> (False, st)
      | Some written \<Rightarrow>
          (True, st\<lparr>t_files := (t_files st)(path \<mapsto>
             \<lparr>d_bytes = written, d_private = isPrivate \<or> was_private (t_files st) path, d_mtime = tool_clock e\<rparr>)\<rparr>)))"

section \<open>Facts shown of a certificate\<close>

fun colon_hex :: "bytes \<Rightarrow> string" where
  "colon_hex [] = []"
| "colon_hex [b] = hex2 b"
| "colon_hex (b # bs) = hex2 b @ '':'' @ colon_hex bs"

definition Sha256Fingerprint :: "('c, 'k, 'q, 'x) tool_ssl \<Rightarrow> 'c \<Rightarrow> string" where
  "Sha256Fingerprint ssl c = colon_hex (sha256 ssl c)"

definition NotAfter :: "('c, 'k, 'q, 'x) tool_ssl \<Rightarrow> 'c \<Rightarrow> string" where
  "NotAfter ssl c = (case not_after ssl c of None \<Rightarrow> ''?'' | Some date \<Rightarrow> date)"

definition BaseName :: "string \<Rightarrow> string" where
  "BaseName path = rev (takeWhile (\<lambda>c. c \<noteq> CHR ''/'') (rev path))"

section \<open>The request\<close>

definition notes_before :: string where
  "notes_before =
    ''Certificate request for a BACnet/SC hub (CAS BACnet Stack B-SCHUB example).\<newline>\<newline>Sign cert1/device-''"

definition notes_after :: string where
  "notes_after =
    ''/port-2/csr-hub.pem. This port is a BACnet/SC hub\<newline>'' @
    ''(see the hub/ folder): its certificate needs extendedKeyUsage serverAuth and\<newline>'' @
    ''clientAuth. The request also lists the subjectAltName the hub wants.\<newline>\<newline>'' @
    ''Return a CARI response: this tree plus opr-hub.pem next to the CSR and your\<newline>'' @
    ''issuer certificate(s) in cert1/issuer/. Then install it on the hub with\<newline>'' @
    ''--import-cari.\<newline>''"

definition INSTANCE_TOKEN :: string where
  "INSTANCE_TOKEN = ''%INSTANCE%''"

definition REQUEST_NOTES :: string where
  "REQUEST_NOTES = notes_before @ INSTANCE_TOKEN @ notes_after"

text \<open>\<^verbatim>\<open>None\<close>: \<^verbatim>\<open>replace\<close> at \<^verbatim>\<open>npos\<close> throws.\<close>

definition request_notes :: "nat \<Rightarrow> string option" where
  "request_notes inst = do {
     at \<leftarrow> find_from INSTANCE_TOKEN REQUEST_NOTES 0;
     Some (take at REQUEST_NOTES @ dec inst @ drop (at + length INSTANCE_TOKEN) REQUEST_NOTES) }"

datatype tool_error =
    NoRequestYet
  | NotARequest string
  | ZipProblem zip_error
  | NoRequestToMatch
  | UnreadableRequest string
  | NoCertificate
  | NotForThisKey nat
  | CertificateExpired string
  | NotACertificate string
  | NoIssuerCertificateInZip
  | NoSigner string
  | TooManyIssuers nat

definition request_tree_of :: "hub_cert_paths \<Rightarrow> string \<Rightarrow> string \<Rightarrow> cari_tree" where
  "request_tree_of p csr notes =
    AddFile ''cert1/request-notes.txt'' notes
      (AddFolder (hubPortFolder p @ ''/hub'')
        (AddFile (hubPortFolder p @ ''/'' @ file_name (certificateSigningRequest p)) csr Tree))"

definition HubRequestZip ::
  "tool_os \<Rightarrow> ('c, 'k, 'q, 'x) tool_ssl \<Rightarrow> (string \<Rightarrow> string) \<Rightarrow> crc \<Rightarrow> dos_now \<Rightarrow> hub_cert_paths \<Rightarrow> disk \<Rightarrow>
   (tool_error + string) option" where
  "HubRequestZip e ssl deflate crc32 now p d =
    (if \<not> disk_exists d (certificateSigningRequest p) then Some (Inl NoRequestYet)
     else
       let csr = ReadFile e d (certificateSigningRequest p) in
       if ReqFromBytes ssl csr = None then Some (Inl (NotARequest (certificateSigningRequest p)))
       else do {
         notes \<leftarrow> request_notes (folderDeviceInstance p);
         Some (Inr (WriteZip deflate crc32 now (request_tree_of p csr notes))) })"

section \<open>The response\<close>

record response_files =
  r_operationalCertificate :: string
  r_issuers :: "string list"
  r_source :: string
  r_subject :: string
  r_issuerSubject :: string
  r_notAfter :: string
  r_fingerprint :: string

text \<open>The hub's own port folder first, then anywhere in the zip.\<close>

definition own_certificate :: "hub_cert_paths \<Rightarrow> string" where
  "own_certificate p = (if hubPortFolder p = [] then [] else hubPortFolder p @ ''/opr-hub.pem'')"

definition candidates :: "string \<Rightarrow> cari_tree \<Rightarrow> string list" where
  "candidates own t =
    (if own \<noteq> [] \<and> Has t own then [own] else []) @
    filter (\<lambda>path. StartsWith (BaseName path) ''opr-'' \<and> path \<noteq> own) (map fst (files t))"

text \<open>The first candidate whose public key is the request's.  Every candidate is a file of the
  tree, so \<^verbatim>\<open>files[path]\<close> inserts nothing.\<close>

fun find_operational ::
  "('c, 'k, 'q, 'x) tool_ssl \<Rightarrow> cari_tree \<Rightarrow> 'k \<Rightarrow> string list \<Rightarrow> ('c \<times> string) option" where
  "find_operational ssl t csrKey [] = None"
| "find_operational ssl t csrKey (cand # cands) =
    (case CertFromBytes ssl (case map_of (files t) cand of None \<Rightarrow> [] | Some b \<Rightarrow> b) of
       None \<Rightarrow> find_operational ssl t csrKey cands
     | Some cert \<Rightarrow>
         if same_key ssl (cert_key ssl cert) csrKey then Some (cert, cand)
         else find_operational ssl t csrKey cands)"

fun zip_issuers :: "('c, 'k, 'q, 'x) tool_ssl \<Rightarrow> (string \<times> string) list \<Rightarrow> tool_error + 'c list" where
  "zip_issuers ssl [] = Inr []"
| "zip_issuers ssl ((path, b) # fs) =
    (if StartsWith path ''cert1/issuer/'' \<and> StartsWith (BaseName path) ''iss-'' then
       (case CertFromBytes ssl b of
          None \<Rightarrow> Inl (NotACertificate path)
        | Some cert \<Rightarrow> bindE (zip_issuers ssl fs) (\<lambda>certs. Inr (cert # certs)))
     else zip_issuers ssl fs)"

definition signed_by :: "('c, 'k, 'q, 'x) tool_ssl \<Rightarrow> 'c \<Rightarrow> 'c \<Rightarrow> bool" where
  "signed_by ssl cert issuer \<longleftrightarrow> check_issued ssl issuer cert \<and> signed_with ssl cert (cert_key ssl issuer)"

text \<open>\<^verbatim>\<open>std::rotate(begin, signer, signer + 1)\<close> for the first signer, or
  \<^verbatim>\<open>None\<close> when there is none.\<close>

definition signer_first :: "('c \<Rightarrow> bool) \<Rightarrow> 'c list \<Rightarrow> 'c list option" where
  "signer_first signs issuers =
    (case dropWhile (\<lambda>c. \<not> signs c) issuers of
       [] \<Rightarrow> None
     | signer # after \<Rightarrow> Some (signer # takeWhile (\<lambda>c. \<not> signs c) issuers @ after))"

definition check_issuers ::
  "('c, 'k, 'q, 'x) tool_ssl \<Rightarrow> cari_tree \<Rightarrow> 'c \<Rightarrow> tool_error + 'c list" where
  "check_issuers ssl t operational =
    bindE (zip_issuers ssl (files t)) (\<lambda>issuers.
      if issuers = [] then Inl NoIssuerCertificateInZip
      else
        (case signer_first (signed_by ssl operational) issuers of
           None \<Rightarrow> Inl (NoSigner (issuer_text ssl operational))
         | Some ordered \<Rightarrow>
             if length ordered > 2 then Inl (TooManyIssuers (length ordered)) else Inr ordered))"

definition check_response ::
  "('c, 'k, 'q, 'x) tool_ssl \<Rightarrow> hub_cert_paths \<Rightarrow> cari_tree \<Rightarrow> 'k \<Rightarrow> tool_error + response_files" where
  "check_response ssl p t csrKey =
    (let cands = candidates (own_certificate p) t in
     if cands = [] then Inl NoCertificate
     else
       (case find_operational ssl t csrKey cands of
          None \<Rightarrow> Inl (NotForThisKey (length cands))
        | Some (operational, source) \<Rightarrow>
            if expired ssl operational then Inl (CertificateExpired (NotAfter ssl operational))
            else bindE (check_issuers ssl t operational) (\<lambda>issuers.
              Inr \<lparr>r_operationalCertificate = cert_pem ssl operational, r_issuers = map (cert_pem ssl) issuers,
                r_source = source, r_subject = subject_text ssl operational,
                r_issuerSubject = issuer_text ssl operational, r_notAfter = NotAfter ssl operational,
                r_fingerprint = Sha256Fingerprint ssl operational\<rparr>)))"

definition ReadCariResponse ::
  "tool_os \<Rightarrow> ('c, 'k, 'q, 'x) tool_ssl \<Rightarrow> zinflate \<Rightarrow> crc \<Rightarrow> hub_cert_paths \<Rightarrow> disk \<Rightarrow> string \<Rightarrow>
   (tool_error + response_files) option" where
  "ReadCariResponse e ssl zinflate crc32 p d zipBytes = do {
     r \<leftarrow> ReadZip zinflate crc32 zipBytes;
     Some
       (case r of
          Inl why \<Rightarrow> Inl (ZipProblem why)
        | Inr t \<Rightarrow>
            if \<not> disk_exists d (certificateSigningRequest p) then Inl NoRequestToMatch
            else
              (case Option.bind (ReqFromBytes ssl (ReadFile e d (certificateSigningRequest p))) (req_key ssl) of
                 None \<Rightarrow> Inl (UnreadableRequest (certificateSigningRequest p))
               | Some csrKey \<Rightarrow> check_response ssl p t csrKey)) }"

section \<open>The two modes\<close>

datatype request_result = Created | AlreadyExists | Failed

datatype request_message =
    ZipAlreadyExists string
  | KeyWithoutRequest string
  | NoKeyGenerated
  | NoRequestMade
  | CouldNotWriteKeyAndRequest string
  | NotMade tool_error
  | CouldNotWriteZip string
  | ZipCreated string "string option"

definition HUB_REQUEST_ZIP :: string where
  "HUB_REQUEST_ZIP = ''hub-cari-request.zip''"

text \<open>The key and the request of a hub that has none: \<^verbatim>\<open>Inl\<close> is the failure, and
  \<^verbatim>\<open>Inr\<close> the note.  \<^verbatim>\<open>rel\<close> is what \<^verbatim>\<open>fs::relative\<close>
  answers for the key's path.\<close>

definition make_key_and_request ::
  "tool_os \<Rightarrow> ('c, 'k, 'q, 'x) tool_ssl \<Rightarrow> hub_cert_paths \<Rightarrow> string \<Rightarrow> string option \<Rightarrow> string \<Rightarrow> string \<Rightarrow> tool_state \<Rightarrow>
   (request_message + string option) \<times> tool_state" where
  "make_key_and_request e ssl p dir rel subjectCn hubUri st =
    (if disk_exists (t_files st) (certificateSigningRequest p) then (Inr None, st)
     else if disk_exists (t_files st) (privateKey p) then (Inl (KeyWithoutRequest (privateKey p)), st)
     else if pendingPrivateKey p \<noteq> [] \<and> disk_exists (t_files st) (pendingPrivateKey p)
     then (Inl (KeyWithoutRequest (pendingPrivateKey p)), st)
     else
       (case ec_gen ssl of
          None \<Rightarrow> (Inl NoKeyGenerated, st)
        | Some key \<Rightarrow>
            (case MakeHubCsr ssl key subjectCn (HubSubjectAltName e hubUri) of
               None \<Rightarrow> (Inl NoRequestMade, st)
             | Some csr \<Rightarrow>
                 let st = st\<lparr>t_folders := t_folders st @ [Join (Join (certDir p) (hubPortFolder p)) ''hub'']\<rparr> in
                 (case tool_WriteFile e (privateKey p) (key_pem ssl key) True st of
                    (False, st) \<Rightarrow> (Inl (CouldNotWriteKeyAndRequest dir), st)
                  | (True, st) \<Rightarrow>
                      (case tool_WriteFile e (certificateSigningRequest p) (req_pem ssl csr) False st of
                         (False, st) \<Rightarrow> (Inl (CouldNotWriteKeyAndRequest dir), st)
                       | (True, st) \<Rightarrow> (Inr (Some (RelativeTo rel (privateKey p))), st))))))"

definition EnsureHubRequest ::
  "tool_os \<Rightarrow> ('c, 'k, 'q, 'x) tool_ssl \<Rightarrow> (string \<Rightarrow> string) \<Rightarrow> crc \<Rightarrow> dos_now \<Rightarrow> device_listing list option \<Rightarrow>
   string option \<Rightarrow> string \<Rightarrow> nat \<Rightarrow> string \<Rightarrow> string \<Rightarrow> tool_state \<Rightarrow>
   (request_result \<times> request_message \<times> tool_state) option" where
  "EnsureHubRequest e ssl deflate crc32 now listing rel dir inst subjectCn hubUri st =
    (let p = ResolveHubCertPaths dir inst listing;
         zipPath = absolute_path e (Join dir HUB_REQUEST_ZIP) in
     if disk_exists (t_files st) zipPath then Some (AlreadyExists, ZipAlreadyExists zipPath, st)
     else
       (case make_key_and_request e ssl p dir rel subjectCn hubUri st of
          (Inl why, st) \<Rightarrow> Some (Failed, why, st)
        | (Inr note, st) \<Rightarrow> do {
            archive \<leftarrow> HubRequestZip e ssl deflate crc32 now p (t_files st);
            Some
              (case archive of
                 Inl why \<Rightarrow> (Failed, NotMade why, st)
               | Inr zipBytes \<Rightarrow>
                   (case tool_WriteFile e zipPath zipBytes False st of
                      (False, st) \<Rightarrow> (Failed, CouldNotWriteZip zipPath, st)
                    | (True, st) \<Rightarrow> (Created, ZipCreated zipPath note, st))) }))"

datatype import_error = CouldNotReadZip | BadResponse tool_error | CouldNotCreate string

text \<open>The three files, each only when the ones before could be written.\<close>

definition install_response ::
  "tool_os \<Rightarrow> hub_cert_paths \<Rightarrow> response_files \<Rightarrow> tool_state \<Rightarrow> (import_error + response_files) \<times> tool_state" where
  "install_response e p r st =
    (case tool_WriteFile e (operationalCertificate p) (r_operationalCertificate r) False st of
       (False, st) \<Rightarrow> (Inl (CouldNotCreate (operationalCertificate p)), st)
     | (True, st) \<Rightarrow>
         (case tool_WriteFile e (issuerCertificate1 p) (r_issuers r ! 0) False st of
            (False, st) \<Rightarrow> (Inl (CouldNotCreate (issuerCertificate1 p)), st)
          | (True, st) \<Rightarrow>
              (case tool_WriteFile e (issuerCertificate2 p)
                 (if length (r_issuers r) > 1 then r_issuers r ! 1 else r_issuers r ! 0) False st of
                 (False, st) \<Rightarrow> (Inl (CouldNotCreate (issuerCertificate2 p)), st)
               | (True, st) \<Rightarrow> (Inr r, st))))"

definition ImportCariResponse ::
  "tool_os \<Rightarrow> ('c, 'k, 'q, 'x) tool_ssl \<Rightarrow> zinflate \<Rightarrow> crc \<Rightarrow> device_listing list option \<Rightarrow> string \<Rightarrow> nat \<Rightarrow> string \<Rightarrow>
   tool_state \<Rightarrow> ((import_error + response_files) \<times> tool_state) option" where
  "ImportCariResponse e ssl zinflate crc32 listing dir inst zipPath st =
    (let p = ResolveHubCertPaths dir inst listing in
     if \<not> opens_for_reading e zipPath \<or> \<not> disk_exists (t_files st) zipPath then Some (Inl CouldNotReadZip, st)
     else do {
       response \<leftarrow> ReadCariResponse e ssl zinflate crc32 p (t_files st) (ReadFile e (t_files st) zipPath);
       Some
         (case response of
            Inl why \<Rightarrow> (Inl (BadResponse why), st)
          | Inr r \<Rightarrow> install_response e p r st) })"

section \<open>What is written\<close>

lemma WriteFile_result:
  assumes "tool_WriteFile e path b pr st = (ok, st')"
  shows "(\<forall>q. q \<noteq> path \<longrightarrow> t_files st' q = t_files st q) \<and>
    (if ok then \<exists>w. stored e path b = Some w \<and>
        t_files st' path = Some \<lparr>d_bytes = w, d_private = pr \<or> was_private (t_files st) path, d_mtime = tool_clock e\<rparr>
     else t_files st' = t_files st)"
  using assms by (auto simp: tool_WriteFile_def Let_def split: option.splits)

lemma make_key_frame:
  assumes "make_key_and_request e ssl p dir rel cn uri st = (r, st')" "privateKey p \<noteq> certificateSigningRequest p"
  shows "(if disk_exists (t_files st) (certificateSigningRequest p) \<or> disk_exists (t_files st) (privateKey p) \<or>
        pendingPrivateKey p \<noteq> [] \<and> disk_exists (t_files st) (pendingPrivateKey p)
      then st' = st
      else (\<forall>q. q \<noteq> privateKey p \<longrightarrow> q \<noteq> certificateSigningRequest p \<longrightarrow> t_files st' q = t_files st q) \<and>
        (case t_files st' (privateKey p) of None \<Rightarrow> True | Some f \<Rightarrow> d_private f)) \<and>
    (disk_exists (t_files st) (privateKey p) \<and> \<not> disk_exists (t_files st) (certificateSigningRequest p) \<longrightarrow>
      r = Inl (KeyWithoutRequest (privateKey p)))"
proof (cases "disk_exists (t_files st) (certificateSigningRequest p) \<or> disk_exists (t_files st) (privateKey p) \<or>
    pendingPrivateKey p \<noteq> [] \<and> disk_exists (t_files st) (pendingPrivateKey p)")
  case True
  then show ?thesis using assms(1) by (auto simp: make_key_and_request_def split: if_splits)
next
  case False
  then have none: "t_files st (privateKey p) = None" by (simp add: disk_exists_def)
  show ?thesis
  proof (cases "ec_gen ssl = None \<or> MakeHubCsr ssl (the (ec_gen ssl)) cn (HubSubjectAltName e uri) = None")
    case True
    then show ?thesis using False assms(1) none by (auto simp: make_key_and_request_def split: option.splits)
  next
    case made: False
    then obtain key csr where k: "ec_gen ssl = Some key" "MakeHubCsr ssl key cn (HubSubjectAltName e uri) = Some csr"
      by auto
    let ?st0 = "st\<lparr>t_folders := t_folders st @ [Join (Join (certDir p) (hubPortFolder p)) ''hub'']\<rparr>"
    obtain ok1 st1 where w1: "tool_WriteFile e (privateKey p) (key_pem ssl key) True ?st0 = (ok1, st1)" by fastforce
    obtain ok2 st2 where w2: "tool_WriteFile e (certificateSigningRequest p) (req_pem ssl csr) False st1 = (ok2, st2)"
      by fastforce
    have st': "st' = (if ok1 then st2 else st1)"
      using assms(1) False k w1 w2 by (auto simp: make_key_and_request_def split: if_splits bool.splits)
    show ?thesis
      using False none assms(2) WriteFile_result [OF w1] WriteFile_result [OF w2]
      by (auto simp: st' split: option.split if_splits)
  qed
qed

text \<open>At start-up the hub never replaces a private key, and never a request it may have sent:
  an existing request zip leaves everything as it is; every other file that exists keeps its contents;
  and a new key is made only when there is no key, no pending key and no request, and is readable by its
  owner only.\<close>

theorem ensure_request_keeps_keys:
  assumes "EnsureHubRequest e ssl deflate crc32 now listing rel dir inst cn uri st = Some (res, msg, st')"
    and "p = ResolveHubCertPaths dir inst listing" and "zipPath = absolute_path e (Join dir HUB_REQUEST_ZIP)"
    and "zipPath \<notin> set (all_paths p)"
  shows "(disk_exists (t_files st) zipPath \<longrightarrow> st' = st \<and> res = AlreadyExists) \<and>
    (\<forall>q. disk_exists (t_files st) q \<longrightarrow> t_files st' q = t_files st q) \<and>
    (\<forall>q. q \<notin> {zipPath, privateKey p, certificateSigningRequest p} \<longrightarrow> t_files st' q = t_files st q) \<and>
    (t_files st' (privateKey p) \<noteq> t_files st (privateKey p) \<longrightarrow>
      \<not> disk_exists (t_files st) (certificateSigningRequest p) \<and>
      \<not> (pendingPrivateKey p \<noteq> [] \<and> disk_exists (t_files st) (pendingPrivateKey p)) \<and>
      map_option d_private (t_files st' (privateKey p)) = Some True)"
proof (cases "disk_exists (t_files st) zipPath")
  case True
  then show ?thesis using assms(1) by (simp add: EnsureHubRequest_def Let_def assms(2) [symmetric] assms(3) [symmetric])
next
  case False
  have ne: "privateKey p \<noteq> certificateSigningRequest p" "zipPath \<noteq> privateKey p" "zipPath \<noteq> certificateSigningRequest p"
    using assms(4) Resolve_FillCari [of dir inst listing] FillCari_distinct unfolding assms(2)
    by (auto simp: all_paths_def)
  obtain r st1 where m: "make_key_and_request e ssl p dir rel cn uri st = (r, st1)" by fastforce
  note frame = make_key_frame [OF m ne(1)]
  have "(\<forall>q. q \<noteq> zipPath \<longrightarrow> t_files st' q = t_files st1 q)"
  proof (cases r)
    case (Inl why)
    then show ?thesis using assms(1) False m by (simp add: EnsureHubRequest_def Let_def assms(2) [symmetric] assms(3) [symmetric])
  next
    case (Inr nt)
    then obtain z where z: "HubRequestZip e ssl deflate crc32 now p (t_files st1) = Some z"
      using assms(1) False m by (auto simp: EnsureHubRequest_def Let_def assms(2) [symmetric] assms(3) [symmetric] split: Option.bind_splits)
    show ?thesis
    proof (cases z)
      case (Inl why)
      then show ?thesis using Inr z assms(1) False m
        by (simp add: EnsureHubRequest_def Let_def assms(2) [symmetric] assms(3) [symmetric])
    next
      case zip: (Inr b)
      obtain ok st2 where w: "tool_WriteFile e zipPath b False st1 = (ok, st2)" by fastforce
      have "st' = st2" using Inr zip z w assms(1) False m
        by (cases ok) (simp_all add: EnsureHubRequest_def Let_def assms(2) [symmetric] assms(3) [symmetric])
      then show ?thesis using WriteFile_result [OF w] by simp
    qed
  qed
  then have other: "t_files st' q = t_files st1 q" if "q \<noteq> zipPath" for q using that by blast
  have ex: "q \<noteq> zipPath" if "disk_exists (t_files st) q" for q using that False by auto
  show ?thesis
  proof (cases "disk_exists (t_files st) (certificateSigningRequest p) \<or> disk_exists (t_files st) (privateKey p) \<or>
      pendingPrivateKey p \<noteq> [] \<and> disk_exists (t_files st) (pendingPrivateKey p)")
    case True
    then have "st1 = st" using frame by simp
    then show ?thesis using False other ex ne(2) by simp
  next
    case none: False
    then have same: "t_files st1 q = t_files st q" if "q \<noteq> privateKey p" "q \<noteq> certificateSigningRequest p" for q
      using frame that by simp
    have "t_files st (privateKey p) = None" using none by (simp add: disk_exists_def)
    then have priv: "t_files st1 (privateKey p) \<noteq> t_files st (privateKey p) \<Longrightarrow>
        map_option d_private (t_files st1 (privateKey p)) = Some True"
      using none frame by (auto split: option.splits)
    have "t_files st' q = t_files st q" if "disk_exists (t_files st) q" for q
      using that none ex same other by metis
    then show ?thesis using False none other same ne(2) priv by auto
  qed
qed

section \<open>What a response must hold\<close>

lemma candidates_in_tree: "path \<in> set (candidates own t) \<Longrightarrow> path \<in> fst ` set (files t)"
  by (auto simp: candidates_def Has_def omap_has_def map_of_eq_None_iff split: if_splits)

lemma find_operational_result:
  "find_operational ssl t csrKey cands = Some (cert, path) \<Longrightarrow>
   path \<in> set cands \<and> same_key ssl (cert_key ssl cert) csrKey \<and>
   CertFromBytes ssl (case map_of (files t) path of None \<Rightarrow> [] | Some b \<Rightarrow> b) = Some cert"
  by (induction ssl t csrKey cands rule: find_operational.induct) (auto split: option.splits if_splits)

text \<open>The certificates of the zip's issuer folder.\<close>

definition is_issuer_file :: "string \<Rightarrow> bool" where
  "is_issuer_file path \<longleftrightarrow> StartsWith path ''cert1/issuer/'' \<and> StartsWith (BaseName path) ''iss-''"

lemma zip_issuers_result:
  "zip_issuers ssl fs = Inr certs \<Longrightarrow> c \<in> set certs \<Longrightarrow> \<exists>(path, b) \<in> set fs. is_issuer_file path \<and> CertFromBytes ssl b = Some c"
proof (induction fs arbitrary: certs)
  case Nil
  then show ?case by simp
next
  case (Cons f fs)
  obtain path b where f: "f = (path, b)" by fastforce
  show ?case
  proof (cases "is_issuer_file path")
    case True
    then obtain d rest where d: "CertFromBytes ssl b = Some d" "zip_issuers ssl fs = Inr rest" "certs = d # rest"
      using Cons.prems(1) by (auto simp: f is_issuer_file_def bindE_eq_Inr split: option.splits)
    then show ?thesis using True Cons.IH [OF d(2)] Cons.prems(2) f by auto
  next
    case False
    then have "zip_issuers ssl fs = Inr certs" using Cons.prems(1) by (auto simp: f is_issuer_file_def split: if_splits)
    then show ?thesis using Cons.IH Cons.prems(2) f by auto
  qed
qed

lemma signer_first_result:
  assumes "signer_first signs issuers = Some ordered"
  shows "mset ordered = mset issuers \<and> ordered \<noteq> [] \<and> signs (hd ordered)"
proof -
  obtain s after where d: "dropWhile (\<lambda>c. \<not> signs c) issuers = s # after"
    and o: "ordered = s # takeWhile (\<lambda>c. \<not> signs c) issuers @ after"
    using assms by (auto simp: signer_first_def split: list.splits)
  have "mset issuers = mset (takeWhile (\<lambda>c. \<not> signs c) issuers @ s # after)"
    using takeWhile_dropWhile_id [of "\<lambda>c. \<not> signs c" issuers] d by metis
  moreover have "signs s" using hd_dropWhile [of "\<lambda>c. \<not> signs c" issuers] d by simp
  ultimately show ?thesis by (simp add: o)
qed

text \<open>A response that is accepted: the certificate, its issuers and where they come from.\<close>

definition response_for ::
  "('c, 'k, 'q, 'x) tool_ssl \<Rightarrow> cari_tree \<Rightarrow> 'k \<Rightarrow> response_files \<Rightarrow> 'c \<Rightarrow> 'c list \<Rightarrow> bool" where
  "response_for ssl t csrKey r cert issuers \<longleftrightarrow>
    (\<exists>b. map_of (files t) (r_source r) = Some b \<and> CertFromBytes ssl b = Some cert) \<and>
    same_key ssl (cert_key ssl cert) csrKey \<and> \<not> expired ssl cert \<and>
    (issuers \<noteq> [] \<and> length issuers \<le> 2) \<and> signed_by ssl cert (hd issuers) \<and>
    (\<forall>i \<in> set issuers. \<exists>(path, b) \<in> set (files t). is_issuer_file path \<and> CertFromBytes ssl b = Some i) \<and>
    r_operationalCertificate r = cert_pem ssl cert \<and> r_issuers r = map (cert_pem ssl) issuers"

lemma check_response_sound:
  assumes "check_response ssl p t csrKey = Inr r"
  shows "\<exists>cert issuers. response_for ssl t csrKey r cert issuers"
proof -
  let ?cands = "candidates (own_certificate p) t"
  obtain cert source where f: "find_operational ssl t csrKey ?cands = Some (cert, source)"
    using assms by (auto simp: check_response_def Let_def split: if_splits option.splits)
  note fo = find_operational_result [OF f]
  have exp: "\<not> expired ssl cert" using assms f by (auto simp: check_response_def Let_def split: if_splits)
  obtain ordered where ci: "check_issuers ssl t cert = Inr ordered"
    using assms f exp by (auto simp: check_response_def Let_def bindE_eq_Inr split: if_splits)
  have r: "r = \<lparr>r_operationalCertificate = cert_pem ssl cert, r_issuers = map (cert_pem ssl) ordered,
      r_source = source, r_subject = subject_text ssl cert, r_issuerSubject = issuer_text ssl cert,
      r_notAfter = NotAfter ssl cert, r_fingerprint = Sha256Fingerprint ssl cert\<rparr>"
    using assms f exp ci by (auto simp: check_response_def Let_def split: if_splits)
  obtain issuers where z: "zip_issuers ssl (files t) = Inr issuers"
    and s: "signer_first (signed_by ssl cert) issuers = Some ordered" "length ordered \<le> 2"
    using ci by (auto simp: check_issuers_def bindE_eq_Inr split: if_splits option.splits)
  note so = signer_first_result [OF s(1)]
  have "set ordered = set issuers" using so by (metis set_mset_mset)
  then have "\<forall>i \<in> set ordered. \<exists>(path, b) \<in> set (files t). is_issuer_file path \<and> CertFromBytes ssl b = Some i"
    using zip_issuers_result [OF z] by blast
  moreover have "\<exists>b. map_of (files t) source = Some b \<and> CertFromBytes ssl b = Some cert"
  proof -
    have "map_of (files t) source \<noteq> None" using fo candidates_in_tree by (auto simp: map_of_eq_None_iff)
    then show ?thesis using fo by auto
  qed
  ultimately show ?thesis
    using fo exp so s(2) r by (intro exI [of _ cert] exI [of _ ordered]) (simp add: response_for_def)
qed

lemma install_result:
  assumes "install_response e p r st = (res, st')"
    "distinct [operationalCertificate p, issuerCertificate1 p, issuerCertificate2 p]"
  shows "(\<forall>q. q \<notin> {operationalCertificate p, issuerCertificate1 p, issuerCertificate2 p} \<longrightarrow> t_files st' q = t_files st q) \<and>
    (case res of
       Inl why \<Rightarrow> (\<exists>path. why = CouldNotCreate path)
     | Inr r' \<Rightarrow> r' = r \<and>
         map_option d_bytes (t_files st' (operationalCertificate p)) = stored e (operationalCertificate p) (r_operationalCertificate r) \<and>
         map_option d_bytes (t_files st' (issuerCertificate1 p)) = stored e (issuerCertificate1 p) (r_issuers r ! 0) \<and>
         map_option d_bytes (t_files st' (issuerCertificate2 p)) =
           stored e (issuerCertificate2 p) (if length (r_issuers r) > 1 then r_issuers r ! 1 else r_issuers r ! 0))"
proof -
  let ?two = "if length (r_issuers r) > 1 then r_issuers r ! 1 else r_issuers r ! 0"
  obtain ok1 st1 where w1: "tool_WriteFile e (operationalCertificate p) (r_operationalCertificate r) False st = (ok1, st1)" by fastforce
  obtain ok2 st2 where w2: "tool_WriteFile e (issuerCertificate1 p) (r_issuers r ! 0) False st1 = (ok2, st2)" by fastforce
  obtain ok3 st3 where w3: "tool_WriteFile e (issuerCertificate2 p) ?two False st2 = (ok3, st3)" by fastforce
  note f = WriteFile_result [OF w1] WriteFile_result [OF w2] WriteFile_result [OF w3]
  show ?thesis
  proof (cases "ok1 \<and> ok2 \<and> ok3")
    case True
    then have "res = Inr r" "st' = st3" using assms(1) w1 w2 w3 by (auto simp: install_response_def)
    then show ?thesis using True f assms(2) by auto
  next
    case False
    then show ?thesis using assms f w1 w2 w3 by (auto simp: install_response_def split: bool.splits)
  qed
qed

lemma import_paths_distinct:
  "distinct [operationalCertificate (ResolveHubCertPaths dir inst listing),
     issuerCertificate1 (ResolveHubCertPaths dir inst listing), issuerCertificate2 (ResolveHubCertPaths dir inst listing)]"
proof -
  have "distinct (all_paths (ResolveHubCertPaths dir inst listing))"
    using Resolve_FillCari [of dir inst listing] FillCari_distinct by metis
  then show ?thesis by (simp add: all_paths_def)
qed

text \<open>C40: Importing a response installs a certificate only when it is for the key of this hub's own
  request, has not expired, and is signed by the certificate that becomes issuer 1, one of at most two
  that the zip's issuer folder holds; a single issuer fills both slots.  A response that fails any check
  changes nothing, and no other file, so no private key, is ever touched.\<close>

theorem import_installs_only_own:
  assumes "ImportCariResponse e ssl zinflate crc32 listing dir inst zipPath st = Some (res, st')"
    and "p = ResolveHubCertPaths dir inst listing"
  shows "(\<forall>q. q \<notin> {operationalCertificate p, issuerCertificate1 p, issuerCertificate2 p} \<longrightarrow> t_files st' q = t_files st q) \<and>
    (case res of
       Inl why \<Rightarrow> st' = st \<or> (\<exists>path. why = CouldNotCreate path)
     | Inr r \<Rightarrow> (\<exists>t csrKey cert issuers.
         ReadZip zinflate crc32 (ReadFile e (t_files st) zipPath) = Some (Inr t) \<and>
         Option.bind (ReqFromBytes ssl (ReadFile e (t_files st) (certificateSigningRequest p))) (req_key ssl) = Some csrKey \<and>
         response_for ssl t csrKey r cert issuers \<and>
         map_option d_bytes (t_files st' (operationalCertificate p)) = stored e (operationalCertificate p) (cert_pem ssl cert) \<and>
         map_option d_bytes (t_files st' (issuerCertificate1 p)) = stored e (issuerCertificate1 p) (cert_pem ssl (hd issuers)) \<and>
         map_option d_bytes (t_files st' (issuerCertificate2 p)) = stored e (issuerCertificate2 p) (cert_pem ssl (last issuers))))"
proof (cases "opens_for_reading e zipPath \<and> disk_exists (t_files st) zipPath")
  case False
  then show ?thesis using assms(1) by (auto simp: ImportCariResponse_def Let_def)
next
  case True
  then obtain response where rc: "ReadCariResponse e ssl zinflate crc32 p (t_files st) (ReadFile e (t_files st) zipPath) = Some response"
    and i: "(case response of Inl why \<Rightarrow> (Inl (BadResponse why), st) | Inr r \<Rightarrow> install_response e p r st) = (res, st')"
    using assms by (auto simp: ImportCariResponse_def Let_def split: Option.bind_splits)
  show ?thesis
  proof (cases response)
    case (Inl why)
    then show ?thesis using i by auto
  next
    case (Inr r)
    obtain t csrKey where t: "ReadZip zinflate crc32 (ReadFile e (t_files st) zipPath) = Some (Inr t)"
      and k: "Option.bind (ReqFromBytes ssl (ReadFile e (t_files st) (certificateSigningRequest p))) (req_key ssl) = Some csrKey"
      and c: "check_response ssl p t csrKey = Inr r"
      using rc Inr by (auto simp: ReadCariResponse_def split: Option.bind_splits sum.splits if_splits option.splits)
    obtain cert issuers where ri: "response_for ssl t csrKey r cert issuers" using check_response_sound [OF c] by blast
    have ne: "issuers \<noteq> []" and le: "length issuers \<le> 2" and iss: "r_issuers r = map (cert_pem ssl) issuers"
      and op: "r_operationalCertificate r = cert_pem ssl cert"
      using ri by (simp_all add: response_for_def)
    have two: "r_issuers r ! 0 = cert_pem ssl (hd issuers)"
      "(if length (r_issuers r) > 1 then r_issuers r ! 1 else cert_pem ssl (hd issuers)) = cert_pem ssl (last issuers)"
      using ne le iss by (cases issuers; cases "tl issuers"; simp)+
    have inst: "install_response e p r st = (res, st')" using i Inr by simp
    note f = install_result [OF inst import_paths_distinct [of dir inst listing, folded assms(2)], unfolded two op]
    show ?thesis
    proof (cases res)
      case (Inl why)
      then show ?thesis using f by auto
    next
      case res: (Inr r')
      then have "r' = r" using f by simp
      then have g: "map_option d_bytes (t_files st' (operationalCertificate p)) = stored e (operationalCertificate p) (cert_pem ssl cert)"
        "map_option d_bytes (t_files st' (issuerCertificate1 p)) = stored e (issuerCertificate1 p) (cert_pem ssl (hd issuers))"
        "map_option d_bytes (t_files st' (issuerCertificate2 p)) = stored e (issuerCertificate2 p) (cert_pem ssl (last issuers))"
        using res f by simp_all
      show ?thesis using \<open>r' = r\<close> res f g t k ri by auto
    qed
  qed
qed

section \<open>The request is a CARI request\<close>

lemma find_token: "request_notes inst = Some (notes_before @ dec inst @ notes_after)"
proof -
  have "find_from INSTANCE_TOKEN ([] @ notes_before @ INSTANCE_TOKEN @ notes_after) (length ([] :: string))
      = Some (length ([] :: string) + length notes_before)"
    unfolding INSTANCE_TOKEN_def by (rule find_after) (simp add: notes_before_def)
  then show ?thesis by (simp add: request_notes_def REQUEST_NOTES_def)
qed

definition device_folder :: "nat \<Rightarrow> string" where
  "device_folder n = ''device-'' @ dec n"

text \<open>The folders and the files of the hub's request, by their parts.\<close>

definition hub_parts :: "nat \<Rightarrow> string list" where
  "hub_parts n = [''cert1'', device_folder n, ''port-2'']"

lemma digit_plain: "is_digit c \<Longrightarrow> c \<noteq> CHR ''/'' \<and> c \<noteq> CHR 0x5C \<and> c \<noteq> CHR '':'' \<and> \<not> control_char c"
  by (auto simp: is_digit_def control_char_def)

lemma device_folder_part:
  "safe_part (device_folder n)" "slash \<notin> set (device_folder n)" "CHR 0x5C \<notin> set (device_folder n)" "CHR '':'' \<notin> set (device_folder n)"
  using digit_plain dec_digits [of _ n] by (auto simp: device_folder_def safe_part_def list_ex_iff control_char_def)

lemma safe_word:
  "safe_part ''cert1'' \<and> safe_part ''port-2'' \<and> safe_part ''hub'' \<and> safe_part ''csr-hub.pem'' \<and> safe_part ''request-notes.txt''"
  by (simp add: safe_part_def control_char_def)

lemma hub_safe:
  "safe_parts (hub_parts n)" "safe_parts (hub_parts n @ [''hub''])" "safe_parts (hub_parts n @ [''csr-hub.pem''])"
  "safe_parts [''cert1'']" "safe_parts [''cert1'', ''request-notes.txt'']" "safe_parts [''cert1'', device_folder n]"
  using device_folder_part [of n] safe_word by (simp_all add: safe_parts_def hub_parts_def)

lemma DeviceInstance_folder: "n \<le> MAX_INSTANCE \<Longrightarrow> DeviceInstance (device_folder n) = Some n"
proof -
  assume n: "n \<le> MAX_INSTANCE"
  have "all_digits (dec n)" using dec_digits by (auto simp: all_digits_def list_all_iff)
  moreover have "length (dec n) \<le> 7" by (rule length_dec) (use n in \<open>simp_all add: MAX_INSTANCE_def\<close>)
  ultimately show ?thesis
    using n by (simp add: DeviceInstance_def device_folder_def StartsWith_def strtoul_digits_def MAX_INSTANCE_def ULONG_MAX_def Let_def)
qed

lemma last_split: "slash \<notin> set b \<Longrightarrow> b \<noteq> [] \<Longrightarrow> last (split_on slash (a @ slash # b)) = b"
proof (induction a rule: length_induct)
  case (1 a)
  show ?case
  proof (cases "slash \<in> set a")
    case False
    then show ?thesis using 1 by (simp add: split_on_Cons_part split_on_part)
  next
    case True
    then obtain q r where s: "a = q @ slash # r" "slash \<notin> set q" by (meson split_list_first)
    then have "last (split_on slash (r @ slash # b)) = b" using 1 by simp
    then show ?thesis using s by (simp add: split_on_Cons_part)
  qed
qed

lemma hub_folder: "hubPortFolder (NewHubCertPaths dir n) = join_with slash (hub_parts n)"
  by (simp add: NewHubCertPaths_def FillCari_def hub_parts_def device_folder_def HUB_PORT_ID_def)

lemma csr_path_end: "\<exists>a. certificateSigningRequest (NewHubCertPaths dir n) = a @ slash # ''csr-hub.pem''"
  by (rule exI [of _ "dir @ (if dir = [] \<or> last dir = slash then [] else ''/'') @ hubPortFolder (NewHubCertPaths dir n)"])
    (simp add: NewHubCertPaths_def FillCari_def Join_def under_def HUB_FILE_NAME_def)

lemma csr_file_name: "file_name (certificateSigningRequest (NewHubCertPaths dir n)) = ''csr-hub.pem''"
proof -
  obtain a where a: "certificateSigningRequest (NewHubCertPaths dir n) = a @ slash # ''csr-hub.pem''"
    using csr_path_end by blast
  show ?thesis unfolding file_name_def Split_def a by (rule last_split) simp_all
qed

definition hub_request :: "nat \<Rightarrow> string \<Rightarrow> string \<Rightarrow> cari_tree" where
  "hub_request n csr notes =
    AddFile (join_with slash [''cert1'', ''request-notes.txt'']) notes
      (AddFolder (join_with slash (hub_parts n @ [''hub'']))
        (AddFile (join_with slash (hub_parts n @ [''csr-hub.pem''])) csr Tree))"

lemma request_tree_hub: "request_tree_of (NewHubCertPaths dir n) csr notes = hub_request n csr notes"
proof -
  have "hub_parts n \<noteq> []" by (simp add: hub_parts_def)
  then show ?thesis by (simp add: request_tree_of_def hub_request_def csr_file_name hub_folder join_snoc)
qed

lemma hub_request_ok: "tree_ok (hub_request n csr notes)"
  unfolding hub_request_def
  by (intro AddFile_ok AddFolder_ok tree_ok_Tree path_ok_join hub_safe)
    (simp add: Split_join [OF hub_safe(2)] hub_safe(2))

lemma hub_request_files:
  "files (hub_request n csr notes) =
    [(join_with slash (hub_parts n @ [''csr-hub.pem'']), csr), (join_with slash [''cert1'', ''request-notes.txt''], notes)]"
  by (simp add: hub_request_def files_AddFile Tree_def hub_parts_def device_folder_def)

lemma parent_join: "slash \<notin> set b \<Longrightarrow> ps \<noteq> [] \<Longrightarrow> parent_path (join_with slash (ps @ [b])) = Some (join_with slash ps)"
  by (simp add: parent_path_def join_snoc dropWhile_append2) (simp add: dropWhile_append)

lemma partials_safe: "safe_parts ps \<Longrightarrow> partials [] ps = map (\<lambda>k. join_with slash (take (Suc k) ps)) [0..<length ps]"
  by (intro partials_parts safe_parts_clean)

lemma hub_request_folders:
  "set (folders (hub_request n csr notes)) =
    {join_with slash [''cert1''], join_with slash [''cert1'', device_folder n], join_with slash (hub_parts n),
     join_with slash (hub_parts n @ [''hub''])}"
proof -
  let ?t1 = "AddFile (join_with slash (hub_parts n @ [''csr-hub.pem''])) csr Tree"
  let ?t2 = "AddFolder (join_with slash (hub_parts n @ [''hub''])) ?t1"
  have ok: "tree_ok ?t1" "tree_ok ?t2"
    by (intro AddFile_ok AddFolder_ok tree_ok_Tree path_ok_join hub_safe; simp add: Split_join [OF hub_safe(2)] hub_safe(2))+
  have f: "set (folders (AddFile (join_with slash (ps @ [b])) c t)) = set (folders t) \<union> set (partials [] ps)"
    if "safe_parts ps" "slash \<notin> set b" "oset_ok (folders t)" for ps b c t
    using that by (simp add: AddFile_def parent_join safe_parts_def [of ps] set_folders_AddFolder Split_join [OF that(1)] Let_def)
  have "set (folders (hub_request n csr notes)) = set (folders ?t2) \<union> set (partials [] [''cert1''])"
    unfolding hub_request_def using f [OF hub_safe(4), of "''request-notes.txt''" ?t2 "notes"] ok(2) by (simp add: tree_ok_def)
  moreover have "set (folders ?t2) = set (folders ?t1) \<union> set (partials [] (hub_parts n @ [''hub'']))"
    using ok(1) by (simp add: set_folders_AddFolder tree_ok_def Split_join [OF hub_safe(2)])
  moreover have "set (folders ?t1) = set (partials [] (hub_parts n))"
    using f [OF hub_safe(1) [of n], of "''csr-hub.pem''" Tree csr] by (simp add: Tree_def oset_ok_def)
  ultimately show ?thesis
    by (simp add: partials_safe [OF hub_safe(1)] partials_safe [OF hub_safe(2)] partials_safe [OF hub_safe(4)]
        hub_parts_def upt_rec insert_commute Un_commute)
qed

lemma hub_splits:
  "Split (join_with slash [''cert1'']) = [''cert1'']"
  "Split (join_with slash [''cert1'', device_folder n]) = [''cert1'', device_folder n]"
  "Split (join_with slash (hub_parts n)) = hub_parts n"
  "Split (join_with slash (hub_parts n @ [''hub''])) = hub_parts n @ [''hub'']"
  "Split (join_with slash (hub_parts n @ [''csr-hub.pem''])) = hub_parts n @ [''csr-hub.pem'']"
  "Split (join_with slash [''cert1'', ''request-notes.txt'']) = [''cert1'', ''request-notes.txt'']"
  using hub_safe(1-3,6) [of n] hub_safe(4,5) by (simp_all only: Split_join)

lemma valid_words: "IsValidName ''2''" "IsValidName ''hub''" "port_name ''port-2''"
  by (simp_all add: IsValidName_def forbidden_char_def control_char_def port_name_def)

lemma hub_folder_parts:
  "Split ` set (folders (hub_request n csr notes)) =
    {[''cert1''], [''cert1'', device_folder n], [''cert1'', device_folder n, ''port-2''], [''cert1'', device_folder n, ''port-2'', ''hub'']}"
  unfolding hub_request_folders image_insert image_empty hub_splits by (simp add: hub_parts_def)

lemma hub_request_valid:
  assumes "n \<le> MAX_INSTANCE" "length csr \<le> MAX_PEM" "length notes \<le> MAX_NOTES"
  shows "Validate (hub_request n csr notes) False = Some []"
proof -
  let ?t = "hub_request n csr notes"
  have dev: "device_name (device_folder n)" using DeviceInstance_folder [OF assms(1)] by (simp add: device_name_def)
  have csr_legal: "legal_file False (hub_parts n @ [''csr-hub.pem'']) (length csr)"
    using dev valid_words(2) assms(2) unfolding legal_file_def hub_parts_def
    by (intro disjI2 exI [of _ "device_folder n"] exI [of _ "''2''"] exI [of _ "''csr-''"] exI [of _ "''hub''"]) simp
  have notes_legal: "legal_file False [''cert1'', ''request-notes.txt''] (length notes)"
    using assms(3) by (simp add: legal_file_def)
  let ?S = "Split ` set (folders ?t)"
  have "\<forall>p \<in> ?S. legal_folder False p"
    using dev valid_words(3) unfolding hub_folder_parts by (auto simp: legal_folder_def)
  moreover have "\<forall>(p, c) \<in> set (files ?t). legal_file False (Split p) (length c)"
    using csr_legal notes_legal by (simp add: hub_request_files hub_splits(5,6) del: join_with.simps)
  moreover have "[''cert1'', device_folder n] \<in> ?S" "[''cert1'', device_folder n, ''port-2''] \<in> ?S"
    unfolding hub_folder_parts by simp_all
  moreover have "dev = device_folder n" if "[''cert1'', dev] \<in> ?S" for dev
    using that unfolding hub_folder_parts by simp
  ultimately have "cari_valid ?t False"
    using dev valid_words(3) unfolding cari_valid_def image_iff by (metis (no_types, lifting) image_eqI)
  moreover have "\<forall>f \<in> set (folders ?t). f \<noteq> []" "\<forall>(p, c) \<in> set (files ?t). p \<noteq> []"
    using hub_request_ok [of n csr "notes"] by (auto simp: tree_ok_def file_ok_def path_ok_def IsSafeZipPath_def)
  ultimately show ?thesis using Validate_iff [of ?t False] by auto
qed

lemma hub_request_csrs:
  assumes "n \<le> MAX_INSTANCE"
  shows "ListCsrs (hub_request n csr notes) =
    [\<lparr>deviceFolder = device_folder n, deviceInstance = n, portFolder = ''port-2'', csr_name = ''hub'',
      csrPath = join_with slash (hub_parts n @ [''csr-hub.pem'']),
      oprPath = join_with slash (hub_parts n) @ ''/opr-hub.pem'', keyPath = [], isHubPort = True, isRouter = False\<rparr>]"
proof -
  let ?t = "hub_request n csr notes"
  have name: "FileName ''csr-hub.pem'' ''csr-'' = Some ''hub''"
    by (simp add: FileName_iff valid_words(2))
  have port: "''cert1/'' @ device_folder n @ ''/'' @ ''port-2'' = join_with slash (hub_parts n)"
    by (simp add: hub_parts_def)
  have nokey: "\<not> Has ?t (join_with slash (hub_parts n) @ ''/key-'' @ ''hub'' @ ''.pem'')"
    by (simp add: Has_def omap_has_def hub_request_files hub_parts_def device_folder_def)
  have hub: "join_with slash (hub_parts n) @ ''/hub'' \<in> set (folders ?t)"
  proof -
    have "join_with slash (hub_parts n) @ ''/hub'' = join_with slash (hub_parts n @ [''hub''])"
      by (simp add: join_snoc hub_parts_def)
    then show ?thesis unfolding hub_request_folders by blast
  qed
  have router: "''cert1/'' @ device_folder n @ ''/router'' \<notin> set (folders ?t)"
    unfolding hub_request_folders by (simp add: hub_parts_def device_folder_def)
  have entry: "csr_of ?t (join_with slash (hub_parts n @ [''csr-hub.pem''])) = Some
    \<lparr>deviceFolder = device_folder n, deviceInstance = n, portFolder = ''port-2'', csr_name = ''hub'',
      csrPath = join_with slash (hub_parts n @ [''csr-hub.pem'']),
      oprPath = join_with slash (hub_parts n) @ ''/opr-hub.pem'', keyPath = [], isHubPort = True, isRouter = False\<rparr>"
    unfolding csr_of_def hub_splits(5)
    using name DeviceInstance_folder [OF assms] nokey hub router
    by (simp add: hub_parts_def Let_def StartsWith_def del: join_with.simps)
       (simp add: hub_parts_def)
  have "csr_of ?t (join_with slash [''cert1'', ''request-notes.txt'']) = None"
    unfolding csr_of_def hub_splits(6) by simp
  then show ?thesis using entry by (simp add: ListCsrs_def hub_request_files List.map_filter_def del: join_with.simps)
qed

lemma notes_fit: "n \<le> MAX_INSTANCE \<Longrightarrow> length (notes_before @ dec n @ notes_after) \<le> MAX_NOTES"
  using length_dec [of 7 n] by (simp add: notes_before_def notes_after_def MAX_NOTES_def MAX_INSTANCE_def)

lemma hub_request_lengths:
  assumes "n \<le> MAX_INSTANCE"
  shows "f \<in> set (folders (hub_request n csr notes)) \<Longrightarrow> length f < 65535"
    "q \<in> fst ` set (files (hub_request n csr notes)) \<Longrightarrow> length q < 65536"
proof -
  have "length (device_folder n) \<le> 14"
    using length_dec [of 7 n] assms by (simp add: device_folder_def MAX_INSTANCE_def)
  then show "f \<in> set (folders (hub_request n csr notes)) \<Longrightarrow> length f < 65535"
    "q \<in> fst ` set (files (hub_request n csr notes)) \<Longrightarrow> length q < 65536"
    unfolding hub_request_folders hub_request_files by (auto simp: hub_parts_def)
qed

lemma hub_request_count: "length (folders (hub_request n csr notes)) \<le> 4"
proof -
  let ?fs = "folders (hub_request n csr notes)"
  have "distinct ?fs" using hub_request_ok [of n csr "notes"] by (auto simp: tree_ok_def oset_ok_def strict_sorted_iff)
  then have "length ?fs = card (set ?fs)" by (simp add: distinct_card)
  also have "set ?fs = set [join_with slash [''cert1''], join_with slash [''cert1'', device_folder n],
      join_with slash (hub_parts n), join_with slash (hub_parts n @ [''hub''])]"
    unfolding hub_request_folders by (simp del: join_with.simps)
  also have "card \<dots> \<le> length [join_with slash [''cert1''], join_with slash [''cert1'', device_folder n],
      join_with slash (hub_parts n), join_with slash (hub_parts n @ [''hub''])]"
    by (rule card_length)
  finally show ?thesis by (simp del: join_with.simps)
qed

lemma hub_request_zip:
  assumes "disk_exists d (certificateSigningRequest p)" "p = NewHubCertPaths dir n"
    "csr = ReadFile e d (certificateSigningRequest p)" "ReqFromBytes ssl csr \<noteq> None"
  shows "HubRequestZip e ssl deflate crc32 now p d =
    Some (Inr (WriteZip deflate crc32 now (hub_request n csr (notes_before @ dec n @ notes_after))))"
proof -
  have "folderDeviceInstance p = n" by (simp add: assms(2) NewHubCertPaths_def FillCari_def)
  moreover have "request_tree_of p csr x = hub_request n csr x" for x by (simp add: assms(2) request_tree_hub)
  ultimately show ?thesis
    using assms(1,4) unfolding HubRequestZip_def Let_def assms(3) [symmetric] by (simp add: find_token)
qed

lemma hub_request_reads:
  assumes "n \<le> MAX_INSTANCE" "length csr \<le> MAX_PEM" "length notes \<le> MAX_NOTES" "zlib_inverse zinflate deflate"
    "length (WriteZip deflate crc32 now (hub_request n csr notes)) \<le> MAX_ZIP_BYTES"
  shows "ReadZip zinflate crc32 (WriteZip deflate crc32 now (hub_request n csr notes)) = Some (Inr (hub_request n csr notes))"
proof (rule ReadZip_WriteZip [OF hub_request_ok _ _ _ _ _ assms(5,4)])
  have "set (folders (hub_request n csr notes)) \<noteq> {}" unfolding hub_request_folders by (rule insert_not_empty)
  then show "folders (hub_request n csr notes) \<noteq> []" by (metis list.set(1))
  show "\<forall>f \<in> set (folders (hub_request n csr notes)). length f < 65535"
    "\<forall>q \<in> fst ` set (files (hub_request n csr notes)). length q < 65536"
    using hub_request_lengths [OF assms(1)] by blast+
  show "length (folders (hub_request n csr notes)) + length (files (hub_request n csr notes)) \<le> MAX_ENTRIES"
    using hub_request_count [of n csr "notes"] by (simp add: hub_request_files MAX_ENTRIES_def del: join_with.simps)
  show "unpacked (hub_request n csr notes) \<le> MAX_TOTAL_UNCOMPRESSED"
    using assms(2,3)
    by (simp add: unpacked_def hub_request_files MAX_TOTAL_UNCOMPRESSED_def MAX_PEM_def MAX_NOTES_def del: join_with.simps)
qed

text \<open>The request the hub makes for a new set is one its Certificate Authority can use: its
  zip reads back, it validates as a CARI request, it holds the signing request and the notes and nothing
  else, no key in particular, and the one request a tool lists in it is the hub's, marked as a hub port,
  answered exactly where the import looks first.\<close>

theorem hub_request_is_valid_cari:
  assumes "n \<le> 4194302" "p = NewHubCertPaths dir n" "disk_exists d (certificateSigningRequest p)"
    "csr = ReadFile e d (certificateSigningRequest p)" "ReqFromBytes ssl csr \<noteq> None" "length csr \<le> 65536"
    "zlib_inverse zinflate deflate"
  shows "\<exists>z t. HubRequestZip e ssl deflate crc32 now p d = Some (Inr z) \<and>
    (length z \<le> MAX_ZIP_BYTES \<longrightarrow> ReadZip zinflate crc32 z = Some (Inr t)) \<and>
    Validate t False = Some [] \<and> map fst (files t) = [hubPortFolder p @ ''/csr-hub.pem'', ''cert1/request-notes.txt''] \<and>
    map_of (files t) (hubPortFolder p @ ''/csr-hub.pem'') = Some csr \<and>
    (\<exists>r. ListCsrs t = [r] \<and> csrPath r = hubPortFolder p @ ''/csr-hub.pem'' \<and> oprPath r = own_certificate p \<and>
      isHubPort r \<and> deviceInstance r = n)"
proof -
  let ?notes = "notes_before @ dec n @ notes_after"
  let ?t = "hub_request n csr ?notes"
  have n: "n \<le> MAX_INSTANCE" and len: "length csr \<le> MAX_PEM" using assms(1,6) by (simp_all add: MAX_INSTANCE_def MAX_PEM_def)
  have parts: "hubPortFolder p @ ''/csr-hub.pem'' = join_with slash (hub_parts n @ [''csr-hub.pem''])"
    by (simp add: assms(2) hub_folder join_snoc hub_parts_def)
  have f: "map fst (files ?t) = [hubPortFolder p @ ''/csr-hub.pem'', ''cert1/request-notes.txt'']"
    "map_of (files ?t) (hubPortFolder p @ ''/csr-hub.pem'') = Some csr"
    unfolding parts by (simp_all add: hub_request_files)
  have c: "\<exists>r. ListCsrs ?t = [r] \<and> csrPath r = hubPortFolder p @ ''/csr-hub.pem'' \<and> oprPath r = own_certificate p \<and>
      isHubPort r \<and> deviceInstance r = n"
    unfolding hub_request_csrs [OF n] parts by (simp add: own_certificate_def assms(2) hub_folder hub_parts_def)
  then obtain r where r: "ListCsrs ?t = [r]" "csrPath r = hubPortFolder p @ ''/csr-hub.pem''" "oprPath r = own_certificate p"
      "isHubPort r" "deviceInstance r = n" by blast
  show ?thesis
  proof (intro exI conjI)
    show "HubRequestZip e ssl deflate crc32 now p d = Some (Inr (WriteZip deflate crc32 now ?t))"
      by (rule hub_request_zip [OF assms(3,2,4,5)])
    show "length (WriteZip deflate crc32 now ?t) \<le> MAX_ZIP_BYTES \<longrightarrow> ReadZip zinflate crc32 (WriteZip deflate crc32 now ?t) = Some (Inr ?t)"
      using hub_request_reads [OF n len notes_fit [OF n] assms(7)] by blast
    show "Validate ?t False = Some []" by (rule hub_request_valid [OF n len notes_fit [OF n]])
  qed (rule f r)+
qed

section \<open>Concrete instances\<close>

text \<open>A toy cryptography: a certificate or a key is a character, a request the key it is for, and
  a certificate is signed by the issuer that is the letter z.\<close>

definition toy_ssl :: "(char, char, char, unit) tool_ssl" where
  "toy_ssl = \<lparr>pem_cert = (\<lambda>s. case s of c # _ \<Rightarrow> Some c | [] \<Rightarrow> None), der_cert = (\<lambda>_. None),
    pem_req = (\<lambda>s. case s of c # _ \<Rightarrow> Some c | [] \<Rightarrow> None), der_req = (\<lambda>_. None), cert_key = (\<lambda>c. c),
    req_key = Some, same_key = (=), expired = (\<lambda>_. False), check_issued = (\<lambda>i c. i = CHR ''z''),
    signed_with = (\<lambda>c k. k = CHR ''z''), cert_pem = (\<lambda>c. [c]), subject_text = (\<lambda>c. [c]), issuer_text = (\<lambda>c. [c]),
    not_after = (\<lambda>_. None), sha256 = (\<lambda>_. []), ec_gen = Some (CHR ''k''), key_pem = (\<lambda>k. [k]), req_pem = (\<lambda>q. [q]),
    req_new = Some (CHR ''k''), add_cn = (\<lambda>q _. q), set_pubkey = (\<lambda>q k. k), san_extension = (\<lambda>_ _. Some ()),
    eku_extension = (\<lambda>_ _. Some ()), add_extensions = (\<lambda>q _. Some q), sign_req = (\<lambda>q _. Some q)\<rparr>"

definition toy_os :: tool_os where
  "toy_os = \<lparr>opens_for_reading = (\<lambda>_. True), stored = (\<lambda>_ b. Some b), gethostname = None, absolute_path = (\<lambda>p. ''/w/'' @ p),
    tool_clock = 0\<rparr>"

lemma new_12: "certificateSigningRequest (NewHubCertPaths ''c'' 12) = ''c/cert1/device-12/port-2/csr-hub.pem''"
  by (simp add: NewHubCertPaths_def FillCari_def Join_def under_def HUB_FILE_NAME_def HUB_PORT_ID_def dec.simps digit_chars)

lemma hub_request_is_valid_cari_witness:
  "\<exists>z t. HubRequestZip toy_os toy_ssl (\<lambda>s. s) length_crc example_now (NewHubCertPaths ''c'' 12)
      [''c/cert1/device-12/port-2/csr-hub.pem'' \<mapsto> disk_text ''k''] = Some (Inr z) \<and> Validate t False = Some []"
proof -
  have "\<exists>z t. HubRequestZip toy_os toy_ssl (\<lambda>s. s) length_crc example_now (NewHubCertPaths ''c'' 12)
      [''c/cert1/device-12/port-2/csr-hub.pem'' \<mapsto> disk_text ''k''] = Some (Inr z) \<and>
    (length z \<le> MAX_ZIP_BYTES \<longrightarrow> ReadZip stored_inflate length_crc z = Some (Inr t)) \<and>
    Validate t False = Some [] \<and> map fst (files t) = [hubPortFolder (NewHubCertPaths ''c'' 12) @ ''/csr-hub.pem'', ''cert1/request-notes.txt''] \<and>
    map_of (files t) (hubPortFolder (NewHubCertPaths ''c'' 12) @ ''/csr-hub.pem'') = Some ''k'' \<and>
    (\<exists>r. ListCsrs t = [r] \<and> csrPath r = hubPortFolder (NewHubCertPaths ''c'' 12) @ ''/csr-hub.pem'' \<and>
      oprPath r = own_certificate (NewHubCertPaths ''c'' 12) \<and> isHubPort r \<and> deviceInstance r = 12)"
    by (rule hub_request_is_valid_cari [OF _ refl _ _ _ _ stored_inverse])
      (simp_all add: new_12 disk_exists_def ReadFile_def toy_os_def disk_text_def ReqFromBytes_def toy_ssl_def)
  then show ?thesis by blast
qed

lemma ensure_request_keeps_keys_witness:
  "\<exists>st'. EnsureHubRequest toy_os toy_ssl (\<lambda>s. s) length_crc example_now None None ''c'' 12 ''hub'' ''wss://h''
      \<lparr>t_files = [''/w/c/hub-cari-request.zip'' \<mapsto> disk_text ''sent''], t_folders = []\<rparr> =
    Some (AlreadyExists, ZipAlreadyExists ''/w/c/hub-cari-request.zip'', st') \<and> t_files st' ''/w/c/hub-cari-request.zip'' = Some (disk_text ''sent'')"
proof -
  let ?st = "\<lparr>t_files = [''/w/c/hub-cari-request.zip'' \<mapsto> disk_text ''sent''], t_folders = []\<rparr>"
  have z: "absolute_path toy_os (Join ''c'' HUB_REQUEST_ZIP) = ''/w/c/hub-cari-request.zip''"
    by (simp add: toy_os_def Join_def under_def HUB_REQUEST_ZIP_def)
  have run: "EnsureHubRequest toy_os toy_ssl (\<lambda>s. s) length_crc example_now None None ''c'' 12 ''hub'' ''wss://h'' ?st =
      Some (AlreadyExists, ZipAlreadyExists ''/w/c/hub-cari-request.zip'', ?st)"
    by (simp add: EnsureHubRequest_def Let_def z disk_exists_def)
  have "''/w/c/hub-cari-request.zip'' \<notin> set (all_paths (ResolveHubCertPaths ''c'' 12 None))"
    by (simp add: ResolveHubCertPaths_def NewHubCertPaths_def FillCari_def all_paths_def Join_def under_def)
  then have "\<forall>q. disk_exists (t_files ?st) q \<longrightarrow> t_files ?st q = t_files ?st q"
    using ensure_request_keeps_keys [OF run refl z [symmetric]] by blast
  then show ?thesis using run by simp
qed

definition toy_response :: cari_tree where
  "toy_response = \<lparr>files = [(''cert1/issuer/iss-1.pem'', ''z''), (''cert1/opr-a.pem'', ''k'')],
    folders = [''cert1'', ''cert1/issuer'']\<rparr>"

definition toy_zip :: string where
  "toy_zip = WriteZip (\<lambda>s. s) length_crc example_now toy_response"

lemma toy_response_ok: "tree_ok toy_response"
proof -
  have parts: "Split ''cert1'' = [''cert1'']" "Split ''cert1/issuer'' = [''cert1'', ''issuer'']"
    by (simp_all add: Split_def)
  have paths: "path_ok ''cert1''" "path_ok ''cert1/issuer''" "path_ok ''cert1/opr-a.pem''" "path_ok ''cert1/issuer/iss-1.pem''"
    by (simp_all add: path_ok_def IsSafeZipPath_def safe_part_def control_char_def)
  have parents: "parent_path ''cert1/opr-a.pem'' = Some ''cert1''" "parent_path ''cert1/issuer/iss-1.pem'' = Some ''cert1/issuer''"
    by (simp_all add: parent_path_def)
  show ?thesis
    by (simp add: tree_ok_def toy_response_def file_ok_def parts paths parents parents_in_def oset_ok_def)
qed

lemma toy_zip_reads: "ReadZip stored_inflate length_crc toy_zip = Some (Inr toy_response)"
proof -
  have entries: "tree_entries toy_response =
      [\<lparr>e_name = ''cert1/'', e_data = []\<rparr>, \<lparr>e_name = ''cert1/issuer/'', e_data = []\<rparr>,
       \<lparr>e_name = ''cert1/issuer/iss-1.pem'', e_data = ''z''\<rparr>, \<lparr>e_name = ''cert1/opr-a.pem'', e_data = ''k''\<rparr>]"
    by (simp add: tree_entries_def toy_response_def)
  have "length (WriteZip (\<lambda>s. s) length_crc example_now toy_response) \<le> MAX_ZIP_BYTES"
    by (simp add: WriteZip_def entries entry_body_def entry_is_folder_def MAX_ZIP_BYTES_def)
  then show ?thesis
    unfolding toy_zip_def using toy_response_ok stored_inverse
    by (intro ReadZip_WriteZip) (simp_all add: toy_response_def unpacked_def MAX_ENTRIES_def MAX_TOTAL_UNCOMPRESSED_def)
qed

definition toy_state :: tool_state where
  "toy_state = \<lparr>t_files = [''r.zip'' \<mapsto> disk_text toy_zip, ''c/cert1/device-12/port-2/csr-hub.pem'' \<mapsto> disk_text ''k''],
    t_folders = []\<rparr>"

lemma toy_import:
  "\<exists>r st'. ImportCariResponse toy_os toy_ssl stored_inflate length_crc None ''c'' 12 ''r.zip'' toy_state = Some (Inr r, st')"
proof -
  let ?p = "NewHubCertPaths ''c'' 12"
  have own: "own_certificate ?p = ''cert1/device-12/port-2/opr-hub.pem''"
    by (simp add: own_certificate_def NewHubCertPaths_def FillCari_def HUB_PORT_ID_def dec.simps digit_chars)
  have base: "BaseName ''cert1/opr-a.pem'' = ''opr-a.pem''" "BaseName ''cert1/issuer/iss-1.pem'' = ''iss-1.pem''"
    by (simp_all add: BaseName_def)
  have cand: "candidates (own_certificate ?p) toy_response = [''cert1/opr-a.pem'']"
    by (simp add: candidates_def own Has_def omap_has_def toy_response_def base StartsWith_def)
  have op: "find_operational toy_ssl toy_response (CHR ''k'') [''cert1/opr-a.pem''] = Some (CHR ''k'', ''cert1/opr-a.pem'')"
    by (simp add: toy_response_def CertFromBytes_def toy_ssl_def)
  have iss: "check_issuers toy_ssl toy_response (CHR ''k'') = Inr ''z''"
    by (simp add: check_issuers_def toy_response_def base StartsWith_def CertFromBytes_def toy_ssl_def signer_first_def signed_by_def)
  have live: "\<not> expired toy_ssl (CHR ''k'')" by (simp add: toy_ssl_def)
  obtain r where r: "check_response toy_ssl ?p toy_response (CHR ''k'') = Inr r" "r_issuers r = [''z'']"
  proof -
    have "cert_pem toy_ssl (CHR ''z'') = ''z''" by (simp add: toy_ssl_def)
    then show ?thesis using iss that by (simp add: check_response_def cand op live Let_def del: find_operational.simps)
  qed
  have st: "disk_exists (t_files toy_state) ''r.zip''" "ReadFile toy_os (t_files toy_state) ''r.zip'' = toy_zip"
    "disk_exists (t_files toy_state) ''c/cert1/device-12/port-2/csr-hub.pem''"
    "ReadFile toy_os (t_files toy_state) ''c/cert1/device-12/port-2/csr-hub.pem'' = ''k''" "opens_for_reading toy_os ''r.zip''"
    by (simp_all add: disk_exists_def toy_state_def ReadFile_def toy_os_def disk_text_def)
  have "Option.bind (ReqFromBytes toy_ssl ''k'') (req_key toy_ssl) = Some (CHR ''k'')" by (simp add: ReqFromBytes_def toy_ssl_def)
  then have "ReadCariResponse toy_os toy_ssl stored_inflate length_crc ?p (t_files toy_state) toy_zip = Some (Inr r)"
    using r st by (simp add: ReadCariResponse_def toy_zip_reads new_12)
  then show ?thesis
  proof -
    have w: "stored toy_os q b = Some b" for q b by (simp add: toy_os_def)
    show ?thesis
      using st \<open>ReadCariResponse _ _ _ _ _ _ _ = _\<close>
      by (simp add: ImportCariResponse_def ResolveHubCertPaths_def Let_def install_response_def tool_WriteFile_def w)
  qed
qed

lemma import_installs_only_own_witness:
  "\<exists>r st' cert issuers. ImportCariResponse toy_os toy_ssl stored_inflate length_crc None ''c'' 12 ''r.zip'' toy_state = Some (Inr r, st') \<and>
    response_for toy_ssl toy_response (CHR ''k'') r cert issuers"
proof -
  obtain r st' where i: "ImportCariResponse toy_os toy_ssl stored_inflate length_crc None ''c'' 12 ''r.zip'' toy_state = Some (Inr r, st')"
    using toy_import by blast
  have st: "ReadFile toy_os (t_files toy_state) ''r.zip'' = toy_zip"
    "ReadFile toy_os (t_files toy_state) ''c/cert1/device-12/port-2/csr-hub.pem'' = ''k''"
    by (simp_all add: toy_state_def ReadFile_def toy_os_def disk_text_def)
  have p: "ResolveHubCertPaths ''c'' 12 None = NewHubCertPaths ''c'' 12" by (simp add: ResolveHubCertPaths_def)
  have k: "Option.bind (ReqFromBytes toy_ssl ''k'') (req_key toy_ssl) = Some (CHR ''k'')" by (simp add: ReqFromBytes_def toy_ssl_def)
  obtain t csrKey cert issuers where "ReadZip stored_inflate length_crc toy_zip = Some (Inr t)"
    "Option.bind (ReqFromBytes toy_ssl ''k'') (req_key toy_ssl) = Some csrKey" "response_for toy_ssl t csrKey r cert issuers"
    using import_installs_only_own [OF i p [symmetric]] unfolding new_12 st by auto
  then show ?thesis using i k toy_zip_reads by auto
qed

end
