(* ===== verification/Sc_Text.thy ===== *)
theory Sc_Text
  imports Text_Util
begin

text \<open>
  The pure helpers of \<^verbatim>\<open>src/sc_transport/ScTransport.cpp\<close> and
  \<^verbatim>\<open>LogSafe.h\<close>: \<^verbatim>\<open>wss://\<close> URIs, the subprotocol list of a WebSocket
  request, addresses as text, the header walk that finds the payload of a BVLC-SC message, and the
  text a peer chose made safe for a log line.
\<close>

unbundle bit_operations_syntax

section \<open>strtol\<close>

definition is_space :: "char \<Rightarrow> bool" where
  "is_space c \<longleftrightarrow> (of_char c :: nat) = 32 \<or> 9 \<le> (of_char c :: nat) \<and> (of_char c :: nat) \<le> 13"

text \<open>The characters of a \<^verbatim>\<open>std::string\<close> that its \<^verbatim>\<open>c_str()\<close> shows to a C
  function.\<close>

definition c_str :: "string \<Rightarrow> string" where
  "c_str s = takeWhile (\<lambda>c. c \<noteq> CHR 0x00) s"

definition LONG_MAX :: int where
  "LONG_MAX = 9223372036854775807"

text \<open>\<^verbatim>\<open>strtol(s, &end, 10)\<close>: the value and what is left of the string at
  \<^verbatim>\<open>end\<close>, the whole string when there is no number.\<close>

definition strtol :: "string \<Rightarrow> int \<times> string" where
  "strtol s =
    (let t = dropWhile is_space s;
         neg = (take 1 t = ''-'');
         u = (if take 1 t = ''-'' \<or> take 1 t = ''+'' then drop 1 t else t);
         ds = takeWhile is_digit u;
         v = int (digits_val ds)
     in if ds = [] then (0, s)
        else (if neg then max (- LONG_MAX - 1) (- v) else min LONG_MAX v, dropWhile is_digit u))"

section \<open>URIs and subprotocols\<close>

definition ParseWssUri :: "string \<Rightarrow> (string \<times> nat \<times> string) option" where
  "ParseWssUri uri =
    (if \<not> StartsWith uri ''wss://'' then None else
     let tail = drop 6 uri;
         authority = takeWhile (\<lambda>c. c \<noteq> CHR ''/'') tail;
         path = (if CHR ''/'' \<in> set tail then dropWhile (\<lambda>c. c \<noteq> CHR ''/'') tail else ''/'') in
     if authority = [] then None else
     if CHR '':'' \<notin> set authority then None else
     let portStr = rev (takeWhile (\<lambda>c. c \<noteq> CHR '':'') (rev authority));
         host = rev (drop 1 (dropWhile (\<lambda>c. c \<noteq> CHR '':'') (rev authority))) in
     if portStr = [] then None else
     let (port, e) = strtol (c_str portStr) in
     if e = c_str portStr \<or> e \<noteq> [] \<or> port \<le> 0 \<or> port > 65535 then None
     else Some (host, nat port, path))"

definition is_blank :: "char \<Rightarrow> bool" where
  "is_blank c \<longleftrightarrow> c = CHR '' '' \<or> c = CHR 0x09"

text \<open>\<^verbatim>\<open>find_first_not_of\<close> and \<^verbatim>\<open>find_last_not_of\<close>; a token of blanks only
  gives the empty string.\<close>

definition trim :: "string \<Rightarrow> string" where
  "trim s = rev (dropWhile is_blank (rev (dropWhile is_blank s)))"

function scan_tokens :: "string \<Rightarrow> string \<Rightarrow> bool" where
  "scan_tokens wanted lst =
    (let token = trim (takeWhile (\<lambda>c. c \<noteq> CHR '','') lst) in
     if token \<noteq> [] \<and> token = wanted then True
     else (case dropWhile (\<lambda>c. c \<noteq> CHR '','') lst of
             [] \<Rightarrow> False
           | _ # more \<Rightarrow> scan_tokens wanted more))"
  by pat_completeness auto
termination
proof (relation "measure (\<lambda>(_, s). length s)")
  fix wanted lst x y xs
  assume "dropWhile (\<lambda>c. c \<noteq> CHR '','') lst = y # xs"
  then show "((wanted, xs), wanted, lst) \<in> measure (\<lambda>(_, s). length s)"
    using length_dropWhile_le [of "\<lambda>c. c \<noteq> CHR '','' " lst] by auto
qed simp

declare scan_tokens.simps [simp del]

definition SubprotocolListContains :: "string option \<Rightarrow> string \<Rightarrow> bool" where
  "SubprotocolListContains headerValue wanted =
    (case headerValue of None \<Rightarrow> False | Some lst \<Rightarrow> scan_tokens wanted lst)"

section \<open>Addresses\<close>

text \<open>What \<^verbatim>\<open>getpeername\<close> reports.\<close>

datatype peer_sockaddr = Inet nat | Inet6 nat | OtherFamily

text \<open>The text \<^verbatim>\<open>lws_get_peer_simple\<close> wrote and the socket's peer, or
  \<^verbatim>\<open>None\<close> when \<^verbatim>\<open>getpeername\<close> fails.\<close>

definition PeerAddressPort :: "string \<Rightarrow> peer_sockaddr option \<Rightarrow> string" where
  "PeerAddressPort simple peer =
    (let looksLikeAddress = (simple \<noteq> [] \<and> (is_digit (hd simple) \<or> hd simple = CHR '':''));
         ip = (if looksLikeAddress then simple else ''?'');
         port = (case peer of Some (Inet p) \<Rightarrow> p | Some (Inet6 p) \<Rightarrow> p | _ \<Rightarrow> 0)
     in if port \<noteq> 0 then append_bounded 80 [] (ip @ '':'' @ dec port)
        else append_bounded 80 [] (ip @ '':?''))"

text \<open>\<^verbatim>\<open>inet_ntop\<close>'s text for an IPv4 or IPv6 address, empty for any other family.\<close>

definition AddressFromSockaddr :: "string \<Rightarrow> string" where
  "AddressFromSockaddr ntop =
    (let result = (if StartsWith ntop ''::ffff:'' \<and> CHR ''.'' \<in> set ntop then drop 7 ntop else ntop)
     in if result = [] then ''?'' else result)"

section \<open>BVLC-SC header\<close>

text \<open>One header option list.  The outer \<^verbatim>\<open>None\<close> is a read outside the data, the inner one
  the \<^verbatim>\<open>return 0\<close> for a malformed header.\<close>

function option_list :: "bytes \<Rightarrow> nat \<Rightarrow> nat \<Rightarrow> nat option option" where
  "option_list data len offset =
    (if offset \<ge> len then Some None else do {
      marker \<leftarrow> rd data offset;
      let more = (marker AND 0x80 \<noteq> 0);
      let offset = offset + 1;
      if marker AND 0x20 \<noteq> 0 then
        (if offset + 2 > len then Some None else do {
          hi \<leftarrow> rd data offset;
          lo \<leftarrow> rd data (offset + 1);
          let offset = offset + 2 + (256 * unat hi + unat lo);
          if more then option_list data len offset else Some (Some offset)
        })
      else if more then option_list data len offset else Some (Some offset)
    })"
  by pat_completeness auto
termination by (relation "measure (\<lambda>(_, len, offset). len - offset)") auto

declare option_list.simps [simp del]

definition option_part :: "bool \<Rightarrow> bytes \<Rightarrow> nat \<Rightarrow> nat \<Rightarrow> nat option option" where
  "option_part present data len offset =
    (if present then option_list data len offset else Some (Some offset))"

definition fixed_part :: "u8 \<Rightarrow> nat" where
  "fixed_part flags =
    4 + (if flags AND 0x08 \<noteq> 0 then 6 else 0) + (if flags AND 0x04 \<noteq> 0 then 6 else 0)"

definition BvlcPayloadOffset :: "bytes \<Rightarrow> nat \<Rightarrow> nat option" where
  "BvlcPayloadOffset data len =
    (if len < 4 then Some 0 else do {
      flags \<leftarrow> rd data 1;
      dest \<leftarrow> option_part (flags AND 0x02 \<noteq> 0) data len (fixed_part flags);
      case dest of None \<Rightarrow> Some 0 | Some offset \<Rightarrow> do {
        last \<leftarrow> option_part (flags AND 0x01 \<noteq> 0) data len offset;
        case last of None \<Rightarrow> Some 0
        | Some offset \<Rightarrow> Some (if offset \<le> len then offset else 0)
      }
    })"

definition hex2_lower :: "u8 \<Rightarrow> string" where
  "hex2_lower b =
    (let d = (\<lambda>n. char_of (if n < 10 then 48 + n else 87 + n :: nat)) in
     [d (unat b div 16), d (unat b mod 16)])"

text \<open>\<^verbatim>\<open>HexBytes(data + at, len, separator)\<close>.\<close>

fun hex_from :: "bytes \<Rightarrow> nat \<Rightarrow> nat \<Rightarrow> string \<Rightarrow> string option" where
  "hex_from data at 0 separator = Some []"
| "hex_from data at (Suc n) separator = do {
    b \<leftarrow> rd data at;
    more \<leftarrow> hex_from data (at + 1) n separator;
    Some ((if n = 0 then hex2_lower b else hex2_lower b @ separator) @ more)
  }"

definition HexBytes :: "bytes \<Rightarrow> nat \<Rightarrow> nat \<Rightarrow> string \<Rightarrow> string option" where
  "HexBytes data at len separator = hex_from data at len separator"

definition FormatUuid :: "bytes \<Rightarrow> nat \<Rightarrow> string option" where
  "FormatUuid data at = do {
    a \<leftarrow> HexBytes data at 4 [];
    b \<leftarrow> HexBytes data (at + 4) 2 [];
    c \<leftarrow> HexBytes data (at + 6) 2 [];
    d \<leftarrow> HexBytes data (at + 8) 2 [];
    e \<leftarrow> HexBytes data (at + 10) 6 [];
    Some (a @ ''-'' @ b @ ''-'' @ c @ ''-'' @ d @ ''-'' @ e)
  }"

section \<open>Log lines and files\<close>

definition is_control :: "char \<Rightarrow> bool" where
  "is_control c \<longleftrightarrow> (of_char c :: nat) < 32 \<or> (of_char c :: nat) = 127"

fun safe_from :: "nat \<Rightarrow> string \<Rightarrow> string \<Rightarrow> string" where
  "safe_from maxBytes out [] = out"
| "safe_from maxBytes out (ch # rest) =
    (if length out \<ge> maxBytes then out @ ''...''
     else safe_from maxBytes
       (out @ (if is_control ch then CHR 0x5c # CHR ''x'' # hex2_lower (of_char ch) else [ch])) rest)"

definition SafeForLog :: "string \<Rightarrow> nat \<Rightarrow> string" where
  "SafeForLog t maxBytes = safe_from maxBytes [] t"

record tls_files =
  certPath :: string
  keyPath :: string
  caCertPath :: string
  crlPath :: string

definition FileReadable :: "(string \<Rightarrow> bool) \<Rightarrow> string \<Rightarrow> bool" where
  "FileReadable opens path \<longleftrightarrow> (if path = [] then False else opens path)"

definition DescribeMissingTlsFiles :: "(string \<Rightarrow> bool) \<Rightarrow> tls_files \<Rightarrow> string" where
  "DescribeMissingTlsFiles opens tls =
    (let q = [CHR 0x22];
         r1 = (if \<not> FileReadable opens (certPath tls) then ''cert='' @ q @ certPath tls @ q else []);
         r2 = (if \<not> FileReadable opens (keyPath tls)
               then r1 @ (if r1 \<noteq> [] then '', '' else []) @ ''key='' @ q @ keyPath tls @ q else r1)
     in if \<not> FileReadable opens (caCertPath tls)
        then r2 @ (if r2 \<noteq> [] then '', '' else []) @ ''ca='' @ q @ caCertPath tls @ q else r2)"

lemma no_missing_files:
  "DescribeMissingTlsFiles opens tls = [] \<longleftrightarrow>
    FileReadable opens (certPath tls) \<and> FileReadable opens (keyPath tls) \<and>
    FileReadable opens (caCertPath tls)"
  by (simp add: DescribeMissingTlsFiles_def Let_def)

section \<open>URIs: parsing what was written\<close>

lemma digit_not_space: "is_digit c \<Longrightarrow> \<not> is_space c"
  by (simp add: is_digit_def is_space_def)

lemma digit_not_sign: "is_digit c \<Longrightarrow> c \<noteq> CHR ''-'' \<and> c \<noteq> CHR ''+'' \<and> c \<noteq> CHR '':'' \<and> c \<noteq> CHR ''/'' \<and> c \<noteq> CHR 0x00"
  by (auto simp: is_digit_def)

lemma strtol_digits:
  assumes "ds \<noteq> []" "\<forall>c \<in> set ds. is_digit c" "int (digits_val ds) \<le> LONG_MAX"
  shows "strtol ds = (int (digits_val ds), [])"
proof -
  have sp: "dropWhile is_space ds = ds"
    using assms digit_not_space by (cases ds) auto
  have sg: "take 1 ds \<noteq> ''-''" "take 1 ds \<noteq> ''+''"
    using assms digit_not_sign by (cases ds; auto)+
  have tw: "takeWhile is_digit ds = ds" "dropWhile is_digit ds = []"
    using assms(2) by (auto simp: takeWhile_eq_all_conv dropWhile_eq_Nil_conv)
  show ?thesis
    using assms sg by (simp add: strtol_def sp tw Let_def)
qed

lemma c_str_id: "CHR 0x00 \<notin> set s \<Longrightarrow> c_str s = s"
  by (auto simp: c_str_def takeWhile_eq_all_conv)

lemma strtol_dec: "n \<le> 65535 \<Longrightarrow> strtol (c_str (dec n)) = (int n, [])"
  using strtol_digits [of "dec n"] dec_digits [of _ n] digit_not_sign
  by (subst c_str_id) (fastforce simp: LONG_MAX_def)+

lemma takeWhile_break: "x \<notin> set a \<Longrightarrow> b = [] \<or> hd b = x \<Longrightarrow> takeWhile (\<lambda>c. c \<noteq> x) (a @ b) = a"
  by (induction a) (auto simp: takeWhile_eq_Nil_iff)

lemma dropWhile_break: "x \<notin> set a \<Longrightarrow> b = [] \<or> hd b = x \<Longrightarrow> dropWhile (\<lambda>c. c \<noteq> x) (a @ b) = b"
  by (induction a) (auto simp: dropWhile_eq_self_iff)

text \<open>What \<^verbatim>\<open>ParseWssUri\<close> reads from a URI is what was written into it: a host without a
  slash (empty, or with colons of its own, included), a port in decimal from 1 to 65535 and a path
  that is empty or starts with a slash.\<close>

theorem wss_uri_round_trip:
  assumes "CHR ''/'' \<notin> set host" "1 \<le> port" "port \<le> 65535" "path = [] \<or> hd path = CHR ''/''"
  shows "ParseWssUri (''wss://'' @ host @ '':'' @ dec port @ path) =
    Some (host, port, if path = [] then ''/'' else path)"
proof -
  let ?a = "host @ CHR '':'' # dec port"
  have d: "CHR ''/'' \<notin> set (dec port)" "CHR '':'' \<notin> set (dec port)"
    using dec_digits digit_not_sign by blast+
  have tail: "drop 6 (''wss://'' @ host @ '':'' @ dec port @ path) = ?a @ path" by simp
  have na: "CHR ''/'' \<notin> set ?a" using assms(1) d by simp
  have auth: "takeWhile (\<lambda>c. c \<noteq> CHR ''/'') (?a @ path) = ?a"
    "dropWhile (\<lambda>c. c \<noteq> CHR ''/'') (?a @ path) = path"
    using takeWhile_break [OF na assms(4)] dropWhile_break [OF na assms(4)] by blast+
  have rv: "rev ?a = rev (dec port) @ CHR '':'' # rev host" by simp
  have port: "takeWhile (\<lambda>c. c \<noteq> CHR '':'') (rev ?a) = rev (dec port)"
    "dropWhile (\<lambda>c. c \<noteq> CHR '':'') (rev ?a) = CHR '':'' # rev host"
    unfolding rv using d(2) by (intro takeWhile_break dropWhile_break; simp)+
  have sl: "CHR ''/'' \<in> set (?a @ path) \<longleftrightarrow> path \<noteq> []"
    using na assms(4) by (cases path) auto
  have st: "StartsWith (''wss://'' @ host @ '':'' @ dec port @ path) ''wss://''"
    by (simp add: StartsWith_def)
  show ?thesis
    unfolding ParseWssUri_def Let_def tail auth port sl
    using st assms(2,3) strtol_dec [OF assms(3)] dec_digits digit_not_sign c_str_id [of "dec port"]
    by (simp add: prod.case_eq_if) (metis dec_not_Nil)
qed

lemma wss_uri_round_trip_witness:
  "ParseWssUri ''wss://hub.example:4443/sc'' = Some (''hub.example'', 4443, ''/sc'')"
proof -
  have "dec 4443 = ''4443''" by (simp add: dec.simps digit_chars)
  then show ?thesis
    using wss_uri_round_trip [of "''hub.example''" 4443 "''/sc''"] by simp
qed

lemma ParseWssUri_Some:
  "ParseWssUri uri = Some (host, port, path) \<Longrightarrow> 1 \<le> port \<and> port \<le> 65535"
  by (auto simp: ParseWssUri_def Let_def split: if_splits prod.splits)

section \<open>The subprotocol a client asks for\<close>

text \<open>The entries of a comma-separated list, an empty one included.\<close>

fun pieces :: "char \<Rightarrow> string \<Rightarrow> string list" where
  "pieces sep [] = [[]]"
| "pieces sep (c # s) =
    (if c = sep then [] # pieces sep s else (c # hd (pieces sep s)) # tl (pieces sep s))"

lemma pieces_not_Nil [simp]: "pieces sep s \<noteq> []"
  by (cases s) auto

lemma pieces_takeWhile: "hd (pieces sep s) = takeWhile (\<lambda>c. c \<noteq> sep) s"
  by (induction s) auto

lemma pieces_dropWhile:
  "tl (pieces sep s) = (case dropWhile (\<lambda>c. c \<noteq> sep) s of [] \<Rightarrow> [] | _ # r \<Rightarrow> pieces sep r)"
  by (induction s) auto

lemma pieces_join: "ps \<noteq> [] \<Longrightarrow> \<forall>p \<in> set ps. sep \<notin> set p \<Longrightarrow> pieces sep (join_with sep ps) = ps"
proof (induction sep ps rule: join_with.induct)
  case (2 sep p)
  then show ?case by (induction p) auto
next
  case (3 sep p q ps)
  then have "pieces sep (join_with sep (q # ps)) = q # ps" by simp
  moreover have "sep \<notin> set p \<Longrightarrow> pieces sep (p @ sep # r) = p # pieces sep r" for r
    by (induction p) auto
  ultimately show ?case using 3(3) by simp
qed simp

lemma scan_tokens_pieces:
  "scan_tokens wanted lst \<longleftrightarrow> wanted \<noteq> [] \<and> wanted \<in> trim ` set (pieces (CHR '','') lst)"
proof (induction wanted lst rule: scan_tokens.induct)
  case (1 wanted lst)
  let ?tw = "takeWhile (\<lambda>c. c \<noteq> CHR '','') lst"
  have p: "pieces (CHR '','') lst = ?tw # tl (pieces (CHR '','') lst)"
    by (metis list.collapse pieces_not_Nil pieces_takeWhile)
  show ?case
  proof (cases "dropWhile (\<lambda>c. c \<noteq> CHR '','') lst")
    case Nil
    then have "tl (pieces (CHR '','') lst) = []" by (simp only: pieces_dropWhile list.case)
    with p have "pieces (CHR '','') lst = [?tw]" by simp
    then have "set (pieces (CHR '','') lst) = {?tw}" by simp
    moreover have "scan_tokens wanted lst \<longleftrightarrow> trim ?tw \<noteq> [] \<and> trim ?tw = wanted"
      by (subst scan_tokens.simps) (simp only: Let_def Nil list.case if_bool_eq_conj, blast)
    ultimately show ?thesis by (simp only: image_insert image_empty singleton_iff) metis
  next
    case (Cons c r)
    then have "tl (pieces (CHR '','') lst) = pieces (CHR '','') r"
      by (simp only: pieces_dropWhile list.case)
    with p have "set (pieces (CHR '','') lst) = insert ?tw (set (pieces (CHR '','') r))"
      by (metis list.simps(15))
    moreover have "scan_tokens wanted lst \<longleftrightarrow>
        trim ?tw \<noteq> [] \<and> trim ?tw = wanted \<or> scan_tokens wanted r"
      by (subst scan_tokens.simps) (simp only: Let_def Cons list.case if_bool_eq_conj, blast)
    moreover have "scan_tokens wanted r \<longleftrightarrow> wanted \<noteq> [] \<and> wanted \<in> trim ` set (pieces (CHR '','') r)"
      if "\<not> (trim ?tw \<noteq> [] \<and> trim ?tw = wanted)"
      using 1 [OF refl that Cons] .
    ultimately show ?thesis by (simp only: image_insert insert_iff) metis
  qed
qed

text \<open>A WebSocket request names the subprotocol exactly when one entry of its comma-separated
  list, blanks around it left out, is that name; part of a longer name, or an empty wanted name, is
  never a match.\<close>

theorem subprotocol_listed_exact:
  assumes "entries \<noteq> []" "\<forall>e \<in> set entries. CHR '','' \<notin> set e"
  shows "SubprotocolListContains (Some (join_with (CHR '','') entries)) wanted \<longleftrightarrow>
    wanted \<noteq> [] \<and> (\<exists>e \<in> set entries. trim e = wanted)"
  using assms by (auto simp: SubprotocolListContains_def scan_tokens_pieces pieces_join image_iff)

lemma subprotocol_listed_exact_witness:
  "SubprotocolListContains (Some ''chat, hub.bsc.bacnet.org'') ''hub.bsc.bacnet.org'' \<and>
   \<not> SubprotocolListContains (Some ''xhub.bsc.bacnet.org'') ''hub.bsc.bacnet.org''"
  using subprotocol_listed_exact [of "[''chat'', '' hub.bsc.bacnet.org'']" "''hub.bsc.bacnet.org''"]
    subprotocol_listed_exact [of "[''xhub.bsc.bacnet.org'']" "''hub.bsc.bacnet.org''"]
  by (simp add: trim_def is_blank_def)

section \<open>Log lines\<close>

lemma hex2_lower_clean: "c \<in> set (hex2_lower b) \<Longrightarrow> \<not> is_control c"
proof -
  have q: "unat b div 16 < 16" "unat b mod 16 < 16"
    using unat_u8_less [of b] by (presburger, simp)
  have d: "n < 16 \<Longrightarrow> \<not> is_control (char_of (if n < 10 then 48 + n else 87 + n :: nat))" for n
    by (simp add: is_control_def of_char_of)
  show "c \<in> set (hex2_lower b) \<Longrightarrow> \<not> is_control c"
    using d [OF q(1)] d [OF q(2)] unfolding hex2_lower_def Let_def by auto
qed

lemma length_hex2_lower [simp]: "length (hex2_lower b) = 2"
  by (simp add: hex2_lower_def Let_def)

lemma safe_from_clean:
  "\<forall>c \<in> set out. \<not> is_control c \<Longrightarrow> \<forall>c \<in> set (safe_from m out t). \<not> is_control c"
proof (induction m out t rule: safe_from.induct)
  case (2 m out ch t)
  let ?e = "if is_control ch then CHR 0x5c # CHR ''x'' # hex2_lower (of_char ch) else [ch]"
  have e: "\<forall>c \<in> set ?e. \<not> is_control c"
  proof (cases "is_control ch")
    case True
    have "\<not> is_control (CHR 0x5c)" "\<not> is_control (CHR ''x'')" by (simp_all add: is_control_def)
    then show ?thesis using True hex2_lower_clean [of _ "of_char ch"] by (simp only: if_True) auto
  qed simp
  show ?case
  proof (cases "length out \<ge> m")
    case True
    have "\<not> is_control (CHR ''.'')" by (simp add: is_control_def)
    then show ?thesis using 2(2) True by (simp only: safe_from.simps if_True) auto
  next
    case False
    have "\<forall>c \<in> set (out @ ?e). \<not> is_control c" using 2(2) e by (simp only: set_append ball_Un)
    then show ?thesis unfolding safe_from.simps(2) if_not_P [OF False] by (rule 2(1) [OF False])
  qed
qed simp

lemma safe_from_length: "length out \<le> m + 3 \<Longrightarrow> length (safe_from m out t) \<le> m + 6"
  by (induction m out t rule: safe_from.induct) auto

lemma safe_from_clean_text:
  "\<forall>c \<in> set t. \<not> is_control c \<Longrightarrow> length out + length t \<le> m \<Longrightarrow> safe_from m out t = out @ t"
  by (induction m out t rule: safe_from.induct) auto

text \<open>Whatever text a peer chose, the text a log line gets has no control character (no line
  break that could forge a second line, no escape sequence) and at most six characters more than
  the limit; a text without control characters that fits is kept as it is.\<close>

theorem log_text_is_safe:
  "(\<forall>c \<in> set (SafeForLog t m). \<not> is_control c) \<and> length (SafeForLog t m) \<le> m + 6 \<and>
   ((\<forall>c \<in> set t. \<not> is_control c) \<and> length t \<le> m \<longrightarrow> SafeForLog t m = t)"
  using safe_from_clean [of "[]" m t] safe_from_length [of "[]" m t] safe_from_clean_text [of t "[]" m]
  by (auto simp: SafeForLog_def)

lemma log_text_is_safe_witness:
  "SafeForLog ''AHU-3'' 512 = ''AHU-3'' \<and> length (SafeForLog ''a\<newline>b'' 512) \<le> 518"
  using log_text_is_safe [of "''AHU-3''" 512] log_text_is_safe [of "''a\<newline>b''" 512]
  by (auto simp: is_control_def)

section \<open>Where a payload starts\<close>

lemma option_list_inside:
  "len \<le> length data \<Longrightarrow> \<exists>r. option_list data len offset = Some r \<and> (\<forall>n. r = Some n \<longrightarrow> offset < n)"
proof (induction data len offset rule: option_list.induct)
  case (1 data len offset)
  show ?case
    by (subst option_list.simps) (use 1 in \<open>fastforce simp: Let_def\<close>)
qed

lemma option_part_inside:
  assumes "len \<le> length data"
  obtains r where "option_part present data len offset = Some r" "\<And>n. r = Some n \<Longrightarrow> offset \<le> n"
  using option_list_inside [OF assms, of offset]
  by (cases present) (auto simp: option_part_def less_imp_le)

lemma payload_offset_inside:
  assumes "len \<le> length data"
  obtains n where "BvlcPayloadOffset data len = Some n" "n \<le> len" "n = 0 \<or> 4 \<le> n"
proof (cases "len < 4")
  case True
  then show ?thesis using that by (simp add: BvlcPayloadOffset_def)
next
  case False
  then have r: "rd data 1 = Some (data ! 1)" using assms by simp
  obtain d where d: "option_part (data ! 1 AND 0x02 \<noteq> 0) data len (fixed_part (data ! 1)) = Some d"
    "\<And>n. d = Some n \<Longrightarrow> fixed_part (data ! 1) \<le> n"
    using option_part_inside [OF assms] by blast
  show ?thesis
  proof (cases d)
    case None
    then show ?thesis using False r d(1) that [of 0] by (simp add: BvlcPayloadOffset_def)
  next
    case (Some o2)
    obtain l where l: "option_part (data ! 1 AND 0x01 \<noteq> 0) data len o2 = Some l"
      "\<And>n. l = Some n \<Longrightarrow> o2 \<le> n"
      using option_part_inside [OF assms] by blast
    have "4 \<le> o2" using d(2) [OF Some] by (simp add: fixed_part_def)
    then have "l = Some n \<Longrightarrow> 4 \<le> n" for n using l(2) by fastforce
    then show ?thesis
      using False r d(1) l(1) Some that by (cases l) (auto simp: BvlcPayloadOffset_def split: if_splits)
  qed
qed

text \<open>A BVLC-SC header as the standard lays it out (135-2024 AB.2.1): function, control flags and
  message ID, the two optional addresses, the destination and the data options.\<close>

record header_option =
  opt_type :: u8
  opt_data :: "bytes option"

record bvlc_header =
  hdr_function :: u8
  hdr_id :: u16
  originating :: "bytes option"
  destination :: "bytes option"
  dest_options :: "header_option list"
  data_options :: "header_option list"

definition option_ok :: "header_option \<Rightarrow> bool" where
  "option_ok op \<longleftrightarrow> opt_type op AND 0xA0 = 0 \<and>
    (case opt_data op of None \<Rightarrow> True | Some d \<Rightarrow> length d < 65536)"

definition vmac_ok :: "bytes option \<Rightarrow> bool" where
  "vmac_ok a \<longleftrightarrow> (case a of None \<Rightarrow> True | Some v \<Rightarrow> length v = 6)"

definition header_ok :: "bvlc_header \<Rightarrow> bool" where
  "header_ok h \<longleftrightarrow> vmac_ok (originating h) \<and> vmac_ok (destination h) \<and>
    list_all option_ok (dest_options h) \<and> list_all option_ok (data_options h)"

fun encode_options :: "header_option list \<Rightarrow> bytes" where
  "encode_options [] = []"
| "encode_options (op # ops) =
    (opt_type op OR (if ops \<noteq> [] then 0x80 else 0) OR (if opt_data op \<noteq> None then 0x20 else 0)) #
    (case opt_data op of None \<Rightarrow> []
     | Some d \<Rightarrow> [of_nat (length d div 256), of_nat (length d mod 256)] @ d) @
    encode_options ops"

definition header_flags :: "bvlc_header \<Rightarrow> u8" where
  "header_flags h =
    (if originating h \<noteq> None then 0x08 else 0) OR (if destination h \<noteq> None then 0x04 else 0) OR
    (if dest_options h \<noteq> [] then 0x02 else 0) OR (if data_options h \<noteq> [] then 0x01 else 0)"

definition encode_vmac :: "bytes option \<Rightarrow> bytes" where
  "encode_vmac a = (case a of None \<Rightarrow> [] | Some v \<Rightarrow> v)"

definition encode_header :: "bvlc_header \<Rightarrow> bytes" where
  "encode_header h =
    [hdr_function h, header_flags h, byte_of 1 (hdr_id h), byte_of 0 (hdr_id h)] @
    encode_vmac (originating h) @ encode_vmac (destination h) @
    encode_options (dest_options h) @ encode_options (data_options h)"

lemma and_A0:
  assumes "(w :: u8) AND 0xA0 = 0" shows "w AND 0x80 = 0" "w AND 0x20 = 0"
proof -
  have "w AND 0x80 = w AND (0xA0 AND 0x80)" "w AND 0x20 = w AND (0xA0 AND 0x20)" by simp_all
  then have "w AND 0x80 = (w AND 0xA0) AND 0x80" "w AND 0x20 = (w AND 0xA0) AND 0x20"
    by (simp_all only: and.assoc)
  then show "w AND 0x80 = 0" "w AND 0x20 = 0" by (simp_all only: assms and_zero_eq zero_and_eq)
qed

lemma marker_bits:
  assumes "(w :: u8) AND 0xA0 = 0"
  shows "(w OR (if a then 0x80 else 0) OR (if b then 0x20 else 0)) AND 0x80 \<noteq> 0 \<longleftrightarrow> a"
    "(w OR (if a then 0x80 else 0) OR (if b then 0x20 else 0)) AND 0x20 \<noteq> 0 \<longleftrightarrow> b"
  using and_A0 [OF assms] by (simp_all add: bit.conj_disj_distrib2 bit.conj_disj_distrib)

lemma option_list_encode:
  assumes "ops \<noteq> []" "list_all option_ok ops"
    "length pre + length (encode_options ops) \<le> len" "len \<le> length (pre @ encode_options ops @ post)"
  shows "option_list (pre @ encode_options ops @ post) len (length pre) =
    Some (Some (length pre + length (encode_options ops)))"
  using assms
proof (induction ops arbitrary: pre)
  case (Cons op ops)
  let ?m = "opt_type op OR (if ops \<noteq> [] then 0x80 else 0) OR (if opt_data op \<noteq> None then 0x20 else 0)"
  have t: "opt_type op AND 0xA0 = 0" using Cons.prems by (simp add: option_ok_def)
  have more: "?m AND 0x80 \<noteq> 0 \<longleftrightarrow> ops \<noteq> []" by (rule marker_bits(1) [OF t])
  have hd: "?m AND 0x20 \<noteq> 0 \<longleftrightarrow> opt_data op \<noteq> None" by (rule marker_bits(2) [OF t])
  obtain m where m: "m = ?m" by simp
  show ?case
  proof (cases "opt_data op")
    case None
    have e: "encode_options (op # ops) = m # encode_options ops" by (simp only: encode_options.simps None m option.case append_Nil)
    have IH: "ops \<noteq> [] \<Longrightarrow> option_list ((pre @ [m]) @ encode_options ops @ post) len (length (pre @ [m])) =
      Some (Some (length (pre @ [m]) + length (encode_options ops)))"
      using Cons.prems e by (intro Cons.IH) auto
    have "m AND 0x20 = 0" "m AND 0x80 \<noteq> 0 \<longleftrightarrow> ops \<noteq> []" using more hd None m by simp_all
    moreover have "rd (pre @ m # encode_options ops @ post) (length pre) = Some m" by simp
    moreover have "\<not> length pre \<ge> len" using Cons.prems(3) e by simp
    ultimately show ?thesis
      using IH unfolding e by (subst option_list.simps) (cases "ops = []"; simp)
  next
    case (Some d)
    let ?h = "of_nat (length d div 256) :: u8" and ?l = "of_nat (length d mod 256) :: u8"
    have ld: "length d < 65536" using Cons.prems Some by (simp add: option_ok_def)
    then have v: "256 * unat ?h + unat ?l = length d"
      by (simp add: unat_of_nat take_bit_eq_mod)
    have e: "encode_options (op # ops) = m # ?h # ?l # d @ encode_options ops"
      by (simp only: encode_options.simps Some m option.case append_Cons append_Nil)
    let ?q = "pre @ m # ?h # ?l # d"
    have IH: "ops \<noteq> [] \<Longrightarrow> option_list (?q @ encode_options ops @ post) len (length ?q) =
      Some (Some (length ?q + length (encode_options ops)))"
      using Cons.prems e by (intro Cons.IH) auto
    have r: "rd (pre @ m # ?h # ?l # d @ encode_options ops @ post) (length pre) = Some m"
      "rd (pre @ m # ?h # ?l # d @ encode_options ops @ post) (Suc (length pre)) = Some ?h"
      "rd (pre @ m # ?h # ?l # d @ encode_options ops @ post) (Suc (Suc (length pre))) = Some ?l"
      by simp_all
    have "m AND 0x20 \<noteq> 0" "m AND 0x80 \<noteq> 0 \<longleftrightarrow> ops \<noteq> []" using more hd Some m by simp_all
    moreover have "\<not> length pre \<ge> len" "\<not> length pre + 1 + 2 > len" using Cons.prems(3) e by simp_all
    ultimately show ?thesis
      using IH v unfolding e by (subst option_list.simps) (cases "ops = []"; simp add: r del: unsigned_of_nat)
  qed
qed simp

lemma header_flags_bits:
  "header_flags h AND 0x08 \<noteq> 0 \<longleftrightarrow> originating h \<noteq> None"
  "header_flags h AND 0x04 \<noteq> 0 \<longleftrightarrow> destination h \<noteq> None"
  "header_flags h AND 0x02 \<noteq> 0 \<longleftrightarrow> dest_options h \<noteq> []"
  "header_flags h AND 0x01 \<noteq> 0 \<longleftrightarrow> data_options h \<noteq> []"
  by (cases "originating h = None"; cases "destination h = None"; cases "dest_options h = []";
      cases "data_options h = []"; simp add: header_flags_def)+

lemma option_part_encode:
  assumes "list_all option_ok ops" "len = length (pre @ encode_options ops @ post)"
  shows "option_part (ops \<noteq> []) (pre @ encode_options ops @ post) len (length pre) =
    Some (Some (length pre + length (encode_options ops)))"
  using option_list_encode [of ops pre len post] assms by (cases "ops = []") (simp_all add: option_part_def)

lemma payload_steps:
  assumes "\<not> len < 4" "rd data 1 = Some f"
    "option_part (f AND 0x02 \<noteq> 0) data len (fixed_part f) = Some (Some a)"
    "option_part (f AND 0x01 \<noteq> 0) data len a = Some (Some b)" "b \<le> len"
  shows "BvlcPayloadOffset data len = Some b"
  using assms by (simp add: BvlcPayloadOffset_def)

text \<open>For every well-formed BVLC-SC header (either address or both or none, any list of
  destination and data options with or without data) and every payload, the offset found is the
  length of the header, so the audit trail reads exactly the payload.\<close>

theorem payload_offset_exact:
  assumes "header_ok h"
  shows "BvlcPayloadOffset (encode_header h @ payload) (length (encode_header h @ payload)) =
    Some (length (encode_header h))"
proof -
  let ?v = "encode_vmac (originating h) @ encode_vmac (destination h)"
  let ?f = "[hdr_function h, header_flags h, byte_of 1 (hdr_id h), byte_of 0 (hdr_id h)] @ ?v"
  let ?d = "encode_options (dest_options h)" and ?x = "encode_options (data_options h)"
  have msg: "encode_header h @ payload = ?f @ ?d @ ?x @ payload" by (simp add: encode_header_def)
  have lf: "fixed_part (header_flags h) = length ?f"
    using assms unfolding fixed_part_def header_flags_bits
    by (cases "originating h"; cases "destination h") (simp_all add: header_ok_def vmac_ok_def encode_vmac_def)
  let ?n = "length (?f @ ?d @ ?x @ payload)"
  have 1: "option_part (dest_options h \<noteq> []) (?f @ ?d @ ?x @ payload) ?n (length ?f) =
      Some (Some (length ?f + length ?d))"
    by (rule option_part_encode) (use assms in \<open>simp_all add: header_ok_def\<close>)
  have 2: "option_part (data_options h \<noteq> []) ((?f @ ?d) @ ?x @ payload) ?n (length (?f @ ?d)) =
      Some (Some (length (?f @ ?d) + length ?x))"
    by (rule option_part_encode) (use assms in \<open>simp_all add: header_ok_def\<close>)
  have r: "rd (?f @ ?d @ ?x @ payload) 1 = Some (header_flags h)" by simp
  have "BvlcPayloadOffset (?f @ ?d @ ?x @ payload) ?n = Some (length (?f @ ?d) + length ?x)"
  proof (rule payload_steps [OF _ r])
    show "option_part (header_flags h AND 0x02 \<noteq> 0) (?f @ ?d @ ?x @ payload) ?n
        (fixed_part (header_flags h)) = Some (Some (length (?f @ ?d)))"
      unfolding lf header_flags_bits 1 by (simp only: length_append)
    show "option_part (header_flags h AND 0x01 \<noteq> 0) (?f @ ?d @ ?x @ payload) ?n (length (?f @ ?d)) =
        Some (Some (length (?f @ ?d) + length ?x))"
      unfolding header_flags_bits using 2 by (simp only: append_assoc)
  qed simp_all
  then show ?thesis unfolding msg by (simp add: encode_header_def)
qed

definition example_header :: bvlc_header where
  "example_header = \<lparr> hdr_function = 6, hdr_id = 0x1234, originating = Some [1, 2, 3, 4, 5, 6],
     destination = None, dest_options = [\<lparr> opt_type = 0x41, opt_data = Some [7, 8] \<rparr>],
     data_options = [\<lparr> opt_type = 1, opt_data = None \<rparr>, \<lparr> opt_type = 2, opt_data = Some [9] \<rparr>] \<rparr>"

lemma payload_offset_exact_witness:
  "BvlcPayloadOffset (encode_header example_header @ [1, 2]) (length (encode_header example_header @ [1, 2])) =
    Some 20"
proof -
  have "header_ok example_header"
    by (simp add: header_ok_def vmac_ok_def option_ok_def example_header_def)
  from payload_offset_exact [OF this, of "[1, 2]"] show ?thesis
    by (simp add: encode_header_def example_header_def encode_vmac_def)
qed

section \<open>Hexadecimal text\<close>

lemma hex_from_inside: "at + n \<le> length data \<Longrightarrow> \<exists>s. hex_from data at n separator = Some s"
  by (induction data at n separator rule: hex_from.induct) auto

lemma FormatUuid_inside: "at + 16 \<le> length data \<Longrightarrow> \<exists>s. FormatUuid data at = Some s"
  unfolding FormatUuid_def HexBytes_def
  using hex_from_inside [of at 4 data "[]"] hex_from_inside [of "at + 4" 2 data "[]"]
    hex_from_inside [of "at + 6" 2 data "[]"] hex_from_inside [of "at + 8" 2 data "[]"]
    hex_from_inside [of "at + 10" 6 data "[]"]
  by auto

end
