(* ===== verification/Sc_Connection.thy ===== *)
theory Sc_Connection
  imports Sc_Text
begin

text \<open>
  One WebSocket connection of \<^verbatim>\<open>src/sc_transport/ScTransport.cpp\<close>: the reassembly of
  fragments under the ingress ceiling, the bounded transmit queue and the requested close, shared by
  accepted peers and outbound connections.

  A socket is the number libwebsockets (lws) knows it by.  \<^verbatim>\<open>armed\<close> is the set of sockets for
  which \<^verbatim>\<open>lws_callback_on_writable\<close> was called and the WRITEABLE callback has not come
  yet.  Frames are kept without the \<^verbatim>\<open>LWS_PRE\<close> octets of padding in front of them.
  The counters are \<^verbatim>\<open>uint64_t\<close> in the source and natural numbers here.
\<close>

unbundle bit_operations_syntax

section \<open>Queues\<close>

text \<open>What the clients of a queue rely on: the contents, in the order they came.\<close>

locale fifo =
  fixes contents_of :: "'q \<Rightarrow> 'a list"
    and push :: "'a \<Rightarrow> 'q \<Rightarrow> 'q"
    and pop :: "'q \<Rightarrow> ('a \<times> 'q) option"
  assumes contents_push: "contents_of (push x q) = contents_of q @ [x]"
    and pop_empty: "pop q = None \<longleftrightarrow> contents_of q = []"
    and pop_first: "pop q = Some (x, q') \<Longrightarrow> contents_of q = x # contents_of q'"
begin

text \<open>\<^verbatim>\<open>while (pop(&x)) ...\<close>, with at most \<^verbatim>\<open>n\<close> turns.\<close>

primrec drain :: "nat \<Rightarrow> 'q \<Rightarrow> 'a list \<times> 'q" where
  "drain 0 q = ([], q)"
| "drain (Suc n) q =
    (case pop q of None \<Rightarrow> ([], q) | Some (x, q') \<Rightarrow> let (xs, q'') = drain n q' in (x # xs, q''))"

lemma drain_all:
  "length (contents_of q) \<le> n \<Longrightarrow>
    fst (drain n q) = contents_of q \<and> contents_of (snd (drain n q)) = []"
proof (induction n arbitrary: q)
  case (Suc n)
  show ?case
  proof (cases "pop q")
    case None
    then have "contents_of q = []" using pop_empty by blast
    then show ?thesis using None by simp
  next
    case (Some r)
    obtain x q' where r: "r = (x, q')" by fastforce
    then have "contents_of q = x # contents_of q'" using pop_first Some by simp
    moreover from this have "fst (drain n q') = contents_of q' \<and> contents_of (snd (drain n q')) = []"
      using Suc by simp
    ultimately show ?thesis using Some r by (simp add: Let_def prod.case_eq_if)
  qed
qed simp

lemma drain_enough:
  "length (contents_of q) \<le> n \<Longrightarrow> length (contents_of q) \<le> m \<Longrightarrow> fst (drain n q) = fst (drain m q)"
  using drain_all by metis

end

section \<open>State\<close>

definition kMaxIngressBytes :: nat where
  "kMaxIngressBytes = 1600"

definition kMaxTxQueueFrames :: nat where
  "kMaxTxQueueFrames = 64"

definition LWS_CLOSE_STATUS_NORMAL :: nat where
  "LWS_CLOSE_STATUS_NORMAL = 1000"

definition LWS_CLOSE_STATUS_PROTOCOL_ERR :: nat where
  "LWS_CLOSE_STATUS_PROTOCOL_ERR = 1002"

definition LWS_CLOSE_STATUS_UNACCEPTABLE_OPCODE :: nat where
  "LWS_CLOSE_STATUS_UNACCEPTABLE_OPCODE = 1003"

definition LWS_CLOSE_STATUS_POLICY_VIOLATION :: nat where
  "LWS_CLOSE_STATUS_POLICY_VIOLATION = 1008"

lemmas close_codes = LWS_CLOSE_STATUS_NORMAL_def LWS_CLOSE_STATUS_PROTOCOL_ERR_def
  LWS_CLOSE_STATUS_UNACCEPTABLE_OPCODE_def LWS_CLOSE_STATUS_POLICY_VIOLATION_def

record close_request =
  requested :: bool
  close_code :: nat
  close_reason :: string

definition no_close :: close_request where
  "no_close = \<lparr> requested = False, close_code = 0, close_reason = [] \<rparr>"

text \<open>What \<^verbatim>\<open>PeerConnection\<close> and \<^verbatim>\<open>ClientConnection\<close> share.\<close>

record connection =
  rxAssembly :: bytes
  rxOverflow :: bool
  txQueue :: "bytes list"
  lastCloseCode :: nat
  closeRequest :: close_request

definition new_connection :: connection where
  "new_connection = \<lparr> rxAssembly = [], rxOverflow = False, txQueue = [], lastCloseCode = 0,
     closeRequest = no_close \<rparr>"

record received_frame =
  sourceConnectionString :: string
  destinationConnectionString :: string
  frame_data :: bytes

record tx_counters =
  txMessages :: nat
  txBytes :: nat

section \<open>Sending\<close>

definition RequestClose ::
  "nat \<Rightarrow> nat \<Rightarrow> string \<Rightarrow> 'a connection_scheme \<times> nat set \<Rightarrow> 'a connection_scheme \<times> nat set" where
  "RequestClose wsi code reason st =
    (let (c, armed) = st in
     if requested (closeRequest c) then (c, armed)
     else (c\<lparr> closeRequest := \<lparr> requested = True, close_code = code, close_reason = reason \<rparr> \<rparr>,
           insert wsi armed))"

text \<open>The code and reason given to \<^verbatim>\<open>lws_close_reason\<close>, or \<^verbatim>\<open>None\<close> when
  the connection stays open for now.\<close>

definition ApplyRequestedClose :: "'a connection_scheme \<Rightarrow> (nat \<times> string) option" where
  "ApplyRequestedClose c =
    (if \<not> requested (closeRequest c) then None
     else if close_code (closeRequest c) \<noteq> LWS_CLOSE_STATUS_POLICY_VIOLATION \<and> txQueue c \<noteq> [] then None
     else Some (close_code (closeRequest c), close_reason (closeRequest c)))"

text \<open>The third component counts the queues that overflowed.\<close>

definition EnqueueFrame ::
  "nat \<Rightarrow> bytes \<Rightarrow> 'a connection_scheme \<times> nat set \<times> nat \<Rightarrow>
   bool \<times> 'a connection_scheme \<times> nat set \<times> nat" where
  "EnqueueFrame wsi data st =
    (let (c, armed, overflows) = st in
     if requested (closeRequest c) then (False, c, armed, overflows)
     else if length (txQueue c) \<ge> kMaxTxQueueFrames then
       let (c, armed) = RequestClose wsi LWS_CLOSE_STATUS_POLICY_VIOLATION ''transmit queue full''
             (c\<lparr> txQueue := [] \<rparr>, armed)
       in (False, c, armed, overflows + 1)
     else (True, c\<lparr> txQueue := txQueue c @ [data] \<rparr>, insert wsi armed, overflows))"

text \<open>\<^verbatim>\<open>written\<close> is what \<^verbatim>\<open>lws_write\<close> returns for the frame at the front; the
  first component says that the write failed.\<close>

definition FlushOneQueuedFrame ::
  "nat \<Rightarrow> int \<Rightarrow> 'a connection_scheme \<times> nat set \<times> tx_counters \<Rightarrow>
   bool \<times> 'a connection_scheme \<times> nat set \<times> tx_counters" where
  "FlushOneQueuedFrame wsi written st =
    (let (c, armed, m) = st in
     case txQueue c of
       [] \<Rightarrow> (False, c, armed, m)
     | framed # waiting \<Rightarrow>
         let c = c\<lparr> txQueue := waiting \<rparr> in
         if written < 0 \<or> nat written < length framed then (True, c, armed, m)
         else (False, c, if waiting \<noteq> [] then insert wsi armed else armed,
               m\<lparr> txMessages := txMessages m + 1, txBytes := txBytes m + length framed \<rparr>))"

text \<open>The body of both WRITEABLE callbacks: whether to return -1, the close reason given, and the
  frame handed to \<^verbatim>\<open>lws_write\<close>, if any.\<close>

definition ServeWriteable ::
  "nat \<Rightarrow> int \<Rightarrow> 'a connection_scheme \<times> nat set \<times> tx_counters \<Rightarrow>
   (bool \<times> (nat \<times> string) option \<times> bytes option) \<times> 'a connection_scheme \<times> nat set \<times> tx_counters" where
  "ServeWriteable wsi written st =
    (let (c, armed, m) = st in
     case ApplyRequestedClose c of
       Some reason \<Rightarrow> ((True, Some reason, None), c, armed, m)
     | None \<Rightarrow>
         let sent = (case txQueue c of [] \<Rightarrow> None | framed # _ \<Rightarrow> Some framed);
             (failed, c, armed, m) = FlushOneQueuedFrame wsi written (c, armed, m) in
         if failed then ((True, None, sent), c, armed, m)
         else ((False, None, sent), c, if requested (closeRequest c) then insert wsi armed else armed, m))"

section \<open>Receiving\<close>

record rx_state =
  rxQueue :: "received_frame list"
  rxMessages :: nat
  rxBytes :: nat

text \<open>A fragment with lws's answers about it: whether the message is binary and whether this is its
  last fragment.  The close reason is given when the caller must return -1.\<close>

definition HandleIncomingFragment ::
  "bool \<Rightarrow> bool \<Rightarrow> bytes \<Rightarrow> string \<Rightarrow> string \<Rightarrow> 'a connection_scheme \<times> rx_state \<Rightarrow>
   (nat \<times> string) option \<times> 'a connection_scheme \<times> rx_state" where
  "HandleIncomingFragment binary final input source dest st =
    (let (c, rx) = st in
     if \<not> binary then (Some (LWS_CLOSE_STATUS_UNACCEPTABLE_OPCODE, ''binary only''), c, rx)
     else
       let c = (if \<not> rxOverflow c then
                  if length (rxAssembly c) + length input > kMaxIngressBytes
                  then c\<lparr> rxOverflow := True, rxAssembly := [] \<rparr>
                  else c\<lparr> rxAssembly := rxAssembly c @ input \<rparr>
                else c)
       in if final then
            let rx = (if \<not> rxOverflow c then
                        rx\<lparr> rxMessages := rxMessages rx + 1,
                            rxBytes := rxBytes rx + length (rxAssembly c),
                            rxQueue := rxQueue rx @
                              [\<lparr> sourceConnectionString = source, destinationConnectionString = dest,
                                 frame_data = rxAssembly c \<rparr>] \<rparr>
                      else rx)
            in (None, c\<lparr> rxAssembly := [], rxOverflow := False \<rparr>, rx)
          else (None, c, rx))"

section \<open>A connection stays within its bounds\<close>

text \<open>Nothing is waiting without a WRITEABLE callback to come, unless lws is already closing the
  socket.\<close>

definition served :: "nat set \<Rightarrow> nat \<Rightarrow> 'a connection_scheme \<Rightarrow> bool" where
  "served armed wsi c \<longleftrightarrow> (txQueue c \<noteq> [] \<or> requested (closeRequest c) \<longrightarrow> wsi \<in> armed)"

definition connection_ok :: "'a connection_scheme \<Rightarrow> bool" where
  "connection_ok c \<longleftrightarrow> length (rxAssembly c) \<le> kMaxIngressBytes \<and> (rxOverflow c \<longrightarrow> rxAssembly c = []) \<and>
    length (txQueue c) \<le> kMaxTxQueueFrames"

definition rx_ok :: "rx_state \<Rightarrow> bool" where
  "rx_ok rx \<longleftrightarrow> (\<forall>f \<in> set (rxQueue rx). length (frame_data f) \<le> kMaxIngressBytes) \<and>
    length (rxQueue rx) \<le> rxMessages rx"

lemma new_connection_ok [simp]: "connection_ok new_connection" "served armed wsi new_connection"
  by (simp_all add: connection_ok_def served_def new_connection_def no_close_def)

lemma RequestClose_ok:
  "RequestClose wsi code reason (c, armed) = (c', armed') \<Longrightarrow> connection_ok c \<Longrightarrow> served armed wsi c \<Longrightarrow>
    connection_ok c' \<and> served armed' wsi c' \<and> armed \<subseteq> armed' \<and> armed' \<subseteq> insert wsi armed"
  by (auto simp: RequestClose_def connection_ok_def served_def split: if_splits)

lemma EnqueueFrame_ok:
  "EnqueueFrame wsi data (c, armed, n) = (ok, c', armed', n') \<Longrightarrow> connection_ok c \<Longrightarrow> served armed wsi c \<Longrightarrow>
    connection_ok c' \<and> served armed' wsi c' \<and> armed \<subseteq> armed' \<and> armed' \<subseteq> insert wsi armed"
  by (auto simp: EnqueueFrame_def RequestClose_def connection_ok_def served_def kMaxTxQueueFrames_def
      split: if_splits)

lemma ServeWriteable_ok:
  assumes "ServeWriteable wsi written (c, armed, m) = ((close, reason, sent), c', armed', m')"
    "connection_ok c"
  shows "connection_ok c'" "\<not> close \<Longrightarrow> served armed' wsi c'" "armed \<subseteq> armed'" "armed' \<subseteq> insert wsi armed"
  using assms
  by (auto simp: ServeWriteable_def FlushOneQueuedFrame_def ApplyRequestedClose_def connection_ok_def
      served_def Let_def split: if_splits list.splits)

lemma HandleIncomingFragment_ok:
  assumes "HandleIncomingFragment binary final input source dest (c, rx) = (r, c', rx')"
    "connection_ok c" "rx_ok rx"
  shows "connection_ok c'" "rx_ok rx'" "txQueue c' = txQueue c" "closeRequest c' = closeRequest c"
    "rxMessages rx' \<noteq> rxMessages rx \<Longrightarrow> rxQueue rx' \<noteq> []"
  using assms
  by (auto simp: HandleIncomingFragment_def connection_ok_def rx_ok_def Let_def split: if_splits)

section \<open>Messages arrive whole\<close>

text \<open>One binary message, fragment by fragment.\<close>

fun feed :: "string \<Rightarrow> string \<Rightarrow> bytes list \<Rightarrow> 'a connection_scheme \<times> rx_state \<Rightarrow> 'a connection_scheme \<times> rx_state" where
  "feed source dest [] st = st"
| "feed source dest [f] st = snd (HandleIncomingFragment True True f source dest st)"
| "feed source dest (f # g # fs) st =
    feed source dest (g # fs) (snd (HandleIncomingFragment True False f source dest st))"

definition frame_of :: "string \<Rightarrow> string \<Rightarrow> bytes \<Rightarrow> received_frame" where
  "frame_of source dest d =
    \<lparr> sourceConnectionString = source, destinationConnectionString = dest, frame_data = d \<rparr>"

definition deliver :: "string \<Rightarrow> string \<Rightarrow> bytes \<Rightarrow> rx_state \<Rightarrow> rx_state" where
  "deliver source dest d rx =
    (if length d \<le> kMaxIngressBytes
     then rx\<lparr> rxMessages := rxMessages rx + 1, rxBytes := rxBytes rx + length d,
              rxQueue := rxQueue rx @ [frame_of source dest d] \<rparr>
     else rx)"

lemma feed_overflown:
  "fs \<noteq> [] \<Longrightarrow> rxOverflow c \<Longrightarrow> rxAssembly c = [] \<Longrightarrow>
    feed source dest fs (c, rx) = (c\<lparr> rxAssembly := [], rxOverflow := False \<rparr>, rx)"
  by (induction source dest fs "(c, rx)" arbitrary: c rx rule: feed.induct)
     (simp_all add: HandleIncomingFragment_def)

lemma feed_from:
  "fs \<noteq> [] \<Longrightarrow> \<not> rxOverflow c \<Longrightarrow> length (rxAssembly c) \<le> kMaxIngressBytes \<Longrightarrow>
    feed source dest fs (c, rx) =
      (c\<lparr> rxAssembly := [], rxOverflow := False \<rparr>, deliver source dest (rxAssembly c @ concat fs) rx)"
proof (induction source dest fs "(c, rx)" arbitrary: c rx rule: feed.induct)
  case (2 source dest f)
  then show ?case by (simp add: HandleIncomingFragment_def deliver_def frame_of_def)
next
  case (3 source dest f g fs)
  show ?case
  proof (cases "length (rxAssembly c) + length f > kMaxIngressBytes")
    case True
    let ?c = "c\<lparr> rxOverflow := True, rxAssembly := [] \<rparr>"
    have "snd (HandleIncomingFragment True False f source dest (c, rx)) = (?c, rx)"
      using True 3(3) by (simp add: HandleIncomingFragment_def)
    moreover have "deliver source dest (rxAssembly c @ concat (f # g # fs)) rx = rx"
      using True by (simp add: deliver_def)
    ultimately show ?thesis
      using feed_overflown [of "g # fs" ?c source dest rx] by simp
  next
    case False
    let ?c = "c\<lparr> rxAssembly := rxAssembly c @ f \<rparr>"
    have s: "snd (HandleIncomingFragment True False f source dest (c, rx)) = (?c, rx)"
      using False 3(3) by (simp add: HandleIncomingFragment_def)
    have "feed source dest (g # fs) (?c, rx) =
        (?c\<lparr> rxAssembly := [], rxOverflow := False \<rparr>, deliver source dest (rxAssembly ?c @ concat (g # fs)) rx)"
      using 3(1) [of ?c rx] s False 3(3) by simp
    then show ?thesis using s by simp
  qed
qed simp

lemma messages_reassembled_exactly_parts:
  assumes "\<forall>m \<in> set messages. m \<noteq> []" "\<not> rxOverflow c" "rxAssembly c = []"
  shows "fold (feed source dest) messages (c, rx) =
    (c, fold (\<lambda>m. deliver source dest (concat m)) messages rx)"
    "rxQueue (fold (\<lambda>m. deliver source dest (concat m)) messages rx) =
      rxQueue rx @ map (frame_of source dest) (filter (\<lambda>d. length d \<le> 1600) (map concat messages))"
proof -
  have same: "c\<lparr> rxAssembly := [], rxOverflow := False \<rparr> = c" using assms(2,3) by simp
  show "fold (feed source dest) messages (c, rx) =
      (c, fold (\<lambda>m. deliver source dest (concat m)) messages rx)"
    using assms(1)
  proof (induction messages arbitrary: rx)
    case (Cons m ms)
    have "feed source dest m (c, rx) = (c, deliver source dest (concat m) rx)"
      using feed_from [of m c source dest rx] Cons.prems assms(2,3) same by (simp add: kMaxIngressBytes_def)
    then show ?case using Cons by simp
  qed simp
  show "rxQueue (fold (\<lambda>m. deliver source dest (concat m)) messages rx) =
      rxQueue rx @ map (frame_of source dest) (filter (\<lambda>d. length d \<le> 1600) (map concat messages))"
    by (induction messages arbitrary: rx) (simp_all add: deliver_def kMaxIngressBytes_def)
qed

text \<open>C11: However a peer cuts its messages into fragments, each message of at most 1600 octets is
  queued for the stack once, whole and in order, and a longer one is dropped without any part of it
  reaching the stack and without touching the messages after it.\<close>

theorem messages_reassembled_exactly:
  assumes "\<forall>m \<in> set messages. m \<noteq> []" "\<not> rxOverflow c" "rxAssembly c = []"
  shows "\<exists>rx'. fold (feed source dest) messages (c, rx) = (c, rx') \<and>
    rxQueue rx' = rxQueue rx @ map (frame_of source dest) (filter (\<lambda>d. length d \<le> 1600) (map concat messages))"
  using messages_reassembled_exactly_parts [OF assms] by blast

lemma messages_reassembled_exactly_witness:
  "rxQueue (snd (fold (feed ''a'' ''b'') [[[1], [2, 3]], [replicate 1600 0, [1]], [[4]]]
     (new_connection, \<lparr> rxQueue = [], rxMessages = 0, rxBytes = 0 \<rparr>))) =
   [frame_of ''a'' ''b'' [1, 2, 3], frame_of ''a'' ''b'' [4]]"
  using messages_reassembled_exactly [of "[[[1], [2, 3]], [replicate 1600 0, [1]], [[4]]]"
      new_connection "''a''" "''b''" "\<lparr> rxQueue = [], rxMessages = 0, rxBytes = 0 \<rparr>"]
  by (auto simp: new_connection_def)

section \<open>Frames leave in order, and a close waits for them\<close>

text \<open>At most \<^verbatim>\<open>n\<close> WRITEABLE callbacks in which lws writes the whole frame: the frames
  written, and the close reason once a callback returns -1.\<close>

primrec writeable_turns ::
  "nat \<Rightarrow> nat \<Rightarrow> 'a connection_scheme \<times> nat set \<times> tx_counters \<Rightarrow>
   bytes list \<times> (nat \<times> string) option \<times> 'a connection_scheme" where
  "writeable_turns 0 wsi st = ([], None, fst st)"
| "writeable_turns (Suc n) wsi st =
    (let written = (case txQueue (fst st) of [] \<Rightarrow> 0 | f # _ \<Rightarrow> int (length f));
         ((close, reason, sent), st') = ServeWriteable wsi written st in
     if close then ([], reason, fst st')
     else let (fs, r, c) = writeable_turns n wsi st' in
       ((case sent of None \<Rightarrow> [] | Some f \<Rightarrow> [f]) @ fs, r, c))"

lemma writeable_turn:
  assumes "txQueue c = f # fs" "\<not> (requested (closeRequest c) \<and> close_code (closeRequest c) = LWS_CLOSE_STATUS_POLICY_VIOLATION)"
  obtains armed' m' where "ServeWriteable wsi (int (length f)) (c, armed, m) =
    ((False, None, Some f), c\<lparr> txQueue := fs \<rparr>, armed', m')"
proof -
  have "ApplyRequestedClose c = None" using assms by (auto simp: ApplyRequestedClose_def)
  then show ?thesis
    using assms(1) that by (auto simp: ServeWriteable_def FlushOneQueuedFrame_def Let_def)
qed

lemma turns_drain:
  "\<not> (requested (closeRequest c) \<and> close_code (closeRequest c) = LWS_CLOSE_STATUS_POLICY_VIOLATION) \<Longrightarrow>
    (if requested (closeRequest c) then
       writeable_turns (length (txQueue c) + 1) wsi (c, armed, m) =
         (txQueue c, Some (close_code (closeRequest c), close_reason (closeRequest c)), c\<lparr> txQueue := [] \<rparr>)
     else writeable_turns (length (txQueue c)) wsi (c, armed, m) = (txQueue c, None, c\<lparr> txQueue := [] \<rparr>))"
proof (induction "txQueue c" arbitrary: c armed m)
  case Nil
  then have "c\<lparr> txQueue := [] \<rparr> = c" by simp
  then show ?case using Nil by (simp add: ServeWriteable_def ApplyRequestedClose_def)
next
  case (Cons f fs)
  obtain armed' m' where t: "ServeWriteable wsi (int (length f)) (c, armed, m) =
      ((False, None, Some f), c\<lparr> txQueue := fs \<rparr>, armed', m')"
    using writeable_turn [OF Cons(2) [symmetric] Cons(3)] .
  show ?case
    using Cons(1) [of "c\<lparr> txQueue := fs \<rparr>" armed' m'] Cons(2) [symmetric] Cons(3) t
    by (simp split: if_splits)
qed

lemma queued_frames_leave_before_the_close_parts:
  assumes "close_code (closeRequest c) \<noteq> 1008"
  shows "if requested (closeRequest c) then
       writeable_turns (length (txQueue c) + 1) wsi (c, armed, m) =
         (txQueue c, Some (close_code (closeRequest c), close_reason (closeRequest c)), c\<lparr> txQueue := [] \<rparr>)
     else writeable_turns (length (txQueue c)) wsi (c, armed, m) = (txQueue c, None, c\<lparr> txQueue := [] \<rparr>)"
    "txQueue c \<noteq> [] \<or> requested (closeRequest c) \<Longrightarrow> served armed wsi c \<Longrightarrow> wsi \<in> armed"
    "ServeWriteable wsi written (c, armed - {wsi}, m) = ((False, reason, sent), c', armed', m') \<Longrightarrow>
      served armed' wsi c'"
proof -
  show "if requested (closeRequest c) then
       writeable_turns (length (txQueue c) + 1) wsi (c, armed, m) =
         (txQueue c, Some (close_code (closeRequest c), close_reason (closeRequest c)), c\<lparr> txQueue := [] \<rparr>)
     else writeable_turns (length (txQueue c)) wsi (c, armed, m) = (txQueue c, None, c\<lparr> txQueue := [] \<rparr>)"
    using turns_drain [of c wsi armed m] assms by (simp add: close_codes)
  show "txQueue c \<noteq> [] \<or> requested (closeRequest c) \<Longrightarrow> served armed wsi c \<Longrightarrow> wsi \<in> armed"
    by (simp add: served_def)
  show "ServeWriteable wsi written (c, armed - {wsi}, m) = ((False, reason, sent), c', armed', m') \<Longrightarrow>
      served armed' wsi c'"
    by (auto simp: ServeWriteable_def FlushOneQueuedFrame_def ApplyRequestedClose_def served_def Let_def
        split: if_splits list.splits)
qed


definition closing_connection :: connection where
  "closing_connection = new_connection\<lparr> txQueue := [[1], [2, 3]],
     closeRequest := \<lparr> requested = True, close_code = 1000, close_reason = [] \<rparr> \<rparr>"


section \<open>A peer that does not read\<close>

text \<open>Frames sent with no WRITEABLE callback in between: what each \<^verbatim>\<open>Send\<close> returns.\<close>

fun send_all ::
  "nat \<Rightarrow> bytes list \<Rightarrow> 'a connection_scheme \<times> nat set \<times> nat \<Rightarrow> bool list \<times> 'a connection_scheme \<times> nat set \<times> nat" where
  "send_all wsi [] st = ([], st)"
| "send_all wsi (f # fs) st =
    (let (ok, st) = EnqueueFrame wsi f st; (oks, st) = send_all wsi fs st in (ok # oks, st))"

lemma send_all_closed:
  "requested (closeRequest c) \<Longrightarrow>
    send_all wsi fs (c, armed, n) = (replicate (length fs) False, c, armed, n)"
  by (induction fs) (simp_all add: EnqueueFrame_def)

lemma send_all_room:
  "\<not> requested (closeRequest c) \<Longrightarrow> length (txQueue c) + length fs \<le> kMaxTxQueueFrames \<Longrightarrow>
    send_all wsi fs (c, armed, n) =
      (replicate (length fs) True, c\<lparr> txQueue := txQueue c @ fs \<rparr>, if fs = [] then armed else insert wsi armed, n)"
  by (induction fs arbitrary: c armed) (auto simp: EnqueueFrame_def)

lemma send_all_append:
  "send_all wsi (fs @ gs) st =
    (let (oks, st) = send_all wsi fs st; (oks', st) = send_all wsi gs st in (oks @ oks', st))"
  by (induction fs arbitrary: st) (auto simp: Let_def split: prod.split)

lemma slow_reader_is_closed_parts:
  assumes "\<not> requested (closeRequest c)" "txQueue c = []" "length frames > 64"
    "send_all wsi frames (c, armed, n) = (oks, c', armed', n')"
  shows "oks = replicate 64 True @ replicate (length frames - 64) False"
    "txQueue c' = []" "n' = n + 1" "wsi \<in> armed'"
    "ServeWriteable wsi written (c', armed', m) =
      ((True, Some (1008, ''transmit queue full''), None), c', armed', m)"
proof -
  let ?c1 = "c\<lparr> txQueue := take 64 frames \<rparr>"
  let ?cr = "\<lparr> requested = True, close_code = LWS_CLOSE_STATUS_POLICY_VIOLATION, close_reason = ''transmit queue full'' \<rparr>"
  obtain f fs where d: "drop 64 frames = f # fs" using assms(3) by (cases "drop 64 frames") auto
  have l: "length fs = length frames - 65"
    using arg_cong [OF d, of length] by simp
  have split: "frames = take 64 frames @ (f # fs)" using d by (metis append_take_drop_id)
  have ne: "take 64 frames \<noteq> []" using assms(3) by auto
  have a: "send_all wsi (take 64 frames) (c, armed, n) = (replicate 64 True, ?c1, insert wsi armed, n)"
    using send_all_room [OF assms(1), of "take 64 frames" wsi armed n] assms(2,3) ne
    by (simp add: kMaxTxQueueFrames_def)
  have e: "EnqueueFrame wsi f (?c1, insert wsi armed, n) =
      (False, ?c1\<lparr> txQueue := [], closeRequest := ?cr \<rparr>, insert wsi armed, n + 1)"
    using assms(1,3) by (simp add: EnqueueFrame_def RequestClose_def kMaxTxQueueFrames_def)
  have b: "send_all wsi (f # fs) (?c1, insert wsi armed, n) =
      (False # replicate (length fs) False, ?c1\<lparr> txQueue := [], closeRequest := ?cr \<rparr>, insert wsi armed, n + 1)"
    using e send_all_closed [of "?c1\<lparr> txQueue := [], closeRequest := ?cr \<rparr>" wsi fs "insert wsi armed" "n + 1"]
    by simp
  have "send_all wsi frames (c, armed, n) =
      (replicate 64 True @ False # replicate (length fs) False, c\<lparr> txQueue := [], closeRequest := ?cr \<rparr>,
       insert wsi armed, n + 1)"
    using send_all_append [of wsi "take 64 frames" "f # fs" "(c, armed, n)"] split a b by simp
  then have r: "oks = replicate 64 True @ False # replicate (length fs) False"
    "c' = c\<lparr> txQueue := [], closeRequest := ?cr \<rparr>" "armed' = insert wsi armed" "n' = n + 1"
    using assms(4) by simp_all
  have "replicate (length frames - 64) False = False # replicate (length fs) False"
    using l assms(3) by (simp flip: replicate_Suc)
  then show "oks = replicate 64 True @ replicate (length frames - 64) False" using r(1) by simp
  show "txQueue c' = []" "n' = n + 1" "wsi \<in> armed'" using r by simp_all
  show "ServeWriteable wsi written (c', armed', m) =
      ((True, Some (1008, ''transmit queue full''), None), c', armed', m)"
    unfolding r(2) by (simp add: ServeWriteable_def ApplyRequestedClose_def close_codes)
qed

text \<open>A peer that has stopped reading costs at most 64 queued frames: of more than 64 frames sent
  to it, exactly the first 64 are accepted, the queue is then dropped and counted as one overflow, and
  the next WRITEABLE callback writes nothing and closes the connection with 1008.\<close>

theorem slow_reader_is_closed:
  assumes "\<not> requested (closeRequest c)" "txQueue c = []" "length frames > 64"
    "send_all wsi frames (c, armed, n) = (oks, c', armed', n')"
  shows "oks = replicate 64 True @ replicate (length frames - 64) False \<and>
    txQueue c' = [] \<and> n' = n + 1 \<and> wsi \<in> armed' \<and>
    ServeWriteable wsi written (c', armed', m) =
      ((True, Some (1008, ''transmit queue full''), None), c', armed', m)"
  using slow_reader_is_closed_parts [OF assms] by blast

lemma slow_reader_is_closed_witness:
  "\<exists>oks c' armed'. send_all 7 (replicate 70 [1]) (new_connection, {}, 0) = (oks, c', armed', 1) \<and>
    oks = replicate 64 True @ replicate 6 False"
proof -
  obtain oks c' armed' n' where r: "send_all 7 (replicate 70 [1]) (new_connection, {}, 0) = (oks, c', armed', n')"
    by (metis prod.collapse)
  have "\<not> requested (closeRequest new_connection)" "txQueue new_connection = []"
    by (simp_all add: new_connection_def no_close_def)
  from slow_reader_is_closed [OF this _ r] r show ?thesis by simp
qed

end
