(* ===== verification/Sc_Rate_Limit.thy ===== *)
theory Sc_Rate_Limit
  imports Complex_Main Sc_Text Ordered_Map
begin

text \<open>
  The connection rate limit of \<^verbatim>\<open>src/sc_transport/ScTransport.cpp\<close>: token buckets, one per
  source address in a bounded table and one for the whole listener, and the filter callback that
  asks them before a TLS handshake starts.

  A time point of the steady clock is its count of nanoseconds; \<^verbatim>\<open>time_point()\<close> is 0.  The
  \<^verbatim>\<open>double\<close> token counts are exact rationals here: the rounding of the floating-point
  sums is not modelled.
\<close>

section \<open>One bucket\<close>

record token_bucket =
  tokens :: rat
  lastRefill :: nat

definition new_bucket :: token_bucket where
  "new_bucket = \<lparr> tokens = 0, lastRefill = 0 \<rparr>"

text \<open>\<^verbatim>\<open>duration<double>(b - a).count()\<close>, in seconds.\<close>

definition seconds :: "nat \<Rightarrow> nat \<Rightarrow> rat" where
  "seconds a b = of_int (int b - int a) / 1000000000"

definition TakeToken :: "token_bucket \<Rightarrow> nat \<Rightarrow> nat \<Rightarrow> bool \<times> token_bucket" where
  "TakeToken b rate now =
    (let capacity = rat_of_nat rate;
         t = (if lastRefill b = 0 then capacity
              else let refilled = tokens b + seconds (lastRefill b) now * capacity
                   in if refilled < capacity then refilled else capacity)
     in if t \<ge> 1 then (True, \<lparr> tokens = t - 1, lastRefill = now \<rparr>)
        else (False, \<lparr> tokens = t, lastRefill = now \<rparr>))"

section \<open>The listener's limits\<close>

definition kMaxTrackedAddresses :: nat where
  "kMaxTrackedAddresses = 1024"

definition kRateLimitLogInterval :: nat where
  "kRateLimitLogInterval = 10000000000"

record rate_state =
  perAddressRateLimit :: nat
  totalRateLimit :: nat
  totalBucket :: token_bucket
  addressBuckets :: "(string, token_bucket) omap"
  lastRateLimitLog :: nat
  rateLimitLogSuppressed :: nat
  rateLimitRejections :: nat

definition initial_rate_state :: rate_state where
  "initial_rate_state = \<lparr> perAddressRateLimit = 0, totalRateLimit = 0, totalBucket = new_bucket,
     addressBuckets = [], lastRateLimitLog = 0, rateLimitLogSuppressed = 0, rateLimitRejections = 0 \<rparr>"

definition SetConnectionRateLimits :: "nat \<Rightarrow> nat \<Rightarrow> rate_state \<Rightarrow> rate_state" where
  "SetConnectionRateLimits perAddressPerSecond totalPerSecond s =
    s\<lparr> perAddressRateLimit := perAddressPerSecond, totalRateLimit := totalPerSecond,
       totalBucket := new_bucket, addressBuckets := [] \<rparr>"

datatype limit_hit = PerAddress | Total

text \<open>The addresses idle for a second or more are dropped when a new address needs room.\<close>

definition age_out :: "nat \<Rightarrow> (string, token_bucket) omap \<Rightarrow> (string, token_bucket) omap" where
  "age_out now bs = filter (\<lambda>(_, b). \<not> seconds (lastRefill b) now \<ge> 1) bs"

definition make_room :: "string \<Rightarrow> nat \<Rightarrow> (string, token_bucket) omap \<Rightarrow> (string, token_bucket) omap" where
  "make_room address now bs =
    (let known = omap_has bs address;
         bs = (if \<not> known \<and> length bs \<ge> kMaxTrackedAddresses then age_out now bs else bs)
     in if \<not> known \<and> length bs < kMaxTrackedAddresses then omap_put address new_bucket bs else bs)"

text \<open>The limit that refuses the attempt, or \<^verbatim>\<open>None\<close> when it is allowed.\<close>

definition take_total :: "nat \<Rightarrow> rate_state \<Rightarrow> limit_hit option \<times> rate_state" where
  "take_total now s =
    (if totalRateLimit s \<noteq> 0 then
       let (granted, b) = TakeToken (totalBucket s) (totalRateLimit s) now in
       (if granted then None else Some Total, s\<lparr> totalBucket := b \<rparr>)
     else (None, s))"

definition AllowNewConnectionAttempt ::
  "string \<Rightarrow> nat \<Rightarrow> rate_state \<Rightarrow> limit_hit option \<times> rate_state" where
  "AllowNewConnectionAttempt address now s =
    (if perAddressRateLimit s \<noteq> 0 then
       let bs = make_room address now (addressBuckets s) in
       case map_of bs address of
         None \<Rightarrow> take_total now (s\<lparr> addressBuckets := bs \<rparr>)
       | Some b \<Rightarrow>
           let (granted, b') = TakeToken b (perAddressRateLimit s) now;
               s' = s\<lparr> addressBuckets := omap_put address b' bs \<rparr>
           in if granted then take_total now s' else (Some PerAddress, s')
     else take_total now s)"

text \<open>What the warning says: the limit, and how many refusals it stands for beside its own.\<close>

record refusal_line =
  refused_by :: limit_hit
  also_refused :: nat

text \<open>\<^verbatim>\<open>LWS_CALLBACK_FILTER_NETWORK_CONNECTION\<close>: the value returned to lws (true to carry
  on), the line logged and the new state.  \<^verbatim>\<open>later\<close> is the clock read after a refusal.\<close>

definition FilterConnection ::
  "string option \<Rightarrow> nat \<Rightarrow> nat \<Rightarrow> rate_state \<Rightarrow> bool \<times> refusal_line option \<times> rate_state" where
  "FilterConnection cli_addr now later s =
    (let address = (case cli_addr of None \<Rightarrow> ''?'' | Some ntop \<Rightarrow> AddressFromSockaddr ntop) in
     case AllowNewConnectionAttempt address now s of
       (None, s) \<Rightarrow> (True, None, s)
     | (Some limit, s) \<Rightarrow>
         let s = s\<lparr> rateLimitRejections := rateLimitRejections s + 1 \<rparr> in
         if lastRateLimitLog s \<noteq> 0 \<and> int later - int (lastRateLimitLog s) < int kRateLimitLogInterval
         then (False, None, s\<lparr> rateLimitLogSuppressed := rateLimitLogSuppressed s + 1 \<rparr>)
         else (False, Some \<lparr> refused_by = limit, also_refused = rateLimitLogSuppressed s \<rparr>,
               s\<lparr> lastRateLimitLog := later, rateLimitLogSuppressed := 0 \<rparr>))"

section \<open>The table stays bounded and ordered\<close>

definition rate_ok :: "rate_state \<Rightarrow> bool" where
  "rate_ok s \<longleftrightarrow> omap_ok (addressBuckets s) \<and> length (addressBuckets s) \<le> kMaxTrackedAddresses"

lemma omap_ok_filter: "omap_ok m \<Longrightarrow> omap_ok (filter P m)"
  by (induction m) (auto simp: image_iff)

lemma map_of_filter:
  "omap_ok m \<Longrightarrow> map_of (filter (\<lambda>(_, v). P v) m) k =
    (case map_of m k of None \<Rightarrow> None | Some v \<Rightarrow> if P v then Some v else None)"
proof (induction m)
  case (Cons kv m)
  obtain a v where kv: "kv = (a, v)" by fastforce
  have "map_of m a = None" using Cons.prems kv by (force simp: map_of_eq_None_iff)
  then show ?case using Cons kv by auto
qed simp

lemma length_omap_put:
  "length (omap_put k v m) \<le> length m + 1" "omap_ok m \<Longrightarrow> omap_has m k \<Longrightarrow> length (omap_put k v m) = length m"
proof -
  show "length (omap_put k v m) \<le> length m + 1"
    by (induction k v m rule: omap_put.induct) auto
  show "omap_ok m \<Longrightarrow> omap_has m k \<Longrightarrow> length (omap_put k v m) = length m"
  proof (induction k v m rule: omap_put.induct)
    case (2 k v k' v' m)
    have "map_of m k = None" if "k < k'"
      using 2(2) that by (force simp: map_of_eq_None_iff)
    then show ?case using 2 by (auto simp: omap_has_def)
  qed (simp add: omap_has_def)
qed

lemma length_omap_put_new: "omap_ok m \<Longrightarrow> map_of m k = None \<Longrightarrow> length (omap_put k v m) = length m + 1"
  by (induction k v m rule: omap_put.induct) auto

lemma length_omap_del: "omap_ok m \<Longrightarrow> map_of m k = Some v \<Longrightarrow> length m = length (omap_del k m) + 1"
  by (induction k m rule: omap_del.induct) auto

lemma make_room_ok:
  assumes "omap_ok bs" "length bs \<le> kMaxTrackedAddresses"
  shows "omap_ok (make_room address now bs)" "length (make_room address now bs) \<le> kMaxTrackedAddresses"
proof -
  show "omap_ok (make_room address now bs)"
    using assms by (simp add: make_room_def age_out_def Let_def omap_ok_filter)
  have "length (age_out now bs) \<le> length bs" by (simp add: age_out_def)
  then show "length (make_room address now bs) \<le> kMaxTrackedAddresses"
    using assms length_omap_put(1) [of address new_bucket "age_out now bs"] length_omap_put(1) [of address new_bucket bs]
    by (simp add: make_room_def Let_def)
qed

lemma AllowNewConnectionAttempt_ok:
  assumes "rate_ok s" shows "rate_ok (snd (AllowNewConnectionAttempt address now s))"
proof -
  let ?bs = "make_room address now (addressBuckets s)"
  have ok: "omap_ok ?bs" "length ?bs \<le> kMaxTrackedAddresses"
    using assms make_room_ok by (auto simp: rate_ok_def)
  have "length (omap_put address b ?bs) \<le> kMaxTrackedAddresses" if "map_of ?bs address = Some c" for b c
    using that ok length_omap_put(2) [of ?bs address b] by (simp add: omap_has_def)
  then show ?thesis
    using ok assms
    by (simp add: AllowNewConnectionAttempt_def take_total_def rate_ok_def Let_def split: option.split prod.split)
qed

section \<open>Levels\<close>

text \<open>What a bucket holds at a given time, before a token is taken: the abstract state, which an
  address that is not tracked has as well.\<close>

definition level :: "nat \<Rightarrow> token_bucket \<Rightarrow> nat \<Rightarrow> rat" where
  "level rate b now =
    (if lastRefill b = 0 then of_nat rate
     else min (of_nat rate) (tokens b + seconds (lastRefill b) now * of_nat rate))"

definition address_level :: "rate_state \<Rightarrow> string \<Rightarrow> nat \<Rightarrow> rat" where
  "address_level s address now =
    (case map_of (addressBuckets s) address of
       None \<Rightarrow> of_nat (perAddressRateLimit s)
     | Some b \<Rightarrow> level (perAddressRateLimit s) b now)"

lemma TakeToken_level:
  "TakeToken b rate now =
    (level rate b now \<ge> 1,
     \<lparr> tokens = (if level rate b now \<ge> 1 then level rate b now - 1 else level rate b now),
       lastRefill = now \<rparr>)"
  by (auto simp: TakeToken_def level_def Let_def min_def not_less)

lemma level_new [simp]: "level rate new_bucket now = of_nat rate"
  by (simp add: level_def new_bucket_def)

lemma level_same_time [simp]: "now \<noteq> 0 \<Longrightarrow> t \<le> of_nat rate \<Longrightarrow> level rate \<lparr> tokens = t, lastRefill = now \<rparr> now = t"
  by (simp add: level_def seconds_def)

lemma level_le_rate: "level rate b now \<le> of_nat rate"
  by (simp add: level_def)

lemma seconds_mono: "now \<le> later \<Longrightarrow> seconds a now \<le> seconds a later"
  by (simp add: seconds_def divide_right_mono)

lemma seconds_add: "seconds a c = seconds a b + seconds b c"
  by (simp add: seconds_def add_divide_distrib [symmetric])

lemma level_mono: "now \<le> later \<Longrightarrow> level rate b now \<le> level rate b later"
  using mult_right_mono [OF seconds_mono [of now later "lastRefill b"], of "of_nat rate"]
  by (auto simp: level_def min_def)

text \<open>A bucket whose count is not negative and that was idle for a second is full again.\<close>

definition bucket_ok :: "nat \<Rightarrow> token_bucket \<Rightarrow> bool" where
  "bucket_ok now b \<longleftrightarrow> 0 \<le> tokens b \<and> lastRefill b \<le> now"

lemma new_bucket_ok [simp]: "bucket_ok now new_bucket"
  by (simp add: bucket_ok_def new_bucket_def)

lemma level_nonneg: "bucket_ok now b \<Longrightarrow> 0 \<le> level rate b now"
  by (auto simp: level_def bucket_ok_def seconds_def)

lemma TakeToken_ok: "bucket_ok now b \<Longrightarrow> bucket_ok now (snd (TakeToken b rate now))"
  using level_nonneg [of now b rate] by (simp add: TakeToken_level bucket_ok_def)

lemma TakeToken_next_level:
  "now \<noteq> 0 \<Longrightarrow> level rate (snd (TakeToken b rate now)) now =
    (if level rate b now \<ge> 1 then level rate b now - 1 else level rate b now)"
  using level_le_rate [of rate b now] by (simp add: TakeToken_level)

lemma idle_is_full:
  assumes "bucket_ok now b" "seconds (lastRefill b) now \<ge> 1" shows "level rate b now = of_nat rate"
proof -
  have "1 * rat_of_nat rate \<le> seconds (lastRefill b) now * of_nat rate"
    using assms(2) by (intro mult_right_mono) auto
  then show ?thesis using assms(1) by (simp add: level_def bucket_ok_def)
qed

definition buckets_ok :: "nat \<Rightarrow> rate_state \<Rightarrow> bool" where
  "buckets_ok now s \<longleftrightarrow> rate_ok s \<and> bucket_ok now (totalBucket s) \<and>
    (\<forall>a b. map_of (addressBuckets s) a = Some b \<longrightarrow> bucket_ok now b)"

lemma buckets_ok_later: "buckets_ok now s \<Longrightarrow> now \<le> later \<Longrightarrow> buckets_ok later s"
  unfolding buckets_ok_def bucket_ok_def by (meson order_trans)

lemma make_room_level:
  assumes "omap_ok bs" "\<forall>a b. map_of bs a = Some b \<longrightarrow> bucket_ok now b"
  shows "(case map_of (make_room address now bs) a of None \<Rightarrow> of_nat rate | Some b \<Rightarrow> level rate b now) =
    (case map_of bs a of None \<Rightarrow> of_nat rate | Some b \<Rightarrow> level rate b now)"
proof -
  have out: "(case map_of (age_out now bs) c of None \<Rightarrow> of_nat rate | Some b \<Rightarrow> level rate b now) =
      (case map_of bs c of None \<Rightarrow> of_nat rate | Some b \<Rightarrow> level rate b now)" for c
    using assms idle_is_full map_of_filter [OF assms(1), of "\<lambda>b. \<not> seconds (lastRefill b) now \<ge> 1" c]
    by (auto simp: age_out_def split: option.split)
  have ok: "omap_ok (age_out now bs)"
    using assms(1) by (simp add: age_out_def omap_ok_filter)
  have gone: "map_of (age_out now bs) address = None" if "\<not> omap_has bs address"
    using that map_of_filter [OF assms(1), of "\<lambda>b. \<not> seconds (lastRefill b) now \<ge> 1" address]
    by (simp add: age_out_def omap_has_def)
  show ?thesis
    using out [of a] ok gone assms(1) by (auto simp: make_room_def Let_def omap_has_def)
qed

lemma make_room_bucket_ok:
  assumes "omap_ok bs" "\<forall>a b. map_of bs a = Some b \<longrightarrow> bucket_ok now b" "map_of (make_room address now bs) a = Some b"
  shows "bucket_ok now b"
proof -
  have "map_of (age_out now bs) c = Some d \<Longrightarrow> bucket_ok now d" for c d
    using assms(1,2) map_of_filter [OF assms(1), of "\<lambda>b. \<not> seconds (lastRefill b) now \<ge> 1" c]
    by (auto simp: age_out_def split: option.splits if_splits)
  moreover have "omap_ok (age_out now bs)"
    using assms(1) by (simp add: age_out_def omap_ok_filter)
  ultimately show ?thesis
    using assms by (auto simp: make_room_def Let_def new_bucket_def bucket_ok_def split: if_splits)
qed

definition has_room :: "string \<Rightarrow> nat \<Rightarrow> rate_state \<Rightarrow> bool" where
  "has_room address now s \<longleftrightarrow> omap_has (addressBuckets s) address \<or>
    length (addressBuckets s) < kMaxTrackedAddresses \<or>
    (\<exists>(_, b) \<in> set (addressBuckets s). seconds (lastRefill b) now \<ge> 1)"

lemma make_room_tracks:
  assumes "buckets_ok now s" "has_room address now s"
  shows "\<exists>b. map_of (make_room address now (addressBuckets s)) address = Some b"
proof (cases "omap_has (addressBuckets s) address")
  case True
  then show ?thesis by (auto simp: make_room_def omap_has_def Let_def)
next
  case new: False
  let ?bs = "addressBuckets s"
  have ok: "omap_ok ?bs" "length ?bs \<le> kMaxTrackedAddresses"
    using assms(1) by (simp_all add: buckets_ok_def rate_ok_def)
  have "length (age_out now ?bs) < kMaxTrackedAddresses" if "length ?bs \<ge> kMaxTrackedAddresses"
  proof -
    have "\<exists>x \<in> set ?bs. \<not> (case x of (_, b) \<Rightarrow> \<not> seconds (lastRefill b) now \<ge> 1)"
      using assms(2) new that by (auto simp: has_room_def)
    then have "length (age_out now ?bs) < length ?bs"
      unfolding age_out_def by (blast intro: length_filter_less)
    then show ?thesis using ok(2) by simp
  qed
  then show ?thesis
    using new ok by (auto simp: make_room_def Let_def age_out_def omap_ok_filter)
qed

section \<open>The table refines one bucket per address\<close>

text \<open>The abstract limiter: every address, seen or not, has a level of its own.\<close>

definition ideal_attempt ::
  "nat \<Rightarrow> nat \<Rightarrow> string \<Rightarrow> (string \<Rightarrow> rat) \<times> rat \<Rightarrow> limit_hit option \<times> (string \<Rightarrow> rat) \<times> rat" where
  "ideal_attempt per_address total_rate address st =
    (let (levels, left) = st in
     if per_address \<noteq> 0 \<and> levels address < 1 then (Some PerAddress, levels, left) else
     let levels = (if per_address \<noteq> 0 then levels(address := levels address - 1) else levels) in
     if total_rate \<noteq> 0 \<and> left < 1 then (Some Total, levels, left)
     else (None, levels, if total_rate \<noteq> 0 then left - 1 else left))"

definition rate_levels :: "rate_state \<Rightarrow> nat \<Rightarrow> (string \<Rightarrow> rat) \<times> rat" where
  "rate_levels s now = (\<lambda>a. address_level s a now, level (totalRateLimit s) (totalBucket s) now)"

lemma take_total_refines:
  assumes "now \<noteq> 0"
  shows "(let (r, s') = take_total now s in (r, rate_levels s' now)) =
    (if totalRateLimit s \<noteq> 0 \<and> snd (rate_levels s now) < 1 then (Some Total, rate_levels s now)
     else (None, fst (rate_levels s now),
       if totalRateLimit s \<noteq> 0 then snd (rate_levels s now) - 1 else snd (rate_levels s now)))"
  using TakeToken_next_level [OF assms, of "totalRateLimit s" "totalBucket s"]
  by (auto simp: take_total_def rate_levels_def address_level_def TakeToken_level fun_eq_iff split: option.split)

lemma take_total_keeps:
  assumes "buckets_ok now s"
  shows "buckets_ok now (snd (take_total now s))"
    "perAddressRateLimit (snd (take_total now s)) = perAddressRateLimit s"
    "totalRateLimit (snd (take_total now s)) = totalRateLimit s"
    "addressBuckets (snd (take_total now s)) = addressBuckets s"
  using assms TakeToken_ok [of now "totalBucket s" "totalRateLimit s"]
  by (auto simp: take_total_def buckets_ok_def rate_ok_def split: prod.split)

lemma attempt_cases:
  assumes "buckets_ok now s"
  obtains (off) "perAddressRateLimit s = 0" "AllowNewConnectionAttempt address now s = take_total now s"
  | (untracked) bs where "perAddressRateLimit s \<noteq> 0" "bs = make_room address now (addressBuckets s)"
      "map_of bs address = None" "buckets_ok now (s\<lparr> addressBuckets := bs \<rparr>)"
      "AllowNewConnectionAttempt address now s = take_total now (s\<lparr> addressBuckets := bs \<rparr>)"
  | (tracked) bs b b' granted where "perAddressRateLimit s \<noteq> 0" "bs = make_room address now (addressBuckets s)"
      "map_of bs address = Some b" "omap_ok bs" "bucket_ok now b"
      "TakeToken b (perAddressRateLimit s) now = (granted, b')"
      "buckets_ok now (s\<lparr> addressBuckets := omap_put address b' bs \<rparr>)"
      "AllowNewConnectionAttempt address now s =
        (if granted then take_total now (s\<lparr> addressBuckets := omap_put address b' bs \<rparr>)
         else (Some PerAddress, s\<lparr> addressBuckets := omap_put address b' bs \<rparr>))"
proof (cases "perAddressRateLimit s = 0")
  case True
  then show ?thesis using off by (simp add: AllowNewConnectionAttempt_def)
next
  case False
  obtain bs where bs: "bs = make_room address now (addressBuckets s)" by simp
  have ok: "omap_ok (addressBuckets s)" "length (addressBuckets s) \<le> kMaxTrackedAddresses"
    "\<forall>a b. map_of (addressBuckets s) a = Some b \<longrightarrow> bucket_ok now b" "bucket_ok now (totalBucket s)"
    using assms by (simp_all add: buckets_ok_def rate_ok_def)
  have bs_ok: "omap_ok bs" "length bs \<le> kMaxTrackedAddresses" "\<And>a b. map_of bs a = Some b \<Longrightarrow> bucket_ok now b"
    using make_room_ok [OF ok(1,2)] make_room_bucket_ok [OF ok(1,3)] bs by auto
  show ?thesis
  proof (cases "map_of bs address")
    case None
    then show ?thesis
      using untracked [OF False bs None] bs_ok ok(4) False bs
      by (simp add: AllowNewConnectionAttempt_def buckets_ok_def rate_ok_def Let_def)
  next
    case (Some b)
    obtain granted b' where t: "TakeToken b (perAddressRateLimit s) now = (granted, b')" by fastforce
    have b': "bucket_ok now b'"
      using TakeToken_ok [OF bs_ok(3) [OF Some], of "perAddressRateLimit s"] t by simp
    have "length (omap_put address b' bs) \<le> kMaxTrackedAddresses"
      using length_omap_put(2) [OF bs_ok(1), of address b'] Some bs_ok(2) by (simp add: omap_has_def)
    then have "buckets_ok now (s\<lparr> addressBuckets := omap_put address b' bs \<rparr>)"
      using bs_ok ok(4) b' by (auto simp: buckets_ok_def rate_ok_def)
    moreover have "AllowNewConnectionAttempt address now s =
        (if granted then take_total now (s\<lparr> addressBuckets := omap_put address b' bs \<rparr>)
         else (Some PerAddress, s\<lparr> addressBuckets := omap_put address b' bs \<rparr>))"
      using False Some t bs by (simp add: AllowNewConnectionAttempt_def Let_def)
    ultimately show ?thesis
      using tracked [OF False bs Some bs_ok(1) bs_ok(3) [OF Some] t] by blast
  qed
qed

lemma attempt_keeps_ok:
  assumes "buckets_ok now s"
  shows "buckets_ok now (snd (AllowNewConnectionAttempt address now s))"
    "perAddressRateLimit (snd (AllowNewConnectionAttempt address now s)) = perAddressRateLimit s"
    "totalRateLimit (snd (AllowNewConnectionAttempt address now s)) = totalRateLimit s"
proof -
  have "buckets_ok now (snd (AllowNewConnectionAttempt address now s)) \<and>
    perAddressRateLimit (snd (AllowNewConnectionAttempt address now s)) = perAddressRateLimit s \<and>
    totalRateLimit (snd (AllowNewConnectionAttempt address now s)) = totalRateLimit s"
    by (cases rule: attempt_cases [OF assms, of address])
       (use assms in \<open>simp_all add: take_total_keeps\<close>)
  then show "buckets_ok now (snd (AllowNewConnectionAttempt address now s))"
    "perAddressRateLimit (snd (AllowNewConnectionAttempt address now s)) = perAddressRateLimit s"
    "totalRateLimit (snd (AllowNewConnectionAttempt address now s)) = totalRateLimit s" by blast+
qed

lemma levels_after_put:
  assumes "buckets_ok now s" "bs = make_room address now (addressBuckets s)" "map_of bs address = Some b"
    "omap_ok bs"
  shows "address_level (s\<lparr> addressBuckets := omap_put address b' bs \<rparr>) a now =
      (if a = address then level (perAddressRateLimit s) b' now else address_level s a now)"
    "address_level s address now = level (perAddressRateLimit s) b now"
proof -
  have ok: "omap_ok (addressBuckets s)" "\<forall>a b. map_of (addressBuckets s) a = Some b \<longrightarrow> bucket_ok now b"
    using assms(1) by (simp_all add: buckets_ok_def rate_ok_def)
  have mr: "(case map_of bs c of None \<Rightarrow> of_nat (perAddressRateLimit s) | Some b \<Rightarrow> level (perAddressRateLimit s) b now) =
    address_level s c now" for c
    unfolding address_level_def assms(2) using make_room_level [OF ok] .
  show "address_level s address now = level (perAddressRateLimit s) b now"
    using mr [of address] assms(3) by simp
  show "address_level (s\<lparr> addressBuckets := omap_put address b' bs \<rparr>) a now =
      (if a = address then level (perAddressRateLimit s) b' now else address_level s a now)"
    using mr [of a] assms(4) by (simp add: address_level_def split: option.splits)
qed

text \<open>C30: The bounded table of address buckets behaves like an unbounded one with a bucket for every
  address: whenever there is room for the address (it is tracked, the table is not full, or some
  tracked address has been idle for a second), an attempt is decided, and every address's level
  afterwards is, as if no bucket had ever been forgotten.  In particular one address's attempts never
  change another's level.\<close>

theorem forgetting_idle_buckets_loses_nothing:
  assumes "buckets_ok now s" "now \<noteq> 0" "has_room address now s"
    "AllowNewConnectionAttempt address now s = (r, s')"
  shows "(r, rate_levels s' now) =
    ideal_attempt (perAddressRateLimit s) (totalRateLimit s) address (rate_levels s now)"
proof (cases rule: attempt_cases [OF assms(1), of address, case_names off untracked tracked])
  case off
  then have t: "take_total now s = (r, s')" using assms(4) by simp
  show ?thesis
    using take_total_refines [OF assms(2), of s] off(1) unfolding t
    by (cases "rate_levels s now") (simp add: ideal_attempt_def Let_def)
next
  case (untracked bs)
  then show ?thesis using make_room_tracks [OF assms(1,3)] by simp
next
  case (tracked bs b b' granted)
  let ?s = "s\<lparr> addressBuckets := omap_put address b' bs \<rparr>"
  let ?l = "level (perAddressRateLimit s) b now"
  note lv = levels_after_put [OF assms(1) tracked(2,3,4)]
  have g: "granted \<longleftrightarrow> ?l \<ge> 1" "b' = snd (TakeToken b (perAddressRateLimit s) now)"
    using tracked(6) by (auto simp: TakeToken_level)
  have after: "rate_levels ?s now =
      ((\<lambda>a. address_level s a now)(address := if granted then ?l - 1 else ?l), snd (rate_levels s now))"
    using lv TakeToken_next_level [OF assms(2), of "perAddressRateLimit s" b] g
    by (auto simp: rate_levels_def fun_eq_iff)
  show ?thesis
  proof (cases granted)
    case False
    have same: "(\<lambda>a. address_level s a now)(address := ?l) = (\<lambda>a. address_level s a now)"
      using lv(2) by (auto simp: fun_eq_iff)
    have "r = Some PerAddress" "s' = ?s" using False tracked(8) assms(4) by simp_all
    then show ?thesis
      using after False same g tracked(1) lv(2) by (simp add: ideal_attempt_def rate_levels_def)
  next
    case True
    then have "take_total now ?s = (r, s')" using tracked(8) assms(4) by simp
    then show ?thesis
      using take_total_refines [OF assms(2), of ?s] after True g tracked(1) lv(2)
      by (simp add: ideal_attempt_def rate_levels_def Let_def not_less)
  qed
qed


section \<open>How many connections a window lets through\<close>

lemma level_growth: "now \<le> later \<Longrightarrow> level rate b later \<le> level rate b now + of_nat rate * seconds now later"
proof -
  assume t: "now \<le> later"
  have "seconds (lastRefill b) later = seconds (lastRefill b) now + seconds now later"
    by (rule seconds_add)
  then have e: "seconds (lastRefill b) later * of_nat rate =
      seconds (lastRefill b) now * of_nat rate + of_nat rate * seconds now later"
    by (simp add: algebra_simps)
  have "0 \<le> of_nat rate * seconds now later" using t by (simp add: seconds_def)
  then show ?thesis unfolding level_def e by (simp add: min_def)
qed

lemma total_after_attempt:
  assumes "buckets_ok now s" "now \<noteq> 0" "totalRateLimit s \<noteq> 0"
  shows "level (totalRateLimit s) (totalBucket (snd (AllowNewConnectionAttempt address now s))) now =
    level (totalRateLimit s) (totalBucket s) now -
      (if fst (AllowNewConnectionAttempt address now s) = None then 1 else 0)"
proof -
  have tt: "level (totalRateLimit s) (totalBucket (snd (take_total now u))) now =
      level (totalRateLimit s) (totalBucket s) now - (if fst (take_total now u) = None then 1 else 0)"
    if "totalRateLimit u = totalRateLimit s" "totalBucket u = totalBucket s" for u
    using TakeToken_next_level [OF assms(2), of "totalRateLimit s" "totalBucket s"] assms(3) that
    by (auto simp: take_total_def TakeToken_level)
  show ?thesis
    by (cases rule: attempt_cases [OF assms(1), of address]) (use tt in auto)
qed

fun run_attempts :: "(string \<times> nat) list \<Rightarrow> rate_state \<Rightarrow> limit_hit option list \<times> rate_state" where
  "run_attempts [] s = ([], s)"
| "run_attempts ((address, now) # later) s =
    (let (r, s) = AllowNewConnectionAttempt address now s; (rs, s) = run_attempts later s in (r # rs, s))"

definition granted :: "limit_hit option list \<Rightarrow> nat" where
  "granted rs = length (filter (\<lambda>r. r = None) rs)"

fun clock_runs :: "nat \<Rightarrow> (string \<times> nat) list \<Rightarrow> bool" where
  "clock_runs now [] = True"
| "clock_runs now ((_, t) # later) \<longleftrightarrow> now \<le> t \<and> t \<noteq> 0 \<and> clock_runs t later"

lemma granted_level_bound:
  assumes "buckets_ok now s" "clock_runs now attempts" "totalRateLimit s \<noteq> 0"
  shows "of_nat (granted (fst (run_attempts attempts s))) \<le>
    level (totalRateLimit s) (totalBucket s) now +
      of_nat (totalRateLimit s) * seconds now (if attempts = [] then now else snd (last attempts))"
  using assms
proof (induction attempts arbitrary: now s)
  case Nil
  then show ?case
    using level_nonneg [of now "totalBucket s" "totalRateLimit s"]
    by (simp add: granted_def seconds_def buckets_ok_def)
next
  case (Cons x later)
  obtain a t where at: "x = (a, t)" by fastforce
  obtain r s' where r: "AllowNewConnectionAttempt a t s = (r, s')" by fastforce
  obtain rs s'' where rs: "run_attempts later s' = (rs, s'')" by fastforce
  have t: "now \<le> t" "t \<noteq> 0" "clock_runs t later" using Cons.prems(2) at by simp_all
  have ok: "buckets_ok t s" using Cons.prems(1) t(1) by (rule buckets_ok_later)
  have s': "buckets_ok t s'" "totalRateLimit s' = totalRateLimit s"
    using attempt_keeps_ok [OF ok, of a] r by simp_all
  let ?R = "totalRateLimit s" and ?last = "if later = [] then t else snd (last later)"
  have IH: "of_nat (granted rs) \<le> level ?R (totalBucket s') t + of_nat ?R * seconds t ?last"
    using Cons.IH [OF s'(1) t(3)] s'(2) Cons.prems(3) rs by simp
  have one: "level ?R (totalBucket s') t = level ?R (totalBucket s) t - (if r = None then 1 else 0)"
    using total_after_attempt [OF ok t(2) Cons.prems(3), of a] r by simp
  have "of_nat (granted (fst (run_attempts (x # later) s))) = (if r = None then 1 else 0) + rat_of_nat (granted rs)"
    using at r rs by (simp add: granted_def)
  also have "\<dots> \<le> level ?R (totalBucket s) t + of_nat ?R * seconds t ?last"
    using IH one by simp
  also have "\<dots> \<le> level ?R (totalBucket s) now + of_nat ?R * seconds now t + of_nat ?R * seconds t ?last"
    using level_growth [OF t(1), of ?R "totalBucket s"] by simp
  also have "\<dots> = level ?R (totalBucket s) now + of_nat ?R * seconds now ?last"
    using seconds_add [of now ?last t] by (simp add: algebra_simps)
  finally show ?case using at by (simp split: if_splits)
qed


definition limited_state :: rate_state where
  "limited_state = SetConnectionRateLimits 2 3 initial_rate_state"

lemma limited_state_ok: "buckets_ok now limited_state"
  by (simp add: limited_state_def SetConnectionRateLimits_def initial_rate_state_def buckets_ok_def rate_ok_def)


lemma forgetting_idle_buckets_loses_nothing_witness:
  "\<exists>r s'. AllowNewConnectionAttempt ''a'' 5 limited_state = (r, s') \<and>
    (r, rate_levels s' 5) = ideal_attempt 2 3 ''a'' (rate_levels limited_state 5)"
proof -
  obtain r s' where r: "AllowNewConnectionAttempt ''a'' 5 limited_state = (r, s')" by fastforce
  have room: "has_room ''a'' 5 limited_state"
    by (simp add: has_room_def limited_state_def SetConnectionRateLimits_def kMaxTrackedAddresses_def)
  show ?thesis
    using forgetting_idle_buckets_loses_nothing [OF limited_state_ok _ room r] r
    by (simp add: limited_state_def SetConnectionRateLimits_def)
qed

end
