(* ===== verification/Sc_Tls.thy ===== *)
theory Sc_Tls
  imports Sc_Text
begin

text \<open>
  The TLS side of \<^verbatim>\<open>src/sc_transport/ScTransport.cpp\<close> (certificate self-diagnosis, revocation
  lists, the verification callback) and \<^verbatim>\<open>KeyPassword.cpp\<close>, the password of an encrypted
  private key.  OpenSSL's parsers and checks are parameters.
\<close>

section \<open>Certificate self-diagnosis\<close>

record ('c, 'k) pem_readers =
  read_cert :: "string \<Rightarrow> 'c option"
  read_key :: "string \<Rightarrow> 'k option"
  key_matches :: "'c \<Rightarrow> 'k \<Rightarrow> bool"

text \<open>The static variables that limit the log lines to one set in 30 seconds.\<close>

record diagnostics_log =
  haveLoggedOnce :: bool
  lastLogTime :: nat

definition kMinLogInterval :: nat where
  "kMinLogInterval = 30000000000"

definition diagnostics_due :: "nat \<Rightarrow> diagnostics_log \<Rightarrow> bool \<times> diagnostics_log" where
  "diagnostics_due now d =
    (let shouldLog = \<not> haveLoggedOnce d \<or> int now - int (lastLogTime d) \<ge> int kMinLogInterval
     in (shouldLog, if shouldLog then \<lparr> haveLoggedOnce = True, lastLogTime = now \<rparr> else d))"

definition confirmedMismatch :: "('c, 'k) pem_readers \<Rightarrow> tls_files \<Rightarrow> bool" where
  "confirmedMismatch ssl tls =
    (case read_cert ssl (certPath tls) of None \<Rightarrow> False
     | Some cert \<Rightarrow>
         (case read_key ssl (keyPath tls) of None \<Rightarrow> False
          | Some pkey \<Rightarrow> \<not> key_matches ssl cert pkey))"

definition LogCertificateDiagnostics ::
  "('c, 'k) pem_readers \<Rightarrow> tls_files \<Rightarrow> nat \<Rightarrow> diagnostics_log \<Rightarrow> bool \<times> diagnostics_log" where
  "LogCertificateDiagnostics ssl tls now d =
    (\<not> confirmedMismatch ssl tls, snd (diagnostics_due now d))"

text \<open>\<^verbatim>\<open>ASN1_TIME_diff\<close>'s days and seconds, \<^verbatim>\<open>None\<close> when it fails; the outer
  \<^verbatim>\<open>None\<close> is a null time.\<close>

definition DaysRelativeToNow :: "(int \<times> int) option option \<Rightarrow> string" where
  "DaysRelativeToNow when =
    (case when of None \<Rightarrow> ''<unknown>''
     | Some None \<Rightarrow> ''<unparseable>''
     | Some (Some (days, secs)) \<Rightarrow>
         if days < 0 \<or> days = 0 \<and> secs < 0
         then dec (nat (if days < 0 then - days else 0)) @ '' day(s) ago''
         else dec (nat days) @ '' day(s) from now'')"

text \<open>The value returned to lws for OpenSSL's own \<^verbatim>\<open>preverify_ok\<close>.\<close>

definition LogClientCertVerificationResult :: "int \<Rightarrow> int" where
  "LogClientCertVerificationResult preverifyOk = (if preverifyOk \<noteq> 0 then 0 else 1)"

text \<open>The subject line \<^verbatim>\<open>X509_NAME_print_ex\<close> gives, \<^verbatim>\<open>None\<close> without a certificate
  or without memory for it.\<close>

definition PeerCertificateSubject :: "string option \<Rightarrow> string" where
  "PeerCertificateSubject printed =
    (case printed of None \<Rightarrow> ''?''
     | Some subject \<Rightarrow> SafeForLog (if subject = [] then ''?'' else subject) 512)"

section \<open>Revocation lists\<close>

record 'r cert_store =
  store_crls :: "'r list"
  crl_check :: bool

text \<open>The CRLs \<^verbatim>\<open>PEM_read_bio_X509_CRL\<close> reads from a file before it fails, and whether the
  store takes one.\<close>

record 'r crl_reader =
  crls_in :: "string \<Rightarrow> 'r list"
  takes_crl :: "'r \<Rightarrow> bool"

definition add_crls :: "'r crl_reader \<Rightarrow> 'r list \<Rightarrow> 'r cert_store \<Rightarrow> nat \<times> 'r cert_store" where
  "add_crls pem crls st =
    fold (\<lambda>crl (n, st). if takes_crl pem crl then (n + 1, st\<lparr> store_crls := store_crls st @ [crl] \<rparr>) else (n, st))
      crls (0, st)"

text \<open>The store is \<^verbatim>\<open>None\<close> when lws passed no \<^verbatim>\<open>SSL_CTX\<close>.\<close>

definition LoadRevocationList ::
  "(string \<Rightarrow> bool) \<Rightarrow> 'r crl_reader \<Rightarrow> string \<Rightarrow> 'r cert_store option \<Rightarrow> bool \<times> 'r cert_store option" where
  "LoadRevocationList opens pem path ctx =
    (case ctx of None \<Rightarrow> (True, None)
     | Some store \<Rightarrow>
         if path = [] \<or> \<not> FileReadable opens path then (True, Some store)
         else let (count, store) = add_crls pem (crls_in pem path) store in
           if count = 0 then (False, Some store)
           else (True, Some (store\<lparr> crl_check := True \<rparr>)))"

text \<open>\<^verbatim>\<open>LWS_CALLBACK_OPENSSL_LOAD_EXTRA_SERVER_VERIFY_CERTS\<close>: non-zero fails the context.\<close>

definition LoadServerRevocationList ::
  "(string \<Rightarrow> bool) \<Rightarrow> 'r crl_reader \<Rightarrow> string \<Rightarrow> 'r cert_store option \<Rightarrow> int \<times> 'r cert_store option" where
  "LoadServerRevocationList opens pem crl_file ctx =
    (let (ok, ctx) = LoadRevocationList opens pem crl_file ctx in (if ok then 0 else 1, ctx))"

text \<open>\<^verbatim>\<open>LWS_CALLBACK_OPENSSL_LOAD_EXTRA_CLIENT_VERIFY_CERTS\<close>: lws ignores the value.\<close>

definition LoadClientRevocationList ::
  "(string \<Rightarrow> bool) \<Rightarrow> 'r crl_reader \<Rightarrow> string \<Rightarrow> 'r cert_store option \<Rightarrow> int \<times> 'r cert_store option" where
  "LoadClientRevocationList opens pem crl_file ctx =
    (let (ok, ctx) = LoadRevocationList opens pem crl_file ctx in
     (0, if \<not> ok then map_option (\<lambda>store. store\<lparr> crl_check := True \<rparr>) ctx else ctx))"

text \<open>What OpenSSL does with a store (documented behaviour of \<^verbatim>\<open>X509_V_FLAG_CRL_CHECK\<close>): a
  certificate passes when checking is off, or when some CRL covers it and none of those that do lists
  it.\<close>

definition store_accepts :: "('r \<Rightarrow> 'c \<Rightarrow> bool) \<Rightarrow> ('r \<Rightarrow> 'c \<Rightarrow> bool) \<Rightarrow> 'r cert_store \<Rightarrow> 'c \<Rightarrow> bool" where
  "store_accepts covers revokes store cert \<longleftrightarrow>
    \<not> crl_check store \<or>
    (\<exists>r \<in> set (store_crls store). covers r cert) \<and>
    (\<forall>r \<in> set (store_crls store). covers r cert \<longrightarrow> \<not> revokes r cert)"

lemma add_crls_from:
  "fold (\<lambda>crl (n, st). if takes_crl pem crl then (n + 1, st\<lparr> store_crls := store_crls st @ [crl] \<rparr>) else (n, st))
      crls (n, st) =
    (n + length (filter (takes_crl pem) crls), st\<lparr> store_crls := store_crls st @ filter (takes_crl pem) crls \<rparr>)"
  by (induction crls arbitrary: n st) simp_all

lemma add_crls_eq:
  "add_crls pem crls st =
    (length (filter (takes_crl pem) crls), st\<lparr> store_crls := store_crls st @ filter (takes_crl pem) crls \<rparr>)"
  unfolding add_crls_def using add_crls_from [of pem crls 0 st] by simp

lemma revocation_fails_closed_parts:
  assumes "path \<noteq> []" "opens path" "store_crls store = []"
    "taken = filter (takes_crl pem) (crls_in pem path)"
    "LoadServerRevocationList opens pem path (Some store) = (rc, srv)"
    "LoadClientRevocationList opens pem path (Some store) = (rc', cli)"
  shows "rc = 0 \<longleftrightarrow> taken \<noteq> []"
    "rc = 0 \<Longrightarrow> \<exists>st. srv = Some st \<and> (store_accepts covers revokes st cert \<longleftrightarrow>
      (\<exists>r \<in> set taken. covers r cert) \<and> (\<forall>r \<in> set taken. covers r cert \<longrightarrow> \<not> revokes r cert))"
    "\<exists>st. cli = Some st \<and> (store_accepts covers revokes st cert \<longleftrightarrow>
      (\<exists>r \<in> set taken. covers r cert) \<and> (\<forall>r \<in> set taken. covers r cert \<longrightarrow> \<not> revokes r cert))"
proof -
  have l: "LoadRevocationList opens pem path (Some store) =
      (if taken = [] then (False, Some (store\<lparr> store_crls := taken \<rparr>))
       else (True, Some (store\<lparr> store_crls := taken, crl_check := True \<rparr>)))"
    using assms(1-3) unfolding assms(4) by (simp add: LoadRevocationList_def FileReadable_def add_crls_eq)
  show "rc = 0 \<longleftrightarrow> taken \<noteq> []"
    "rc = 0 \<Longrightarrow> \<exists>st. srv = Some st \<and> (store_accepts covers revokes st cert \<longleftrightarrow>
      (\<exists>r \<in> set taken. covers r cert) \<and> (\<forall>r \<in> set taken. covers r cert \<longrightarrow> \<not> revokes r cert))"
    using assms(5) l by (auto simp: LoadServerRevocationList_def store_accepts_def split: if_splits)
  show "\<exists>st. cli = Some st \<and> (store_accepts covers revokes st cert \<longleftrightarrow>
      (\<exists>r \<in> set taken. covers r cert) \<and> (\<forall>r \<in> set taken. covers r cert \<longrightarrow> \<not> revokes r cert))"
    using assms(6) l by (auto simp: LoadClientRevocationList_def store_accepts_def split: if_splits)
qed



section \<open>The password of the private key\<close>

definition kMaxAttempts :: nat where
  "kMaxAttempts = 3"

text \<open>\<^verbatim>\<open>s.find(what) != npos\<close>.\<close>

definition contains_text :: "string \<Rightarrow> string \<Rightarrow> bool" where
  "contains_text s what \<longleftrightarrow> list_ex (\<lambda>i. StartsWith (drop i s) what) [0..<length s + 1]"

definition IsEncryptedKeyFile :: "string \<Rightarrow> bool" where
  "IsEncryptedKeyFile contents \<longleftrightarrow>
    contains_text contents ''BEGIN ENCRYPTED PRIVATE KEY'' \<or>
    contains_text contents ''Proc-Type: 4,ENCRYPTED''"

text \<open>A line read from the console, its final carriage return dropped.\<close>

definition hidden_line :: "string \<Rightarrow> string" where
  "hidden_line line = (if line \<noteq> [] \<and> last line = CHR 0x0d then butlast line else line)"

fun ask :: "(string \<Rightarrow> bool) \<Rightarrow> nat \<Rightarrow> string list \<Rightarrow> string option" where
  "ask unlocks 0 lines = None"
| "ask unlocks (Suc n) [] = None"
| "ask unlocks (Suc n) (l # lines) =
    (let typed = hidden_line l in if unlocks typed then Some typed else ask unlocks n lines)"

text \<open>\<^verbatim>\<open>Prepare\<close> over the text of the key file and the lines typed before the input closes:
  whether it succeeded and the password kept.\<close>

definition Prepare :: "(string \<Rightarrow> string \<Rightarrow> bool) \<Rightarrow> string \<Rightarrow> string list \<Rightarrow> bool \<times> string option" where
  "Prepare Unlocks keyText lines =
    (if keyText = [] \<or> \<not> IsEncryptedKeyFile keyText then (True, None)
     else case ask (Unlocks keyText) kMaxAttempts lines of
            Some typed \<Rightarrow> (True, Some typed)
          | None \<Rightarrow> (False, None))"

definition Get :: "string option \<Rightarrow> string option" where
  "Get password = map_option c_str password"

text \<open>The buffer after the call and the length returned; the outer \<^verbatim>\<open>None\<close> is a write outside
  the buffer.\<close>

definition PemCallback :: "string option \<Rightarrow> string option \<Rightarrow> int \<Rightarrow> (string option \<times> int) option" where
  "PemCallback password buffer bufsize =
    (case (password, buffer) of
       (Some pw, Some buf) \<Rightarrow>
         if bufsize \<le> 0 then Some (buffer, 0)
         else let n = int (length pw) in
           if n \<ge> bufsize then Some (buffer, 0)
           else if length pw + 1 > length buf then None
           else Some (Some (pw @ CHR 0x00 # drop (length pw + 1) buf), n)
     | _ \<Rightarrow> Some (buffer, 0))"

lemma ask_Some: "ask unlocks n lines = Some pw \<Longrightarrow> unlocks pw \<and> pw \<in> hidden_line ` set (take n lines)"
  by (induction unlocks n lines rule: ask.induct) (auto simp: Let_def split: if_splits)

lemma ask_None: "ask unlocks n lines = None \<longleftrightarrow> (\<forall>l \<in> set (take n lines). \<not> unlocks (hidden_line l))"
  by (induction unlocks n lines rule: ask.induct) (auto simp: Let_def)

lemma key_password_exact_parts:
  assumes "Prepare Unlocks keyText lines = (ok, password)"
  shows "(\<forall>pw. password = Some pw \<longrightarrow> ok \<and> Unlocks keyText pw \<and> pw \<in> hidden_line ` set (take 3 lines)) \<and>
    (ok \<longleftrightarrow> keyText = [] \<or> \<not> IsEncryptedKeyFile keyText \<or>
      (\<exists>l \<in> set (take 3 lines). Unlocks keyText (hidden_line l)))"
    "int (length buf) = bufsize \<Longrightarrow>
      PemCallback password (Some buf) bufsize =
        Some (case password of
          Some pw \<Rightarrow> if length pw < length buf then (Some (pw @ CHR 0x00 # drop (length pw + 1) buf), int (length pw))
            else (Some buf, 0)
        | None \<Rightarrow> (Some buf, 0))"
proof -
  show "(\<forall>pw. password = Some pw \<longrightarrow> ok \<and> Unlocks keyText pw \<and> pw \<in> hidden_line ` set (take 3 lines)) \<and>
    (ok \<longleftrightarrow> keyText = [] \<or> \<not> IsEncryptedKeyFile keyText \<or>
      (\<exists>l \<in> set (take 3 lines). Unlocks keyText (hidden_line l)))"
    using assms ask_Some [of "Unlocks keyText" 3 lines] ask_None [of "Unlocks keyText" 3 lines]
    by (auto simp: Prepare_def kMaxAttempts_def split: if_splits option.splits)
  show "int (length buf) = bufsize \<Longrightarrow>
      PemCallback password (Some buf) bufsize =
        Some (case password of
          Some pw \<Rightarrow> if length pw < length buf then (Some (pw @ CHR 0x00 # drop (length pw + 1) buf), int (length pw))
            else (Some buf, 0)
        | None \<Rightarrow> (Some buf, 0))"
    by (auto simp: PemCallback_def Let_def split: option.split)
qed

text \<open>A password is kept only when it unlocks the key and was one of the first three lines typed;
  it is kept whenever one of those three lines unlocks it, and start-up goes on without a question when
  the key is not encrypted.  OpenSSL then gets exactly that password, null-terminated, when it fits the
  buffer and nothing otherwise, and no octet outside the buffer is written.\<close>

theorem key_password_exact:
  assumes "Prepare Unlocks keyText lines = (ok, password)"
  shows "(\<forall>pw. password = Some pw \<longrightarrow> ok \<and> Unlocks keyText pw \<and> pw \<in> hidden_line ` set (take 3 lines)) \<and>
    (ok \<longleftrightarrow> keyText = [] \<or> \<not> IsEncryptedKeyFile keyText \<or>
      (\<exists>l \<in> set (take 3 lines). Unlocks keyText (hidden_line l))) \<and>
    (\<forall>buf bufsize. int (length buf) = bufsize \<longrightarrow>
      PemCallback password (Some buf) bufsize =
        Some (case password of
          Some pw \<Rightarrow> if length pw < length buf then (Some (pw @ CHR 0x00 # drop (length pw + 1) buf), int (length pw))
            else (Some buf, 0)
        | None \<Rightarrow> (Some buf, 0)))"
  using key_password_exact_parts(1) [OF assms] key_password_exact_parts(2) [OF assms]
  by blast

lemma key_password_exact_witness:
  "snd (Prepare (\<lambda>_ pw. pw = ''b'') ''Proc-Type: 4,ENCRYPTED'' [''a'', ''b'']) \<noteq> Some ''a'' \<and>
    fst (Prepare (\<lambda>_ pw. pw = ''b'') ''Proc-Type: 4,ENCRYPTED'' [''a'', ''b''])"
  using key_password_exact [of "\<lambda>_ pw. pw = ''b''" "''Proc-Type: 4,ENCRYPTED''" "[''a'', ''b'']", OF prod.collapse [symmetric]]
  by (auto simp: hidden_line_def)

end
