(* ===== verification/Sc_Transport.thy ===== *)
theory Sc_Transport
  imports Sc_Connection Sc_Rate_Limit Sc_Tls
begin

text \<open>
  The BACnet/SC transport of \<^verbatim>\<open>src/sc_transport/ScTransport.cpp\<close>: the listener and its
  accepted peers, the outbound connections, and the queues the router drains.

  The state is the class's members.  What lws decides is the input of each step: the callbacks it
  makes and the values its functions return in them.  \<^verbatim>\<open>armed\<close> and
  \<^verbatim>\<open>clientArmed\<close> are lws's own note of the sockets it will call back when writable, in the
  listener's context and in the clients'.  Log lines are not modelled.  An operation's value is
  \<^verbatim>\<open>None\<close> when the code would read outside a buffer or follow a dangling pointer.
\<close>

unbundle bit_operations_syntax

section \<open>State\<close>

text \<open>The key in \<^verbatim>\<open>m_peers\<close> is the member \<^verbatim>\<open>wsi\<close> as well.\<close>

record peer_connection = connection +
  connectionString :: string
  peerAddress :: string
  clientId :: nat
  certificateSubject :: string
  vmac :: string
  uuid :: string
  accepted :: bool

definition new_peer :: peer_connection where
  "new_peer = connection.extend new_connection
     (peer_connection.fields [] [] 0 [] [] [] False)"

record client_connection = connection +
  has_context :: bool
  client_wsi :: "nat option"
  hub_uri :: string
  hub_address :: string

definition new_client :: client_connection where
  "new_client = connection.extend new_connection (client_connection.fields False None [] [])"

record status_event =
  event_uri :: string
  event_status :: nat
  event_code :: nat

definition WebsocketStatus_Connected :: nat where
  "WebsocketStatus_Connected = 2"

definition WebsocketStatus_Disconnected :: nat where
  "WebsocketStatus_Disconnected = 3"

definition WebsocketStatus_Error :: nat where
  "WebsocketStatus_Error = 4"

lemmas websocket_status = WebsocketStatus_Connected_def WebsocketStatus_Disconnected_def
  WebsocketStatus_Error_def

record sc_state =
  tls :: tls_files
  acceptSubprotocol :: string
  configured :: bool
  listenerUp :: bool
  listenUri :: string
  wantedListenUri :: string
  rate :: rate_state
  nextClientId :: nat
  peers :: "(nat, peer_connection) omap"
  connStringToWsi :: "(string, nat) omap"
  clients :: "(string, client_connection) omap"
  rx :: rx_state
  statusQueue :: "status_event list"
  tx :: tx_counters
  txQueueOverflows :: nat
  totalConnects :: nat
  totalDisconnects :: nat
  connectRequestsRefused :: nat
  loggedListenFailure :: bool
  lastListenCreateFailure :: nat
  armed :: "nat set"
  clientArmed :: "nat set"

definition initial_sc_state :: sc_state where
  "initial_sc_state = \<lparr> tls = \<lparr> certPath = [], keyPath = [], caCertPath = [], crlPath = [] \<rparr>,
     acceptSubprotocol = [], configured = False, listenerUp = False, listenUri = [],
     wantedListenUri = [], rate = initial_rate_state, nextClientId = 1, peers = [],
     connStringToWsi = [], clients = [], rx = \<lparr> rxQueue = [], rxMessages = 0, rxBytes = 0 \<rparr>,
     statusQueue = [], tx = \<lparr> txMessages = 0, txBytes = 0 \<rparr>, txQueueOverflows = 0,
     totalConnects = 0, totalDisconnects = 0, connectRequestsRefused = 0,
     loggedListenFailure = False, lastListenCreateFailure = 0, armed = {}, clientArmed = {} \<rparr>"

text \<open>What a callback returns to lws, the close reason it set, and the octets it wrote.\<close>

record reply =
  rc :: int
  close_with :: "(nat \<times> string) option"
  wrote :: "bytes option"

definition carry_on :: reply where
  "carry_on = \<lparr> rc = 0, close_with = None, wrote = None \<rparr>"

section \<open>Audit trail\<close>

definition kBvlcResult :: u8 where "kBvlcResult = 0x00"

definition kBvlcConnectRequest :: u8 where "kBvlcConnectRequest = 0x06"

definition kBvlcConnectAccept :: u8 where "kBvlcConnectAccept = 0x07"

definition AuditReceivedFrame :: "bytes \<Rightarrow> peer_connection \<Rightarrow> peer_connection option" where
  "AuditReceivedFrame frame peer =
    (if frame = [] then Some peer else do {
      f \<leftarrow> rd frame 0;
      if f \<noteq> kBvlcConnectRequest then Some peer else do {
        offset \<leftarrow> BvlcPayloadOffset frame (length frame);
        if offset = 0 \<or> length frame < offset + 6 + 16 then Some peer else do {
          v \<leftarrow> HexBytes frame offset 6 '':'';
          u \<leftarrow> FormatUuid frame (offset + 6);
          Some (peer\<lparr> vmac := v, uuid := u \<rparr>)
        }
      }
    })"

text \<open>Error class, error code and details of a NAK's payload, for the log line.\<close>

definition nak_reason :: "bytes \<Rightarrow> (nat \<times> nat \<times> string) option option" where
  "nak_reason data = do {
    offset \<leftarrow> BvlcPayloadOffset data (length data);
    if offset = 0 \<or> \<not> length data \<ge> offset + 7 then Some None else do {
      code \<leftarrow> rd data (offset + 1);
      if code \<noteq> 0x01 then Some None else do {
        c1 \<leftarrow> rd data (offset + 3);
        c0 \<leftarrow> rd data (offset + 4);
        e1 \<leftarrow> rd data (offset + 5);
        e0 \<leftarrow> rd data (offset + 6);
        Some (Some (256 * unat c1 + unat c0, 256 * unat e1 + unat e0,
          map (\<lambda>b. char_of (unat b)) (drop (offset + 7) data)))
      }
    }
  }"

text \<open>The peer and the number of refused Connect-Requests.\<close>

definition AuditSentFrame :: "bytes \<Rightarrow> peer_connection \<times> nat \<Rightarrow> (peer_connection \<times> nat) option" where
  "AuditSentFrame data st =
    (let (peer, refused) = st in
     if data = [] \<or> accepted peer \<or> uuid peer = [] then Some (peer, refused) else do {
       f \<leftarrow> rd data 0;
       if f = kBvlcConnectAccept then Some (peer\<lparr> accepted := True \<rparr>, refused)
       else if f = kBvlcResult then do {
         reason \<leftarrow> nak_reason data;
         Some (peer, refused + 1)
       }
       else Some (peer, refused)
     })"

section \<open>Server callbacks\<close>

definition http_refusal :: "string \<Rightarrow> string" where
  "http_refusal subprotocol =
    (let q = [CHR 0x22]; crlf = [CHR 0x0d, CHR 0x0a];
         body = ''unsupported WebSocket subprotocol; this BACnet/SC hub accepts '' @ q @ subprotocol @ q @ [CHR 0x0a]
     in ''HTTP/1.1 400 Bad Request'' @ crlf @ ''content-type: text/plain'' @ crlf @
        ''content-length: '' @ dec (length body) @ crlf @ ''connection: close'' @ crlf @ crlf @ body)"

definition direct_connect :: string where
  "direct_connect = ''dc.bsc.bacnet.org''"

text \<open>\<^verbatim>\<open>requested\<close> is what \<^verbatim>\<open>lws_hdr_copy\<close> left in the buffer,
  \<^verbatim>\<open>written\<close> what \<^verbatim>\<open>lws_write\<close> returns.\<close>

definition ConfirmUpgrade :: "string \<Rightarrow> int \<Rightarrow> sc_state \<Rightarrow> reply" where
  "ConfirmUpgrade header written s =
    (if header \<noteq> [] \<and> \<not> SubprotocolListContains (Some header) (acceptSubprotocol s) \<and>
        \<not> SubprotocolListContains (Some header) direct_connect
     then carry_on\<lparr> rc := (if written < 0 then -1 else 1),
            wrote := Some (map of_char (http_refusal (acceptSubprotocol s))) \<rparr>
     else carry_on)"

definition client_string :: "string \<Rightarrow> nat \<Rightarrow> string" where
  "client_string uri n = uri @ ''|client='' @ dec n"

definition ServerEstablished :: "nat \<Rightarrow> string \<Rightarrow> string \<Rightarrow> string \<Rightarrow> sc_state \<Rightarrow> reply \<times> sc_state" where
  "ServerEstablished wsi header address subject s =
    (if \<not> SubprotocolListContains (Some header) (acceptSubprotocol s) then
       (carry_on\<lparr> rc := -1, close_with := Some (LWS_CLOSE_STATUS_PROTOCOL_ERR,
          if SubprotocolListContains (Some header) direct_connect
          then ''direct-connect (dc.bsc.bacnet.org) not supported by this hub''
          else ''unsupported subprotocol'') \<rparr>, s)
     else
       let n = nextClientId s;
           connStr = client_string (listenUri s) n;
           peer = (case map_of (peers s) wsi of None \<Rightarrow> new_peer | Some p \<Rightarrow> p);
           peer = peer\<lparr> clientId := n, connectionString := connStr, peerAddress := address,
                        certificateSubject := subject \<rparr>
       in (carry_on, s\<lparr> nextClientId := n + 1, peers := omap_put wsi peer (peers s),
             connStringToWsi := omap_put connStr wsi (connStringToWsi s),
             totalConnects := totalConnects s + 1 \<rparr>))"

definition ServerReceive :: "nat \<Rightarrow> bytes \<Rightarrow> bool \<Rightarrow> bool \<Rightarrow> sc_state \<Rightarrow> (reply \<times> sc_state) option" where
  "ServerReceive wsi input binary final s =
    (case map_of (peers s) wsi of None \<Rightarrow> Some (carry_on, s)
     | Some peer \<Rightarrow>
         let (close, peer', rx') = HandleIncomingFragment binary final input (connectionString peer)
               (listenUri s) (peer, rx s);
             s' = s\<lparr> peers := omap_put wsi peer' (peers s), rx := rx' \<rparr> in
         case close of
           Some reason \<Rightarrow> Some (carry_on\<lparr> rc := -1, close_with := Some reason \<rparr>, s')
         | None \<Rightarrow>
             if rxMessages rx' \<noteq> rxMessages (rx s) \<and> \<not> accepted peer' then
               (case rev (rxQueue rx') of [] \<Rightarrow> None
                | frame # _ \<Rightarrow> do {
                    peer'' \<leftarrow> AuditReceivedFrame (frame_data frame) peer';
                    Some (carry_on, s'\<lparr> peers := omap_put wsi peer'' (peers s') \<rparr>)
                  })
             else Some (carry_on, s'))"

text \<open>lws takes the socket off its list when it makes the callback.\<close>

definition ServerWriteable :: "nat \<Rightarrow> int \<Rightarrow> sc_state \<Rightarrow> reply \<times> sc_state" where
  "ServerWriteable wsi written s =
    (let s = s\<lparr> armed := armed s - {wsi} \<rparr> in
     case map_of (peers s) wsi of None \<Rightarrow> (carry_on, s)
     | Some peer \<Rightarrow>
         let ((close, reason, sent), peer, a, m) = ServeWriteable wsi written (peer, armed s, tx s) in
         (\<lparr> rc = (if close then -1 else 0), close_with = reason, wrote = sent \<rparr>,
          s\<lparr> peers := omap_put wsi peer (peers s), armed := a, tx := m \<rparr>))"

definition close_code_of :: "bytes \<Rightarrow> nat option" where
  "close_code_of bs = (case bs of b1 # b0 # _ \<Rightarrow> Some (256 * unat b1 + unat b0) | _ \<Rightarrow> None)"

text \<open>\<^verbatim>\<open>None\<close> is a null \<^verbatim>\<open>in\<close>.\<close>

definition ServerPeerInitiatedClose :: "nat \<Rightarrow> bytes option \<Rightarrow> sc_state \<Rightarrow> sc_state" where
  "ServerPeerInitiatedClose wsi input s =
    (case (map_of (peers s) wsi, Option.bind input close_code_of) of
       (Some peer, Some code) \<Rightarrow> s\<lparr> peers := omap_put wsi (peer\<lparr> lastCloseCode := code \<rparr>) (peers s) \<rparr>
     | _ \<Rightarrow> s)"

definition closed_event :: "peer_connection \<Rightarrow> status_event" where
  "closed_event peer =
    \<lparr> event_uri = connectionString peer,
      event_status = (if lastCloseCode peer = 0 \<or> lastCloseCode peer = 1000
                      then WebsocketStatus_Disconnected else WebsocketStatus_Error),
      event_code = lastCloseCode peer \<rparr>"

definition ServerClosed :: "nat \<Rightarrow> sc_state \<Rightarrow> sc_state" where
  "ServerClosed wsi s =
    (case map_of (peers s) wsi of None \<Rightarrow> s
     | Some peer \<Rightarrow>
         s\<lparr> statusQueue := statusQueue s @ [closed_event peer],
            totalDisconnects := totalDisconnects s + 1,
            connStringToWsi := omap_del (connectionString peer) (connStringToWsi s),
            peers := omap_del wsi (peers s) \<rparr>)"

datatype server_event =
    FilterNetworkConnection "string option" nat nat
  | LoadExtraServerVerifyCerts bool
  | HttpConfirmUpgrade string int
  | Established nat string string string
  | Received nat bytes bool bool
  | Writeable nat int
  | PeerInitiatedClose nat "bytes option"
  | Closed nat
  | OtherServerReason

fun HandleServerCallback :: "server_event \<Rightarrow> sc_state \<Rightarrow> (reply \<times> sc_state) option" where
  "HandleServerCallback (FilterNetworkConnection addr now later) s =
    (let (ok, line, r) = FilterConnection addr now later (rate s) in
     Some (carry_on\<lparr> rc := (if ok then 0 else -1) \<rparr>, s\<lparr> rate := r \<rparr>))"
| "HandleServerCallback (LoadExtraServerVerifyCerts ok) s =
    Some (carry_on\<lparr> rc := (if ok then 0 else 1) \<rparr>, s)"
| "HandleServerCallback (HttpConfirmUpgrade header written) s = Some (ConfirmUpgrade header written s, s)"
| "HandleServerCallback (Established wsi header address subject) s =
    Some (ServerEstablished wsi header address subject s)"
| "HandleServerCallback (Received wsi input binary final) s = ServerReceive wsi input binary final s"
| "HandleServerCallback (Writeable wsi written) s = Some (ServerWriteable wsi written s)"
| "HandleServerCallback (PeerInitiatedClose wsi input) s =
    Some (carry_on, ServerPeerInitiatedClose wsi input s)"
| "HandleServerCallback (Closed wsi) s = Some (carry_on, ServerClosed wsi s)"
| "HandleServerCallback OtherServerReason s = Some (carry_on, s)"

fun run_server :: "server_event list \<Rightarrow> sc_state \<Rightarrow> sc_state option" where
  "run_server [] s = Some s"
| "run_server (e # es) s = do { (r, s) \<leftarrow> HandleServerCallback e s; run_server es s }"

section \<open>Client callbacks\<close>

datatype client_event =
    LoadExtraClientVerifyCerts
  | ClientEstablished nat string
  | ClientConnectionError
  | ClientPeerInitiatedClose "bytes option"
  | ClientReceived nat bytes bool bool
  | ClientWriteable nat int
  | ClientClosed
  | OtherClientReason

definition put_client :: "string \<Rightarrow> client_connection \<Rightarrow> sc_state \<Rightarrow> sc_state" where
  "put_client uri c s = s\<lparr> clients := omap_put uri c (clients s) \<rparr>"

definition push_status :: "string \<Rightarrow> nat \<Rightarrow> nat \<Rightarrow> sc_state \<Rightarrow> sc_state" where
  "push_status uri status code s =
    s\<lparr> statusQueue := statusQueue s @ [\<lparr> event_uri = uri, event_status = status, event_code = code \<rparr>] \<rparr>"

definition ClientEstablished_body ::
  "string \<Rightarrow> client_connection \<Rightarrow> nat \<Rightarrow> string \<Rightarrow> sc_state \<Rightarrow> sc_state" where
  "ClientEstablished_body uri conn wsi address s =
    (let s = put_client uri (conn\<lparr> client_wsi := Some wsi, hub_address := address \<rparr>) s;
         s = push_status (hub_uri conn) WebsocketStatus_Connected 0 s
     in if txQueue conn \<noteq> [] then s\<lparr> clientArmed := insert wsi (clientArmed s) \<rparr> else s)"

definition ClientReceived_body ::
  "string \<Rightarrow> client_connection \<Rightarrow> bytes \<Rightarrow> bool \<Rightarrow> bool \<Rightarrow> sc_state \<Rightarrow> reply \<times> sc_state" where
  "ClientReceived_body uri conn input binary final s =
    (let (close, conn', rx') = HandleIncomingFragment binary final input (hub_uri conn) [] (conn, rx s);
         s = (put_client uri conn' s)\<lparr> rx := rx' \<rparr>
     in (case close of Some reason \<Rightarrow> carry_on\<lparr> rc := -1, close_with := Some reason \<rparr> | None \<Rightarrow> carry_on, s))"

definition ClientWriteable_body ::
  "string \<Rightarrow> client_connection \<Rightarrow> nat \<Rightarrow> int \<Rightarrow> sc_state \<Rightarrow> reply \<times> sc_state" where
  "ClientWriteable_body uri conn wsi written s =
    (let ((close, reason, sent), conn', a, m) =
           ServeWriteable wsi written (conn, clientArmed s - {wsi}, tx s)
     in (\<lparr> rc = (if close then -1 else 0), close_with = reason, wrote = sent \<rparr>,
         (put_client uri conn' s)\<lparr> clientArmed := a, tx := m \<rparr>))"

text \<open>The connection is lws's opaque user data: \<^verbatim>\<open>None\<close> once it was detached, otherwise a
  pointer to an entry of \<^verbatim>\<open>m_clients\<close>, here its key.\<close>

definition HandleClientCallback ::
  "string option \<Rightarrow> client_event \<Rightarrow> sc_state \<Rightarrow> (reply \<times> sc_state) option" where
  "HandleClientCallback opaque e s =
    (if e = LoadExtraClientVerifyCerts then Some (carry_on, s) else
     case opaque of None \<Rightarrow> Some (carry_on, s)
     | Some uri \<Rightarrow>
         (case map_of (clients s) uri of None \<Rightarrow> None
          | Some conn \<Rightarrow> Some
              (case e of
                 ClientEstablished wsi address \<Rightarrow>
                   (carry_on, ClientEstablished_body uri conn wsi address s)
               | ClientConnectionError \<Rightarrow>
                   (carry_on, put_client uri (conn\<lparr> client_wsi := None \<rparr>)
                     (push_status (hub_uri conn) WebsocketStatus_Error 0 s))
               | ClientPeerInitiatedClose input \<Rightarrow>
                   (carry_on, case Option.bind input close_code_of of None \<Rightarrow> s
                     | Some code \<Rightarrow> put_client uri (conn\<lparr> lastCloseCode := code \<rparr>) s)
               | ClientReceived wsi input binary final \<Rightarrow> ClientReceived_body uri conn input binary final s
               | ClientWriteable wsi written \<Rightarrow> ClientWriteable_body uri conn wsi written s
               | ClientClosed \<Rightarrow>
                   (carry_on, put_client uri (conn\<lparr> client_wsi := None \<rparr>)
                     (push_status (hub_uri conn) WebsocketStatus_Disconnected (lastCloseCode conn) s))
               | _ \<Rightarrow> (carry_on, s))))"

fun run_client :: "string option \<Rightarrow> client_event list \<Rightarrow> sc_state \<Rightarrow> sc_state option" where
  "run_client opaque [] s = Some s"
| "run_client opaque (e # es) s = do { (r, s) \<leftarrow> HandleClientCallback opaque e s; run_client opaque es s }"

section \<open>Listening\<close>

definition Configure :: "tls_files \<Rightarrow> string \<Rightarrow> sc_state \<Rightarrow> sc_state" where
  "Configure files subprotocol s = s\<lparr> tls := files, acceptSubprotocol := subprotocol, configured := True \<rparr>"

definition kListenRetryInterval :: nat where
  "kListenRetryInterval = 5000000000"

text \<open>What the operating system, OpenSSL and lws decide while the listener is started or torn down:
  the files that open, the certificate diagnosis, the steady clock, whether
  \<^verbatim>\<open>lws_create_context\<close> succeeds for an interface and a port, the callbacks of each turn of
  \<^verbatim>\<open>FlushQueuedFrames\<close> before its deadline, and the order in which
  \<^verbatim>\<open>lws_context_destroy\<close> closes the sockets.\<close>

record listen_env =
  opens :: "string \<Rightarrow> bool"
  cert_ok :: "tls_files \<Rightarrow> bool"
  clock :: nat
  creates :: "string option \<Rightarrow> nat \<Rightarrow> bool"
  turns :: "server_event list list"
  closing :: "nat list"

definition LogListenFailureOnce :: "sc_state \<Rightarrow> sc_state" where
  "LogListenFailureOnce s = (if loggedListenFailure s then s else s\<lparr> loggedListenFailure := True \<rparr>)"

definition waiting_peers :: "sc_state \<Rightarrow> nat list" where
  "waiting_peers s = map fst (filter (\<lambda>(_, p). txQueue p \<noteq> []) (peers s))"

fun FlushQueuedFrames :: "server_event list list \<Rightarrow> sc_state \<Rightarrow> sc_state option" where
  "FlushQueuedFrames [] s = Some (s\<lparr> armed := armed s \<union> set (waiting_peers s) \<rparr>)"
| "FlushQueuedFrames (es # later) s =
    (if waiting_peers s = [] then Some s
     else do {
       s \<leftarrow> run_server es (s\<lparr> armed := armed s \<union> set (waiting_peers s) \<rparr>);
       FlushQueuedFrames later s
     })"

definition DestroyListenerContext :: "listen_env \<Rightarrow> sc_state \<Rightarrow> sc_state option" where
  "DestroyListenerContext env s =
    (if \<not> listenerUp s then Some s else do {
       s \<leftarrow> FlushQueuedFrames (turns env) s;
       s \<leftarrow> run_server (map Closed (closing env)) s;
       Some (s\<lparr> listenerUp := False, listenUri := [], peers := [], connStringToWsi := [], armed := {} \<rparr>)
     })"

definition StopListening :: "listen_env \<Rightarrow> string \<Rightarrow> sc_state \<Rightarrow> sc_state option" where
  "StopListening env uri s =
    (let s = (if wantedListenUri s = uri then s\<lparr> wantedListenUri := [] \<rparr> else s) in
     if \<not> listenerUp s \<or> listenUri s \<noteq> uri then Some s else DestroyListenerContext env s)"

definition open_listener :: "listen_env \<Rightarrow> string \<Rightarrow> sc_state \<Rightarrow> bool \<times> sc_state" where
  "open_listener env uri s =
    (case ParseWssUri uri of None \<Rightarrow> (False, LogListenFailureOnce s)
     | Some (host, port, _) \<Rightarrow>
         if DescribeMissingTlsFiles (opens env) (tls s) \<noteq> [] then (False, LogListenFailureOnce s)
         else if \<not> cert_ok env (tls s) then (False, LogListenFailureOnce s)
         else if lastListenCreateFailure s \<noteq> 0 \<and>
             int (clock env) - int (lastListenCreateFailure s) < int kListenRetryInterval
           then (False, s)
         else if \<not> creates env (if host = [] \<or> host = ''0.0.0.0'' then None else Some host) port
           then (False, LogListenFailureOnce (s\<lparr> lastListenCreateFailure := clock env \<rparr>))
         else (True, s\<lparr> listenerUp := True, listenUri := uri, loggedListenFailure := False,
                        lastListenCreateFailure := 0 \<rparr>))"

definition StartListening :: "listen_env \<Rightarrow> string \<Rightarrow> sc_state \<Rightarrow> (bool \<times> sc_state) option" where
  "StartListening env uri s =
    (let s = s\<lparr> wantedListenUri := uri \<rparr> in
     if \<not> configured s then Some (False, LogListenFailureOnce s)
     else if listenerUp s \<and> listenUri s = uri then Some (True, s)
     else do {
       s \<leftarrow> (if listenerUp s then StopListening env (listenUri s) s else Some s);
       Some (open_listener env uri s)
     })"

section \<open>Sending and closing\<close>

definition Disconnect :: "string \<Rightarrow> sc_state \<Rightarrow> sc_state" where
  "Disconnect connStr s =
    (case map_of (connStringToWsi s) connStr of
       Some wsi \<Rightarrow>
         (case map_of (peers s) wsi of None \<Rightarrow> s
          | Some peer \<Rightarrow>
              let (peer, a) = RequestClose wsi LWS_CLOSE_STATUS_NORMAL [] (peer, armed s)
              in s\<lparr> peers := omap_put wsi peer (peers s), armed := a \<rparr>)
     | None \<Rightarrow>
         (case map_of (clients s) connStr of None \<Rightarrow> s
          | Some conn \<Rightarrow>
              (case client_wsi conn of None \<Rightarrow> s
               | Some wsi \<Rightarrow>
                   let (conn, a) = RequestClose wsi LWS_CLOSE_STATUS_NORMAL [] (conn, clientArmed s)
                   in (put_client connStr conn s)\<lparr> clientArmed := a \<rparr>)))"

definition Send :: "string \<Rightarrow> bytes \<Rightarrow> sc_state \<Rightarrow> (bool \<times> sc_state) option" where
  "Send connStr data s =
    (case map_of (connStringToWsi s) connStr of
       Some wsi \<Rightarrow>
         (case map_of (peers s) wsi of None \<Rightarrow> Some (False, s)
          | Some peer \<Rightarrow> do {
              (peer, refused) \<leftarrow> AuditSentFrame data (peer, connectRequestsRefused s);
              let (ok, peer, a, n) = EnqueueFrame wsi data (peer, armed s, txQueueOverflows s);
              Some (ok, s\<lparr> peers := omap_put wsi peer (peers s), armed := a, txQueueOverflows := n,
                           connectRequestsRefused := refused \<rparr>)
            })
     | None \<Rightarrow>
         (case map_of (clients s) connStr of None \<Rightarrow> Some (False, s)
          | Some conn \<Rightarrow>
              (case client_wsi conn of None \<Rightarrow> Some (False, s)
               | Some wsi \<Rightarrow>
                   let (ok, conn, a, n) = EnqueueFrame wsi data (conn, clientArmed s, txQueueOverflows s)
                   in Some (ok, (put_client connStr conn s)\<lparr> clientArmed := a, txQueueOverflows := n \<rparr>))))"

definition ReloadCredentials :: "listen_env \<Rightarrow> sc_state \<Rightarrow> sc_state option" where
  "ReloadCredentials env s = do {
    s \<leftarrow> (if wantedListenUri s \<noteq> [] then do {
             let uri = wantedListenUri s;
             s \<leftarrow> DestroyListenerContext env s;
             (ok, s) \<leftarrow> StartListening env uri (s\<lparr> lastListenCreateFailure := 0 \<rparr>);
             Some s
           } else Some s);
    Some (fold (\<lambda>(uri, conn). if client_wsi conn \<noteq> None then Disconnect uri else id) (clients s) s)
  }"

section \<open>Dialling out\<close>

text \<open>What is decided while \<^verbatim>\<open>Connect\<close> runs: the callbacks of the context it replaces, whether
  the new context can be created, the callbacks lws makes before
  \<^verbatim>\<open>lws_client_connect_via_info\<close> returns, the socket it returns (\<^verbatim>\<open>None\<close> for a
  null pointer), and the callbacks of a context destroyed again.\<close>

record connect_env = listen_env +
  old_callbacks :: "client_event list"
  client_context :: bool
  dial_callbacks :: "client_event list"
  dialled :: "nat option"
  abort_callbacks :: "client_event list"

definition drop_client :: "string \<Rightarrow> sc_state \<Rightarrow> sc_state" where
  "drop_client uri s = s\<lparr> clients := omap_del uri (clients s) \<rparr>"

definition replace_client :: "connect_env \<Rightarrow> string \<Rightarrow> sc_state \<Rightarrow> sc_state option" where
  "replace_client env uri s =
    (case map_of (clients s) uri of None \<Rightarrow> Some s
     | Some existing \<Rightarrow> do {
         s \<leftarrow> (if has_context existing
               then run_client (if client_wsi existing \<noteq> None then None else Some uri) (old_callbacks env) s
               else Some s);
         Some (drop_client uri s)
       })"

definition dial :: "connect_env \<Rightarrow> string \<Rightarrow> sc_state \<Rightarrow> (bool \<times> sc_state) option" where
  "dial env uri s =
    (if \<not> client_context env then Some (False, drop_client uri s) else do {
       s \<leftarrow> run_client (Some uri) (dial_callbacks env)
             (put_client uri (new_client\<lparr> hub_uri := uri, has_context := True \<rparr>) s);
       case dialled env of
         None \<Rightarrow> do {
           s \<leftarrow> run_client (Some uri) (abort_callbacks env) s;
           Some (False, drop_client uri s)
         }
       | Some wsi \<Rightarrow>
           (case map_of (clients s) uri of None \<Rightarrow> None
            | Some conn \<Rightarrow> Some (True, put_client uri (conn\<lparr> client_wsi := Some wsi \<rparr>) s))
     })"

definition Connect :: "connect_env \<Rightarrow> string \<Rightarrow> sc_state \<Rightarrow> (bool \<times> sc_state) option" where
  "Connect env uri s =
    (if \<not> configured s then Some (False, s)
     else if DescribeMissingTlsFiles (opens env) (tls s) \<noteq> [] then Some (False, s)
     else if \<not> cert_ok env (tls s) then Some (False, s)
     else case ParseWssUri uri of None \<Rightarrow> Some (False, s)
       | Some (host, port, path) \<Rightarrow>
           if host = [] then Some (False, s)
           else do {
             s \<leftarrow> replace_client env uri s;
             dial env uri (put_client uri (new_client\<lparr> hub_uri := uri \<rparr>) s)
           })"

section \<open>Service and queues\<close>

definition Service ::
  "listen_env \<Rightarrow> server_event list \<Rightarrow> (string \<Rightarrow> client_event list) \<Rightarrow> sc_state \<Rightarrow> sc_state option" where
  "Service env listener_callbacks client_callbacks s = do {
    s \<leftarrow> (if \<not> listenerUp s \<and> wantedListenUri s \<noteq> []
         then map_option snd (StartListening env (wantedListenUri s) s) else Some s);
    s \<leftarrow> (if listenerUp s then run_server listener_callbacks s else Some s);
    fold (\<lambda>(uri, conn) st. do {
        s \<leftarrow> st;
        if has_context conn then run_client (Some uri) (client_callbacks uri) s else Some s
      }) (clients s) (Some s)
  }"

definition PopReceived :: "sc_state \<Rightarrow> (received_frame \<times> sc_state) option" where
  "PopReceived s =
    (case rxQueue (rx s) of [] \<Rightarrow> None
     | frame # later \<Rightarrow> Some (frame, s\<lparr> rx := (rx s)\<lparr> rxQueue := later \<rparr> \<rparr>))"

definition PopStatusEvent :: "sc_state \<Rightarrow> (status_event \<times> sc_state) option" where
  "PopStatusEvent s =
    (case statusQueue s of [] \<Rightarrow> None
     | e # later \<Rightarrow> Some (e, s\<lparr> statusQueue := later \<rparr>))"

record sc_metrics =
  metric_connects :: nat
  metric_disconnects :: nat
  metric_rejections :: nat
  metric_rx :: "nat \<times> nat"
  metric_tx :: "nat \<times> nat"
  metric_overflows :: nat
  metric_refused :: nat
  acceptedPeerCount :: nat
  currentPeerCount :: nat

definition GetMetrics :: "sc_state \<Rightarrow> sc_metrics" where
  "GetMetrics s =
    \<lparr> metric_connects = totalConnects s, metric_disconnects = totalDisconnects s,
      metric_rejections = rateLimitRejections (rate s),
      metric_rx = (rxMessages (rx s), rxBytes (rx s)), metric_tx = (txMessages (tx s), txBytes (tx s)),
      metric_overflows = txQueueOverflows s, metric_refused = connectRequestsRefused s,
      acceptedPeerCount = length (filter (\<lambda>(_, p). accepted p) (peers s)),
      currentPeerCount = length (peers s) \<rparr>"

interpretation received: fifo "\<lambda>s. rxQueue (rx s)"
  "\<lambda>f s. s\<lparr> rx := (rx s)\<lparr> rxQueue := rxQueue (rx s) @ [f] \<rparr> \<rparr>" PopReceived
  by unfold_locales (auto simp: PopReceived_def split: list.splits)

interpretation statuses: fifo statusQueue "\<lambda>e s. s\<lparr> statusQueue := statusQueue s @ [e] \<rparr>" PopStatusEvent
  by unfold_locales (auto simp: PopStatusEvent_def split: list.splits)

end
