(* ===== verification/Sc_Invariant.thy ===== *)
theory Sc_Invariant
  imports Sc_Transport
begin

text \<open>
  The invariant of the BACnet/SC transport and the proof that every operation and every callback
  keeps it: the tables of peers agree, buffers and queues stay within their bounds, every socket with
  something to send or to close is armed, and the counters balance.  Along with it, that client
  numbers only grow and that no operation reads outside a buffer.
\<close>

section \<open>The invariant\<close>

text \<open>\<^verbatim>\<open>doomed\<close> are the sockets lws is closing because a callback returned -1; their CLOSED
  callback is still to come.\<close>

definition peer_ok :: "sc_state \<Rightarrow> nat set \<Rightarrow> nat \<Rightarrow> peer_connection \<Rightarrow> bool" where
  "peer_ok s doomed wsi p \<longleftrightarrow>
    connection_ok p \<and> (wsi \<notin> doomed \<longrightarrow> served (armed s) wsi p) \<and>
    clientId p < nextClientId s \<and> connectionString p = client_string (listenUri s) (clientId p) \<and>
    map_of (connStringToWsi s) (client_string (listenUri s) (clientId p)) = Some wsi"

definition sc_ok :: "sc_state \<Rightarrow> nat set \<Rightarrow> bool" where
  "sc_ok s doomed \<longleftrightarrow>
    omap_ok (peers s) \<and> omap_ok (connStringToWsi s) \<and> omap_ok (clients s) \<and>
    (\<forall>wsi p. map_of (peers s) wsi = Some p \<longrightarrow> peer_ok s doomed wsi p) \<and>
    (\<forall>cs wsi. map_of (connStringToWsi s) cs = Some wsi \<longrightarrow>
      (\<exists>p. map_of (peers s) wsi = Some p \<and> connectionString p = cs)) \<and>
    (\<not> listenerUp s \<longrightarrow> peers s = []) \<and>
    (\<forall>uri c. map_of (clients s) uri = Some c \<longrightarrow> connection_ok c \<and> hub_uri c = uri) \<and>
    rx_ok (rx s) \<and> rate_ok (rate s) \<and>
    totalConnects s = totalDisconnects s + length (peers s)"

lemma sc_okD:
  assumes "sc_ok s d"
  shows "omap_ok (peers s)" "omap_ok (connStringToWsi s)" "omap_ok (clients s)"
    "map_of (peers s) wsi = Some p \<Longrightarrow> peer_ok s d wsi p"
    "map_of (connStringToWsi s) cs = Some w \<Longrightarrow> \<exists>p. map_of (peers s) w = Some p \<and> connectionString p = cs"
    "\<not> listenerUp s \<Longrightarrow> peers s = []"
    "map_of (clients s) uri = Some c \<Longrightarrow> connection_ok c" "map_of (clients s) uri = Some c \<Longrightarrow> hub_uri c = uri"
    "rx_ok (rx s)" "rate_ok (rate s)" "totalConnects s = totalDisconnects s + length (peers s)"
  using assms unfolding sc_ok_def by metis+

lemma sc_ok_frame:
  assumes "sc_ok s d" "peers t = peers s" "connStringToWsi t = connStringToWsi s" "clients t = clients s"
    "armed t = armed s" "nextClientId t = nextClientId s" "listenUri t = listenUri s" "listenerUp t = listenerUp s"
    "rx t = rx s" "rate t = rate s" "totalConnects t = totalConnects s" "totalDisconnects t = totalDisconnects s"
  shows "sc_ok t d"
  using assms unfolding sc_ok_def peer_ok_def by simp

lemma sc_ok_other [simp]:
  "sc_ok (s\<lparr> tx := m \<rparr>) d = sc_ok s d"
  "sc_ok (s\<lparr> statusQueue := q \<rparr>) d = sc_ok s d"
  "sc_ok (s\<lparr> txQueueOverflows := n \<rparr>) d = sc_ok s d"
  "sc_ok (s\<lparr> connectRequestsRefused := n \<rparr>) d = sc_ok s d"
  "sc_ok (s\<lparr> clientArmed := a \<rparr>) d = sc_ok s d"
  "sc_ok (s\<lparr> loggedListenFailure := b \<rparr>) d = sc_ok s d"
  "sc_ok (s\<lparr> lastListenCreateFailure := n \<rparr>) d = sc_ok s d"
  "sc_ok (s\<lparr> wantedListenUri := u \<rparr>) d = sc_ok s d"
  by (simp_all add: sc_ok_def peer_ok_def)

lemma peer_ok_mono: "peer_ok s d w p \<Longrightarrow> d \<subseteq> d' \<Longrightarrow> peer_ok s d' w p"
  by (auto simp: peer_ok_def)

lemma sc_ok_mono:
  assumes "sc_ok s d" "d \<subseteq> d'" shows "sc_ok s d'"
proof -
  have "\<forall>wsi p. map_of (peers s) wsi = Some p \<longrightarrow> peer_ok s d' wsi p"
    using sc_okD(4) [OF assms(1)] peer_ok_mono [OF _ assms(2)] by blast
  then show ?thesis using assms(1) unfolding sc_ok_def by - (elim conjE, intro conjI, assumption+)
qed

lemma initial_sc_ok: "sc_ok initial_sc_state {}"
  by (simp add: sc_ok_def initial_sc_state_def rx_ok_def rate_ok_def initial_rate_state_def)

lemma sc_ok_rx: "sc_ok s d \<Longrightarrow> rx_ok r \<Longrightarrow> sc_ok (s\<lparr> rx := r \<rparr>) d"
  by (simp add: sc_ok_def peer_ok_def)

lemma sc_ok_rate: "sc_ok s d \<Longrightarrow> rate_ok r \<Longrightarrow> sc_ok (s\<lparr> rate := r \<rparr>) d"
  by (simp add: sc_ok_def peer_ok_def)

text \<open>One peer changes, and the set of armed sockets with it.\<close>

lemma sc_ok_update_peer:
  assumes "sc_ok s d" "map_of (peers s) wsi = Some p" "connection_ok p'"
    "clientId p' = clientId p" "connectionString p' = connectionString p"
    "armed s - {wsi} \<subseteq> a" "d \<subseteq> d'" "wsi \<notin> d' \<Longrightarrow> served a wsi p'"
  shows "sc_ok (s\<lparr> peers := omap_put wsi p' (peers s), armed := a \<rparr>) d'"
proof -
  note ok = sc_okD [OF assms(1)]
  let ?t = "s\<lparr> peers := omap_put wsi p' (peers s), armed := a \<rparr>"
  have p: "peer_ok s d wsi p" using ok(4) assms(2) by blast
  have m: "map_of (omap_put wsi p' (peers s)) = (map_of (peers s))(wsi \<mapsto> p')" using ok(1) by simp
  have "peer_ok ?t d' w q" if "map_of (peers ?t) w = Some q" for w q
  proof (cases "w = wsi")
    case True
    then show ?thesis using that m p assms(3-5,8) by (simp add: peer_ok_def)
  next
    case False
    then have "peer_ok s d w q" using that m ok(4) by simp
    moreover have "served (armed s) w q \<Longrightarrow> served a w q"
      using assms(6) False by (auto simp: served_def)
    ultimately show ?thesis using assms(7) by (auto simp: peer_ok_def)
  qed
  moreover have "\<exists>q. map_of (peers ?t) w = Some q \<and> connectionString q = cs"
    if "map_of (connStringToWsi s) cs = Some w" for cs w
    using ok(5) [OF that] m assms(2,5) by auto
  moreover have "length (omap_put wsi p' (peers s)) = length (peers s)"
    using length_omap_put(2) [OF ok(1), of wsi p'] assms(2) by (simp add: omap_has_def)
  moreover have "listenerUp s" using ok(6) assms(2) by (cases "listenerUp s") auto
  ultimately show ?thesis
    using ok unfolding sc_ok_def by simp
qed

lemma FilterConnection_ok: "rate_ok r \<Longrightarrow> rate_ok (snd (snd (FilterConnection addr now later r)))"
proof -
  assume r: "rate_ok r"
  obtain address where a: "address = (case addr of None \<Rightarrow> ''?'' | Some ntop \<Rightarrow> AddressFromSockaddr ntop)" by simp
  obtain res r' where x: "AllowNewConnectionAttempt address now r = (res, r')" by fastforce
  have "rate_ok r'" using AllowNewConnectionAttempt_ok [OF r, of address now] x by simp
  then show ?thesis
    using x unfolding FilterConnection_def a [symmetric] Let_def
    by (cases res) (simp_all add: rate_ok_def)
qed

lemma client_string_inj: "client_string u n = client_string v m \<Longrightarrow> n = m"
proof -
  have no_eq: "CHR ''='' \<notin> set (dec k)" for k
    using dec_digits [of "CHR ''=''" k] by (auto simp: is_digit_def)
  have tw: "takeWhile (\<lambda>c. c \<noteq> CHR ''='') (rev (client_string w k)) = rev (dec k)" for w k
    using takeWhile_break [of "CHR ''=''" "rev (dec k)" "rev (w @ ''|client='')"] no_eq [of k]
    by (simp add: client_string_def)
  show "client_string u n = client_string v m \<Longrightarrow> n = m"
    using tw [of u n] tw [of v m] by (metis digits_val_dec rev_rev_ident)
qed

lemma ServerEstablished_ok:
  assumes "sc_ok s d" "listenerUp s" "map_of (peers s) wsi = None"
    "ServerEstablished wsi header address subject s = (r, s')"
  shows "sc_ok s' (if rc r = 0 then d else insert wsi d)"
proof (cases "SubprotocolListContains (Some header) (acceptSubprotocol s)")
  case False
  then have "rc r = -1" "s' = s"
    using assms(4) by (auto simp: ServerEstablished_def)
  then show ?thesis using sc_ok_mono [OF assms(1)] by auto
next
  case True
  note ok = sc_okD [OF assms(1)]
  let ?n = "nextClientId s"
  let ?cs = "client_string (listenUri s) ?n"
  let ?p = "new_peer\<lparr> clientId := ?n, connectionString := ?cs, peerAddress := address, certificateSubject := subject \<rparr>"
  have r: "r = carry_on" and s': "s' = s\<lparr> nextClientId := ?n + 1, peers := omap_put wsi ?p (peers s),
      connStringToWsi := omap_put ?cs wsi (connStringToWsi s), totalConnects := totalConnects s + 1 \<rparr>"
    using assms(3,4) True by (simp_all add: ServerEstablished_def Let_def)
  have m: "map_of (omap_put wsi ?p (peers s)) = (map_of (peers s))(wsi \<mapsto> ?p)"
    "map_of (omap_put ?cs wsi (connStringToWsi s)) = (map_of (connStringToWsi s))(?cs \<mapsto> wsi)"
    using ok(1,2) by simp_all
  have fresh: "connectionString q \<noteq> ?cs" if "map_of (peers s) w = Some q" for w q
    using ok(4) [OF that] client_string_inj [of "listenUri s" "clientId q" "listenUri s" ?n]
    by (auto simp: peer_ok_def)
  have new: "connection_ok ?p" "served (armed s) wsi ?p"
    by (simp_all add: new_peer_def connection.defs peer_connection.defs new_connection_def connection_ok_def
        served_def no_close_def)
  have "peer_ok s' d w q" if "map_of (peers s') w = Some q" for w q
  proof (cases "w = wsi")
    case True
    then have q: "q = ?p" using that s' m by simp
    show ?thesis unfolding True q using new s' m by (simp add: peer_ok_def)
  next
    case False
    then have q: "map_of (peers s) w = Some q" using that s' m by simp
    then show ?thesis using ok(4) [OF q] fresh [OF q] s' m by (simp add: peer_ok_def)
  qed
  moreover have "\<exists>q. map_of (peers s') w = Some q \<and> connectionString q = cs"
    if "map_of (connStringToWsi s') cs = Some w" for cs w
  proof (cases "cs = ?cs")
    case True
    then show ?thesis using that s' m by auto
  next
    case False
    then have "map_of (connStringToWsi s) cs = Some w" using that s' m by simp
    then show ?thesis using ok(5) assms(3) s' m by fastforce
  qed
  moreover have "length (omap_put wsi ?p (peers s)) = length (peers s) + 1"
    using assms(3) ok(1) by (simp add: length_omap_put_new)
  ultimately show ?thesis
    using ok assms(2) r s' unfolding sc_ok_def by (simp add: carry_on_def)
qed

text \<open>The audit trail reads only the message it is given and touches only its own fields.\<close>

definition audit_of :: "peer_connection \<Rightarrow> string \<times> string \<times> bool \<Rightarrow> peer_connection" where
  "audit_of p a = p\<lparr> vmac := fst a, uuid := fst (snd a), accepted := snd (snd a) \<rparr>"

lemma audit_of_keeps [simp]:
  "connection_ok (audit_of p a) = connection_ok p" "served arms wsi (audit_of p a) = served arms wsi p"
  "clientId (audit_of p a) = clientId p" "connectionString (audit_of p a) = connectionString p"
  "txQueue (audit_of p a) = txQueue p" "closeRequest (audit_of p a) = closeRequest p"
  "lastCloseCode (audit_of p a) = lastCloseCode p"
  by (simp_all add: audit_of_def connection_ok_def served_def)

lemma AuditReceivedFrame_total:
  obtains a where "AuditReceivedFrame frame peer = Some (audit_of peer a)"
proof -
  have same: "peer = audit_of peer (vmac peer, uuid peer, accepted peer)" by (simp add: audit_of_def)
  obtain n where n: "BvlcPayloadOffset frame (length frame) = Some n"
    using payload_offset_inside [of "length frame" frame] by auto
  show ?thesis
  proof (cases "frame = [] \<or> frame ! 0 \<noteq> kBvlcConnectRequest \<or> n = 0 \<or> length frame < n + 6 + 16")
    case True
    then have "AuditReceivedFrame frame peer = Some peer"
      using n by (cases frame) (auto simp: AuditReceivedFrame_def)
    then show ?thesis using that same by metis
  next
    case False
    then have "n + 6 \<le> length frame" "(n + 6) + 16 \<le> length frame" by auto
    then obtain v u where "HexBytes frame n 6 '':'' = Some v" "FormatUuid frame (n + 6) = Some u"
      unfolding HexBytes_def using hex_from_inside FormatUuid_inside by metis
    then show ?thesis
      using False that [of "(v, u, accepted peer)"] n by (simp add: AuditReceivedFrame_def audit_of_def)
  qed
qed

lemma nak_reason_total: "\<exists>r. nak_reason data = Some r"
proof -
  obtain n where n: "BvlcPayloadOffset data (length data) = Some n"
    using payload_offset_inside [of "length data" data] by auto
  show ?thesis using n by (cases "n = 0") (simp_all add: nak_reason_def)
qed

lemma AuditSentFrame_total:
  obtains a n where "AuditSentFrame data (peer, refused) = Some (audit_of peer a, n)"
    "refused \<le> n" "n \<le> refused + 1"
proof -
  have same: "peer = audit_of peer (vmac peer, uuid peer, accepted peer)" by (simp add: audit_of_def)
  obtain r where r: "nak_reason data = Some r" using nak_reason_total by blast
  consider "data = [] \<or> accepted peer \<or> uuid peer = []" | f fs where "data = f # fs" "\<not> accepted peer" "uuid peer \<noteq> []"
    by (cases data) auto
  then show ?thesis
  proof cases
    case 1
    then have "AuditSentFrame data (peer, refused) = Some (peer, refused)" by (auto simp: AuditSentFrame_def)
    then show ?thesis using that [of "(vmac peer, uuid peer, accepted peer)" refused] same by simp
  next
    case 2
    then have "AuditSentFrame data (peer, refused) =
        (if f = kBvlcConnectAccept then Some (peer\<lparr> accepted := True \<rparr>, refused)
         else if f = kBvlcResult then Some (peer, refused + 1) else Some (peer, refused))"
      using r by (cases "f = kBvlcResult") (auto simp: AuditSentFrame_def)
    moreover have "peer\<lparr> accepted := True \<rparr> = audit_of peer (vmac peer, uuid peer, True)"
      by (simp add: audit_of_def)
    ultimately show ?thesis
      using that same by (metis le_add1 le_refl)
  qed
qed

lemma peer_fields_kept:
  fixes p :: peer_connection
  shows "HandleIncomingFragment binary final input source dest (p, rs) = (r, p', rs') \<Longrightarrow>
      clientId p' = clientId p \<and> connectionString p' = connectionString p"
    "ServeWriteable wsi written (p, a, m) = (res, p', a', m') \<Longrightarrow>
      clientId p' = clientId p \<and> connectionString p' = connectionString p"
    "EnqueueFrame wsi data (p, a, n) = (ok, p', a', n') \<Longrightarrow>
      clientId p' = clientId p \<and> connectionString p' = connectionString p"
    "RequestClose wsi code reason (p, a) = (p', a') \<Longrightarrow>
      clientId p' = clientId p \<and> connectionString p' = connectionString p"
  by (auto simp: HandleIncomingFragment_def ServeWriteable_def FlushOneQueuedFrame_def EnqueueFrame_def
      RequestClose_def Let_def split: if_splits option.splits list.splits)

lemma ServerReceive_ok:
  assumes "sc_ok s d" "wsi \<notin> d"
  obtains r s' where "ServerReceive wsi input binary final s = Some (r, s')"
    "sc_ok s' (if rc r = 0 then d else insert wsi d)" "listenerUp s' = listenerUp s"
    "fst ` set (peers s') = fst ` set (peers s)"
proof (cases "map_of (peers s) wsi")
  case None
  then show ?thesis using that [of carry_on s] assms by (simp add: ServerReceive_def carry_on_def)
next
  case (Some p)
  note ok = sc_okD [OF assms(1)]
  obtain close p' rx' where h: "HandleIncomingFragment binary final input (connectionString p) (listenUri s) (p, rx s) =
      (close, p', rx')" by (metis prod.collapse)
  have p: "peer_ok s d wsi p" using ok(4) Some by blast
  then have cp: "connection_ok p" "served (armed s) wsi p" using assms(2) by (simp_all add: peer_ok_def)
  note hk = HandleIncomingFragment_ok [OF h cp(1) ok(9)] peer_fields_kept(1) [OF h]
  have up: "sc_ok (s\<lparr> peers := omap_put wsi (audit_of p' a) (peers s), rx := rx' \<rparr>) (if b then d else insert wsi d)" for a b
    using sc_ok_rx [OF sc_ok_update_peer [OF assms(1) Some, of "audit_of p' a" "armed s" "if b then d else insert wsi d"] hk(2)]
      hk cp by (cases b) (auto simp: served_def subset_insertI)
  have keys: "fst ` set (omap_put wsi q (peers s)) = fst ` set (peers s)" for q
    using Some by (auto simp: insert_absorb dest: map_of_SomeD intro: rev_image_eqI)
  have same: "p' = audit_of p' (vmac p', uuid p', accepted p')" by (simp add: audit_of_def)
  define s' where "s' = s\<lparr> peers := omap_put wsi p' (peers s), rx := rx' \<rparr>"
  have s': "sc_ok s' (if b then d else insert wsi d)" "listenerUp s' = listenerUp s"
    "fst ` set (peers s') = fst ` set (peers s)" for b
    using up [of "(vmac p', uuid p', accepted p')" b] same keys by (simp_all add: s'_def)
  show ?thesis
  proof (cases close)
    case (Some reason)
    then show ?thesis
      using that [of "carry_on\<lparr> rc := -1, close_with := Some reason \<rparr>" s'] s'(1) [of False] s'(2,3) h \<open>map_of (peers s) wsi = Some p\<close>
      by (simp add: ServerReceive_def s'_def)
  next
    case None
    show ?thesis
    proof (cases "rxMessages rx' \<noteq> rxMessages (rx s) \<and> \<not> accepted p'")
      case False
      then show ?thesis
        using that [of carry_on s'] s'(1) [of True] s'(2,3) h None Some
        by (auto simp: ServerReceive_def s'_def carry_on_def)
    next
      case True
      then obtain f fs where f: "rev (rxQueue rx') = f # fs" using hk(5) by (cases "rev (rxQueue rx')") auto
      obtain a where a: "AuditReceivedFrame (frame_data f) p' = Some (audit_of p' a)"
        using AuditReceivedFrame_total .
      let ?t = "s\<lparr> peers := omap_put wsi (audit_of p' a) (peers s), rx := rx' \<rparr>"
      have "omap_put wsi (audit_of p' a) (omap_put wsi p' (peers s)) = omap_put wsi (audit_of p' a) (peers s)"
        using ok(1) by (rule std_map.put_put)
      then have "ServerReceive wsi input binary final s = Some (carry_on, ?t)"
        using True f a h None Some by (simp add: ServerReceive_def Let_def)
      then show ?thesis using that up [of a True] keys by (simp add: carry_on_def)
    qed
  qed
qed

lemma ServerWriteable_ok:
  assumes "sc_ok s d" "ServerWriteable wsi written s = (r, s')"
  shows "sc_ok s' (if rc r = 0 then d else insert wsi d)" "listenerUp s' = listenerUp s"
    "fst ` set (peers s') = fst ` set (peers s)"
proof -
  note ok = sc_okD [OF assms(1)]
  have "sc_ok s' (if rc r = 0 then d else insert wsi d) \<and> listenerUp s' = listenerUp s \<and>
    fst ` set (peers s') = fst ` set (peers s)"
  proof (cases "map_of (peers s) wsi")
    case None
    then have r: "r = carry_on" "s' = s\<lparr> armed := armed s - {wsi} \<rparr>" using assms(2) by (simp_all add: ServerWriteable_def)
    have "sc_ok (s\<lparr> armed := armed s - {wsi} \<rparr>) d"
      using assms(1) None unfolding sc_ok_def peer_ok_def served_def by (auto split: if_splits)
    then show ?thesis using r by (simp add: carry_on_def)
  next
    case (Some p)
    have p: "peer_ok s d wsi p" using ok(4) Some by blast
    obtain close reason sent p' a m where h: "ServeWriteable wsi written (p, armed s - {wsi}, tx s) =
        ((close, reason, sent), p', a, m)" by (metis prod.collapse)
    have cp: "connection_ok p" using p by (simp add: peer_ok_def)
    note hk = ServeWriteable_ok [OF h cp] peer_fields_kept(2) [OF h]
    have r: "r = \<lparr> rc = (if close then -1 else 0), close_with = reason, wrote = sent \<rparr>"
      "s' = s\<lparr> peers := omap_put wsi p' (peers s), armed := a, tx := m \<rparr>"
      using assms(2) Some h by (simp_all add: ServerWriteable_def)
    have "sc_ok (s\<lparr> peers := omap_put wsi p' (peers s), armed := a \<rparr>) (if close then insert wsi d else d)"
      by (rule sc_ok_update_peer [OF assms(1) Some]) (use hk in \<open>auto split: if_splits\<close>)
    then have "sc_ok s' (if close then insert wsi d else d)" unfolding r(2)
      using sc_ok_other(1) by simp
    moreover have "fst ` set (omap_put wsi p' (peers s)) = fst ` set (peers s)"
      using Some by (auto simp: insert_absorb dest: map_of_SomeD intro: rev_image_eqI)
    ultimately show ?thesis using r by (cases close) simp_all
  qed
  then show "sc_ok s' (if rc r = 0 then d else insert wsi d)" "listenerUp s' = listenerUp s"
    "fst ` set (peers s') = fst ` set (peers s)" by blast+
qed

section \<open>What lws may do\<close>

text \<open>Documented behaviour of lws: a new connection comes with a socket of its own while the listener
  is up, and a socket whose callback returned -1 gets no callback but CLOSED.\<close>

fun lws_allows :: "sc_state \<Rightarrow> nat set \<Rightarrow> server_event \<Rightarrow> bool" where
  "lws_allows s d (Established wsi _ _ _) \<longleftrightarrow> listenerUp s \<and> map_of (peers s) wsi = None"
| "lws_allows s d (Received wsi _ _ _) \<longleftrightarrow> wsi \<notin> d"
| "lws_allows s d (Writeable wsi _) \<longleftrightarrow> wsi \<notin> d"
| "lws_allows s d (PeerInitiatedClose wsi _) \<longleftrightarrow> wsi \<notin> d"
| "lws_allows s d _ \<longleftrightarrow> True"

fun doomed_after :: "server_event \<Rightarrow> reply \<Rightarrow> nat set \<Rightarrow> nat set" where
  "doomed_after (Established wsi _ _ _) r d = (if rc r = 0 then d else insert wsi d)"
| "doomed_after (Received wsi _ _ _) r d = (if rc r = 0 then d else insert wsi d)"
| "doomed_after (Writeable wsi _) r d = (if rc r = 0 then d else insert wsi d)"
| "doomed_after (Closed wsi) r d = d - {wsi}"
| "doomed_after _ r d = d"

text \<open>Client numbers only grow, and a peer keeps its number and its string.\<close>

definition grows :: "sc_state \<Rightarrow> sc_state \<Rightarrow> bool" where
  "grows s s' \<longleftrightarrow> nextClientId s \<le> nextClientId s' \<and>
    (\<forall>w p. map_of (peers s') w = Some p \<longrightarrow> nextClientId s \<le> clientId p \<or>
      (\<exists>q. map_of (peers s) w = Some q \<and> clientId q = clientId p \<and> connectionString q = connectionString p))"

lemma grows_refl [simp]: "grows s s"
  by (simp add: grows_def)

lemma grows_trans:
  assumes "grows s t" "grows t u" shows "grows s u"
  unfolding grows_def
proof (intro conjI allI impI)
  show "nextClientId s \<le> nextClientId u" using assms by (auto simp: grows_def)
  fix w p
  assume p: "map_of (peers u) w = Some p"
  then consider "nextClientId t \<le> clientId p"
    | q where "map_of (peers t) w = Some q" "clientId q = clientId p" "connectionString q = connectionString p"
    using assms(2) by (auto simp: grows_def)
  then show "nextClientId s \<le> clientId p \<or>
      (\<exists>q. map_of (peers s) w = Some q \<and> clientId q = clientId p \<and> connectionString q = connectionString p)"
  proof cases
    case 1
    then show ?thesis using assms(1) by (auto simp: grows_def)
  next
    case 2
    then show ?thesis using assms(1) unfolding grows_def by metis
  qed
qed

lemma grows_same: "peers t = peers s \<Longrightarrow> nextClientId t = nextClientId s \<Longrightarrow> grows s t"
  by (simp add: grows_def)

lemma grows_put:
  assumes "omap_ok (peers s)" "map_of (peers s) wsi = Some p" "clientId p' = clientId p"
    "connectionString p' = connectionString p" "peers t = omap_put wsi p' (peers s)"
    "nextClientId t = nextClientId s"
  shows "grows s t"
  using assms by (auto simp: grows_def)

lemma ServerEstablished_grows:
  "omap_ok (peers s) \<Longrightarrow> ServerEstablished wsi header address subject s = (r, s') \<Longrightarrow> grows s s'"
  by (auto simp: ServerEstablished_def grows_def Let_def split: if_splits)

lemma ServerReceive_grows:
  assumes "omap_ok (peers s)" "ServerReceive wsi input binary final s = Some (r, s')"
  shows "grows s s'"
proof (cases "map_of (peers s) wsi")
  case None
  then show ?thesis using assms(2) by (simp add: ServerReceive_def)
next
  case (Some p)
  obtain close p' rx' where h: "HandleIncomingFragment binary final input (connectionString p) (listenUri s) (p, rx s) =
      (close, p', rx')" by (metis prod.collapse)
  note k = peer_fields_kept(1) [OF h]
  have aud: "clientId q = clientId p \<and> connectionString q = connectionString p"
    if "AuditReceivedFrame f p' = Some q" for f q
    using AuditReceivedFrame_total [of f p'] that k by (metis audit_of_keeps(3,4) option.inject)
  have "(\<exists>q. peers s' = omap_put wsi q (peers s) \<and> clientId q = clientId p \<and> connectionString q = connectionString p) \<and>
      nextClientId s' = nextClientId s"
    using assms(2) Some h k aud std_map.put_put [OF assms(1)]
    by (auto simp: ServerReceive_def Let_def split: option.splits if_splits list.splits Option.bind_splits)
  then show ?thesis using grows_put [OF assms(1) Some] by blast
qed

lemma ServerWriteable_grows:
  assumes "omap_ok (peers s)" "ServerWriteable wsi written s = (r, s')"
  shows "grows s s'"
proof (cases "map_of (peers s) wsi")
  case None
  then have "s' = s\<lparr> armed := armed s - {wsi} \<rparr>" using assms(2) by (simp add: ServerWriteable_def)
  then show ?thesis by (simp add: grows_same)
next
  case (Some p)
  obtain res p' a m where h: "ServeWriteable wsi written (p, armed s - {wsi}, tx s) = (res, p', a, m)"
    by (metis prod.collapse)
  have "s' = s\<lparr> peers := omap_put wsi p' (peers s), armed := a, tx := m \<rparr>"
    using assms(2) Some h by (auto simp: ServerWriteable_def split: prod.splits)
  then show ?thesis
    using grows_put [OF assms(1) Some, of p' s'] peer_fields_kept(2) [OF h] by simp
qed

lemma ServerPeerInitiatedClose_ok:
  assumes "sc_ok s d" "wsi \<notin> d"
  shows "sc_ok (ServerPeerInitiatedClose wsi input s) d" "grows s (ServerPeerInitiatedClose wsi input s)"
proof -
  have "sc_ok (ServerPeerInitiatedClose wsi input s) d \<and> grows s (ServerPeerInitiatedClose wsi input s)"
  proof (cases "map_of (peers s) wsi")
    case None
    then show ?thesis using assms by (simp add: ServerPeerInitiatedClose_def)
  next
    case (Some p)
    have p: "peer_ok s d wsi p" using sc_okD(4) [OF assms(1) Some] .
    show ?thesis
    proof (cases "Option.bind input close_code_of")
      case None
      then show ?thesis using assms Some by (simp add: ServerPeerInitiatedClose_def)
    next
      case (Some code)
      let ?p = "p\<lparr> lastCloseCode := code \<rparr>"
      have e: "ServerPeerInitiatedClose wsi input s = s\<lparr> peers := omap_put wsi ?p (peers s), armed := armed s \<rparr>"
        using Some \<open>map_of (peers s) wsi = Some p\<close> by (simp add: ServerPeerInitiatedClose_def)
      have "sc_ok (s\<lparr> peers := omap_put wsi ?p (peers s), armed := armed s \<rparr>) d"
        by (rule sc_ok_update_peer [OF assms(1) \<open>map_of (peers s) wsi = Some p\<close>])
           (use p assms(2) in \<open>auto simp: peer_ok_def connection_ok_def served_def\<close>)
      moreover have "grows s (s\<lparr> peers := omap_put wsi ?p (peers s), armed := armed s \<rparr>)"
        using grows_put [OF sc_okD(1) [OF assms(1)] \<open>map_of (peers s) wsi = Some p\<close>, of ?p] by simp
      ultimately show ?thesis unfolding e by blast
    qed
  qed
  then show "sc_ok (ServerPeerInitiatedClose wsi input s) d" "grows s (ServerPeerInitiatedClose wsi input s)" by blast+
qed

lemma ServerClosed_ok:
  assumes "sc_ok s d"
  shows "sc_ok (ServerClosed wsi s) (d - {wsi})" "grows s (ServerClosed wsi s)"
    "listenerUp (ServerClosed wsi s) = listenerUp s"
    "map_of (peers (ServerClosed wsi s)) = (map_of (peers s))(wsi := None)"
proof -
  note ok = sc_okD [OF assms]
  have "sc_ok (ServerClosed wsi s) (d - {wsi}) \<and> grows s (ServerClosed wsi s) \<and>
    listenerUp (ServerClosed wsi s) = listenerUp s \<and>
    map_of (peers (ServerClosed wsi s)) = (map_of (peers s))(wsi := None)"
  proof (cases "map_of (peers s) wsi")
    case None
    have "peer_ok s (d - {wsi}) w p" if "map_of (peers s) w = Some p" for w p
      using ok(4) [OF that] that None by (cases "w = wsi") (auto simp: peer_ok_def)
    then have "sc_ok s (d - {wsi})" using ok unfolding sc_ok_def by metis
    then show ?thesis using None by (auto simp: ServerClosed_def)
  next
    case (Some p)
    let ?cs = "connectionString p"
    define t where "t = ServerClosed wsi s"
    have t: "t = s\<lparr> statusQueue := statusQueue s @ [closed_event p], totalDisconnects := totalDisconnects s + 1,
        connStringToWsi := omap_del ?cs (connStringToWsi s), peers := omap_del wsi (peers s) \<rparr>"
      using Some by (simp add: t_def ServerClosed_def)
    have m: "map_of (peers t) = (map_of (peers s))(wsi := None)"
      "map_of (connStringToWsi t) = (map_of (connStringToWsi s))(?cs := None)"
      using ok(1,2) t by simp_all
    have cs: "map_of (connStringToWsi s) ?cs = Some wsi"
      using ok(4) [OF Some] by (simp add: peer_ok_def)
    have "peer_ok t (d - {wsi}) w q" if "map_of (peers t) w = Some q" for w q
    proof -
      have q: "map_of (peers s) w = Some q" "w \<noteq> wsi" using that m(1) by (auto split: if_splits)
      have pq: "peer_ok s d w q" using ok(4) [OF q(1)] .
      then have "connectionString q \<noteq> ?cs" using cs q(2) by (auto simp: peer_ok_def)
      then show ?thesis using pq q(2) m(2) t by (auto simp: peer_ok_def)
    qed
    moreover have "\<exists>q. map_of (peers t) w = Some q \<and> connectionString q = c"
      if "map_of (connStringToWsi t) c = Some w" for c w
    proof -
      have c: "map_of (connStringToWsi s) c = Some w" "c \<noteq> ?cs" using that m(2) by (auto split: if_splits)
      then obtain q where "map_of (peers s) w = Some q" "connectionString q = c" using ok(5) by blast
      then show ?thesis using m(1) Some c(2) by (cases "w = wsi") auto
    qed
    moreover have "length (peers s) = length (peers t) + 1"
      using length_omap_del [OF ok(1) Some] t by simp
    moreover have "\<not> listenerUp t \<longrightarrow> peers t = []" using ok(6) t by auto
    ultimately have "sc_ok t (d - {wsi})"
      using ok t unfolding sc_ok_def by simp
    moreover have "grows s t" using m(1) t by (auto simp: grows_def split: if_splits)
    ultimately show ?thesis using m(1) t unfolding t_def [symmetric] by simp
  qed
  then show "sc_ok (ServerClosed wsi s) (d - {wsi})" "grows s (ServerClosed wsi s)"
    "listenerUp (ServerClosed wsi s) = listenerUp s"
    "map_of (peers (ServerClosed wsi s)) = (map_of (peers s))(wsi := None)" by blast+
qed

text \<open>A step leads from one good state to another and never loses count of the clients.\<close>

definition step_ok :: "sc_state \<Rightarrow> sc_state \<Rightarrow> nat set \<Rightarrow> bool" where
  "step_ok s s' d' \<longleftrightarrow> sc_ok s' d' \<and> grows s s'"

lemma step_ok_trans: "step_ok s t d \<Longrightarrow> step_ok t u d' \<Longrightarrow> step_ok s u d'"
  unfolding step_ok_def using grows_trans by blast

lemma step_ok_refl: "sc_ok s d \<Longrightarrow> step_ok s s d"
  by (simp add: step_ok_def)

lemma server_callback_ok:
  assumes "sc_ok s d" "lws_allows s d e"
  obtains r s' where "HandleServerCallback e s = Some (r, s')" "step_ok s s' (doomed_after e r d)"
proof (cases e)
  case (FilterNetworkConnection addr now later)
  let ?f = "FilterConnection addr now later (rate s)"
  have "rate_ok (snd (snd ?f))" using FilterConnection_ok sc_okD(10) [OF assms(1)] by blast
  then have "step_ok s (s\<lparr> rate := snd (snd ?f) \<rparr>) d"
    using sc_ok_rate [OF assms(1)] by (simp add: step_ok_def grows_same)
  then show ?thesis
    using that [of "carry_on\<lparr> rc := (if fst ?f then 0 else -1) \<rparr>" "s\<lparr> rate := snd (snd ?f) \<rparr>"]
      FilterNetworkConnection by (simp add: prod.case_eq_if)
next
  case (Established wsi header address subject)
  obtain r s' where h: "ServerEstablished wsi header address subject s = (r, s')" by fastforce
  show ?thesis
    using that [of r s'] ServerEstablished_ok [OF assms(1) _ _ h] ServerEstablished_grows [OF sc_okD(1) [OF assms(1)] h]
      assms(2) h Established by (simp add: step_ok_def)
next
  case (Received wsi input binary final)
  then have "wsi \<notin> d" using assms(2) by simp
  obtain r s' where h: "ServerReceive wsi input binary final s = Some (r, s')"
    "sc_ok s' (if rc r = 0 then d else insert wsi d)"
    using ServerReceive_ok [OF assms(1) \<open>wsi \<notin> d\<close>, of input binary final] by metis
  then show ?thesis
    using that [of r s'] ServerReceive_grows [OF sc_okD(1) [OF assms(1)] h(1)] Received by (simp add: step_ok_def)
next
  case (Writeable wsi written)
  obtain r s' where h: "ServerWriteable wsi written s = (r, s')" by fastforce
  show ?thesis
    using that [of r s'] ServerWriteable_ok(1) [OF assms(1) h] ServerWriteable_grows [OF sc_okD(1) [OF assms(1)] h]
      h Writeable by (simp add: step_ok_def)
next
  case (PeerInitiatedClose wsi input)
  then show ?thesis
    using that [of carry_on "ServerPeerInitiatedClose wsi input s"] ServerPeerInitiatedClose_ok [OF assms(1)] assms(2)
    by (simp add: step_ok_def)
next
  case (Closed wsi)
  then show ?thesis
    using that [of carry_on "ServerClosed wsi s"] ServerClosed_ok(1,2) [OF assms(1)] by (simp add: step_ok_def)
qed (use that assms in \<open>simp_all add: step_ok_def\<close>)

text \<open>A run of callbacks that lws may make.\<close>

inductive lws_runs :: "sc_state \<Rightarrow> nat set \<Rightarrow> server_event list \<Rightarrow> sc_state \<Rightarrow> nat set \<Rightarrow> bool" where
  runs_done: "lws_runs s d [] s d"
| runs_step: "lws_allows s d e \<Longrightarrow> HandleServerCallback e s = Some (r, s1) \<Longrightarrow>
    lws_runs s1 (doomed_after e r d) es s' d' \<Longrightarrow> lws_runs s d (e # es) s' d'"

lemma lws_runs_run: "lws_runs s d es s' d' \<Longrightarrow> run_server es s = Some s'"
  by (induction rule: lws_runs.induct) simp_all

lemma lws_runs_ok: "lws_runs s d es s' d' \<Longrightarrow> sc_ok s d \<Longrightarrow> step_ok s s' d'"
proof (induction rule: lws_runs.induct)
  case (runs_step s d e r s1 es s' d')
  then have "step_ok s s1 (doomed_after e r d)"
    using server_callback_ok [OF runs_step.prems runs_step.hyps(1)] by (metis Pair_inject option.inject)
  then show ?case using runs_step.IH step_ok_trans step_ok_def by blast
qed (simp add: step_ok_refl)

lemma arm_waiting_ok: "sc_ok s d \<Longrightarrow> step_ok s (s\<lparr> armed := armed s \<union> w \<rparr>) d"
  by (auto simp: step_ok_def sc_ok_def peer_ok_def served_def grows_same)

text \<open>The callbacks of the turns before the listener goes away.\<close>

inductive lws_flushes :: "sc_state \<Rightarrow> nat set \<Rightarrow> server_event list list \<Rightarrow> sc_state \<Rightarrow> nat set \<Rightarrow> bool" where
  flush_deadline: "lws_flushes s d [] (s\<lparr> armed := armed s \<union> set (waiting_peers s) \<rparr>) d"
| flush_empty: "waiting_peers s = [] \<Longrightarrow> lws_flushes s d (es # ess) s d"
| flush_turn: "waiting_peers s \<noteq> [] \<Longrightarrow>
    lws_runs (s\<lparr> armed := armed s \<union> set (waiting_peers s) \<rparr>) d es s1 d1 \<Longrightarrow>
    lws_flushes s1 d1 ess s' d' \<Longrightarrow> lws_flushes s d (es # ess) s' d'"

lemma lws_flushes_flush: "lws_flushes s d ess s' d' \<Longrightarrow> FlushQueuedFrames ess s = Some s'"
  by (induction rule: lws_flushes.induct) (simp_all add: lws_runs_run)

lemma lws_flushes_ok: "lws_flushes s d ess s' d' \<Longrightarrow> sc_ok s d \<Longrightarrow> step_ok s s' d'"
proof (induction rule: lws_flushes.induct)
  case (flush_turn s d es s1 d1 ess s' d')
  have "step_ok s (s\<lparr> armed := armed s \<union> set (waiting_peers s) \<rparr>) d"
    using arm_waiting_ok flush_turn.prems by blast
  moreover from this have "step_ok (s\<lparr> armed := armed s \<union> set (waiting_peers s) \<rparr>) s1 d1"
    using lws_runs_ok [OF flush_turn.hyps(2)] by (simp add: step_ok_def)
  ultimately show ?case using flush_turn.IH step_ok_trans step_ok_def by blast
qed (use arm_waiting_ok step_ok_refl in blast)+

text \<open>lws closes every socket of a context it destroys.\<close>

definition tears_down :: "listen_env \<Rightarrow> sc_state \<Rightarrow> nat set \<Rightarrow> bool" where
  "tears_down env s d \<longleftrightarrow> (listenerUp s \<longrightarrow>
    (\<exists>s1 d1. lws_flushes s d (turns env) s1 d1 \<and>
      set (closing env) = fst ` set (peers s1) \<and> distinct (closing env)))"

lemma close_all:
  assumes "sc_ok s d" "distinct ws" "set ws \<subseteq> fst ` set (peers s)"
  obtains s' where "run_server (map Closed ws) s = Some s'" "step_ok s s' (d - set ws)"
    "listenerUp s' = listenerUp s" "fst ` set (peers s') = fst ` set (peers s) - set ws"
    "length (statusQueue s') = length (statusQueue s) + length ws"
  using assms
proof (induction ws arbitrary: s d thesis)
  case Nil
  show ?case by (rule Nil(1) [of s]) (use Nil(2) in \<open>simp_all add: step_ok_refl\<close>)
next
  case (Cons w ws)
  let ?t = "ServerClosed w s"
  have keys: "fst ` set (peers ?t) = fst ` set (peers s) - {w}"
    using ServerClosed_ok(4) [OF Cons.prems(2), of w]
    by (metis Diff_insert Diff_empty dom_fun_upd dom_map_of_conv_image_fst fun_upd_apply)
  obtain p where "map_of (peers s) w = Some p"
    using Cons.prems(4) by (auto simp: map_of_eq_None_iff [symmetric] dest: weak_map_of_SomeI)
  then have st: "length (statusQueue ?t) = length (statusQueue s) + 1" by (simp add: ServerClosed_def)
  have ok: "step_ok s ?t (d - {w})" using ServerClosed_ok(1,2) [OF Cons.prems(2)] by (simp add: step_ok_def)
  have sub: "set ws \<subseteq> fst ` set (peers ?t)" using Cons.prems(3,4) keys by auto
  obtain s' where s': "run_server (map Closed ws) ?t = Some s'" "step_ok ?t s' (d - {w} - set ws)"
    "listenerUp s' = listenerUp ?t" "fst ` set (peers s') = fst ` set (peers ?t) - set ws"
    "length (statusQueue s') = length (statusQueue ?t) + length ws"
    using Cons.IH [of ?t "d - {w}"] ok sub Cons.prems(3) by (auto simp: step_ok_def)
  have "d - set (w # ws) = d - {w} - set ws" by auto
  moreover have "fst ` set (peers s') = fst ` set (peers s) - set (w # ws)" using s'(4) keys by auto
  ultimately show ?case
    using Cons.prems(1) [of s'] s' st step_ok_trans [OF ok s'(2)] ServerClosed_ok(3) [OF Cons.prems(2)] by simp
qed

lemma DestroyListenerContext_ok:
  assumes "sc_ok s d" "tears_down env s d"
  obtains s' where "DestroyListenerContext env s = Some s'"
    "step_ok s s' (if listenerUp s then {} else d)" "\<not> listenerUp s'"
proof (cases "listenerUp s")
  case False
  then show ?thesis using that [of s] assms by (simp add: DestroyListenerContext_def step_ok_refl)
next
  case True
  then obtain s1 d1 where f: "lws_flushes s d (turns env) s1 d1" "set (closing env) = fst ` set (peers s1)"
    "distinct (closing env)" using assms(2) by (auto simp: tears_down_def)
  have ok1: "step_ok s s1 d1" using lws_flushes_ok [OF f(1) assms(1)] .
  have pre: "sc_ok s1 d1" "distinct (closing env)" "set (closing env) \<subseteq> fst ` set (peers s1)"
    using ok1 f(2,3) by (simp_all add: step_ok_def)
  obtain s2 where c: "run_server (map Closed (closing env)) s1 = Some s2" "step_ok s1 s2 (d1 - set (closing env))"
    "fst ` set (peers s2) = fst ` set (peers s1) - set (closing env)"
    using close_all [OF pre] by metis
  then have none: "peers s2 = []" using f(2) by simp
  let ?t = "s2\<lparr> listenerUp := False, listenUri := [], peers := [], connStringToWsi := [], armed := {} \<rparr>"
  have "sc_ok ?t {}" using c(2) none by (simp add: step_ok_def sc_ok_def)
  moreover have "grows s2 ?t" by (simp add: grows_def)
  ultimately have "step_ok s ?t {}"
    using ok1 c(2) grows_trans unfolding step_ok_def by blast
  then show ?thesis
    using that [of ?t] True lws_flushes_flush [OF f(1)] c(1) by (simp add: DestroyListenerContext_def)
qed

section \<open>Every operation keeps the invariant\<close>

definition no_longer_wanted :: "string \<Rightarrow> sc_state \<Rightarrow> sc_state" where
  "no_longer_wanted uri s = (if wantedListenUri s = uri then s\<lparr> wantedListenUri := [] \<rparr> else s)"

lemma no_longer_wanted_keeps [simp]:
  "sc_ok (no_longer_wanted uri s) d = sc_ok s d" "listenerUp (no_longer_wanted uri s) = listenerUp s"
  "listenUri (no_longer_wanted uri s) = listenUri s" "grows s (no_longer_wanted uri s)"
  by (simp_all add: no_longer_wanted_def grows_same)

lemma StopListening_ok:
  assumes "sc_ok s d" "tears_down env (no_longer_wanted uri s) d"
  obtains s' where "StopListening env uri s = Some s'"
    "step_ok s s' (if listenerUp s \<and> listenUri s = uri then {} else d)"
    "listenerUp s' \<longleftrightarrow> listenerUp s \<and> listenUri s \<noteq> uri"
proof -
  obtain t where t: "t = no_longer_wanted uri s" by simp
  have st: "StopListening env uri s =
      (if \<not> listenerUp t \<or> listenUri t \<noteq> uri then Some t else DestroyListenerContext env t)"
    by (simp add: StopListening_def no_longer_wanted_def t)
  have ok: "sc_ok t d" "step_ok s t d" using assms(1) t by (simp_all add: step_ok_def)
  show ?thesis
  proof (cases "listenerUp s \<and> listenUri s = uri")
    case False
    then have "StopListening env uri s = Some t" using st t by auto
    then show ?thesis using that [of t] False ok(2) t by auto
  next
    case True
    obtain s' where s': "DestroyListenerContext env t = Some s'"
      "step_ok t s' (if listenerUp t then {} else d)" "\<not> listenerUp s'"
      using DestroyListenerContext_ok [OF ok(1)] assms(2) t by metis
    have "StopListening env uri s = Some s'" using st True s'(1) t by simp
    moreover have "step_ok s s' {}" using step_ok_trans [OF ok(2) s'(2)] True t by simp
    ultimately show ?thesis using that [of s'] True s'(3) by auto
  qed
qed

lemma open_listener_ok:
  assumes "sc_ok s d" "\<not> listenerUp s" "open_listener env uri s = (ok, s')"
  shows "step_ok s s' d"
proof -
  have none: "peers s = []" using sc_okD(6) [OF assms(1,2)] .
  have l: "step_ok t (LogListenFailureOnce t) d" if "sc_ok t d" for t
    using that by (simp add: LogListenFailureOnce_def step_ok_def grows_same)
  let ?up = "s\<lparr> listenerUp := True, listenUri := uri, loggedListenFailure := False, lastListenCreateFailure := 0 \<rparr>"
  let ?failed = "s\<lparr> lastListenCreateFailure := clock env \<rparr>"
  have up: "step_ok s ?up d"
    using assms(1) none by (simp add: sc_ok_def step_ok_def grows_def)
  have failed: "step_ok s ?failed d" using assms(1) by (simp add: step_ok_def grows_same)
  then have failed_ok: "sc_ok ?failed d" by (simp add: step_ok_def)
  have "s' = s \<or> s' = LogListenFailureOnce s \<or> s' = LogListenFailureOnce ?failed \<or> s' = ?up"
    using assms(3) unfolding open_listener_def
    by (cases "ParseWssUri uri") (simp_all split: prod.splits if_splits)
  then show ?thesis
    using l [OF assms(1)] step_ok_trans [OF failed l [OF failed_ok]] up step_ok_refl [OF assms(1)] by metis
qed

lemma StartListening_ok:
  assumes "sc_ok s d" "tears_down env (s\<lparr> wantedListenUri := uri \<rparr>) d"
  obtains ok s' where "StartListening env uri s = Some (ok, s')"
    "step_ok s s' (if configured s \<and> listenerUp s \<and> listenUri s \<noteq> uri then {} else d)"
proof -
  obtain t where t: "t = s\<lparr> wantedListenUri := uri \<rparr>" by simp
  have okt: "sc_ok t d" "step_ok s t d" using assms(1) t by (simp_all add: step_ok_def grows_same)
  have st: "StartListening env uri s =
      (if \<not> configured t then Some (False, LogListenFailureOnce t)
       else if listenerUp t \<and> listenUri t = uri then Some (True, t)
       else do {
         u \<leftarrow> (if listenerUp t then StopListening env (listenUri t) t else Some t);
         Some (open_listener env uri u)
       })" by (simp add: StartListening_def t)
  consider "\<not> configured s" | "configured s" "listenerUp s" "listenUri s = uri"
    | "configured s" "\<not> listenerUp s" | "configured s" "listenerUp s" "listenUri s \<noteq> uri" by blast
  then show ?thesis
  proof cases
    case 1
    have "step_ok s (LogListenFailureOnce t) d"
      using okt by (simp add: LogListenFailureOnce_def step_ok_def t grows_same)
    then show ?thesis using that st 1 t by simp
  next
    case 2
    then show ?thesis using that st okt t by simp
  next
    case 3
    obtain ok s' where o: "open_listener env uri t = (ok, s')" by fastforce
    have "step_ok s s' d" using step_ok_trans [OF okt(2) open_listener_ok [OF okt(1) _ o]] 3 t by simp
    then show ?thesis using that [of ok s'] st 3 o t by simp
  next
    case 4
    have nw: "no_longer_wanted (listenUri t) t = t" using 4 t by (simp add: no_longer_wanted_def)
    obtain u where u: "StopListening env (listenUri t) t = Some u"
      "step_ok t u (if listenerUp t \<and> listenUri t = listenUri t then {} else d)"
      "listenerUp u \<longleftrightarrow> listenerUp t \<and> listenUri t \<noteq> listenUri t"
      using StopListening_ok [OF okt(1), of env "listenUri t"] assms(2) nw t by metis
    obtain ok s' where o: "open_listener env uri u = (ok, s')" by fastforce
    have oku: "sc_ok u {}" "\<not> listenerUp u" using u(2,3) 4 t by (simp_all add: step_ok_def)
    have "step_ok s s' {}"
      using step_ok_trans [OF okt(2) step_ok_trans [OF u(2) open_listener_ok [OF oku o]]] .
    then show ?thesis using that [of ok s'] st 4 u(1) o t by simp
  qed
qed

lemma sc_ok_put_client:
  assumes "sc_ok s d" "connection_ok c" "hub_uri c = uri"
  shows "step_ok s (put_client uri c s) d"
  using assms by (auto simp: step_ok_def sc_ok_def peer_ok_def put_client_def grows_same)

lemma drop_client_ok: "sc_ok s d \<Longrightarrow> step_ok s (drop_client uri s) d"
  by (auto simp: step_ok_def sc_ok_def peer_ok_def drop_client_def grows_same)

lemma Disconnect_ok:
  assumes "sc_ok s d" shows "step_ok s (Disconnect connStr s) d"
proof -
  note ok = sc_okD [OF assms]
  show ?thesis
  proof (cases "map_of (connStringToWsi s) connStr")
    case (Some wsi)
    then obtain p where p: "map_of (peers s) wsi = Some p" using ok(5) by blast
    obtain p' a where r: "RequestClose wsi LWS_CLOSE_STATUS_NORMAL [] (p, armed s) = (p', a)" by fastforce
    have pk: "peer_ok s d wsi p" using ok(4) [OF p] .
    have rk: "connection_ok p'" "armed s \<subseteq> a" "wsi \<notin> d \<Longrightarrow> served a wsi p'"
    proof -
      show "connection_ok p'" "armed s \<subseteq> a" using r pk
        by (auto simp: RequestClose_def peer_ok_def connection_ok_def split: if_splits)
      show "wsi \<notin> d \<Longrightarrow> served a wsi p'"
        using RequestClose_ok [OF r] pk by (simp add: peer_ok_def)
    qed
    let ?t = "s\<lparr> peers := omap_put wsi p' (peers s), armed := a \<rparr>"
    have "sc_ok ?t d"
      by (rule sc_ok_update_peer [OF assms p]) (use rk peer_fields_kept(4) [OF r] in auto)
    moreover have "grows s ?t"
      using grows_put [OF ok(1) p, of p' ?t] peer_fields_kept(4) [OF r] by simp
    ultimately show ?thesis using Some p r by (simp add: Disconnect_def step_ok_def)
  next
    case None
    show ?thesis
    proof (cases "map_of (clients s) connStr")
      case None
      then show ?thesis using \<open>map_of (connStringToWsi s) connStr = None\<close> assms
        by (simp add: Disconnect_def step_ok_refl)
    next
      case (Some c)
      have c: "connection_ok c" "hub_uri c = connStr" using ok(7,8) Some by blast+
      show ?thesis
      proof (cases "client_wsi c")
        case None
        then show ?thesis using \<open>map_of (connStringToWsi s) connStr = None\<close> Some assms
          by (simp add: Disconnect_def step_ok_refl)
      next
        case (Some wsi)
        obtain c' a where r: "RequestClose wsi LWS_CLOSE_STATUS_NORMAL [] (c, clientArmed s) = (c', a)" by fastforce
        have "connection_ok c'" "hub_uri c' = connStr"
          using r c by (auto simp: RequestClose_def connection_ok_def split: if_splits)
        then have "step_ok s (put_client connStr c' s) d" by (rule sc_ok_put_client [OF assms])
        then show ?thesis
          using \<open>map_of (connStringToWsi s) connStr = None\<close> \<open>map_of (clients s) connStr = Some c\<close> Some r
          by (simp add: Disconnect_def step_ok_def grows_def)
      qed
    qed
  qed
qed

lemma Send_ok:
  assumes "sc_ok s d"
  obtains ok s' where "Send connStr data s = Some (ok, s')" "step_ok s s' d"
proof -
  note ok = sc_okD [OF assms]
  show ?thesis
  proof (cases "map_of (connStringToWsi s) connStr")
    case (Some wsi)
    then obtain p where p: "map_of (peers s) wsi = Some p" using ok(5) by blast
    have pk: "peer_ok s d wsi p" using ok(4) [OF p] .
    obtain au refused where au: "AuditSentFrame data (p, connectRequestsRefused s) = Some (audit_of p au, refused)"
      using AuditSentFrame_total by metis
    obtain res q a n where e: "EnqueueFrame wsi data (audit_of p au, armed s, txQueueOverflows s) = (res, q, a, n)"
      by (metis prod.collapse)
    have rk: "connection_ok q" "armed s \<subseteq> a" "wsi \<notin> d \<Longrightarrow> served a wsi q"
    proof -
      show "connection_ok q" "armed s \<subseteq> a" using e pk
        by (auto simp: EnqueueFrame_def RequestClose_def peer_ok_def connection_ok_def audit_of_def
            kMaxTxQueueFrames_def split: if_splits)
      show "wsi \<notin> d \<Longrightarrow> served a wsi q"
        using EnqueueFrame_ok [OF e] pk by (simp add: peer_ok_def)
    qed
    let ?t = "s\<lparr> peers := omap_put wsi q (peers s), armed := a \<rparr>"
    have "sc_ok ?t d"
      by (rule sc_ok_update_peer [OF assms p]) (use rk peer_fields_kept(3) [OF e] in auto)
    moreover have "grows s ?t"
      using grows_put [OF ok(1) p, of q ?t] peer_fields_kept(3) [OF e] by simp
    ultimately have "step_ok s (?t\<lparr> txQueueOverflows := n, connectRequestsRefused := refused \<rparr>) d"
      by (simp add: step_ok_def grows_def)
    then show ?thesis
      using that [of res "?t\<lparr> txQueueOverflows := n, connectRequestsRefused := refused \<rparr>"] Some p au e
      by (simp add: Send_def)
  next
    case None
    note nopeer = None
    show ?thesis
    proof (cases "map_of (clients s) connStr")
      case None
      then show ?thesis using nopeer that [of False s] assms by (simp add: Send_def step_ok_refl)
    next
      case (Some c)
      have c: "connection_ok c" "hub_uri c = connStr" using ok(7,8) Some by blast+
      show ?thesis
      proof (cases "client_wsi c")
        case None
        then show ?thesis using nopeer Some that [of False s] assms by (simp add: Send_def step_ok_refl)
      next
        case (Some wsi)
        obtain res c' a n where e: "EnqueueFrame wsi data (c, clientArmed s, txQueueOverflows s) = (res, c', a, n)"
          by (metis prod.collapse)
        have "connection_ok c'" "hub_uri c' = connStr"
          using e c by (auto simp: EnqueueFrame_def RequestClose_def connection_ok_def kMaxTxQueueFrames_def split: if_splits)
        then have "step_ok s (put_client connStr c' s) d" by (rule sc_ok_put_client [OF assms])
        then have "step_ok s ((put_client connStr c' s)\<lparr> clientArmed := a, txQueueOverflows := n \<rparr>) d"
          by (simp add: step_ok_def grows_def)
        then show ?thesis
          using that nopeer \<open>map_of (clients s) connStr = Some c\<close> Some e by (simp add: Send_def)
      qed
    qed
  qed
qed

lemma fold_disconnect_ok: "sc_ok s d \<Longrightarrow>
    step_ok s (fold (\<lambda>(uri, conn). if client_wsi conn \<noteq> None then Disconnect uri else id) cs s) d"
proof (induction cs arbitrary: s)
  case Nil
  then show ?case by (simp add: step_ok_refl)
next
  case (Cons x cs)
  obtain uri c where x: "x = (uri, c)" by fastforce
  let ?t = "(if client_wsi c \<noteq> None then Disconnect uri else id) s"
  have "step_ok s ?t d" using Disconnect_ok [OF Cons.prems] Cons.prems by (simp add: step_ok_refl)
  moreover from this have "step_ok ?t (fold (\<lambda>(uri, conn). if client_wsi conn \<noteq> None then Disconnect uri else id) cs ?t) d"
    using Cons.IH by (simp add: step_ok_def)
  ultimately show ?case using step_ok_trans unfolding x fold.simps comp_apply prod.case by blast
qed

lemma ReloadCredentials_ok:
  assumes "sc_ok s d" "wantedListenUri s \<noteq> [] \<Longrightarrow> tears_down env s d"
  obtains s' where "ReloadCredentials env s = Some s'"
    "step_ok s s' (if wantedListenUri s \<noteq> [] \<and> listenerUp s then {} else d)"
proof (cases "wantedListenUri s = []")
  case True
  then show ?thesis using that fold_disconnect_ok [OF assms(1), of "clients s"] by (simp add: ReloadCredentials_def)
next
  case False
  let ?d = "if listenerUp s then {} else d"
  obtain t where t: "DestroyListenerContext env s = Some t" "step_ok s t ?d" "\<not> listenerUp t"
    using DestroyListenerContext_ok [OF assms(1) assms(2) [OF False]] by metis
  obtain u where u: "u = t\<lparr> lastListenCreateFailure := 0 \<rparr>" by simp
  have u_ok: "step_ok s u ?d" "sc_ok u ?d" "\<not> listenerUp u"
    using t(2,3) u by (simp_all add: step_ok_def grows_def)
  have "tears_down env (u\<lparr> wantedListenUri := wantedListenUri s \<rparr>) ?d"
    using u_ok(3) by (simp add: tears_down_def)
  then obtain ok v where v: "StartListening env (wantedListenUri s) u = Some (ok, v)"
    "step_ok u v (if configured u \<and> listenerUp u \<and> listenUri u \<noteq> wantedListenUri s then {} else ?d)"
    using StartListening_ok [OF u_ok(2), of env "wantedListenUri s"] by metis
  have vd: "step_ok s v ?d" using step_ok_trans [OF u_ok(1) v(2)] u_ok(3) by simp
  then have "step_ok s (fold (\<lambda>(uri, conn). if client_wsi conn \<noteq> None then Disconnect uri else id) (clients v) v) ?d"
    using step_ok_trans [OF vd fold_disconnect_ok [of v ?d "clients v"]] by (simp add: step_ok_def)
  then show ?thesis
    using that False t(1) v(1) u by (simp add: ReloadCredentials_def)
qed

section \<open>Client callbacks and dialling\<close>

definition client_known :: "sc_state \<Rightarrow> string option \<Rightarrow> bool" where
  "client_known s opaque \<longleftrightarrow> (case opaque of None \<Rightarrow> True | Some uri \<Rightarrow> omap_has (clients s) uri)"

lemma put_client_known: "omap_ok (clients s) \<Longrightarrow> client_known s k \<Longrightarrow> client_known (put_client uri c s) k"
  by (auto simp: client_known_def put_client_def omap_has_def split: option.splits)

lemma client_callback_ok:
  assumes "sc_ok s d" "client_known s opaque"
  obtains r s' where "HandleClientCallback opaque e s = Some (r, s')" "step_ok s s' d" "client_known s' opaque"
proof (cases "e = LoadExtraClientVerifyCerts \<or> opaque = None")
  case True
  then have "HandleClientCallback opaque e s = Some (carry_on, s)" by (auto simp: HandleClientCallback_def)
  then show ?thesis using that step_ok_refl [OF assms(1)] assms(2) by blast
next
  case False
  then obtain uri where uri: "opaque = Some uri" by blast
  then obtain c where c: "map_of (clients s) uri = Some c" using assms(2) by (auto simp: client_known_def omap_has_def)
  note ok = sc_okD [OF assms(1)]
  have ck: "connection_ok c" "hub_uri c = uri" using ok(7,8) c by blast+
  have put: "step_ok s (put_client uri c' s) d" if "connection_ok c'" "hub_uri c' = uri" for c'
    using sc_ok_put_client [OF assms(1) that] .
  have frame: "step_ok s t' d \<and> client_known t' opaque"
    if "step_ok s t d" "peers t' = peers t" "nextClientId t' = nextClientId t" "clients t' = clients t" "sc_ok t' d"
      "clients t = omap_put uri c' (clients s)" for t t' c'
    using that ok(3) uri by (auto simp: step_ok_def grows_def client_known_def omap_has_def)
  let ?call = "the (HandleClientCallback opaque e s)"
  have some: "HandleClientCallback opaque e s = Some ?call"
    using False uri c by (simp add: HandleClientCallback_def)
  have "step_ok s (snd ?call) d \<and> client_known (snd ?call) opaque"
  proof (cases e)
    case (ClientEstablished wsi address)
    let ?c = "c\<lparr> client_wsi := Some wsi, hub_address := address \<rparr>"
    have p: "step_ok s (put_client uri ?c s) d" using put ck by (simp add: connection_ok_def)
    show ?thesis
      by (rule frame [OF p, where c' = ?c])
         (use False uri c p ClientEstablished in \<open>simp_all add: HandleClientCallback_def ClientEstablished_body_def
           push_status_def put_client_def step_ok_def Let_def\<close>)
  next
    case ClientConnectionError
    let ?c = "c\<lparr> client_wsi := None \<rparr>"
    have p: "step_ok s (put_client uri ?c s) d" using put ck by (simp add: connection_ok_def)
    have sw: "put_client uri ?c (push_status u x y s) = push_status u x y (put_client uri ?c s)" for u x y
      by (simp add: put_client_def push_status_def)
    show ?thesis
      by (rule frame [OF p, where c' = ?c])
         (use False uri c p ClientConnectionError in \<open>simp_all add: HandleClientCallback_def sw\<close>,
          simp_all add: push_status_def put_client_def step_ok_def)
  next
    case (ClientPeerInitiatedClose input)
    show ?thesis
    proof (cases "Option.bind input close_code_of")
      case None
      then show ?thesis
        using False uri c ClientPeerInitiatedClose step_ok_refl [OF assms(1)] assms(2)
        by (simp add: HandleClientCallback_def)
    next
      case (Some code)
      let ?c = "c\<lparr> lastCloseCode := code \<rparr>"
      have p: "step_ok s (put_client uri ?c s) d" using put ck by (simp add: connection_ok_def)
      then show ?thesis
        using False uri c ClientPeerInitiatedClose Some put_client_known [OF ok(3) assms(2)]
        by (simp add: HandleClientCallback_def)
    qed
  next
    case (ClientReceived wsi input binary final)
    obtain close c' rx' where h: "HandleIncomingFragment binary final input (hub_uri c) [] (c, rx s) = (close, c', rx')"
      by (metis prod.collapse)
    have "hub_uri c' = uri"
      using h ck(2) by (auto simp: HandleIncomingFragment_def Let_def split: if_splits)
    then have p: "step_ok s (put_client uri c' s) d" using put HandleIncomingFragment_ok(1) [OF h ck(1) ok(9)] by blast
    have "sc_ok ((put_client uri c' s)\<lparr> rx := rx' \<rparr>) d"
      using sc_ok_rx p HandleIncomingFragment_ok(2) [OF h ck(1) ok(9)] by (simp add: step_ok_def)
    then show ?thesis
      by (intro frame [OF p, where c' = c'])
         (use False uri c h ClientReceived in \<open>simp_all add: HandleClientCallback_def ClientReceived_body_def
           put_client_def Let_def\<close>)
  next
    case (ClientWriteable wsi written)
    obtain close reason sent c' a m where h: "ServeWriteable wsi written (c, clientArmed s - {wsi}, tx s) =
        ((close, reason, sent), c', a, m)" by (metis prod.collapse)
    have "hub_uri c' = uri"
      using h ck(2) by (auto simp: ServeWriteable_def FlushOneQueuedFrame_def Let_def
        split: if_splits option.splits list.splits)
    then have p: "step_ok s (put_client uri c' s) d" using put ServeWriteable_ok(1) [OF h ck(1)] by blast
    then have "sc_ok ((put_client uri c' s)\<lparr> clientArmed := a, tx := m \<rparr>) d"
      by (simp add: step_ok_def)
    then show ?thesis
      by (intro frame [OF p, where c' = c'])
         (use False uri c h ClientWriteable in \<open>simp_all add: HandleClientCallback_def ClientWriteable_body_def
           put_client_def Let_def\<close>)
  next
    case ClientClosed
    let ?c = "c\<lparr> client_wsi := None \<rparr>"
    have p: "step_ok s (put_client uri ?c s) d" using put ck by (simp add: connection_ok_def)
    have sw: "put_client uri ?c (push_status u x y s) = push_status u x y (put_client uri ?c s)" for u x y
      by (simp add: put_client_def push_status_def)
    show ?thesis
      by (rule frame [OF p, where c' = ?c])
         (use False uri c p ClientClosed in \<open>simp_all add: HandleClientCallback_def sw\<close>,
          simp_all add: push_status_def put_client_def step_ok_def)
  qed (use False uri c step_ok_refl [OF assms(1)] assms(2) in \<open>simp_all add: HandleClientCallback_def\<close>)
  then show ?thesis using that [of "fst ?call" "snd ?call"] some by simp
qed

lemma run_client_ok:
  assumes "sc_ok s d" "client_known s opaque"
  obtains s' where "run_client opaque es s = Some s'" "step_ok s s' d" "client_known s' opaque"
  using assms
proof (induction es arbitrary: s thesis)
  case Nil
  show ?case by (rule Nil(1) [of s]) (use Nil in \<open>simp_all add: step_ok_refl\<close>)
next
  case (Cons e es)
  obtain r s1 where c: "HandleClientCallback opaque e s = Some (r, s1)" "step_ok s s1 d" "client_known s1 opaque"
    using client_callback_ok [OF Cons.prems(2,3)] by metis
  obtain s' where "run_client opaque es s1 = Some s'" "step_ok s1 s' d" "client_known s' opaque"
    using Cons.IH [of s1] c(2,3) by (auto simp: step_ok_def)
  then show ?case using Cons.prems(1) [of s'] c step_ok_trans by simp
qed

lemma new_client_ok: "connection_ok (new_client\<lparr> hub_uri := uri, has_context := b \<rparr>)"
  "connection_ok (new_client\<lparr> hub_uri := uri \<rparr>)"
  by (simp_all add: new_client_def connection.defs client_connection.defs new_connection_def connection_ok_def)

lemma Connect_ok:
  assumes "sc_ok s d"
  obtains ok s' where "Connect env uri s = Some (ok, s')" "step_ok s s' d"
proof -
  note found = that
  have fail: ?thesis if "Connect env uri s = Some (False, s)"
    using found [OF that step_ok_refl [OF assms]] .
  show ?thesis
  proof (cases "configured s \<and> DescribeMissingTlsFiles (opens env) (tls s) = [] \<and> cert_ok env (tls s) \<and>
      (\<exists>host port path. ParseWssUri uri = Some (host, port, path) \<and> host \<noteq> [])")
    case False
    then have "Connect env uri s = Some (False, s)"
      by (auto simp: Connect_def split: option.splits)
    then show ?thesis by (rule fail)
  next
    case True
    obtain t where t: "replace_client env uri s = Some t" "step_ok s t d"
    proof (cases "map_of (clients s) uri")
      case None
      then show ?thesis using that [of s] step_ok_refl [OF assms] by (simp add: replace_client_def)
    next
      case (Some c)
      let ?k = "if client_wsi c \<noteq> None then None else Some uri"
      have "client_known s ?k" using Some by (simp add: client_known_def omap_has_def)
      then obtain u where u: "run_client ?k (old_callbacks env) s = Some u" "step_ok s u d"
        using run_client_ok [OF assms] by metis
      define w where "w = (if has_context c then u else s)"
      have "step_ok s w d" using u(2) step_ok_refl [OF assms] by (simp add: w_def)
      then have "step_ok s (drop_client uri w) d"
        using step_ok_trans drop_client_ok unfolding step_ok_def by blast
      moreover have "replace_client env uri s = Some (drop_client uri w)"
        using Some u(1) by (simp add: replace_client_def w_def)
      ultimately show ?thesis using that by blast
    qed
    let ?n = "new_client\<lparr> hub_uri := uri \<rparr>" and ?m = "new_client\<lparr> hub_uri := uri, has_context := True \<rparr>"
    let ?t = "put_client uri ?n t" and ?u = "put_client uri ?m (put_client uri ?n t)"
    have "sc_ok t d" using t(2) by (simp add: step_ok_def)
    then have nu: "step_ok t ?t d" by (rule sc_ok_put_client [OF _ new_client_ok(2)]) simp
    then have "sc_ok ?t d" by (simp add: step_ok_def)
    then have mu: "step_ok ?t ?u d" by (rule sc_ok_put_client [OF _ new_client_ok(1)]) simp
    have stt: "step_ok s ?t d" "step_ok s ?u d" using step_ok_trans t(2) nu mu by blast+
    have known: "client_known ?u (Some uri)"
      using sc_okD(3) [of t d] t(2) by (simp add: client_known_def put_client_def omap_has_def step_ok_def)
    obtain v where v: "run_client (Some uri) (dial_callbacks env) ?u = Some v" "step_ok ?u v d" "client_known v (Some uri)"
      using run_client_ok [of ?u d "Some uri"] stt(2) known by (metis step_ok_def)
    have sv: "step_ok s v d" using step_ok_trans stt(2) v(2) by blast
    have e: "Connect env uri s = dial env uri ?t" using True t(1) by (auto simp: Connect_def)
    show ?thesis
    proof (cases "client_context env")
      case False
      then have "dial env uri ?t = Some (False, drop_client uri ?t)" by (simp add: dial_def)
      moreover have "step_ok s (drop_client uri ?t) d"
        using step_ok_trans [OF stt(1) drop_client_ok] \<open>sc_ok ?t d\<close> by blast
      ultimately show ?thesis using found [of False "drop_client uri ?t"] e by simp
    next
      case True
      show ?thesis
      proof (cases "dialled env")
        case None
        obtain w where w: "run_client (Some uri) (abort_callbacks env) v = Some w" "step_ok v w d"
          using run_client_ok [of v d "Some uri"] sv v(3) by (metis step_ok_def)
        have "step_ok s (drop_client uri w) d"
          using step_ok_trans [OF step_ok_trans [OF sv w(2)] drop_client_ok] w(2) unfolding step_ok_def by blast
        then show ?thesis using found [of False "drop_client uri w"] e True None v(1) w(1) by (simp add: dial_def)
      next
        case (Some wsi)
        obtain c where c: "map_of (clients v) uri = Some c" using v(3) by (auto simp: client_known_def omap_has_def)
        have "sc_ok v d" using sv by (simp add: step_ok_def)
        then have "connection_ok (c\<lparr> client_wsi := Some wsi \<rparr>)" "hub_uri (c\<lparr> client_wsi := Some wsi \<rparr>) = uri"
          using sc_okD(7,8) [OF _ c] by (auto simp: connection_ok_def)
        then have "step_ok s (put_client uri (c\<lparr> client_wsi := Some wsi \<rparr>) v) d"
          using sc_ok_put_client [OF \<open>sc_ok v d\<close>] step_ok_trans sv by blast
        then show ?thesis
          using found [of True "put_client uri (c\<lparr> client_wsi := Some wsi \<rparr>) v"] e True Some v(1) c by (simp add: dial_def)
      qed
    qed
  qed
qed

end
