(* ===== verification/Sc_Machine.thy ===== *)
theory Sc_Machine
  imports Sc_Invariant
begin

text \<open>
  The transport as a transition system: every operation the program calls and every callback lws may
  make, from the state at start-up.  The properties of \<^verbatim>\<open>ScTransport\<close> that hold over any
  sequence of them.
\<close>

section \<open>Steps\<close>

inductive sc_step :: "sc_state \<times> nat set \<Rightarrow> sc_state \<times> nat set \<Rightarrow> bool" where
  server: "lws_allows s d e \<Longrightarrow> HandleServerCallback e s = Some (r, s') \<Longrightarrow>
    sc_step (s, d) (s', doomed_after e r d)"
| client: "client_known s opaque \<Longrightarrow> HandleClientCallback opaque ce s = Some (r, s') \<Longrightarrow>
    sc_step (s, d) (s', d)"
| send: "Send connStr data s = Some (ok, s') \<Longrightarrow> sc_step (s, d) (s', d)"
| disconnect: "sc_step (s, d) (Disconnect connStr s, d)"
| start: "tears_down env (s\<lparr> wantedListenUri := uri \<rparr>) d \<Longrightarrow> StartListening env uri s = Some (ok, s') \<Longrightarrow>
    sc_step (s, d) (s', if configured s \<and> listenerUp s \<and> listenUri s \<noteq> uri then {} else d)"
| stop: "tears_down env (no_longer_wanted uri s) d \<Longrightarrow> StopListening env uri s = Some s' \<Longrightarrow>
    sc_step (s, d) (s', if listenerUp s \<and> listenUri s = uri then {} else d)"
| reload: "(wantedListenUri s \<noteq> [] \<longrightarrow> tears_down env s d) \<Longrightarrow> ReloadCredentials env s = Some s' \<Longrightarrow>
    sc_step (s, d) (s', if wantedListenUri s \<noteq> [] \<and> listenerUp s then {} else d)"
| dial: "Connect cenv uri s = Some (ok, s') \<Longrightarrow> sc_step (s, d) (s', d)"
| configure: "sc_step (s, d) (Configure files subprotocol s, d)"
| limits: "sc_step (s, d) (s\<lparr> rate := SetConnectionRateLimits per_address per_second (rate s) \<rparr>, d)"
| pop_received: "PopReceived s = Some (f, s') \<Longrightarrow> sc_step (s, d) (s', d)"
| pop_status: "PopStatusEvent s = Some (ev, s') \<Longrightarrow> sc_step (s, d) (s', d)"

inductive sc_steps :: "sc_state \<times> nat set \<Rightarrow> sc_state \<times> nat set \<Rightarrow> bool" where
  steps_refl: "sc_steps st st"
| steps_step: "sc_steps st (s, d) \<Longrightarrow> sc_step (s, d) (s', d') \<Longrightarrow> sc_steps st (s', d')"

definition sc_reach :: "sc_state \<Rightarrow> nat set \<Rightarrow> bool" where
  "sc_reach s d \<longleftrightarrow> sc_steps (initial_sc_state, {}) (s, d)"

lemma PopReceived_ok: "sc_ok s d \<Longrightarrow> PopReceived s = Some (f, s') \<Longrightarrow> step_ok s s' d"
proof -
  assume ok: "sc_ok s d" and p: "PopReceived s = Some (f, s')"
  then obtain later where l: "rxQueue (rx s) = f # later" "s' = s\<lparr> rx := (rx s)\<lparr> rxQueue := later \<rparr> \<rparr>"
    by (auto simp: PopReceived_def split: list.splits)
  have "rx_ok ((rx s)\<lparr> rxQueue := later \<rparr>)" using sc_okD(9) [OF ok] l(1) by (simp add: rx_ok_def)
  then show ?thesis using sc_ok_rx [OF ok] l(2) by (simp add: step_ok_def grows_same)
qed

lemma sc_step_ok:
  assumes "sc_step (s, d) (s', d')" "sc_ok s d" shows "step_ok s s' d'"
  using assms(1)
proof (cases rule: sc_step.cases)
  case (server e r)
  then show ?thesis using server_callback_ok [OF assms(2), of e] by (metis Pair_inject option.inject)
next
  case (client opaque ce r)
  then show ?thesis using client_callback_ok [OF assms(2), of opaque ce] by (metis Pair_inject option.inject)
next
  case (send connStr data ok)
  then show ?thesis using Send_ok [OF assms(2), of connStr data] by (metis Pair_inject option.inject)
next
  case (disconnect connStr)
  then show ?thesis using Disconnect_ok [OF assms(2)] by simp
next
  case (start env uri ok)
  obtain ok' t where "StartListening env uri s = Some (ok', t)"
    "step_ok s t (if configured s \<and> listenerUp s \<and> listenUri s \<noteq> uri then {} else d)"
    using StartListening_ok [OF assms(2) start(2)] by blast
  then show ?thesis using start by simp
next
  case (stop env uri)
  obtain t where "StopListening env uri s = Some t"
    "step_ok s t (if listenerUp s \<and> listenUri s = uri then {} else d)"
    using StopListening_ok [OF assms(2) stop(2)] by blast
  then show ?thesis using stop by simp
next
  case (reload env)
  obtain t where "ReloadCredentials env s = Some t"
    "step_ok s t (if wantedListenUri s \<noteq> [] \<and> listenerUp s then {} else d)"
    using ReloadCredentials_ok [OF assms(2)] reload(2) by blast
  then show ?thesis using reload by simp
next
  case (dial cenv uri ok)
  then show ?thesis using Connect_ok [OF assms(2), of cenv uri] by (metis Pair_inject option.inject)
next
  case (configure files subprotocol)
  have "sc_ok (Configure files subprotocol s) d"
    using assms(2) by (simp add: sc_ok_def peer_ok_def Configure_def)
  then show ?thesis using configure by (simp add: step_ok_def grows_same Configure_def)
next
  case (limits per_address per_second)
  have "rate_ok (SetConnectionRateLimits per_address per_second (rate s))"
    by (simp add: SetConnectionRateLimits_def rate_ok_def)
  then show ?thesis using sc_ok_rate [OF assms(2)] limits by (simp add: step_ok_def grows_same)
next
  case (pop_received f)
  then show ?thesis using PopReceived_ok [OF assms(2)] by simp
next
  case (pop_status ev)
  then show ?thesis
    using assms(2) by (auto simp: PopStatusEvent_def step_ok_def grows_same split: list.splits)
qed

lemma sc_steps_ok:
  assumes "sc_steps (s, d) (s', d')" "sc_ok s d" shows "step_ok s s' d'"
  using assms(1)
proof (induction "(s, d)" "(s', d')" arbitrary: s' d' rule: sc_steps.induct)
  case steps_refl
  then show ?case using assms(2) by (simp add: step_ok_refl)
next
  case (steps_step s1 d1 s' d')
  then show ?case using step_ok_trans sc_step_ok unfolding step_ok_def by blast
qed

lemma sc_reach_ok: "sc_reach s d \<Longrightarrow> sc_ok s d"
  using sc_steps_ok [OF _ initial_sc_ok] by (simp add: sc_reach_def step_ok_def)

section \<open>Properties of every run\<close>

lemma transport_invariant_parts:
  assumes "sc_reach s d"
  shows "map_of (peers s) w = Some p \<Longrightarrow> length (rxAssembly p) \<le> 1600 \<and> length (txQueue p) \<le> 64 \<and>
      (w \<notin> d \<and> (txQueue p \<noteq> [] \<or> requested (closeRequest p)) \<longrightarrow> w \<in> armed s)"
    "f \<in> set (rxQueue (rx s)) \<Longrightarrow> length (frame_data f) \<le> 1600"
    "map_of (connStringToWsi s) cs = Some w \<longleftrightarrow> (\<exists>p. map_of (peers s) w = Some p \<and> connectionString p = cs)"
    "totalConnects s = totalDisconnects s + currentPeerCount (GetMetrics s)"
    "\<not> listenerUp s \<Longrightarrow> peers s = []"
    "length (addressBuckets (rate s)) \<le> 1024"
proof -
  note ok = sc_okD [OF sc_reach_ok [OF assms]]
  show "map_of (peers s) w = Some p \<Longrightarrow> length (rxAssembly p) \<le> 1600 \<and> length (txQueue p) \<le> 64 \<and>
      (w \<notin> d \<and> (txQueue p \<noteq> [] \<or> requested (closeRequest p)) \<longrightarrow> w \<in> armed s)"
    using ok(4) by (auto simp: peer_ok_def connection_ok_def served_def kMaxIngressBytes_def kMaxTxQueueFrames_def)
  show "f \<in> set (rxQueue (rx s)) \<Longrightarrow> length (frame_data f) \<le> 1600"
    using ok(9) by (simp add: rx_ok_def kMaxIngressBytes_def)
  show "map_of (connStringToWsi s) cs = Some w \<longleftrightarrow> (\<exists>p. map_of (peers s) w = Some p \<and> connectionString p = cs)"
    using ok(4,5) by (auto simp: peer_ok_def)
  show "totalConnects s = totalDisconnects s + currentPeerCount (GetMetrics s)"
    using ok(11) by (simp add: GetMetrics_def)
  show "\<not> listenerUp s \<Longrightarrow> peers s = []" using ok(6) .
  show "length (addressBuckets (rate s)) \<le> 1024" using ok(10) by (simp add: rate_ok_def kMaxTrackedAddresses_def)
qed


lemma transport_stays_in_its_buffers_parts:
  assumes "sc_reach s d"
  shows "lws_allows s d e \<Longrightarrow> HandleServerCallback e s \<noteq> None"
    "client_known s opaque \<Longrightarrow> HandleClientCallback opaque ce s \<noteq> None"
    "Send connStr data s \<noteq> None" "Connect cenv uri s \<noteq> None"
    "tears_down env (s\<lparr> wantedListenUri := uri \<rparr>) d \<Longrightarrow> StartListening env uri s \<noteq> None"
    "tears_down env s d \<Longrightarrow> ReloadCredentials env s \<noteq> None"
proof -
  note ok = sc_reach_ok [OF assms]
  show "lws_allows s d e \<Longrightarrow> HandleServerCallback e s \<noteq> None"
    using server_callback_ok [OF ok, of e] by (metis option.distinct(1))
  show "client_known s opaque \<Longrightarrow> HandleClientCallback opaque ce s \<noteq> None"
    using client_callback_ok [OF ok, of opaque ce] by (metis option.distinct(1))
  show "Send connStr data s \<noteq> None" using Send_ok [OF ok, of connStr data] by (metis option.distinct(1))
  show "Connect cenv uri s \<noteq> None" using Connect_ok [OF ok, of cenv uri] by (metis option.distinct(1))
  show "StartListening env uri s \<noteq> None" if "tears_down env (s\<lparr> wantedListenUri := uri \<rparr>) d"
    using StartListening_ok [OF ok that] by blast
  show "ReloadCredentials env s \<noteq> None" if "tears_down env s d"
    using ReloadCredentials_ok [OF ok] that by blast
qed


text \<open>C17: A connection string is never given out twice.  Whenever a live peer's string was minted
  before an earlier state, that peer was connected in the earlier state already, on the same socket
  and under the same string; so a late Disconnected event can never name a newer peer, not even after
  the listener was restarted.\<close>

theorem connection_strings_never_reused:
  assumes "sc_reach s d" "sc_steps (s, d) (t, d')" "map_of (peers t) w = Some p"
    "connectionString p = client_string u n" "n < nextClientId s"
  shows "\<exists>q. map_of (peers s) w = Some q \<and> connectionString q = connectionString p \<and> clientId q = n"
proof -
  have t: "step_ok s t d'" using sc_steps_ok [OF assms(2) sc_reach_ok [OF assms(1)]] .
  then have "peer_ok t d' w p" using sc_okD(4) assms(3) by (auto simp: step_ok_def)
  then have "clientId p = n" using client_string_inj assms(4) by (auto simp: peer_ok_def)
  moreover have "nextClientId s \<le> clientId p \<or>
      (\<exists>q. map_of (peers s) w = Some q \<and> clientId q = clientId p \<and> connectionString q = connectionString p)"
    using t assms(3) by (simp add: step_ok_def grows_def)
  ultimately show ?thesis using assms(5) by auto
qed

lemma Send_to_peer:
  assumes "sc_reach s d" "map_of (peers s) w = Some p"
  obtains ok s' p' where "Send (connectionString p) data s = Some (ok, s')"
    "map_of (peers s') = (map_of (peers s))(w \<mapsto> p')" "clients s' = clients s"
    "ok \<longleftrightarrow> \<not> requested (closeRequest p) \<and> length (txQueue p) < 64"
    "ok \<Longrightarrow> txQueue p' = txQueue p @ [data] \<and> w \<in> armed s'"
    "\<not> ok \<Longrightarrow> txQueue p' = (if requested (closeRequest p) then txQueue p else []) \<and> requested (closeRequest p')"
proof -
  note ok = sc_okD [OF sc_reach_ok [OF assms(1)]]
  have c: "map_of (connStringToWsi s) (connectionString p) = Some w"
    using ok(4) [OF assms(2)] by (simp add: peer_ok_def)
  obtain a refused where au: "AuditSentFrame data (p, connectRequestsRefused s) = Some (audit_of p a, refused)"
    using AuditSentFrame_total by metis
  obtain res q arms n where e: "EnqueueFrame w data (audit_of p a, armed s, txQueueOverflows s) = (res, q, arms, n)"
    by (metis prod.collapse)
  let ?t = "s\<lparr> peers := omap_put w q (peers s), armed := arms, txQueueOverflows := n, connectRequestsRefused := refused \<rparr>"
  have S: "Send (connectionString p) data s = Some (res, ?t)"
    using c assms(2) au e by (simp add: Send_def)
  have "res \<longleftrightarrow> \<not> requested (closeRequest p) \<and> length (txQueue p) < 64"
    "res \<Longrightarrow> txQueue q = txQueue p @ [data] \<and> w \<in> arms"
    "\<not> res \<Longrightarrow> txQueue q = (if requested (closeRequest p) then txQueue p else []) \<and> requested (closeRequest q)"
    using e by (auto simp: EnqueueFrame_def RequestClose_def kMaxTxQueueFrames_def split: if_splits)
  then show ?thesis using that [OF S] ok(1) by simp
qed

text \<open>A frame sent to an accepted peer's connection string goes to that peer and nobody else: it
  is queued last exactly when the peer is not being closed and has fewer than 64 frames waiting, a
  WRITEABLE callback is then asked for, and no other peer and no outbound connection changes.\<close>

theorem send_reaches_only_its_peer:
  assumes "sc_reach s d" "map_of (peers s) w = Some p"
  obtains ok s' p' where "Send (connectionString p) data s = Some (ok, s')"
    "map_of (peers s') = (map_of (peers s))(w \<mapsto> p')" "clients s' = clients s"
    "ok \<longleftrightarrow> \<not> requested (closeRequest p) \<and> length (txQueue p) < 64"
    "ok \<Longrightarrow> txQueue p' = txQueue p @ [data] \<and> w \<in> armed s'"
    "\<not> ok \<Longrightarrow> txQueue p' = (if requested (closeRequest p) then txQueue p else []) \<and> requested (closeRequest p')"
  by (rule Send_to_peer [OF assms]) (rule that)

section \<open>Starting to listen\<close>

definition config_of :: "sc_state \<Rightarrow> tls_files \<times> bool \<times> string \<times> nat" where
  "config_of s = (tls s, configured s, wantedListenUri s, lastListenCreateFailure s)"

lemma server_callback_config: "HandleServerCallback e s = Some (r, s') \<Longrightarrow> config_of s' = config_of s"
proof (cases e)
  case (Received wsi input binary final)
  assume "HandleServerCallback e s = Some (r, s')"
  then show ?thesis
    using Received by (auto simp: config_of_def ServerReceive_def Let_def split: option.splits prod.splits if_splits list.splits Option.bind_splits)
qed (auto simp: config_of_def ServerEstablished_def ServerWriteable_def ServerPeerInitiatedClose_def
    ServerClosed_def Let_def split: option.splits prod.splits if_splits)

lemma run_server_config: "run_server es s = Some s' \<Longrightarrow> config_of s' = config_of s"
  by (induction es arbitrary: s) (auto split: Option.bind_splits dest!: server_callback_config)

lemma FlushQueuedFrames_config: "FlushQueuedFrames ess s = Some s' \<Longrightarrow> config_of s' = config_of s"
proof (induction ess arbitrary: s)
  case Nil
  then show ?case by (auto simp: config_of_def)
next
  case (Cons es ess)
  have "config_of (s\<lparr> armed := armed s \<union> set (waiting_peers s) \<rparr>) = config_of s" by (simp add: config_of_def)
  then show ?case using Cons run_server_config by (fastforce split: if_splits Option.bind_splits)
qed

lemma DestroyListenerContext_config:
  "DestroyListenerContext env s = Some s' \<Longrightarrow> config_of s' = config_of s \<and> (listenerUp s \<longrightarrow> peers s' = [] \<and> \<not> listenerUp s')"
proof (cases "listenerUp s")
  case True
  assume "DestroyListenerContext env s = Some s'"
  then obtain s1 s2 where "FlushQueuedFrames (turns env) s = Some s1" "run_server (map Closed (closing env)) s1 = Some s2"
    "s' = s2\<lparr> listenerUp := False, listenUri := [], peers := [], connStringToWsi := [], armed := {} \<rparr>"
    using True by (auto simp: DestroyListenerContext_def split: Option.bind_splits)
  then show ?thesis using FlushQueuedFrames_config run_server_config by (fastforce simp: config_of_def)
qed (simp add: DestroyListenerContext_def)

definition can_listen :: "listen_env \<Rightarrow> string \<Rightarrow> sc_state \<Rightarrow> bool" where
  "can_listen env uri s \<longleftrightarrow>
    (\<exists>host port path. ParseWssUri uri = Some (host, port, path) \<and>
      FileReadable (opens env) (certPath (tls s)) \<and> FileReadable (opens env) (keyPath (tls s)) \<and>
      FileReadable (opens env) (caCertPath (tls s)) \<and> cert_ok env (tls s) \<and>
      (lastListenCreateFailure s = 0 \<or> int (clock env) - int (lastListenCreateFailure s) \<ge> 5000000000) \<and>
      creates env (if host = [] \<or> host = ''0.0.0.0'' then None else Some host) port)"

lemma open_listener_exact:
  assumes "open_listener env uri s = (ok, s')"
  shows "ok \<longleftrightarrow> can_listen env uri s" "ok \<Longrightarrow> listenerUp s' \<and> listenUri s' = uri"
    "peers s' = peers s" "wantedListenUri s' = wantedListenUri s" "\<not> ok \<Longrightarrow> listenerUp s' = listenerUp s"
proof -
  have "(ok \<longleftrightarrow> can_listen env uri s) \<and> (ok \<longrightarrow> listenerUp s' \<and> listenUri s' = uri) \<and>
    peers s' = peers s \<and> wantedListenUri s' = wantedListenUri s \<and> (\<not> ok \<longrightarrow> listenerUp s' = listenerUp s)"
  proof (cases "ParseWssUri uri")
    case None
    then show ?thesis using assms by (auto simp: open_listener_def can_listen_def LogListenFailureOnce_def split: if_splits)
  next
    case (Some hp)
    obtain host port path where hp: "hp = (host, port, path)" by (cases hp)
    show ?thesis
      using assms Some hp unfolding open_listener_def can_listen_def
      by (auto simp: no_missing_files LogListenFailureOnce_def kListenRetryInterval_def split: if_splits)
  qed
  then show "ok \<longleftrightarrow> can_listen env uri s" "ok \<Longrightarrow> listenerUp s' \<and> listenUri s' = uri"
    "peers s' = peers s" "wantedListenUri s' = wantedListenUri s" "\<not> ok \<Longrightarrow> listenerUp s' = listenerUp s" by blast+
qed

lemma can_listen_config: "config_of s = config_of t \<Longrightarrow> can_listen env uri s = can_listen env uri t"
  by (simp add: config_of_def can_listen_def)

text \<open>\<^verbatim>\<open>StartListening\<close> succeeds exactly when the transport is configured and either
  listens on that URI already or the URI is valid, the three files are readable, the certificate and
  key are not known to mismatch, no attempt failed in the last five seconds and lws can bind; it then
  listens on that URI, with no peer left of a listener on another one.  Failing or not, the URI is
  remembered, so that \<^verbatim>\<open>Service\<close> tries again.\<close>

theorem start_listening_exact:
  assumes "sc_reach s d" "tears_down env (s\<lparr> wantedListenUri := uri \<rparr>) d"
  obtains ok s' where "StartListening env uri s = Some (ok, s')" "wantedListenUri s' = uri"
    "ok \<longleftrightarrow> configured s \<and> (listenerUp s \<and> listenUri s = uri \<or> can_listen env uri s)"
    "ok \<Longrightarrow> listenerUp s' \<and> listenUri s' = uri"
    "configured s \<Longrightarrow> listenerUp s \<Longrightarrow> listenUri s \<noteq> uri \<Longrightarrow> peers s' = []"
proof -
  obtain t where t: "t = s\<lparr> wantedListenUri := uri \<rparr>" by simp
  have ct: "can_listen env uri t = can_listen env uri s" by (simp add: can_listen_def t)
  have st: "StartListening env uri s =
      (if \<not> configured t then Some (False, LogListenFailureOnce t)
       else if listenerUp t \<and> listenUri t = uri then Some (True, t)
       else do {
         u \<leftarrow> (if listenerUp t then StopListening env (listenUri t) t else Some t);
         Some (open_listener env uri u)
       })" by (simp add: StartListening_def t)
  consider "\<not> configured s" | "configured s" "listenerUp s" "listenUri s = uri"
    | "configured s" "\<not> listenerUp s" | "configured s" "listenerUp s" "listenUri s \<noteq> uri" by blast
  then show ?thesis
  proof cases
    case 1
    then show ?thesis using that [of False "LogListenFailureOnce t"] st t by (simp add: LogListenFailureOnce_def)
  next
    case 2
    then show ?thesis using that [of True t] st t by simp
  next
    case 3
    obtain ok s' where o: "open_listener env uri t = (ok, s')" by fastforce
    show ?thesis using that [of ok s'] st 3 o open_listener_exact [OF o] ct t by simp
  next
    case 4
    obtain v where v: "DestroyListenerContext env t = Some v"
      using DestroyListenerContext_ok [of t d env] assms sc_reach_ok [OF assms(1)] t by (metis sc_ok_other(8))
    then have vc: "config_of v = config_of t" "peers v = []"
      using DestroyListenerContext_config [OF v] 4 t by simp_all
    obtain ok s' where o: "open_listener env uri v = (ok, s')" by fastforce
    have "StopListening env (listenUri t) t = Some v" using v 4 t by (simp add: StopListening_def)
    then have "StartListening env uri s = Some (ok, s')" using st 4 o t by simp
    then show ?thesis
      using that [of ok s'] 4 open_listener_exact [OF o] can_listen_config [OF vc(1), of env uri] ct vc t
      by (simp add: config_of_def)
  qed
qed


definition listener_of :: "sc_state \<Rightarrow> bool \<times> string" where
  "listener_of s = (listenerUp s, listenUri s)"

lemma server_callback_listener: "HandleServerCallback e s = Some (r, s') \<Longrightarrow> listener_of s' = listener_of s"
proof (cases e)
  case (Received wsi input binary final)
  assume "HandleServerCallback e s = Some (r, s')"
  then show ?thesis
    using Received by (auto simp: listener_of_def ServerReceive_def Let_def split: option.splits prod.splits if_splits list.splits Option.bind_splits)
qed (auto simp: listener_of_def ServerEstablished_def ServerWriteable_def ServerPeerInitiatedClose_def
    ServerClosed_def Let_def split: option.splits prod.splits if_splits)

lemma run_server_listener: "run_server es s = Some s' \<Longrightarrow> listener_of s' = listener_of s"
  by (induction es arbitrary: s) (auto split: Option.bind_splits dest!: server_callback_listener)

lemma client_callback_listener: "HandleClientCallback k e s = Some (r, s') \<Longrightarrow> listener_of s' = listener_of s"
  unfolding HandleClientCallback_def
  by (cases e)
     (auto simp: listener_of_def ClientEstablished_body_def ClientReceived_body_def ClientWriteable_body_def
       put_client_def push_status_def Let_def split: option.splits prod.splits if_splits)

lemma run_client_listener: "run_client k es s = Some s' \<Longrightarrow> listener_of s' = listener_of s"
  by (induction es arbitrary: s) (auto split: Option.bind_splits dest!: client_callback_listener)

lemma fold_clients_listener:
  "fold (\<lambda>(uri, conn) st. do {
        s \<leftarrow> st;
        if has_context conn then run_client (Some uri) (cbs uri) s else Some s
      }) cs (Some s) = Some s' \<Longrightarrow> listener_of s' = listener_of s"
proof (induction cs arbitrary: s)
  case (Cons x cs)
  obtain uri c where x: "x = (uri, c)" by fastforce
  have none: "fold (\<lambda>(uri, conn) st. do {
        s \<leftarrow> st;
        if has_context conn then run_client (Some uri) (cbs uri) s else Some s
      }) cs None = None" by (induction cs) auto
  show ?case
  proof (cases "if has_context c then run_client (Some uri) (cbs uri) s else Some s")
    case None
    then show ?thesis using Cons.prems none x by (simp split: if_splits)
  next
    case (Some t)
    then have "listener_of t = listener_of s" using run_client_listener by (auto split: if_splits)
    moreover have "listener_of s' = listener_of t" using Cons x Some by simp
    ultimately show ?thesis by simp
  qed
qed simp

lemma service_restores_the_listener_parts:
  assumes "configured s" "\<not> listenerUp s" "wantedListenUri s \<noteq> []"
    "Service env listener_callbacks client_callbacks s = Some s'"
  shows "listenerUp s' \<longleftrightarrow> can_listen env (wantedListenUri s) s"
    "listenerUp s' \<Longrightarrow> listenUri s' = wantedListenUri s"
proof -
  let ?uri = "wantedListenUri s"
  obtain ok t where o: "open_listener env ?uri s = (ok, t)" by fastforce
  have "StartListening env ?uri s = Some (ok, t)" using assms(1,2) o by (simp add: StartListening_def)
  then obtain u where u: "(if listenerUp t then run_server listener_callbacks t else Some t) = Some u"
    "fold (\<lambda>(uri, conn) st. do {
        s \<leftarrow> st;
        if has_context conn then run_client (Some uri) (client_callbacks uri) s else Some s
      }) (clients u) (Some u) = Some s'"
    using assms(2-4) by (auto simp: Service_def split: Option.bind_splits)
  have "listener_of u = listener_of t" using u(1) run_server_listener by (auto split: if_splits)
  moreover have "listener_of s' = listener_of u" using fold_clients_listener [OF u(2)] .
  ultimately have "listenerUp s' = listenerUp t" "listenUri s' = listenUri t" by (simp_all add: listener_of_def)
  then show "listenerUp s' \<longleftrightarrow> can_listen env ?uri s" "listenerUp s' \<Longrightarrow> listenUri s' = ?uri"
    using open_listener_exact [OF o] assms(2) by auto
qed

text \<open>A listener the stack wants comes back by itself: when it is down (after a certificate reload
  that failed, say), the next \<^verbatim>\<open>Service\<close> in which the files are readable, the pair is not
  known to mismatch, the retry interval has passed and lws can bind leaves it listening on the wanted
  URI, whatever callbacks come in that call; while it cannot, it stays down and stays wanted.\<close>

theorem service_restores_the_listener:
  assumes "configured s" "\<not> listenerUp s" "wantedListenUri s \<noteq> []"
    "Service env listener_callbacks client_callbacks s = Some s'"
  shows "(listenerUp s' \<longleftrightarrow> can_listen env (wantedListenUri s) s) \<and>
    (listenerUp s' \<longrightarrow> listenUri s' = wantedListenUri s)"
  using service_restores_the_listener_parts [OF assms] by blast

section \<open>A run\<close>

definition example_files :: tls_files where
  "example_files = \<lparr> certPath = ''c'', keyPath = ''k'', caCertPath = ''a'', crlPath = [] \<rparr>"

definition example_listen :: listen_env where
  "example_listen = \<lparr> opens = (\<lambda>_. True), cert_ok = (\<lambda>_. True), clock = 1, creates = (\<lambda>_ _. True),
     turns = [], closing = [] \<rparr>"

definition configured_state :: sc_state where
  "configured_state = Configure example_files ''h'' initial_sc_state"

definition listening_state :: sc_state where
  "listening_state = configured_state\<lparr> listenerUp := True, listenUri := ''wss://:1'', wantedListenUri := ''wss://:1'' \<rparr>"

definition example_peer :: peer_connection where
  "example_peer = new_peer\<lparr> clientId := 1, connectionString := client_string ''wss://:1'' 1,
     peerAddress := ''x'', certificateSubject := ''y'' \<rparr>"

definition connected_state :: sc_state where
  "connected_state = listening_state\<lparr> nextClientId := 2, peers := [(7, example_peer)],
     connStringToWsi := [(client_string ''wss://:1'' 1, 7)], totalConnects := 1 \<rparr>"

lemma example_uri: "ParseWssUri ''wss://:1'' = Some ([], 1, ''/'')"
  by code_simp

lemma example_can_listen: "can_listen example_listen ''wss://:1'' (configured_state\<lparr> wantedListenUri := u \<rparr>)"
  by (simp add: can_listen_def example_uri example_listen_def configured_state_def Configure_def
      FileReadable_def example_files_def initial_sc_state_def)

lemma configured_reach: "sc_reach configured_state {}"
  unfolding sc_reach_def configured_state_def
  by (rule steps_step [OF steps_refl], rule configure)

lemma configured_facts [simp]:
  "configured configured_state" "\<not> listenerUp configured_state" "lastListenCreateFailure configured_state = 0"
  "loggedListenFailure configured_state = False" "acceptSubprotocol configured_state = ''h''"
  "nextClientId configured_state = 1" "peers configured_state = []" "connStringToWsi configured_state = []"
  "totalConnects configured_state = 0"
  by (simp_all add: configured_state_def Configure_def initial_sc_state_def)

lemma start_example: "StartListening example_listen ''wss://:1'' configured_state = Some (True, listening_state)"
proof -
  have "opens example_listen = (\<lambda>_. True)" "cert_ok example_listen = (\<lambda>_. True)" "creates example_listen = (\<lambda>_ _. True)"
    by (simp_all add: example_listen_def)
  moreover have "DescribeMissingTlsFiles (\<lambda>_. True) example_files = []"
    by (simp add: no_missing_files FileReadable_def example_files_def)
  moreover have "tls configured_state = example_files" by (simp add: configured_state_def Configure_def)
  ultimately show ?thesis
    by (simp add: StartListening_def open_listener_def example_uri listening_state_def)
qed

lemma listening_reach: "sc_reach listening_state {}"
proof -
  have td: "tears_down example_listen (configured_state\<lparr> wantedListenUri := ''wss://:1'' \<rparr>) {}"
    by (simp add: tears_down_def)
  from start [OF td start_example] show ?thesis
    using configured_reach steps_step unfolding sc_reach_def by (simp add: steps_step)
qed

lemma established_example: "ServerEstablished 7 ''h'' ''x'' ''y'' listening_state = (carry_on, connected_state)"
proof -
  have "SubprotocolListContains (Some ''h'') ''h''"
    by (simp add: SubprotocolListContains_def scan_tokens.simps [of "''h''" "''h''"] trim_def is_blank_def)
  moreover have "acceptSubprotocol listening_state = ''h''" "nextClientId listening_state = 1"
    "map_of (peers listening_state) 7 = None" "listenUri listening_state = ''wss://:1''"
    by (simp_all add: listening_state_def)
  ultimately have "ServerEstablished 7 ''h'' ''x'' ''y'' listening_state =
      (carry_on, listening_state\<lparr> nextClientId := 1 + 1, peers := omap_put 7 example_peer (peers listening_state),
        connStringToWsi := omap_put (client_string ''wss://:1'' 1) 7 (connStringToWsi listening_state),
        totalConnects := totalConnects listening_state + 1 \<rparr>)"
    unfolding ServerEstablished_def Let_def example_peer_def by (simp only: if_False not_True_eq_False option.case)
  then show ?thesis by (simp add: connected_state_def) (simp add: listening_state_def)
qed

lemma connected_reach: "sc_reach connected_state {}"
proof -
  have "lws_allows listening_state {} (Established 7 ''h'' ''x'' ''y'')" by (simp add: listening_state_def)
  from server [OF this] established_example have "sc_step (listening_state, {}) (connected_state, {})"
    by (fastforce simp: carry_on_def)
  then show ?thesis using listening_reach steps_step unfolding sc_reach_def by blast
qed

lemma connected_facts [simp]:
  "map_of (peers connected_state) 7 = Some example_peer" "connectionString example_peer = client_string ''wss://:1'' 1"
  "nextClientId connected_state = 2" "txQueue example_peer = []" "\<not> requested (closeRequest example_peer)"
  by (simp_all add: connected_state_def example_peer_def new_peer_def connection.defs peer_connection.defs
      new_connection_def no_close_def)



lemma connection_strings_never_reused_witness:
  "\<exists>q. map_of (peers connected_state) 7 = Some q \<and> clientId q = 1"
  using connection_strings_never_reused [OF connected_reach steps_refl, of 7 example_peer "''wss://:1''" 1] by auto

lemma send_reaches_only_its_peer_witness:
  "\<exists>s'. Send (client_string ''wss://:1'' 1) [1, 2] connected_state = Some (True, s')"
proof -
  have p: "map_of (peers connected_state) 7 = Some example_peer" by simp
  show ?thesis
    by (rule send_reaches_only_its_peer [OF connected_reach p, of "[1, 2]"]) auto
qed

lemma start_listening_exact_witness:
  "\<exists>ok s'. StartListening example_listen ''wss://:1'' configured_state = Some (ok, s') \<and> ok \<and> listenUri s' = ''wss://:1''"
proof -
  have td: "tears_down example_listen (configured_state\<lparr> wantedListenUri := ''wss://:1'' \<rparr>) {}"
    by (simp add: tears_down_def)
  have can: "can_listen example_listen ''wss://:1'' configured_state"
    using example_can_listen [of "wantedListenUri configured_state"] by simp
  obtain ok s' where "StartListening example_listen ''wss://:1'' configured_state = Some (ok, s')"
    "ok \<longleftrightarrow> configured configured_state \<and> (listenerUp configured_state \<and> listenUri configured_state = ''wss://:1'' \<or>
      can_listen example_listen ''wss://:1'' configured_state)"
    "ok \<Longrightarrow> listenerUp s' \<and> listenUri s' = ''wss://:1''"
    using start_listening_exact [OF configured_reach td] by metis
  then show ?thesis using can configured_facts(1) by blast
qed

lemma service_restores_the_listener_witness:
  "\<exists>s'. Service example_listen [] (\<lambda>_. []) (configured_state\<lparr> wantedListenUri := ''wss://:1'' \<rparr>) = Some s' \<and> listenerUp s'"
proof -
  let ?s = "configured_state\<lparr> wantedListenUri := ''wss://:1'' \<rparr>"
  have "clients ?s = []" by (simp add: configured_state_def Configure_def initial_sc_state_def)
  obtain ok t where o: "open_listener example_listen ''wss://:1'' ?s = (ok, t)" by fastforce
  have "clients t = []"
    using o \<open>clients ?s = []\<close> by (auto simp: open_listener_def LogListenFailureOnce_def split: option.splits if_splits)
  then have sv: "Service example_listen [] (\<lambda>_. []) ?s = Some t"
    using o by (simp add: Service_def StartListening_def)
  show ?thesis
    using service_restores_the_listener [of ?s example_listen "[]" "\<lambda>_. []" t] sv
      example_can_listen [of "''wss://:1''"] by simp
qed

end
