(* ===== verification/Udp_Links.thy ===== *)
theory Udp_Links
  imports Bacnet_Frame Text_Util
begin

text \<open>
  The BACnet/IP links of \<^verbatim>\<open>src/common/CASExampleHelper.cpp\<close>, on the UDP socket of
  \<^verbatim>\<open>src/common/SimpleUDP.cpp\<close>: the table of bound sockets, the round-robin receive, the
  send that tells a unicast from a subnet broadcast, the primary interface, and the restart that is
  promised for later.  The operating system is a parameter: the handles \<^verbatim>\<open>socket()\<close> gives, the
  datagrams waiting on each socket, what \<^verbatim>\<open>sendto\<close> returns, the list of interfaces.
\<close>

unbundle bit_operations_syntax

section \<open>The UDP socket\<close>

text \<open>\<^verbatim>\<open>uint8_t ip[4]\<close>.\<close>

type_synonym ipv4 = "u8 \<times> u8 \<times> u8 \<times> u8"

record datagram =
  from_ip :: ipv4
  from_port :: u16
  payload :: bytes

record simple_udp =
  m_socket :: "nat option"
  m_connected :: bool

definition SimpleUDP :: simple_udp where
  "SimpleUDP = \<lparr> m_socket = None, m_connected = False \<rparr>"

text \<open>What the system answers to \<^verbatim>\<open>socket()\<close> and \<^verbatim>\<open>bind()\<close>; the second component of
  the states below is the set of handles the process has open.\<close>

record socket_env =
  new_handle :: "nat option"
  binds :: "u16 \<Rightarrow> bool"

definition UdpDisconnect :: "simple_udp \<times> nat set \<Rightarrow> simple_udp \<times> nat set" where
  "UdpDisconnect st =
    (let (u, handles) = st in
     (\<lparr> m_socket = None, m_connected = False \<rparr>,
      (case m_socket u of None \<Rightarrow> handles | Some h \<Rightarrow> handles - {h})))"

definition UdpConnect ::
  "socket_env \<Rightarrow> u16 \<Rightarrow> simple_udp \<times> nat set \<Rightarrow> bool \<times> simple_udp \<times> nat set" where
  "UdpConnect env localPort st =
    (let (u, handles) = st; u = u\<lparr> m_socket := new_handle env \<rparr> in
     (case new_handle env of
        None \<Rightarrow> (False, u, handles)
      | Some h \<Rightarrow>
          let handles = insert h handles in
          if binds env localPort then (True, u\<lparr> m_connected := True \<rparr>, handles)
          else (False, UdpDisconnect (u, handles))))"

text \<open>\<^verbatim>\<open>select\<close> and \<^verbatim>\<open>recvfrom\<close> with the datagram that waits, if one does; the result is
  \<^verbatim>\<open>None\<close> for a return of 0.\<close>

definition UdpReceive :: "simple_udp \<Rightarrow> nat \<Rightarrow> datagram option \<Rightarrow> (bytes \<times> ipv4 \<times> u16) option" where
  "UdpReceive u maxLength waiting =
    (if \<not> m_connected u then None else
     (case waiting of
        None \<Rightarrow> None
      | Some d \<Rightarrow>
          let received = take maxLength (payload d) in
          if received = [] then None else Some (received, from_ip d, from_port d)))"

type_synonym sent = "ipv4 \<times> u16 \<times> bytes"

text \<open>The frames handed to \<^verbatim>\<open>sendto\<close>, and the count the function returns.\<close>

definition UdpSend :: "(sent \<Rightarrow> int) \<Rightarrow> simple_udp \<Rightarrow> ipv4 \<Rightarrow> u16 \<Rightarrow> bytes \<Rightarrow> sent list \<times> nat" where
  "UdpSend sendto u ip port data =
    (if \<not> m_connected u then ([], 0)
     else let sent = sendto (ip, port, data) in
       ([(ip, port, data)], if sent > 0 then wrap16 (nat sent) else 0))"

section \<open>The primary interface\<close>

text \<open>\<^verbatim>\<open>struct ifaddrs\<close>; the address is \<^verbatim>\<open>None\<close> when it is null or not \<^verbatim>\<open>AF_INET\<close>.\<close>

record ifaddr =
  ifa_name :: string
  ifa_addr :: "ipv4 option"
  ifa_netmask :: "ipv4 option"
  ifa_loopback :: bool
  ifa_up :: bool

fun primary_of :: "ifaddr list \<Rightarrow> (ipv4 \<times> ipv4) option" where
  "primary_of [] = None"
| "primary_of (i # later) =
    (case ifa_addr i of
       None \<Rightarrow> primary_of later
     | Some ip \<Rightarrow>
         if ifa_loopback i \<or> \<not> ifa_up i then primary_of later
         else Some (ip, case ifa_netmask i of Some m \<Rightarrow> m | None \<Rightarrow> (0, 0, 0, 0)))"

text \<open>The argument is \<^verbatim>\<open>None\<close> when \<^verbatim>\<open>getifaddrs\<close> fails.\<close>

definition GetPrimaryIPv4 :: "ifaddr list option \<Rightarrow> (ipv4 \<times> ipv4) option" where
  "GetPrimaryIPv4 ifap = (case ifap of None \<Rightarrow> None | Some interfaces \<Rightarrow> primary_of interfaces)"

fun subnet_broadcast :: "ipv4 \<Rightarrow> ipv4 \<Rightarrow> ipv4" where
  "subnet_broadcast (a, b, c, d) (ma, mb, mc, md) = (a OR NOT ma, b OR NOT mb, c OR NOT mc, d OR NOT md)"

definition GetLocalBroadcastIPv4 :: "ifaddr list option \<Rightarrow> ipv4" where
  "GetLocalBroadcastIPv4 ifap =
    (case GetPrimaryIPv4 ifap of
       Some (ip, m) \<Rightarrow> subnet_broadcast ip m
     | None \<Rightarrow> (255, 255, 255, 255))"

text \<open>\<^verbatim>\<open>speed\<close> is the number \<^verbatim>\<open>fscanf\<close> reads from a file, if it opens and has one; the
  speed is in bits per second.\<close>

fun link_speed_of :: "(string \<Rightarrow> int option) \<Rightarrow> ifaddr list \<Rightarrow> int option" where
  "link_speed_of speed [] = None"
| "link_speed_of speed (i # later) =
    (if ifa_addr i = None \<or> ifa_loopback i \<or> \<not> ifa_up i then link_speed_of speed later
     else case speed (append_bounded 64 [] (''/sys/class/net/'' @ ifa_name i @ ''/speed'')) of
       Some mbps \<Rightarrow> if mbps > 0 then Some (mbps * 1000000) else link_speed_of speed later
     | None \<Rightarrow> link_speed_of speed later)"

definition GetPrimaryLinkSpeedBitsPerSecond ::
  "(string \<Rightarrow> int option) \<Rightarrow> ifaddr list option \<Rightarrow> int option" where
  "GetPrimaryLinkSpeedBitsPerSecond speed ifap =
    (case ifap of None \<Rightarrow> None | Some interfaces \<Rightarrow> link_speed_of speed interfaces)"

section \<open>The table of links\<close>

text \<open>What a socket of the helper and the socket of the router both keep.\<close>

record udp_link =
  udp :: simple_udp
  link_port :: u16
  bound :: bool
  peer_ip :: ipv4
  peer_port :: u16
  has_peer :: bool

record udp_binding = udp_link +
  network_port :: u32

definition MAX_UDP_BINDINGS :: nat where
  "MAX_UDP_BINDINGS = 4"

text \<open>The first \<^verbatim>\<open>g_udpBindingCount\<close> entries of \<^verbatim>\<open>g_udpBindings\<close>, and the other
  variables of the file.\<close>

record links =
  bindings :: "udp_binding list"
  g_port :: u16
  g_networkPortInstance :: u32
  nextBindingToCheck :: nat
  handles :: "nat set"

definition initial_links :: links where
  "initial_links = \<lparr> bindings = [], g_port = 47808, g_networkPortInstance = 1, nextBindingToCheck = 0,
     handles = {} \<rparr>"

definition new_binding :: "u32 \<Rightarrow> udp_binding" where
  "new_binding npi = \<lparr> udp = SimpleUDP, link_port = 0, bound = False, peer_ip = (0, 0, 0, 0),
     peer_port = 0, has_peer = False, network_port = npi \<rparr>"

fun find_binding :: "u32 \<Rightarrow> nat \<Rightarrow> udp_binding list \<Rightarrow> nat option" where
  "find_binding npi i [] = None"
| "find_binding npi i (b # bs) = (if network_port b = npi then Some i else find_binding npi (i + 1) bs)"

definition FindUdpBindingByInstance :: "u32 \<Rightarrow> links \<Rightarrow> nat option" where
  "FindUdpBindingByInstance npi s = find_binding npi 0 (bindings s)"

definition SetupUDP :: "socket_env \<Rightarrow> u16 \<Rightarrow> u32 \<Rightarrow> links \<Rightarrow> bool \<times> links" where
  "SetupUDP env port npi s =
    (case (case FindUdpBindingByInstance npi s of
             Some i \<Rightarrow> Some (i, s)
           | None \<Rightarrow>
               if length (bindings s) \<ge> MAX_UDP_BINDINGS then None
               else Some (length (bindings s), s\<lparr> bindings := bindings s @ [new_binding npi] \<rparr>)) of
       None \<Rightarrow> (False, s)
     | Some (i, s) \<Rightarrow>
         let b = bindings s ! i;
             (connected, u, open_handles) = UdpConnect env port (udp b, handles s);
             s = s\<lparr> handles := open_handles \<rparr> in
         if \<not> connected then (False, s\<lparr> bindings := (bindings s)[i := b\<lparr> udp := u \<rparr>] \<rparr>)
         else
           let b = b\<lparr> udp := u, link_port := port, bound := True \<rparr> in
           (True, s\<lparr> bindings := (bindings s)[i := b],
                    g_port := (if npi = g_networkPortInstance s then port else g_port s) \<rparr>))"

definition SetupUDP_current :: "socket_env \<Rightarrow> u16 \<Rightarrow> links \<Rightarrow> bool \<times> links" where
  "SetupUDP_current env port s = SetupUDP env port (g_networkPortInstance s) s"

fun shut_down :: "udp_binding list \<Rightarrow> nat set \<Rightarrow> udp_binding list \<times> nat set" where
  "shut_down [] open_handles = ([], open_handles)"
| "shut_down (b # bs) open_handles =
    (let (b, open_handles) =
           (if bound b then
              let (u, open_handles) = UdpDisconnect (udp b, open_handles)
              in (b\<lparr> udp := u, bound := False \<rparr>, open_handles)
            else (b, open_handles));
         (bs, open_handles) = shut_down bs open_handles
     in (b # bs, open_handles))"

definition ShutdownUDP :: "links \<Rightarrow> links" where
  "ShutdownUDP s =
    (let (bs, open_handles) = shut_down (bindings s) (handles s)
     in s\<lparr> bindings := bs, handles := open_handles \<rparr>)"

definition SetNetworkPortInstance :: "u32 \<Rightarrow> links \<Rightarrow> links" where
  "SetNetworkPortInstance npi s = s\<lparr> g_networkPortInstance := npi \<rparr>"

section \<open>Receiving\<close>

text \<open>The buffers and out parameters the stack passes to a receive callback; the destination string
  may be a null pointer.\<close>

record stack_buffers =
  message_buf :: bytes
  source_buf :: bytes
  source_len :: nat
  dest_buf :: "bytes option"
  dest_len :: nat
  port_instance :: u32

text \<open>\<^verbatim>\<open>memcpy\<close> to the start of a buffer; \<^verbatim>\<open>None\<close> when the buffer is shorter.\<close>

definition store :: "bytes \<Rightarrow> bytes \<Rightarrow> bytes option" where
  "store data buf = (if length data \<le> length buf then Some (data @ drop (length data) buf) else None)"

fun ip_octets :: "ipv4 \<Rightarrow> bytes" where
  "ip_octets (a, b, c, d) = [a, b, c, d]"

definition ip_string :: "ipv4 \<Rightarrow> u16 \<Rightarrow> bytes" where
  "ip_string ip port = ip_octets ip @ [byte_of 1 port, byte_of 0 port]"

definition remember_peer :: "ipv4 \<Rightarrow> u16 \<Rightarrow> 'a udp_link_scheme \<Rightarrow> 'a udp_link_scheme" where
  "remember_peer fromIp fromPort b =
    (if fromPort \<noteq> link_port b then b\<lparr> peer_ip := fromIp, peer_port := fromPort, has_peer := True \<rparr> else b)"

text \<open>The loop over the sockets, in the order given: the first one with a datagram.\<close>

fun poll_bindings ::
  "(nat \<Rightarrow> datagram option) \<Rightarrow> nat \<Rightarrow> udp_binding list \<Rightarrow> nat list \<Rightarrow> (nat \<times> bytes \<times> ipv4 \<times> u16) option" where
  "poll_bindings waiting maxLength bs [] = None"
| "poll_bindings waiting maxLength bs (i # later) =
    (if \<not> bound (bs ! i) then poll_bindings waiting maxLength bs later
     else case UdpReceive (udp (bs ! i)) maxLength (waiting i) of
       None \<Rightarrow> poll_bindings waiting maxLength bs later
     | Some (data, fromIp, fromPort) \<Rightarrow> Some (i, data, fromIp, fromPort))"

definition poll_order :: "nat \<Rightarrow> nat \<Rightarrow> nat list" where
  "poll_order first n = map (\<lambda>k. (first + k) mod n) [0..<n]"

definition HelperReceiveMessage ::
  "nat \<Rightarrow> nat \<Rightarrow> (nat \<Rightarrow> datagram option) \<Rightarrow> stack_buffers \<Rightarrow> links \<Rightarrow> (nat \<times> stack_buffers \<times> links) option" where
  "HelperReceiveMessage maxMessageLength maxConnectionStringLength waiting out s =
    (if maxConnectionStringLength < 6 \<or> bindings s = [] then Some (0, out, s)
     else let n = length (bindings s) in
     (case poll_bindings waiting maxMessageLength (bindings s) (poll_order (nextBindingToCheck s) n) of
        None \<Rightarrow> Some (0, out, s\<lparr> nextBindingToCheck := (nextBindingToCheck s + 1) mod n \<rparr>)
      | Some (i, data, fromIp, fromPort) \<Rightarrow>
          let servicedInstance = network_port (bindings s ! i);
              s = s\<lparr> nextBindingToCheck := (i + 1) mod n,
                     bindings := map (\<lambda>b. if bound b \<and> network_port b = servicedInstance
                       then remember_peer fromIp fromPort b else b) (bindings s) \<rparr> in
          do {
            message \<leftarrow> store data (message_buf out);
            source \<leftarrow> store (ip_string fromIp fromPort) (source_buf out);
            Some (length data, out\<lparr> message_buf := message, source_buf := source, source_len := 6,
                    port_instance := servicedInstance \<rparr>, s)
          }))"

section \<open>Sending\<close>

text \<open>A null connection string is \<^verbatim>\<open>None\<close>; the length is the one the caller gives.\<close>

definition HelperSendMessage ::
  "ifaddr list option \<Rightarrow> (sent \<Rightarrow> int) \<Rightarrow> bytes \<Rightarrow> bytes option \<Rightarrow> nat \<Rightarrow> u32 \<Rightarrow> bool \<Rightarrow> links \<Rightarrow>
   (sent list \<times> nat) option" where
  "HelperSendMessage ifap sendto message connectionString connectionStringLength npi broadcast s =
    (case FindUdpBindingByInstance npi s of
       None \<Rightarrow> Some ([], 0)
     | Some i \<Rightarrow>
         let binding = bindings s ! i in
         if \<not> bound binding then Some ([], 0) else do {
           to \<leftarrow>
             (case connectionString of
                None \<Rightarrow> Some (Some (True, GetLocalBroadcastIPv4 ifap, link_port binding))
              | Some cs \<Rightarrow>
                  if connectionStringLength = 0 then
                    Some (Some (True, GetLocalBroadcastIPv4 ifap, link_port binding))
                  else if connectionStringLength < 6 then Some None
                  else do {
                    a \<leftarrow> rd cs 0; b \<leftarrow> rd cs 1; c \<leftarrow> rd cs 2; d \<leftarrow> rd cs 3;
                    hi \<leftarrow> rd cs 4; lo \<leftarrow> rd cs 5;
                    let ip = (a, b, c, d);
                    let port = be16 hi lo;
                    let own = (case GetPrimaryIPv4 ifap of Some (own_ip, _) \<Rightarrow> ip = own_ip | None \<Rightarrow> False);
                    Some (Some (False,
                      if broadcast \<and> port = link_port binding \<and> own then GetLocalBroadcastIPv4 ifap else ip,
                      port))
                  });
           (case to of
              None \<Rightarrow> Some ([], 0)
            | Some (stringless, ip, port) \<Rightarrow> do {
                let (out, sent) = UdpSend sendto (udp binding) ip port message;
                copied \<leftarrow> (if stringless \<and> has_peer binding
                  then IsStackChosenBroadcast message (length message) else Some False);
                let (more_out, _) = (if copied
                  then UdpSend sendto (udp binding) (peer_ip binding) (peer_port binding) message else ([], 0));
                Some (out @ more_out, sent)
              })
         })"

text \<open>The arguments of \<^verbatim>\<open>BACnetStack_SendIAm\<close>.\<close>

definition HelperSendIAm :: "ifaddr list option \<Rightarrow> u32 \<Rightarrow> links \<Rightarrow> bytes \<times> u32" where
  "HelperSendIAm ifap npi s =
    (let port = (case FindUdpBindingByInstance npi s of
                   Some i \<Rightarrow> if bound (bindings s ! i) then link_port (bindings s ! i) else g_port s
                 | None \<Rightarrow> g_port s)
     in (ip_string (GetLocalBroadcastIPv4 ifap) port, npi))"

section \<open>The restart that is promised\<close>

datatype restart_kind = Cold | Warm

record restart =
  g_restartPending :: bool
  g_restartDueAtMs :: nat
  g_restartKind :: restart_kind

definition no_restart :: restart where
  "no_restart = \<lparr> g_restartPending = False, g_restartDueAtMs = 0, g_restartKind = Warm \<rparr>"

definition RequestRestart :: "nat \<Rightarrow> restart_kind \<Rightarrow> nat \<Rightarrow> restart \<Rightarrow> restart" where
  "RequestRestart now kind delay r =
    (let dueAt = now + delay in
     if g_restartPending r then
       let r = (if dueAt < g_restartDueAtMs r then r\<lparr> g_restartDueAtMs := dueAt \<rparr> else r)
       in if kind = Cold then r\<lparr> g_restartKind := Cold \<rparr> else r
     else \<lparr> g_restartPending = True, g_restartDueAtMs = dueAt, g_restartKind = kind \<rparr>)"

definition RestartDue :: "nat \<Rightarrow> restart \<Rightarrow> restart_kind option \<times> restart" where
  "RestartDue now r =
    (if \<not> g_restartPending r \<or> now < g_restartDueAtMs r then (None, r)
     else (Some (g_restartKind r), r\<lparr> g_restartPending := False \<rparr>))"

section \<open>The table keeps one entry per Network Port\<close>

definition links_ok :: "links \<Rightarrow> bool" where
  "links_ok s \<longleftrightarrow> length (bindings s) \<le> MAX_UDP_BINDINGS \<and> distinct (map network_port (bindings s))"

lemma find_binding_Some:
  "find_binding npi i bs = Some k \<longleftrightarrow>
    i \<le> k \<and> k < i + length bs \<and> network_port (bs ! (k - i)) = npi \<and> (\<forall>j < k - i. network_port (bs ! j) \<noteq> npi)"
proof (induction bs arbitrary: i)
  case (Cons b bs)
  show ?case
  proof (cases "network_port b = npi")
    case True
    then show ?thesis by (auto simp: nth_Cons split: nat.splits)
  next
    case False
    then show ?thesis
      using Cons [of "i + 1"]
      by (auto simp: nth_Cons' Suc_diff_le less_Suc_eq_0_disj)
  qed
qed simp

lemma find_binding_None: "find_binding npi i bs = None \<longleftrightarrow> npi \<notin> network_port ` set bs"
  by (induction bs arbitrary: i) auto

lemma FindUdpBindingByInstance_bound:
  "FindUdpBindingByInstance npi s = Some i \<Longrightarrow> i < length (bindings s) \<and> network_port (bindings s ! i) = npi"
  by (simp add: FindUdpBindingByInstance_def find_binding_Some)

lemma SetupUDP_ok:
  assumes "links_ok s" "SetupUDP env port npi s = (ok, s')"
  shows "links_ok s'"
proof -
  have same: "links_ok (t\<lparr> bindings := (bindings t)[i := b] \<rparr>)"
    if "links_ok t" "i < length (bindings t)" "network_port b = network_port (bindings t ! i)" for t i b
  proof -
    have "map network_port ((bindings t)[i := b]) = map network_port (bindings t)"
      using that(2,3) by (metis list_update_id map_update)
    then show ?thesis using that(1) by (simp add: links_ok_def)
  qed
  have grown: "links_ok (s\<lparr> bindings := bindings s @ [new_binding npi] \<rparr>)"
    if "FindUdpBindingByInstance npi s = None" "length (bindings s) < 4"
    using that assms(1)
    by (auto simp: links_ok_def MAX_UDP_BINDINGS_def FindUdpBindingByInstance_def find_binding_None new_binding_def)
  show ?thesis
  proof (cases "FindUdpBindingByInstance npi s")
    case None
    then show ?thesis
      using assms grown same [OF grown, of "length (bindings s)"]
      by (auto simp: SetupUDP_def Let_def MAX_UDP_BINDINGS_def links_ok_def nth_append split: prod.splits if_splits)
  next
    case (Some i)
    then show ?thesis
      using assms same [OF assms(1), of i] FindUdpBindingByInstance_bound [OF Some]
      by (auto simp: SetupUDP_def Let_def links_ok_def split: prod.splits if_splits)
  qed
qed

section \<open>Receiving\<close>

text \<open>A socket has a datagram for the stack.\<close>

definition ready :: "'a udp_link_scheme \<Rightarrow> datagram option \<Rightarrow> bool" where
  "ready b waiting \<longleftrightarrow> bound b \<and> m_connected (udp b) \<and> (\<exists>d. waiting = Some d \<and> payload d \<noteq> [])"

text \<open>Calls one after another; \<^verbatim>\<open>waiting t\<close> is what waits on the sockets at call
  \<^verbatim>\<open>t\<close>.\<close>

fun receive_calls ::
  "nat \<Rightarrow> nat \<Rightarrow> nat \<Rightarrow> (nat \<Rightarrow> nat \<Rightarrow> datagram option) \<Rightarrow> stack_buffers \<Rightarrow> links \<Rightarrow>
   (nat \<times> stack_buffers) list option" where
  "receive_calls 0 maxM maxC waiting out s = Some []"
| "receive_calls (Suc n) maxM maxC waiting out s = do {
     (got, filled, s') \<leftarrow> HelperReceiveMessage maxM maxC (waiting 0) out s;
     later \<leftarrow> receive_calls n maxM maxC (\<lambda>t. waiting (t + 1)) out s';
     Some ((got, filled) # later) }"

definition buffers_fit :: "nat \<Rightarrow> nat \<Rightarrow> stack_buffers \<Rightarrow> bool" where
  "buffers_fit maxM maxC out \<longleftrightarrow> maxM \<le> length (message_buf out) \<and> maxC \<le> length (source_buf out) \<and>
    (case dest_buf out of None \<Rightarrow> True | Some buf \<Rightarrow> maxC \<le> length buf)"

lemma length_ip_string [simp]: "length (ip_string ip port) = 6"
  by (cases ip) (simp add: ip_string_def)

lemma UdpReceive_fits: "UdpReceive u maxM waiting = Some (data, ip, port) \<Longrightarrow> length data \<le> maxM \<and> data \<noteq> []"
  by (auto simp: UdpReceive_def Let_def split: if_splits option.splits)

lemma poll_bindings_fits:
  "poll_bindings waiting maxM bs order = Some (i, data, ip, port) \<Longrightarrow>
    length data \<le> maxM \<and> data \<noteq> [] \<and> i \<in> set order \<and> bound (bs ! i) \<and>
    UdpReceive (udp (bs ! i)) maxM (waiting i) = Some (data, ip, port)"
  by (induction order) (auto split: if_splits option.splits dest: UdpReceive_fits)

lemma HelperReceiveMessage_total:
  assumes "buffers_fit maxM maxC out"
  shows "\<exists>got filled s'. HelperReceiveMessage maxM maxC waiting out s = Some (got, filled, s') \<and> got \<le> maxM"
proof (cases "maxC < 6 \<or> bindings s = [] \<or>
    poll_bindings waiting maxM (bindings s) (poll_order (nextBindingToCheck s) (length (bindings s))) = None")
  case True
  then show ?thesis by (auto simp: HelperReceiveMessage_def Let_def)
next
  case False
  then obtain i data ip port where p:
    "poll_bindings waiting maxM (bindings s) (poll_order (nextBindingToCheck s) (length (bindings s))) =
      Some (i, data, ip, port)" by (metis option.exhaust prod_cases4)
  then have "length data \<le> maxM" using poll_bindings_fits by blast
  then show ?thesis using False p assms by (simp add: HelperReceiveMessage_def Let_def buffers_fit_def store_def)
qed

text \<open>What the links keep over a call: the sockets, their ports and their number.\<close>

definition same_sockets :: "links \<Rightarrow> links \<Rightarrow> bool" where
  "same_sockets s s' \<longleftrightarrow> length (bindings s') = length (bindings s) \<and>
    (\<forall>i < length (bindings s). udp (bindings s' ! i) = udp (bindings s ! i) \<and>
      bound (bindings s' ! i) = bound (bindings s ! i) \<and> link_port (bindings s' ! i) = link_port (bindings s ! i) \<and>
      network_port (bindings s' ! i) = network_port (bindings s ! i))"

lemma remember_peer_keeps [simp]:
  "udp (remember_peer ip port b) = udp b" "bound (remember_peer ip port b) = bound b"
  "link_port (remember_peer ip port b) = link_port b"
  by (simp_all add: remember_peer_def)

lemma remember_peer_port [simp]: "network_port (remember_peer ip port b) = network_port b"
  by (simp add: remember_peer_def)

lemma HelperReceiveMessage_keeps:
  "HelperReceiveMessage maxM maxC waiting out s = Some (got, filled, s') \<Longrightarrow> same_sockets s s'"
  by (auto simp: HelperReceiveMessage_def Let_def same_sockets_def
      split: if_splits option.splits Option.bind_splits prod.splits)

section \<open>Round robin\<close>

lemma poll_bindings_prefix:
  assumes "ready (bs ! j) (waiting j)" "waiting j = Some d" "0 < maxM"
  shows "\<exists>i data ip port. poll_bindings waiting maxM bs (before @ j # after) = Some (i, data, ip, port) \<and>
    (i \<in> set before \<or> i = j \<and> data = take maxM (payload d))"
proof (induction before)
  case Nil
  obtain a b c e where "from_ip d = (a, b, c, e)" by (metis surj_pair)
  then show ?case using assms by (auto simp: ready_def UdpReceive_def Let_def)
next
  case (Cons i before)
  then show ?case by (auto split: option.split)
qed

lemma poll_order_split:
  assumes "k < n"
  shows "poll_order first n = map (\<lambda>k. (first + k) mod n) [0..<k] @
    (first + k) mod n # map (\<lambda>k. (first + k) mod n) [Suc k..<n]"
proof -
  have "[0..<n] = [0..<k] @ k # [Suc k..<n]" using assms upt_add_eq_append [of 0 k "n - k"] by (simp add: upt_conv_Cons)
  then show ?thesis by (simp add: poll_order_def)
qed

lemma one_receive:
  assumes fit: "buffers_fit maxM maxC out" "6 \<le> maxC" "0 < maxM"
    and j: "j = (nextBindingToCheck s + k) mod length (bindings s)" "k < length (bindings s)"
    and d: "ready (bindings s ! j) (waiting j)" "waiting j = Some d"
    and call: "HelperReceiveMessage maxM maxC waiting out s = Some (got, filled, s')"
  shows "(got = length (take maxM (payload d)) \<and> take got (message_buf filled) = take maxM (payload d) \<and>
      port_instance filled = network_port (bindings s ! j)) \<or>
    (\<exists>k' < k. j = (nextBindingToCheck s' + k') mod length (bindings s))"
proof -
  let ?n = "length (bindings s)" and ?first = "nextBindingToCheck s"
  let ?before = "map (\<lambda>k. (?first + k) mod ?n) [0..<k]"
  obtain i data ip port where p: "poll_bindings waiting maxM (bindings s) (poll_order ?first ?n) =
      Some (i, data, ip, port)" "i \<in> set ?before \<or> i = j \<and> data = take maxM (payload d)"
    using poll_bindings_prefix [of "bindings s" j waiting d maxM ?before, OF d fit(3)] poll_order_split [OF j(2), of ?first] j(1) by metis
  have ne: "bindings s \<noteq> []" using j(2) by auto
  have fits: "length data \<le> maxM" using poll_bindings_fits [OF p(1)] by blast
  have r: "got = length data" "message_buf filled = data @ drop (length data) (message_buf out)"
    "port_instance filled = network_port (bindings s ! i)" "nextBindingToCheck s' = (i + 1) mod ?n"
    using call p(1) ne fit fits
    by (auto simp: HelperReceiveMessage_def Let_def buffers_fit_def store_def split: if_splits)
  show ?thesis
  proof (cases "i = j \<and> data = take maxM (payload d)")
    case True
    have "take got (message_buf filled) = data" using r(1,2) by simp
    then show ?thesis using r(1,3) True by (intro disjI1) auto
  next
    case False
    then obtain k0 where k0: "k0 < k" "i = (?first + k0) mod ?n" using p(2) by auto
    have "(nextBindingToCheck s' + (k - k0 - 1)) mod ?n = (?first + k0 + 1 + (k - k0 - 1)) mod ?n"
      unfolding r(4) k0(2) by (metis add.assoc mod_add_left_eq)
    also have "\<dots> = j" using k0(1) j(1) by simp
    finally show ?thesis using k0(1) by (intro disjI2 exI [of _ "k - k0 - 1"]) simp
  qed
qed

lemma served_in_turn:
  assumes "buffers_fit maxM maxC out" "6 \<le> maxC" "0 < maxM" "k < length (bindings s)"
    "j = (nextBindingToCheck s + k) mod length (bindings s)"
    "\<And>t. t \<le> k \<Longrightarrow> ready (bindings s ! j) (waiting t j)"
    "k < calls" "receive_calls calls maxM maxC waiting out s = Some results"
  shows "\<exists>t \<le> k. \<exists>d. waiting t j = Some d \<and> fst (results ! t) = length (take maxM (payload d)) \<and>
    take (fst (results ! t)) (message_buf (snd (results ! t))) = take maxM (payload d) \<and>
    port_instance (snd (results ! t)) = network_port (bindings s ! j)"
  using assms(4-)
proof (induction k arbitrary: s waiting calls results rule: less_induct)
  case (less k)
  let ?n = "length (bindings s)"
  obtain calls' where c: "calls = Suc calls'" using less.prems(4) by (cases calls) auto
  obtain got filled s' later where call: "HelperReceiveMessage maxM maxC (waiting 0) out s = Some (got, filled, s')"
    "receive_calls calls' maxM maxC (\<lambda>t. waiting (t + 1)) out s' = Some later" "results = (got, filled) # later"
    using less.prems(5) unfolding c by (auto split: Option.bind_splits)
  obtain d where d: "waiting 0 j = Some d" using less.prems(3) [of 0] by (auto simp: ready_def)
  have jn: "j < ?n" using less.prems(1,2) by (metis less_nat_zero_code mod_less_divisor neq0_conv)
  have keeps: "length (bindings s') = ?n" "ready (bindings s' ! j) x = ready (bindings s ! j) x"
    "network_port (bindings s' ! j) = network_port (bindings s ! j)" for x
    using HelperReceiveMessage_keeps [OF call(1)] jn by (auto simp: same_sockets_def ready_def)
  from one_receive [OF assms(1-3) less.prems(2,1) less.prems(3) [of 0] d call(1)]
  consider "got = length (take maxM (payload d)) \<and> take got (message_buf filled) = take maxM (payload d) \<and>
      port_instance filled = network_port (bindings s ! j)"
    | k' where "k' < k" "j = (nextBindingToCheck s' + k') mod ?n" by auto
  then show ?case
  proof cases
    case 1
    then show ?thesis using d call(3) by (intro exI [of _ 0]) auto
  next
    case (2 k')
    have "\<exists>t \<le> k'. \<exists>d. waiting (t + 1) j = Some d \<and> fst (later ! t) = length (take maxM (payload d)) \<and>
        take (fst (later ! t)) (message_buf (snd (later ! t))) = take maxM (payload d) \<and>
        port_instance (snd (later ! t)) = network_port (bindings s' ! j)"
      using less.IH [OF 2(1), of s' "\<lambda>t. waiting (t + 1)" calls' later] 2 less.prems keeps call(2) c by simp
    then obtain t where t: "t \<le> k'" "\<exists>d. waiting (t + 1) j = Some d \<and> fst (later ! t) = length (take maxM (payload d)) \<and>
        take (fst (later ! t)) (message_buf (snd (later ! t))) = take maxM (payload d) \<and>
        port_instance (snd (later ! t)) = network_port (bindings s' ! j)" by blast
    then show ?thesis using 2(1) keeps(3) call(3) by (intro exI [of _ "t + 1"]) auto
  qed
qed

lemma mod_reaches: "j < n \<Longrightarrow> \<exists>k < n. j = (i + k) mod (n :: nat)"
proof -
  assume j: "j < n"
  have "i mod n < n" using j by (intro mod_less_divisor) simp
  have "(i + (j + (n - i mod n)) mod n) mod n = (i mod n + (j + (n - i mod n))) mod n"
    by (metis mod_add_left_eq mod_add_right_eq)
  also have "\<dots> = (j + n) mod n" using \<open>i mod n < n\<close> by simp
  also have "\<dots> = j" using j by simp
  finally show ?thesis using j by (metis mod_less_divisor not_less0 neq0_conv)
qed

lemma receive_calls_total:
  "buffers_fit maxM maxC out \<Longrightarrow>
    \<exists>results. receive_calls n maxM maxC waiting out s = Some results \<and> length results = n"
proof (induction n arbitrary: waiting s)
  case (Suc n)
  obtain got filled s' where "HelperReceiveMessage maxM maxC (waiting 0) out s = Some (got, filled, s')"
    using HelperReceiveMessage_total [OF Suc.prems] by metis
  then show ?case using Suc.IH [OF Suc.prems, of "\<lambda>t. waiting (t + 1)" s'] by auto
qed simp

text \<open>A busy link cannot starve another: while a socket of the table has a datagram, at most as
  many receive calls as there are sockets pass before one of them hands that socket's datagram (cut to
  the stack's buffer) to the stack under that socket's Network Port.\<close>

theorem no_bound_link_starves:
  assumes "buffers_fit maxM maxC out" "6 \<le> maxC" "0 < maxM" "j < length (bindings s)"
    "\<forall>t < length (bindings s). ready (bindings s ! j) (waiting t j)"
  shows "\<exists>results t d. receive_calls (length (bindings s)) maxM maxC waiting out s = Some results \<and>
    t < length (bindings s) \<and> waiting t j = Some d \<and>
    take (fst (results ! t)) (message_buf (snd (results ! t))) = take maxM (payload d) \<and>
    fst (results ! t) = min maxM (length (payload d)) \<and>
    port_instance (snd (results ! t)) = network_port (bindings s ! j)"
proof -
  obtain k where k: "k < length (bindings s)" "j = (nextBindingToCheck s + k) mod length (bindings s)"
    using mod_reaches [OF assms(4)] by blast
  obtain results where r: "receive_calls (length (bindings s)) maxM maxC waiting out s = Some results"
    using receive_calls_total [OF assms(1)] by blast
  have "\<And>t. t \<le> k \<Longrightarrow> ready (bindings s ! j) (waiting t j)" using assms(5) k(1) by simp
  from served_in_turn [OF assms(1-3) k this k(1) r] obtain t d where "t \<le> k" "waiting t j = Some d"
    "fst (results ! t) = length (take maxM (payload d))"
    "take (fst (results ! t)) (message_buf (snd (results ! t))) = take maxM (payload d)"
    "port_instance (snd (results ! t)) = network_port (bindings s ! j)" by blast
  then show ?thesis using r k(1) by (intro exI [of _ results] exI [of _ t] exI [of _ d]) (simp add: min.commute)
qed

definition two_links :: links where
  "two_links = initial_links\<lparr> bindings :=
     [(new_binding 1)\<lparr> udp := \<lparr> m_socket = Some 3, m_connected = True \<rparr>, link_port := 47808, bound := True \<rparr>,
      (new_binding 2)\<lparr> udp := \<lparr> m_socket = Some 4, m_connected = True \<rparr>, link_port := 47809, bound := True \<rparr>] \<rparr>"

definition example_datagram :: datagram where
  "example_datagram = \<lparr> from_ip = (10, 0, 0, 7), from_port = 47808, payload = [0x81, 0x0B, 0, 4] \<rparr>"

definition example_buffers :: stack_buffers where
  "example_buffers = \<lparr> message_buf = replicate 8 0, source_buf = replicate 6 0, source_len = 0,
     dest_buf = None, dest_len = 0, port_instance = 0 \<rparr>"

lemma no_bound_link_starves_witness:
  "\<exists>results t. receive_calls 2 8 6 (\<lambda>_ _. Some example_datagram) example_buffers two_links = Some results \<and>
    t < 2 \<and> take (fst (results ! t)) (message_buf (snd (results ! t))) = [0x81, 0x0B, 0, 4] \<and>
    port_instance (snd (results ! t)) = 2"
proof -
  have "buffers_fit 8 6 example_buffers" by (simp add: buffers_fit_def example_buffers_def)
  moreover have "ready (bindings two_links ! 1) (Some example_datagram)" "length (bindings two_links) = 2"
    "network_port (bindings two_links ! 1) = 2"
    by (simp_all add: ready_def two_links_def new_binding_def initial_links_def example_datagram_def)
  moreover have "take 8 (payload example_datagram) = [0x81, 0x0B, 0, 4]" by (simp add: example_datagram_def)
  ultimately show ?thesis
    using no_bound_link_starves [of 8 6 example_buffers 1 two_links "\<lambda>_ _. Some example_datagram"]
    by fastforce
qed

section \<open>The restart fires once\<close>

definition ask_restart :: "nat \<times> restart_kind \<times> nat \<Rightarrow> restart \<Rightarrow> restart" where
  "ask_restart request = (let (now, kind, delay) = request in RequestRestart now kind delay)"

definition deadline :: "nat \<times> restart_kind \<times> nat \<Rightarrow> nat" where
  "deadline request = (let (now, kind, delay) = request in now + delay)"

lemma requests_merge:
  "fold ask_restart requests \<lparr> g_restartPending = True, g_restartDueAtMs = due, g_restartKind = kind \<rparr> =
    \<lparr> g_restartPending = True, g_restartDueAtMs = Min (insert due (deadline ` set requests)),
      g_restartKind = (if kind = Cold \<or> Cold \<in> (fst \<circ> snd) ` set requests then Cold else kind) \<rparr>"
proof (induction requests arbitrary: due kind)
  case (Cons r requests)
  obtain now k delay where r: "r = (now, k, delay)" by (metis prod_cases3)
  let ?due = "if now + delay < due then now + delay else due"
  have "Min (insert due (insert x S)) = Min (insert (min due x) S)" if "finite S" for x :: nat and S
    using that by (cases "S = {}") (simp_all add: min.assoc)
  moreover have "?due = min due (now + delay)" by (simp add: min_def)
  ultimately have m: "Min (insert due (deadline ` set (r # requests))) = Min (insert ?due (deadline ` set requests))"
    by (simp add: r deadline_def)
  have "ask_restart r \<lparr> g_restartPending = True, g_restartDueAtMs = due, g_restartKind = kind \<rparr> =
      \<lparr> g_restartPending = True, g_restartDueAtMs = ?due, g_restartKind = (if k = Cold then Cold else kind) \<rparr>"
    by (simp add: ask_restart_def RequestRestart_def r)
  then show ?case using Cons.IH [of ?due "if k = Cold then Cold else kind"] m r by auto
qed simp

lemma requests_from_none:
  assumes "requests \<noteq> []"
  shows "fold ask_restart requests no_restart =
    \<lparr> g_restartPending = True, g_restartDueAtMs = Min (deadline ` set requests),
      g_restartKind = (if Cold \<in> (fst \<circ> snd) ` set requests then Cold else Warm) \<rparr>"
proof -
  obtain r later where q: "requests = r # later" using assms by (cases requests) auto
  obtain now k delay where r: "r = (now, k, delay)" by (metis prod_cases3)
  have "ask_restart r no_restart = \<lparr> g_restartPending = True, g_restartDueAtMs = now + delay, g_restartKind = k \<rparr>"
    by (simp add: ask_restart_def RequestRestart_def r no_restart_def)
  then show ?thesis
    using requests_merge [of later "now + delay" k] q r by (cases k) (auto simp: deadline_def)
qed

text \<open>However many clients ask for a restart before it happens, and whenever they ask, it comes due
  at the earliest of the promised times, is Cold when any of them asked for a cold one, and is reported
  exactly once.\<close>

theorem restart_fires_once:
  assumes "requests \<noteq> []" "due = Min (deadline ` set requests)"
  shows "RestartDue t (fold ask_restart requests no_restart) =
      (if t < due then (None, fold ask_restart requests no_restart)
       else (Some (if Cold \<in> (fst \<circ> snd) ` set requests then Cold else Warm),
             (fold ask_restart requests no_restart)\<lparr> g_restartPending := False \<rparr>)) \<and>
    (\<forall>t'. due \<le> t \<longrightarrow> fst (RestartDue t' (snd (RestartDue t (fold ask_restart requests no_restart)))) = None)"
  unfolding requests_from_none [OF assms(1)] assms(2) by (simp add: RestartDue_def)

lemma restart_fires_once_witness:
  "fst (RestartDue 1500 (fold ask_restart [(500, Warm, 2000), (700, Cold, 800)] no_restart)) = Some Cold"
  using restart_fires_once [of "[(500, Warm, 2000), (700, Cold, 800)]" 1500 1500] by (simp add: deadline_def)

end
