(* ===== verification/Sc_Router.thy ===== *)
theory Sc_Router
  imports Sc_Machine Udp_Links
begin

text \<open>
  The router of \<^verbatim>\<open>src/sc_transport/ScTransportRouter.cpp\<close>: the two callbacks through
  which the BACnet stack receives and sends, over the BACnet/IP socket of one Network Port and the
  BACnet/SC transport of another, and the loop that reports the transport's status events to the
  stack.  A connection string on the SC side is the octets of a \<^verbatim>\<open>std::string\<close>.
\<close>

unbundle bit_operations_syntax

section \<open>State\<close>

record router =
  ip_link :: udp_link
  ip_instance :: u32
  sc_instance :: u32
  pollIpFirst :: bool
  transport :: sc_state
  router_handles :: "nat set"

definition new_router :: "u32 \<Rightarrow> u32 \<Rightarrow> sc_state \<Rightarrow> router" where
  "new_router ipInstance scInstance t =
    \<lparr> ip_link = \<lparr> udp = SimpleUDP, link_port = 0, bound = False, peer_ip = (0, 0, 0, 0), peer_port = 0,
        has_peer = False \<rparr>,
      ip_instance = ipInstance, sc_instance = scInstance, pollIpFirst = True, transport = t,
      router_handles = {} \<rparr>"

definition RouterStart :: "socket_env \<Rightarrow> u16 \<Rightarrow> router \<Rightarrow> bool \<times> router" where
  "RouterStart env udpPort r =
    (let (connected, u, open_handles) = UdpConnect env udpPort (udp (ip_link r), router_handles r);
         r = r\<lparr> ip_link := (ip_link r)\<lparr> udp := u \<rparr>, router_handles := open_handles \<rparr>
     in if connected then (True, r\<lparr> ip_link := (ip_link r)\<lparr> link_port := udpPort, bound := True \<rparr> \<rparr>)
        else (False, r))"

definition RouterShutdown :: "router \<Rightarrow> router" where
  "RouterShutdown r =
    (if bound (ip_link r) then
       let (u, open_handles) = UdpDisconnect (udp (ip_link r), router_handles r)
       in r\<lparr> ip_link := (ip_link r)\<lparr> udp := u, bound := False \<rparr>, router_handles := open_handles \<rparr>
     else r)"

section \<open>Status events\<close>

text \<open>The arguments of \<^verbatim>\<open>BACnetStack_SetBACnetSCWebSocketStatus\<close>.\<close>

definition status_call :: "status_event \<Rightarrow> string \<times> nat \<times> nat \<times> nat" where
  "status_call e = (event_uri e, wrap16 (length (event_uri e)), event_status e, event_code e)"

partial_function (option) drain_events ::
  "sc_state \<Rightarrow> ((string \<times> nat \<times> nat \<times> nat) list \<times> sc_state) option" where
  "drain_events s =
    (case PopStatusEvent s of
       None \<Rightarrow> Some ([], s)
     | Some (e, s) \<Rightarrow> Option.bind (drain_events s) (\<lambda>(calls, s). Some (status_call e # calls, s)))"

definition DrainStatusEvents :: "router \<Rightarrow> ((string \<times> nat \<times> nat \<times> nat) list \<times> router) option" where
  "DrainStatusEvents r = do {
     (calls, t) \<leftarrow> drain_events (transport r);
     Some (calls, r\<lparr> transport := t \<rparr>) }"

section \<open>Receiving\<close>

definition octets :: "string \<Rightarrow> bytes" where
  "octets s = map of_char s"

definition string_of :: "bytes \<Rightarrow> string" where
  "string_of bs = map (\<lambda>b. char_of (unat b)) bs"

definition ReceiveFromIp ::
  "nat \<Rightarrow> nat \<Rightarrow> datagram option \<Rightarrow> stack_buffers \<Rightarrow> router \<Rightarrow> (nat \<times> stack_buffers \<times> router) option" where
  "ReceiveFromIp maxMessageLength maxConnectionStringLength waiting out r =
    (if \<not> bound (ip_link r) \<or> maxConnectionStringLength < 6 then Some (0, out, r)
     else case UdpReceive (udp (ip_link r)) maxMessageLength waiting of
       None \<Rightarrow> Some (0, out, r)
     | Some (data, fromIp, fromPort) \<Rightarrow> do {
         message \<leftarrow> store data (message_buf out);
         source \<leftarrow> store (ip_string fromIp fromPort) (source_buf out);
         Some (length data, out\<lparr> message_buf := message, source_buf := source, source_len := 6,
                 port_instance := ip_instance r \<rparr>,
               r\<lparr> ip_link := remember_peer fromIp fromPort (ip_link r) \<rparr>) })"

definition ReceiveFromSc ::
  "nat \<Rightarrow> nat \<Rightarrow> stack_buffers \<Rightarrow> router \<Rightarrow> (nat \<times> stack_buffers \<times> router) option" where
  "ReceiveFromSc maxMessageLength maxConnectionStringLength out r =
    (case PopReceived (transport r) of
       None \<Rightarrow> Some (0, out, r)
     | Some (frame, t) \<Rightarrow>
         let r = r\<lparr> transport := t \<rparr> in
         if length (frame_data frame) > maxMessageLength then Some (0, out, r)
         else if length (sourceConnectionString frame) > maxConnectionStringLength \<or>
             length (destinationConnectionString frame) > maxConnectionStringLength then Some (0, out, r)
         else do {
           message \<leftarrow> store (frame_data frame) (message_buf out);
           source \<leftarrow> store (octets (sourceConnectionString frame)) (source_buf out);
           dest \<leftarrow> (case dest_buf out of
              None \<Rightarrow> Some (None, dest_len out)
            | Some buf \<Rightarrow> do {
                dest \<leftarrow> store (octets (destinationConnectionString frame)) buf;
                Some (Some dest, length (destinationConnectionString frame) mod 256) });
           Some (wrap16 (length (frame_data frame)),
             out\<lparr> message_buf := message, source_buf := source,
                  source_len := length (sourceConnectionString frame) mod 256,
                  dest_buf := fst dest, dest_len := snd dest, port_instance := sc_instance r \<rparr>, r) })"

definition HandleReceiveMessage ::
  "nat \<Rightarrow> nat \<Rightarrow> datagram option \<Rightarrow> stack_buffers \<Rightarrow> router \<Rightarrow> (nat \<times> stack_buffers \<times> router) option" where
  "HandleReceiveMessage maxMessageLength maxConnectionStringLength waiting out r =
    (let r = r\<lparr> pollIpFirst := \<not> pollIpFirst r \<rparr> in
     if pollIpFirst r then do {
       (fromIp, out, r) \<leftarrow> ReceiveFromIp maxMessageLength maxConnectionStringLength waiting out r;
       if fromIp > 0 then Some (fromIp, out, r)
       else ReceiveFromSc maxMessageLength maxConnectionStringLength out r }
     else do {
       (fromSc, out, r) \<leftarrow> ReceiveFromSc maxMessageLength maxConnectionStringLength out r;
       if fromSc > 0 then Some (fromSc, out, r)
       else ReceiveFromIp maxMessageLength maxConnectionStringLength waiting out r })"

section \<open>Sending\<close>

definition RouterSendIp ::
  "ifaddr list option \<Rightarrow> (sent \<Rightarrow> int) \<Rightarrow> bytes \<Rightarrow> bytes option \<Rightarrow> nat \<Rightarrow> bool \<Rightarrow> udp_link \<Rightarrow>
   (sent list \<times> nat) option" where
  "RouterSendIp ifap sendto message connStr connStrLength broadcast l =
    (if \<not> bound l then Some ([], 0) else do {
      to \<leftarrow>
        (if connStr = None \<or> connStrLength = 0 then
           Some (Some (True, GetLocalBroadcastIPv4 ifap, link_port l))
         else if connStrLength < 6 then Some None
         else do {
           let cs = the connStr;
           a \<leftarrow> rd cs 0; b \<leftarrow> rd cs 1; c \<leftarrow> rd cs 2; d \<leftarrow> rd cs 3;
           hi \<leftarrow> rd cs 4; lo \<leftarrow> rd cs 5;
           Some (Some (False, (a, b, c, d), be16 hi lo)) });
      (case to of
         None \<Rightarrow> Some ([], 0)
       | Some (stringless, ip, port) \<Rightarrow> do {
           let (out, sent) = UdpSend sendto (udp l) ip port message;
           copied \<leftarrow> (if stringless \<and> has_peer l
             then IsStackChosenBroadcast message (length message) else Some False);
           let (more_out, _) = (if copied
             then UdpSend sendto (udp l) (peer_ip l) (peer_port l) message else ([], 0));
           Some (out @ more_out, sent) }) })"

text \<open>A null connection string with a length of 0 is the empty \<^verbatim>\<open>std::string\<close>; with any
  other length it is undefined behaviour.\<close>

definition HandleSendMessage ::
  "ifaddr list option \<Rightarrow> (sent \<Rightarrow> int) \<Rightarrow> bytes \<Rightarrow> bytes option \<Rightarrow> nat \<Rightarrow> u32 \<Rightarrow> bool \<Rightarrow> router \<Rightarrow>
   (sent list \<times> nat \<times> router) option" where
  "HandleSendMessage ifap sendto message connStr connStrLength npi broadcast r =
    (if npi = ip_instance r then do {
       (out, sent) \<leftarrow> RouterSendIp ifap sendto message connStr connStrLength broadcast (ip_link r);
       Some (out, sent, r) }
     else if npi = sc_instance r then do {
       cs \<leftarrow> (case connStr of
          None \<Rightarrow> if connStrLength = 0 then Some [] else None
        | Some buf \<Rightarrow> if connStrLength \<le> length buf then Some (take connStrLength buf) else None);
       (ok, t) \<leftarrow> Send (string_of cs) message (transport r);
       Some ([], if ok then length message else 0, r\<lparr> transport := t \<rparr>) }
     else Some ([], 0, r))"

definition RouterSendIAm :: "ifaddr list option \<Rightarrow> router \<Rightarrow> bytes \<times> u32" where
  "RouterSendIAm ifap r = (ip_string (GetLocalBroadcastIPv4 ifap) (link_port (ip_link r)), ip_instance r)"

section \<open>The callbacks of the stack\<close>

text \<open>\<^verbatim>\<open>g_activeRouter\<close> is \<^verbatim>\<open>None\<close> until \<^verbatim>\<open>RegisterCallbacks\<close> and after the
  router is destroyed.\<close>

definition TrampolineReceiveMessage ::
  "nat \<Rightarrow> nat \<Rightarrow> datagram option \<Rightarrow> stack_buffers \<Rightarrow> router option \<Rightarrow>
   (nat \<times> stack_buffers \<times> router option) option" where
  "TrampolineReceiveMessage maxMessageLength maxConnectionStringLength waiting out active =
    (case active of None \<Rightarrow> Some (0, out, None)
     | Some r \<Rightarrow> do {
         (got, out, r) \<leftarrow> HandleReceiveMessage maxMessageLength maxConnectionStringLength waiting out r;
         Some (got, out, Some r) })"

definition TrampolineSendMessage ::
  "ifaddr list option \<Rightarrow> (sent \<Rightarrow> int) \<Rightarrow> bytes \<Rightarrow> bytes option \<Rightarrow> nat \<Rightarrow> u32 \<Rightarrow> bool \<Rightarrow> router option \<Rightarrow>
   (sent list \<times> nat \<times> router option) option" where
  "TrampolineSendMessage ifap sendto message connStr connStrLength npi broadcast active =
    (case active of None \<Rightarrow> Some ([], 0, None)
     | Some r \<Rightarrow> do {
         (out, sent, r) \<leftarrow> HandleSendMessage ifap sendto message connStr connStrLength
           npi broadcast r;
         Some (out, sent, Some r) })"

section \<open>The status loop ends\<close>

lemma drain_events_all: "drain_events s = Some (map status_call (statusQueue s), s\<lparr> statusQueue := [] \<rparr>)"
proof (induction "length (statusQueue s)" arbitrary: s)
  case 0
  then show ?case by (subst drain_events.simps) (simp add: PopStatusEvent_def)
next
  case (Suc n)
  then obtain e later where q: "statusQueue s = e # later" by (cases "statusQueue s") auto
  have "drain_events (s\<lparr> statusQueue := later \<rparr>) =
      Some (map status_call later, s\<lparr> statusQueue := [] \<rparr>)"
    using Suc.hyps(1) [of "s\<lparr> statusQueue := later \<rparr>"] Suc.hyps(2) q by simp
  then show ?case using q by (subst drain_events.simps) (simp add: PopStatusEvent_def)
qed


section \<open>One receive call\<close>

definition sc_queue :: "router \<Rightarrow> received_frame list" where
  "sc_queue r = rxQueue (rx (transport r))"

text \<open>A frame the stack's buffers can take.\<close>

definition deliverable :: "nat \<Rightarrow> nat \<Rightarrow> received_frame \<Rightarrow> bool" where
  "deliverable maxM maxC f \<longleftrightarrow> frame_data f \<noteq> [] \<and> length (frame_data f) \<le> maxM \<and>
    length (sourceConnectionString f) \<le> maxC \<and> length (destinationConnectionString f) \<le> maxC"

lemma length_octets [simp]: "length (octets s) = length s"
  by (simp add: octets_def)

lemma string_octets [simp]: "string_of (octets s) = s"
proof -
  have "char_of (unat (of_char c :: u8)) = c" for c
  proof -
    have "(of_char c :: u8) = word_of_nat (of_char c)" by (simp only: of_nat_of_char)
    moreover have "(of_char c :: nat) < 256" by (rule nat_of_char_less_256)
    ultimately have "unat (of_char c :: u8) = of_char c" by (simp add: unsigned_of_nat take_bit_nat_eq_self)
    then show ?thesis by simp
  qed
  then show ?thesis by (simp add: string_of_def octets_def o_def)
qed

lemma store_Some: "length data \<le> length buf \<Longrightarrow> store data buf = Some (data @ drop (length data) buf)"
  by (simp add: store_def)


definition ip_ready :: "router \<Rightarrow> datagram option \<Rightarrow> bool" where
  "ip_ready r waiting \<longleftrightarrow> ready (ip_link r) waiting"

definition same_router :: "router \<Rightarrow> router \<Rightarrow> bool" where
  "same_router r r' \<longleftrightarrow> ip_instance r' = ip_instance r \<and> sc_instance r' = sc_instance r \<and>
    udp (ip_link r') = udp (ip_link r) \<and> bound (ip_link r') = bound (ip_link r) \<and>
    link_port (ip_link r') = link_port (ip_link r)"

definition limits_ok :: "nat \<Rightarrow> nat \<Rightarrow> bool" where
  "limits_ok maxM maxC \<longleftrightarrow> 0 < maxM \<and> maxM < 65536 \<and> 6 \<le> maxC \<and> maxC < 256"

lemma ReceiveFromIp_result:
  assumes "buffers_fit maxM maxC out" "limits_ok maxM maxC"
  shows "ReceiveFromIp maxM maxC waiting out r =
    (if ip_ready r waiting then
       let d = the waiting; data = take maxM (payload d) in
       Some (length data, out\<lparr> message_buf := data @ drop (length data) (message_buf out),
             source_buf := ip_string (from_ip d) (from_port d) @ drop 6 (source_buf out), source_len := 6,
             port_instance := ip_instance r \<rparr>,
             r\<lparr> ip_link := remember_peer (from_ip d) (from_port d) (ip_link r) \<rparr>)
     else Some (0, out, r))"
  using assms
  by (auto simp: ReceiveFromIp_def ip_ready_def ready_def UdpReceive_def limits_ok_def buffers_fit_def Let_def
      store_Some split: option.splits)

lemma ReceiveFromSc_result:
  assumes "buffers_fit maxM maxC out" "limits_ok maxM maxC"
    "sc_queue r = f # later" "deliverable maxM maxC f"
  shows "ReceiveFromSc maxM maxC out r =
    Some (length (frame_data f),
      out\<lparr> message_buf := frame_data f @ drop (length (frame_data f)) (message_buf out),
           source_buf := octets (sourceConnectionString f) @
             drop (length (sourceConnectionString f)) (source_buf out),
           source_len := length (sourceConnectionString f),
           dest_buf := map_option (\<lambda>buf. octets (destinationConnectionString f) @
             drop (length (destinationConnectionString f)) buf) (dest_buf out),
           dest_len := (if dest_buf out = None then dest_len out else length (destinationConnectionString f)),
           port_instance := sc_instance r \<rparr>,
      r\<lparr> transport := (transport r)\<lparr> rx := (rx (transport r))\<lparr> rxQueue := later \<rparr> \<rparr> \<rparr>)"
proof -
  have pop: "PopReceived (transport r) = Some (f, (transport r)\<lparr> rx := (rx (transport r))\<lparr> rxQueue := later \<rparr> \<rparr>)"
    using assms(3) by (simp add: PopReceived_def sc_queue_def)
  show ?thesis
    using assms(1,2,4)
    by (auto simp: ReceiveFromSc_def pop deliverable_def limits_ok_def buffers_fit_def Let_def store_Some
        split: option.splits)
qed

lemma ReceiveFromSc_empty: "sc_queue r = [] \<Longrightarrow> ReceiveFromSc maxM maxC out r = Some (0, out, r)"
  by (simp add: ReceiveFromSc_def PopReceived_def sc_queue_def)

text \<open>What a call hands to the stack.\<close>

datatype served_from = From_IP | From_SC received_frame | Nothing

definition call_serves :: "served_from \<Rightarrow> nat \<Rightarrow> stack_buffers \<Rightarrow> router \<Rightarrow> router \<Rightarrow> bool" where
  "call_serves from got filled r r' \<longleftrightarrow>
    (case from of
       Nothing \<Rightarrow> got = 0 \<and> sc_queue r' = sc_queue r
     | From_IP \<Rightarrow> 0 < got \<and> port_instance filled = ip_instance r \<and> sc_queue r' = sc_queue r
     | From_SC f \<Rightarrow> 0 < got \<and> port_instance filled = sc_instance r \<and> sc_queue r = f # sc_queue r' \<and>
         take got (message_buf filled) = frame_data f)"

definition next_served :: "nat \<Rightarrow> nat \<Rightarrow> datagram option \<Rightarrow> router \<Rightarrow> served_from" where
  "next_served maxM maxC waiting r =
    (if pollIpFirst r then
       (case sc_queue r of f # _ \<Rightarrow> From_SC f | [] \<Rightarrow> if ip_ready r waiting then From_IP else Nothing)
     else if ip_ready r waiting then From_IP
     else (case sc_queue r of f # _ \<Rightarrow> From_SC f | [] \<Rightarrow> Nothing))"

lemma one_router_call:
  assumes fit: "buffers_fit maxM maxC out" "limits_ok maxM maxC"
    and good: "\<forall>f \<in> set (sc_queue r). deliverable maxM maxC f"
  obtains got filled r' where "HandleReceiveMessage maxM maxC waiting out r = Some (got, filled, r')"
    "call_serves (next_served maxM maxC waiting r) got filled r r'"
    "pollIpFirst r' = (\<not> pollIpFirst r)" "same_router r r'"
proof -
  let ?t = "r\<lparr> pollIpFirst := \<not> pollIpFirst r \<rparr>"
  have same: "sc_queue ?t = sc_queue r" "ip_ready ?t = ip_ready r"
    by (simp_all add: sc_queue_def ip_ready_def fun_eq_iff)
  have pos: "ip_ready r waiting \<Longrightarrow> 0 < maxM \<and> payload (the waiting) \<noteq> []"
    using fit(2) by (auto simp: ip_ready_def ready_def limits_ok_def)
  note ip = ReceiveFromIp_result [OF fit, of waiting ?t, unfolded same]
  show thesis
  proof (cases "sc_queue r")
    case Nil
    note sc = ReceiveFromSc_empty [of ?t maxM maxC out, unfolded same, OF Nil]
    show thesis
      using Nil pos ip sc
      by (cases "ip_ready r waiting"; cases "pollIpFirst r")
        (auto simp: HandleReceiveMessage_def call_serves_def next_served_def same_router_def sc_queue_def Let_def
          intro!: that)
  next
    case (Cons f later)
    have f: "deliverable maxM maxC f" "frame_data f \<noteq> []" using good Cons by (auto simp: deliverable_def)
    note sc = ReceiveFromSc_result [OF fit, of ?t, unfolded same, OF Cons f(1)]
    show thesis
      using Cons f(2) pos ip sc
      by (cases "ip_ready r waiting"; cases "pollIpFirst r")
        (auto simp: HandleReceiveMessage_def call_serves_def next_served_def same_router_def sc_queue_def Let_def
          intro!: that)
  qed
qed

section \<open>Both links are served\<close>

text \<open>Calls one after another, the way the stack makes them within one tick: nothing else runs in
  between.  \<^verbatim>\<open>waiting t\<close> is what waits on the UDP socket at call \<^verbatim>\<open>t\<close>.\<close>

fun router_calls ::
  "nat \<Rightarrow> nat \<Rightarrow> nat \<Rightarrow> (nat \<Rightarrow> datagram option) \<Rightarrow> stack_buffers \<Rightarrow> router \<Rightarrow>
   ((nat \<times> stack_buffers) list \<times> router) option" where
  "router_calls 0 maxM maxC waiting out r = Some ([], r)"
| "router_calls (Suc n) maxM maxC waiting out r = do {
     (got, filled, r') \<leftarrow> HandleReceiveMessage maxM maxC (waiting 0) out r;
     (later, r'') \<leftarrow> router_calls n maxM maxC (\<lambda>t. waiting (t + 1)) out r';
     Some ((got, filled) # later, r'') }"

text \<open>The messages the stack got under a Network Port.\<close>

definition taken_under :: "u32 \<Rightarrow> (nat \<times> stack_buffers) list \<Rightarrow> bytes list" where
  "taken_under npi results =
    map (\<lambda>(got, filled). take got (message_buf filled))
      (filter (\<lambda>(got, filled). 0 < got \<and> port_instance filled = npi) results)"

lemma router_calls_serve:
  assumes "buffers_fit maxM maxC out" "limits_ok maxM maxC" "ip_instance r \<noteq> sc_instance r"
    "\<forall>f \<in> set (sc_queue r). deliverable maxM maxC f"
  shows "\<exists>results r' m. router_calls n maxM maxC waiting out r = Some (results, r') \<and>
    taken_under (sc_instance r) results = take m (map frame_data (sc_queue r)) \<and>
    sc_queue r' = drop m (sc_queue r) \<and> m \<le> length (sc_queue r) \<and>
    min (length (sc_queue r)) ((n + of_bool (pollIpFirst r)) div 2) \<le> m \<and>
    ((\<forall>t < n. ip_ready r (waiting t)) \<longrightarrow>
      (n + of_bool (\<not> pollIpFirst r)) div 2 \<le> length (taken_under (ip_instance r) results))"
  using assms(3,4)
proof (induction n arbitrary: r waiting)
  case 0
  then show ?case by (auto simp: taken_under_def)
next
  case (Suc n)
  let ?q = "sc_queue r" and ?next = "next_served maxM maxC (waiting 0) r"
  obtain got filled r1 where call: "HandleReceiveMessage maxM maxC (waiting 0) out r = Some (got, filled, r1)"
    "call_serves ?next got filled r r1" "pollIpFirst r1 = (\<not> pollIpFirst r)" "same_router r r1"
    by (rule one_router_call [OF assms(1,2) Suc.prems(2), of "waiting 0"])
  have inst: "ip_instance r1 = ip_instance r" "sc_instance r1 = sc_instance r"
    using call(4) by (simp_all add: same_router_def)
  have ready1: "ip_ready r1 w = ip_ready r w" for w
    using call(4) by (simp add: same_router_def ip_ready_def ready_def)
  have good: "\<forall>f \<in> set (sc_queue r1). deliverable maxM maxC f"
    using call(2) Suc.prems(2) by (auto simp: call_serves_def split: served_from.splits)
  obtain results r' m where IH: "router_calls n maxM maxC (\<lambda>t. waiting (t + 1)) out r1 = Some (results, r')"
    "taken_under (sc_instance r) results = take m (map frame_data (sc_queue r1))"
    "sc_queue r' = drop m (sc_queue r1)" "m \<le> length (sc_queue r1)"
    "min (length (sc_queue r1)) ((n + of_bool (\<not> pollIpFirst r)) div 2) \<le> m"
    "(\<forall>t < n. ip_ready r (waiting (t + 1))) \<Longrightarrow>
      (n + of_bool (pollIpFirst r)) div 2 \<le> length (taken_under (ip_instance r) results)"
    using Suc.IH [of r1 "\<lambda>t. waiting (t + 1)"] Suc.prems(1) good inst ready1 call(3) by auto
  have calls: "router_calls (Suc n) maxM maxC waiting out r = Some ((got, filled) # results, r')"
    using call(1) IH(1) by simp
  have ip_later: "\<forall>t < Suc n. ip_ready r (waiting t) \<Longrightarrow> \<forall>t < n. ip_ready r (waiting (t + 1))" by simp
  show ?case
  proof (cases ?next)
    case (From_SC f)
    then have s: "0 < got" "port_instance filled = sc_instance r" "?q = f # sc_queue r1"
      "take got (message_buf filled) = frame_data f" using call(2) by (simp_all add: call_serves_def)
    have "pollIpFirst r \<or> \<not> ip_ready r (waiting 0)"
      using From_SC by (auto simp: next_served_def split: if_splits)
    then show ?thesis
      using calls s IH(2-6) ip_later Suc.prems(1)
      by (intro exI [of _ "(got, filled) # results"] exI [of _ r'] exI [of _ "Suc m"])
        (auto simp: taken_under_def split: if_splits)
  next
    case From_IP
    then have s: "0 < got" "port_instance filled = ip_instance r" "sc_queue r1 = ?q"
      using call(2) by (simp_all add: call_serves_def)
    have "\<not> pollIpFirst r \<or> ?q = []" using From_IP by (auto simp: next_served_def split: if_splits list.splits)
    then show ?thesis
      using calls s IH(2-6) ip_later Suc.prems(1)
      by (intro exI [of _ "(got, filled) # results"] exI [of _ r'] exI [of _ m])
        (auto simp: taken_under_def split: if_splits)
  next
    case Nothing
    then have s: "got = 0" "sc_queue r1 = ?q" "?q = []" "\<not> ip_ready r (waiting 0)"
      using call(2) by (auto simp: call_serves_def next_served_def split: if_splits list.splits)
    then show ?thesis
      using calls IH(2-6) by (intro exI [of _ "(got, filled) # results"] exI [of _ r'] exI [of _ m])
        (auto simp: taken_under_def)
  qed
qed


definition example_router :: router where
  "example_router = (new_router 1 2 (initial_sc_state\<lparr> rx := \<lparr> rxQueue = [frame_of ''a'' ''b'' [1, 0, 0, 7]],
     rxMessages = 1, rxBytes = 4 \<rparr> \<rparr>))\<lparr> ip_link := \<lparr> udp = \<lparr> m_socket = Some 3, m_connected = True \<rparr>,
       link_port = 47808, bound = True, peer_ip = (0, 0, 0, 0), peer_port = 0, has_peer = False \<rparr> \<rparr>"

lemma example_router_facts [simp]:
  "sc_instance example_router = 2" "ip_instance example_router = 1"
  "rxQueue (rx (transport example_router)) = [frame_of ''a'' ''b'' [1, 0, 0, 7]]"
  "ready (ip_link example_router) (Some example_datagram)"
  by (simp_all add: example_router_def new_router_def ready_def example_datagram_def)


section \<open>The stack's buffers\<close>

lemma store_length: "store data buf = Some buf' \<Longrightarrow> length buf' = length buf"
  by (auto simp: store_def split: if_splits)

definition filled_ok :: "nat \<Rightarrow> nat \<Rightarrow> stack_buffers \<Rightarrow> router \<Rightarrow> nat \<Rightarrow> stack_buffers \<Rightarrow> router \<Rightarrow> bool" where
  "filled_ok maxM maxC out r got filled r' \<longleftrightarrow>
    got \<le> maxM \<and> length (message_buf filled) = length (message_buf out) \<and>
    length (source_buf filled) = length (source_buf out) \<and>
    map_option length (dest_buf filled) = map_option length (dest_buf out) \<and>
    (got \<noteq> 0 \<longrightarrow> source_len filled \<le> maxC \<and> port_instance filled \<in> {ip_instance r, sc_instance r}) \<and>
    ip_instance r' = ip_instance r \<and> sc_instance r' = sc_instance r"

lemma ReceiveFromIp_fills:
  assumes "buffers_fit maxM maxC out"
  shows "\<exists>got filled r'. ReceiveFromIp maxM maxC waiting out r = Some (got, filled, r') \<and>
    filled_ok maxM maxC out r got filled r'"
proof (cases "\<not> bound (ip_link r) \<or> maxC < 6 \<or> UdpReceive (udp (ip_link r)) maxM waiting = None")
  case True
  then show ?thesis by (auto simp: ReceiveFromIp_def filled_ok_def)
next
  case False
  then obtain data ip port where u: "UdpReceive (udp (ip_link r)) maxM waiting = Some (data, ip, port)"
    by (metis option.exhaust prod_cases3)
  then have "length data \<le> maxM" using UdpReceive_fits by blast
  then show ?thesis
    using False u assms by (simp add: ReceiveFromIp_def filled_ok_def buffers_fit_def store_Some)
qed

lemma ReceiveFromSc_fills:
  assumes "buffers_fit maxM maxC out" "maxM < 65536"
  shows "\<exists>got filled r'. ReceiveFromSc maxM maxC out r = Some (got, filled, r') \<and>
    filled_ok maxM maxC out r got filled r'"
proof (cases "PopReceived (transport r)")
  case None
  then show ?thesis by (auto simp: ReceiveFromSc_def filled_ok_def)
next
  case (Some x)
  obtain f t where x: "PopReceived (transport r) = Some (f, t)" using Some by (cases x) auto
  show ?thesis
  proof (cases "length (frame_data f) > maxM \<or> length (sourceConnectionString f) > maxC \<or>
      length (destinationConnectionString f) > maxC")
    case True
    then show ?thesis using x by (auto simp: ReceiveFromSc_def filled_ok_def Let_def)
  next
    case False
    then have "length (sourceConnectionString f) mod 256 \<le> maxC" by (meson le_trans mod_less_eq_dividend not_less)
    then show ?thesis
      using x False assms
      by (auto simp: ReceiveFromSc_def filled_ok_def buffers_fit_def store_Some Let_def split: option.splits)
  qed
qed

text \<open>No datagram and no frame from a peer, of any size and with any connection strings, makes the
  receive callback write past the buffers the stack passed: the call always returns, with a length that
  the message buffer has, a source string the source buffer has, and one of the two Network Ports.\<close>

theorem router_stays_in_the_stack_buffers:
  assumes "buffers_fit maxM maxC out" "maxM < 65536"
  shows "\<exists>got filled r'. HandleReceiveMessage maxM maxC waiting out r = Some (got, filled, r') \<and>
    got \<le> maxM \<and> length (message_buf filled) = length (message_buf out) \<and>
    length (source_buf filled) = length (source_buf out) \<and>
    map_option length (dest_buf filled) = map_option length (dest_buf out) \<and>
    (got \<noteq> 0 \<longrightarrow> source_len filled \<le> maxC \<and> port_instance filled \<in> {ip_instance r, sc_instance r})"
proof -
  have two: "\<exists>got filled r'. A t = Some (got, filled, r') \<and> filled_ok maxM maxC out t got filled r'"
    if A: "A = (\<lambda>t. do { (got, out', u) \<leftarrow> first t; if got > 0 then Some (got, out', u) else second out' u })"
      and first: "\<And>t. \<exists>got filled r'. first t = Some (got, filled, r') \<and> filled_ok maxM maxC out t got filled r'"
      and second: "\<And>out t. buffers_fit maxM maxC out \<Longrightarrow>
        \<exists>got filled r'. second out t = Some (got, filled, r') \<and> filled_ok maxM maxC out t got filled r'"
    for A first :: "router \<Rightarrow> (nat \<times> stack_buffers \<times> router) option" and second t
  proof -
    obtain got out' u where f: "first t = Some (got, out', u)" "filled_ok maxM maxC out t got out' u"
      using first by blast
    then have "buffers_fit maxM maxC out'"
      using assms(1) by (auto simp: filled_ok_def buffers_fit_def split: option.splits)
    then obtain got' out'' v where g: "second out' u = Some (got', out'', v)"
      "filled_ok maxM maxC out' u got' out'' v" using second by blast
    show ?thesis using f g by (auto simp: A filled_ok_def)
  qed
  let ?t = "r\<lparr> pollIpFirst := \<not> pollIpFirst r \<rparr>"
  have "\<exists>got filled r'. HandleReceiveMessage maxM maxC waiting out r = Some (got, filled, r') \<and>
      filled_ok maxM maxC out ?t got filled r'"
    using two [OF refl, where ?t = ?t and ?first = "ReceiveFromIp maxM maxC waiting out" and
        ?second = "ReceiveFromSc maxM maxC"] two [OF refl, where ?t = ?t and
        ?first = "ReceiveFromSc maxM maxC out" and ?second = "ReceiveFromIp maxM maxC waiting"]
      ReceiveFromIp_fills [of maxM maxC _ waiting] ReceiveFromSc_fills [of maxM maxC] assms
    by (auto simp: HandleReceiveMessage_def Let_def)
  then show ?thesis by (auto simp: filled_ok_def)
qed

lemma router_stays_in_the_stack_buffers_witness:
  "\<exists>got filled r'. HandleReceiveMessage 3 1 None (example_buffers\<lparr> dest_buf := Some [0] \<rparr>) example_router =
      Some (got, filled, r') \<and> got \<le> 3"
  using router_stays_in_the_stack_buffers [of 3 1 "example_buffers\<lparr> dest_buf := Some [0] \<rparr>" None example_router]
  by (auto simp: buffers_fit_def example_buffers_def)

section \<open>The two senders agree\<close>

text \<open>The address of the socket itself.\<close>

definition own_address :: "ifaddr list option \<Rightarrow> bytes option \<Rightarrow> nat \<Rightarrow> 'a udp_link_scheme \<Rightarrow> bool" where
  "own_address ifap cs len l \<longleftrightarrow>
    (case (cs, GetPrimaryIPv4 ifap) of
       (Some (a # b # c # d # hi # lo # _), Some (own, _)) \<Rightarrow>
         6 \<le> len \<and> own = (a, b, c, d) \<and> be16 hi lo = link_port l
     | _ \<Rightarrow> False)"

lemma six_octets:
  assumes "6 \<le> length (cs :: bytes)" obtains a b c d hi lo later where "cs = a # b # c # d # hi # lo # later"
  using assms by (auto simp: numeral_eq_Suc Suc_le_length_iff)

lemma truncate_fields [simp]:
  "udp (udp_link.truncate b) = udp b" "bound (udp_link.truncate b) = bound b"
  "link_port (udp_link.truncate b) = link_port b" "has_peer (udp_link.truncate b) = has_peer b"
  "peer_ip (udp_link.truncate b) = peer_ip b" "peer_port (udp_link.truncate b) = peer_port b"
  by (simp_all add: udp_link.truncate_def)

lemma HelperSendMessage_bound:
  assumes "FindUdpBindingByInstance npi s = Some i" "bindings s ! i = b"
    "connStr = None \<or> connStrLength = 0 \<or> connStrLength < 6 \<or> (\<exists>cs. connStr = Some cs \<and> 6 \<le> length cs)"
  shows "HelperSendMessage ifap sendto message connStr connStrLength npi broadcast s =
    (if \<not> bound b then Some ([], 0)
     else if connStr \<noteq> None \<and> connStrLength \<noteq> 0 \<and> broadcast \<and> own_address ifap connStr connStrLength b then
       Some (UdpSend sendto (udp b) (GetLocalBroadcastIPv4 ifap) (link_port b) message)
     else RouterSendIp ifap sendto message connStr connStrLength broadcast (udp_link.truncate b))"
proof -
  consider "\<not> bound b" | "bound b" "connStr = None \<or> connStrLength = 0"
    | "bound b" "connStr \<noteq> None" "connStrLength \<noteq> 0" "connStrLength < 6"
    | cs where "bound b" "connStr = Some cs" "6 \<le> connStrLength" "6 \<le> length cs"
    using assms(3) by fastforce
  then show ?thesis
  proof cases
    case 1
    then show ?thesis using assms(1,2) by (simp add: HelperSendMessage_def Let_def)
  next
    case 2
    then show ?thesis
      using assms(1,2)
      by (auto simp: HelperSendMessage_def RouterSendIp_def Let_def prod.case_eq_if split: option.splits cong del: if_weak_cong)
  next
    case 3
    then show ?thesis
      using assms(1,2)
      by (auto simp: HelperSendMessage_def RouterSendIp_def own_address_def Let_def
          split: option.splits list.splits cong del: if_weak_cong)
  next
    case 4
    obtain x0 x1 x2 x3 hi lo later where cs: "cs = x0 # x1 # x2 # x3 # hi # lo # later"
      by (rule six_octets [OF 4(4)])
    have n: "connStrLength \<noteq> 0" "\<not> connStrLength < 6" using 4(3) by simp_all
    show ?thesis
    proof (cases "broadcast \<and> own_address ifap connStr connStrLength b")
      case True
      then have own: "broadcast" "be16 hi lo = link_port b"
        "\<exists>m. GetPrimaryIPv4 ifap = Some ((x0, x1, x2, x3), m)"
        using 4(2) cs by (auto simp: own_address_def split: option.splits)
      then show ?thesis
        using assms(1,2) 4 n True by (auto simp: HelperSendMessage_def cs Let_def prod.case_eq_if)
    next
      case False
      then have own: "\<not> (broadcast \<and> be16 hi lo = link_port b \<and>
          (case GetPrimaryIPv4 ifap of Some (own_ip, _) \<Rightarrow> (x0, x1, x2, x3) = own_ip | None \<Rightarrow> False))"
        using 4(2,3) cs by (auto simp: own_address_def split: option.splits)
      show ?thesis
        using assms(1,2) 4 n False own
        by (simp add: HelperSendMessage_def RouterSendIp_def cs Let_def prod.case_eq_if
            del: de_Morgan_conj)
    qed
  qed
qed

text \<open>C26: On its BACnet/IP link the router sends exactly what the helper of the series sends with the same
  socket, to the same addresses and with the same return value, for every message and every connection
  string; except a broadcast addressed to the socket itself, which the helper sends to the subnet and the
  router sends to itself, where no other device hears it.\<close>

theorem router_sends_as_the_helper:
  assumes "FindUdpBindingByInstance npi s = Some i" "udp_link.truncate (bindings s ! i) = ip_link r"
    "npi = ip_instance r" "6 \<le> connStrLength \<Longrightarrow> \<exists>cs. connStr = Some cs \<and> connStrLength \<le> length cs"
  shows "(\<not> (broadcast \<and> own_address ifap connStr connStrLength (ip_link r)) \<longrightarrow>
      HandleSendMessage ifap sendto message connStr connStrLength npi broadcast r =
        map_option (\<lambda>(out, sent). (out, sent, r))
          (HelperSendMessage ifap sendto message connStr connStrLength npi broadcast s)) \<and>
    (broadcast \<and> own_address ifap connStr connStrLength (ip_link r) \<and> bound (ip_link r) \<longrightarrow>
      HelperSendMessage ifap sendto message connStr connStrLength npi broadcast s =
        Some (UdpSend sendto (udp (ip_link r)) (GetLocalBroadcastIPv4 ifap) (link_port (ip_link r)) message) \<and>
      HandleSendMessage ifap sendto message connStr connStrLength npi broadcast r =
        (let (out, sent) = UdpSend sendto (udp (ip_link r)) (fst (the (GetPrimaryIPv4 ifap))) (link_port (ip_link r)) message
         in Some (out, sent, r)))"
proof -
  let ?b = "bindings s ! i"
  have l: "udp (ip_link r) = udp ?b" "bound (ip_link r) = bound ?b" "link_port (ip_link r) = link_port ?b"
    unfolding assms(2) [symmetric] by simp_all
  have own: "own_address ifap connStr connStrLength (ip_link r) = own_address ifap connStr connStrLength ?b"
    unfolding own_address_def l ..
  have cs: "connStr = None \<or> connStrLength = 0 \<or> connStrLength < 6 \<or> (\<exists>cs. connStr = Some cs \<and> 6 \<le> length cs)"
    using assms(4) by fastforce
  note helper = HelperSendMessage_bound [OF assms(1) refl cs, of ifap sendto message broadcast, unfolded assms(2)]
  have router: "HandleSendMessage ifap sendto message connStr connStrLength npi broadcast r =
      map_option (\<lambda>(out, sent). (out, sent, r))
        (RouterSendIp ifap sendto message connStr connStrLength broadcast (ip_link r))"
    using assms(3) by (cases "RouterSendIp ifap sendto message connStr connStrLength broadcast (ip_link r)")
      (auto simp: HandleSendMessage_def)
  have alike: "\<not> (broadcast \<and> own_address ifap connStr connStrLength ?b) \<Longrightarrow>
      HelperSendMessage ifap sendto message connStr connStrLength npi broadcast s =
        RouterSendIp ifap sendto message connStr connStrLength broadcast (ip_link r)"
    using helper by (auto simp: RouterSendIp_def l)
  have differ: "HelperSendMessage ifap sendto message connStr connStrLength npi broadcast s =
        Some (UdpSend sendto (udp ?b) (GetLocalBroadcastIPv4 ifap) (link_port ?b) message) \<and>
      RouterSendIp ifap sendto message connStr connStrLength broadcast (ip_link r) =
        Some (UdpSend sendto (udp ?b) (fst (the (GetPrimaryIPv4 ifap))) (link_port ?b) message)"
    if cast: "broadcast" and self: "own_address ifap connStr connStrLength ?b" and up: "bound ?b"
  proof -
    have n: "6 \<le> connStrLength" using self by (auto simp: own_address_def split: option.splits list.splits prod.splits)
    then obtain c where c: "connStr = Some c" "6 \<le> length c" using assms(4) by fastforce
    obtain x0 x1 x2 x3 hi lo later where q: "c = x0 # x1 # x2 # x3 # hi # lo # later" by (rule six_octets [OF c(2)])
    obtain m where p: "be16 hi lo = link_port ?b" "GetPrimaryIPv4 ifap = Some ((x0, x1, x2, x3), m)"
      using self c(1) q by (auto simp: own_address_def split: option.splits)
    have "HelperSendMessage ifap sendto message connStr connStrLength npi broadcast s =
        Some (UdpSend sendto (udp ?b) (GetLocalBroadcastIPv4 ifap) (link_port ?b) message)"
      using helper cast self up n c(1) by simp
    then show ?thesis using n c(1) q p up by (simp add: RouterSendIp_def l prod.case_eq_if)
  qed
  show ?thesis
    unfolding own l router using alike differ by (auto simp: prod.case_eq_if)
qed

definition example_interfaces :: "ifaddr list option" where
  "example_interfaces = Some [\<lparr> ifa_name = ''eth0'', ifa_addr = Some (10, 0, 0, 2),
     ifa_netmask = Some (255, 255, 255, 0), ifa_loopback = False, ifa_up = True \<rparr>]"

lemma router_sends_as_the_helper_witness:
  "HelperSendMessage example_interfaces (\<lambda>_. 2) [1, 2] (Some [10, 0, 0, 2, 0xBA, 0xC0]) 6 1 True two_links =
      Some ([((10, 0, 0, 255), 47808, [1, 2])], 2) \<and>
   HandleSendMessage example_interfaces (\<lambda>_. 2) [1, 2] (Some [10, 0, 0, 2, 0xBA, 0xC0]) 6 1 True example_router =
      Some ([((10, 0, 0, 2), 47808, [1, 2])], 2, example_router)"
proof -
  let ?cs = "Some [10, 0, 0, 2, 0xBA, 0xC0]"
  have f: "FindUdpBindingByInstance 1 two_links = Some 0"
    by (simp add: FindUdpBindingByInstance_def two_links_def initial_links_def new_binding_def)
  have l: "udp_link.truncate (bindings two_links ! 0) = ip_link example_router"
    by (simp add: two_links_def initial_links_def new_binding_def example_router_def udp_link.truncate_def)
  have p: "GetPrimaryIPv4 example_interfaces = Some ((10, 0, 0, 2), 255, 255, 255, 0)"
    by (simp add: example_interfaces_def GetPrimaryIPv4_def)
  have b: "GetLocalBroadcastIPv4 example_interfaces = (10, 0, 0, 255)" by (simp add: GetLocalBroadcastIPv4_def p)
  have port: "be16 0xBA 0xC0 = link_port (ip_link example_router)" by (simp add: example_router_def be16_def)
  have own: "own_address example_interfaces ?cs 6 (ip_link example_router)" by (simp add: own_address_def p port)
  have up: "bound (ip_link example_router)" "link_port (ip_link example_router) = 47808"
    "udp (ip_link example_router) = \<lparr> m_socket = Some 3, m_connected = True \<rparr>"
    by (simp_all add: example_router_def)
  show ?thesis
    using router_sends_as_the_helper [OF f l _ _, of 6 ?cs True example_interfaces "\<lambda>_. 2" "[1, 2]"] own up b p
    by (simp add: UdpSend_def)
qed

section \<open>A reply reaches the peer that asked\<close>

text \<open>C24: From a peer to the stack and back: when the stack answers a frame, with the source string the
  receive callback wrote and its length, the answer is queued for the peer whose frame it was and for no
  other connection; the send callback returns the full length exactly when the answer was queued, which
  is when the peer is not being closed and has fewer than 64 frames waiting, and 0 otherwise.\<close>

theorem reply_reaches_its_sender:
  assumes "sc_reach (transport r) d" "map_of (peers (transport r)) w = Some p"
    "rxQueue (rx (transport r)) = frame_of (connectionString p) dest data # later"
    "deliverable maxM maxC (frame_of (connectionString p) dest data)"
    "buffers_fit maxM maxC out" "limits_ok maxM maxC" "ip_instance r \<noteq> sc_instance r"
  shows "\<exists>filled r' ok r'' p'.
    HandleReceiveMessage maxM maxC None out r = Some (length data, filled, r') \<and>
    take (length data) (message_buf filled) = data \<and> port_instance filled = sc_instance r \<and>
    HandleSendMessage ifap sendto reply (Some (source_buf filled)) (source_len filled) (port_instance filled) b r' =
      Some ([], if ok then length reply else 0, r'') \<and>
    ok = (\<not> requested (closeRequest p) \<and> length (txQueue p) < 64) \<and>
    map_of (peers (transport r'')) = (map_of (peers (transport r)))(w \<mapsto> p') \<and>
    clients (transport r'') = clients (transport r) \<and>
    (ok \<longrightarrow> txQueue p' = txQueue p @ [reply])"
proof -
  let ?f = "frame_of (connectionString p) dest data"
  let ?u = "r\<lparr> pollIpFirst := \<not> pollIpFirst r \<rparr>"
  let ?t = "(transport r)\<lparr> rx := (rx (transport r))\<lparr> rxQueue := later \<rparr> \<rparr>"
  have q: "sc_queue ?u = ?f # later" using assms(3) by (simp add: sc_queue_def)
  note sc = ReceiveFromSc_result [OF assms(5,6) q assms(4)]
  have ip: "ReceiveFromIp maxM maxC None out ?u = Some (0, out, ?u)"
    using ReceiveFromIp_result [OF assms(5,6), of None ?u] by (simp add: ip_ready_def ready_def)
  have ne: "data \<noteq> []" using assms(4) by (simp add: deliverable_def frame_of_def)
  define filled where "filled = out\<lparr> message_buf := data @ drop (length data) (message_buf out),
       source_buf := octets (connectionString p) @ drop (length (connectionString p)) (source_buf out),
       source_len := length (connectionString p),
       dest_buf := map_option (\<lambda>buf. octets dest @ drop (length dest) buf) (dest_buf out),
       dest_len := (if dest_buf out = None then dest_len out else length dest),
       port_instance := sc_instance r \<rparr>"
  have recv: "HandleReceiveMessage maxM maxC None out r = Some (length data, filled, ?u\<lparr> transport := ?t \<rparr>)"
    using sc ip ne by (cases "pollIpFirst r") (auto simp: HandleReceiveMessage_def frame_of_def filled_def)
  have "PopReceived (transport r) = Some (?f, ?t)" using assms(3) by (simp add: PopReceived_def)
  then have reach: "sc_reach ?t d"
    using assms(1) steps_step [OF _ sc_step.pop_received] unfolding sc_reach_def by blast
  have peer: "map_of (peers ?t) w = Some p" using assms(2) by simp
  obtain ok s' p' where send: "Send (connectionString p) reply ?t = Some (ok, s')"
    "map_of (peers s') = (map_of (peers ?t))(w \<mapsto> p')" "clients s' = clients ?t"
    "ok \<longleftrightarrow> \<not> requested (closeRequest p) \<and> length (txQueue p) < 64"
    "ok \<Longrightarrow> txQueue p' = txQueue p @ [reply] \<and> w \<in> armed s'"
    by (rule Send_to_peer [OF reach peer, of reply]; blast)
  have str: "string_of (take (source_len filled) (source_buf filled)) = connectionString p"
    using string_octets [of "connectionString p"] by (simp add: filled_def)
  have "HandleSendMessage ifap sendto reply (Some (source_buf filled)) (source_len filled) (port_instance filled) b
      (?u\<lparr> transport := ?t \<rparr>) = Some ([], if ok then length reply else 0, ?u\<lparr> transport := s' \<rparr>)"
    using assms(7) send(1) str by (simp add: HandleSendMessage_def filled_def)
  then show ?thesis
    using recv send(2-5)
    by (intro exI [of _ filled] exI [of _ "?u\<lparr> transport := ?t \<rparr>"] exI [of _ ok] exI [of _ "?u\<lparr> transport := s' \<rparr>"]
        exI [of _ p']) (simp add: filled_def)
qed

definition asked_state :: sc_state where
  "asked_state = connected_state\<lparr> rx := \<lparr> rxQueue = [frame_of (client_string ''wss://:1'' 1) ''wss://:1'' [1, 0, 0, 7]],
     rxMessages = rxMessages (rx connected_state) + 1, rxBytes = rxBytes (rx connected_state) + 4 \<rparr> \<rparr>"

lemma asked_reach: "sc_reach asked_state {}"
proof -
  have p: "peers connected_state = [(7, example_peer)]" "listenUri connected_state = ''wss://:1''"
    "rxQueue (rx connected_state) = []"
    by (simp_all add: connected_state_def listening_state_def configured_state_def Configure_def initial_sc_state_def)
  have e: "rxOverflow example_peer = False" "rxAssembly example_peer = []" "accepted example_peer = False"
    "example_peer\<lparr> rxAssembly := [] \<rparr> = example_peer" "example_peer\<lparr> rxOverflow := False, rxAssembly := [] \<rparr> = example_peer"
    "example_peer\<lparr> rxAssembly := [], rxOverflow := False \<rparr> = example_peer"
    by (simp_all add: example_peer_def new_peer_def connection.defs peer_connection.defs new_connection_def)
  have "HandleIncomingFragment True True [1, 0, 0, 7] (client_string ''wss://:1'' 1) ''wss://:1''
      (example_peer, rx connected_state) = (None, example_peer, rx asked_state)"
    by (simp add: HandleIncomingFragment_def e p kMaxIngressBytes_def frame_of_def asked_state_def)
  moreover have "AuditReceivedFrame [1, 0, 0, 7] example_peer = Some example_peer"
    by (simp add: AuditReceivedFrame_def kBvlcConnectRequest_def)
  ultimately have "ServerReceive 7 [1, 0, 0, 7] True True connected_state = Some (carry_on, asked_state)"
    unfolding ServerReceive_def using p e by (simp add: asked_state_def frame_of_def)
  then have h: "HandleServerCallback (Received 7 [1, 0, 0, 7] True True) connected_state = Some (carry_on, asked_state)"
    by simp
  have "lws_allows connected_state {} (Received 7 [1, 0, 0, 7] True True)" by simp
  from server [OF this h] have "sc_step (connected_state, {}) (asked_state, {})" by (simp add: carry_on_def)
  then show ?thesis using connected_reach steps_step unfolding sc_reach_def by blast
qed

lemma reply_reaches_its_sender_witness:
  "\<exists>filled r' r''. HandleReceiveMessage 8 40 None
      (example_buffers\<lparr> source_buf := replicate 40 0 \<rparr>) (new_router 1 2 asked_state) = Some (4, filled, r') \<and>
    HandleSendMessage None (\<lambda>_. 0) [9, 9] (Some (source_buf filled)) (source_len filled) 2 False r' =
      Some ([], 2, r'')"
proof -
  have n: "length (client_string ''wss://:1'' 1) \<le> 40"
    by (simp add: client_string_def dec.simps)
  have d: "deliverable 8 40 (frame_of (connectionString example_peer) ''wss://:1'' [1, 0, 0, 7])"
    using n by (simp add: deliverable_def frame_of_def)
  have t: "transport (new_router 1 2 asked_state) = asked_state" "ip_instance (new_router 1 2 asked_state) = 1"
    "sc_instance (new_router 1 2 asked_state) = 2" by (simp_all add: new_router_def)
  have p: "map_of (peers asked_state) 7 = Some example_peer" "rxQueue (rx asked_state) =
      [frame_of (connectionString example_peer) ''wss://:1'' [1, 0, 0, 7]]"
    by (simp_all add: asked_state_def)
  have b: "buffers_fit 8 40 (example_buffers\<lparr> source_buf := replicate 40 0 \<rparr>)" "limits_ok 8 40"
    by (simp_all add: buffers_fit_def example_buffers_def limits_ok_def)
  show ?thesis
    using reply_reaches_its_sender [of "new_router 1 2 asked_state" "{}" 7 example_peer "''wss://:1''" "[1, 0, 0, 7]" "[]",
        unfolded t, OF asked_reach p(1) p(2) d b _, of None "\<lambda>_. 0" "[9, 9]" False]
    by fastforce
qed

end
