(* ===== verification/Command_Line.thy ===== *)
theory Command_Line
  imports Sc_Text Udp_Links
begin

text \<open>
  The command line: the options of \<^verbatim>\<open>src/main.cpp\<close> (validation, lookup, parsing and
  the checks \<^verbatim>\<open>main\<close> makes before it starts anything), the argument parsers of
  \<^verbatim>\<open>src/common/CASExampleHelper.cpp\<close>, and the small texts they produce.
  \<^verbatim>\<open>argv\<close> is a list of strings, the program's name first; what is printed is not
  modelled.
\<close>

unbundle bit_operations_syntax

section \<open>Options\<close>

definition kValueOptions :: "string list" where
  "kValueOptions =
    [''--port'', ''--sc-port'', ''--sc-cert-dir'', ''--import-cari'', ''--deviceID'', ''--device-name'',
     ''--ip-network-number'', ''--sc-network-number'', ''--sc-hub-uri'', ''--sc-failover-uri'',
     ''--sc-max-hub-connections'', ''--sc-rate-limit'', ''--sc-rate-limit-total'']"

definition kOnOffSwitches :: "string list" where
  "kOnOffSwitches = [''--sc-accept-device-without-hello'', ''--sc-accept-hub-without-hello'']"

definition kSwitches :: "string list" where
  "kSwitches = [''--help'', ''-h'', ''/?'', ''--version'']"

fun IsOneOf :: "string \<Rightarrow> string list \<Rightarrow> bool" where
  "IsOneOf arg [] = False"
| "IsOneOf arg (x # later) = (if arg = x then True else IsOneOf arg later)"

definition to_lower :: "char \<Rightarrow> char" where
  "to_lower c = (if 65 \<le> (of_char c :: nat) \<and> (of_char c :: nat) \<le> 90 then char_of ((of_char c :: nat) + 32) else c)"

text \<open>\<^verbatim>\<open>None\<close> is the return value false.\<close>

definition ParseOnOff :: "string \<Rightarrow> bool option" where
  "ParseOnOff s =
    (let t = map to_lower s in
     if t = ''on'' \<or> t = ''true'' \<or> t = ''yes'' \<or> t = ''1'' then Some True
     else if t = ''off'' \<or> t = ''false'' \<or> t = ''no'' \<or> t = ''0'' then Some False
     else None)"

fun validate_args :: "string list \<Rightarrow> bool" where
  "validate_args [] = True"
| "validate_args (arg # later) =
    (if IsOneOf arg kValueOptions then
       (case later of
          [] \<Rightarrow> False
        | v # rest \<Rightarrow> if take 2 v = ''--'' then False else validate_args rest)
     else if IsOneOf arg kOnOffSwitches then
       (case later of
          [] \<Rightarrow> True
        | v # rest \<Rightarrow> if ParseOnOff v \<noteq> None then validate_args rest else validate_args (v # rest))
     else if IsOneOf arg kSwitches then validate_args later
     else False)"

definition ValidateCommandLine :: "string list \<Rightarrow> bool" where
  "ValidateCommandLine argv = validate_args (drop 1 argv)"

definition HasFlag :: "string list \<Rightarrow> string \<Rightarrow> bool" where
  "HasFlag argv flagName = IsOneOf flagName (drop 1 argv)"

fun string_arg :: "string \<Rightarrow> string list \<Rightarrow> string" where
  "string_arg flagName (x # v # later) = (if x = flagName then v else string_arg flagName (v # later))"
| "string_arg flagName _ = []"

definition ParseStringArg :: "string list \<Rightarrow> string \<Rightarrow> string" where
  "ParseStringArg argv flagName = string_arg flagName (drop 1 argv)"

fun switch_arg :: "string \<Rightarrow> string list \<Rightarrow> bool" where
  "switch_arg flagName [] = False"
| "switch_arg flagName (x # later) =
    (if x = flagName then
       (case later of
          [] \<Rightarrow> True
        | v # _ \<Rightarrow> (case ParseOnOff v of Some b \<Rightarrow> b | None \<Rightarrow> True))
     else switch_arg flagName later)"

definition ParseSwitchArg :: "string list \<Rightarrow> string \<Rightarrow> bool" where
  "ParseSwitchArg argv flagName = switch_arg flagName (drop 1 argv)"

text \<open>\<^verbatim>\<open>None\<close> for the return value false; the out parameter is returned.\<close>

definition ParsePortOption :: "string list \<Rightarrow> string \<Rightarrow> nat \<Rightarrow> nat option" where
  "ParsePortOption argv flagName port =
    (let txt = ParseStringArg argv flagName in
     if txt = [] then Some port else
     let (v, e) = strtol txt in
     if e = txt \<or> e \<noteq> [] \<or> v \<le> 0 \<or> v > 65535 then None else Some (nat v))"

definition ParseUIntOption :: "string list \<Rightarrow> string \<Rightarrow> int \<Rightarrow> int \<Rightarrow> nat \<Rightarrow> nat option" where
  "ParseUIntOption argv flagName lo hi out =
    (let txt = ParseStringArg argv flagName in
     if txt = [] then Some out else
     let (v, e) = strtol txt in
     if e = txt \<or> e \<noteq> [] \<or> v < lo \<or> v > hi then None else Some (wrap16 (nat v)))"

section \<open>UTF-8\<close>

definition utf8_extra :: "u8 \<Rightarrow> nat option" where
  "utf8_extra lead =
    (if lead < 0x80 then Some 0
     else if lead AND 0xE0 = 0xC0 then Some 1
     else if lead AND 0xF0 = 0xE0 then Some 2
     else if lead AND 0xF8 = 0xF0 then Some 3
     else None)"

definition continuation :: "u8 \<Rightarrow> bool" where
  "continuation b \<longleftrightarrow> b AND 0xC0 = 0x80"

fun continued :: "bytes \<Rightarrow> nat \<Rightarrow> nat \<Rightarrow> bool option" where
  "continued s i 0 = Some True"
| "continued s i (Suc n) = do {
     b \<leftarrow> rd s i;
     if continuation b then continued s (i + 1) n else Some False }"

function utf8_from :: "bytes \<Rightarrow> nat \<Rightarrow> bool option" where
  "utf8_from s i =
    (if i \<ge> length s then Some True else do {
       lead \<leftarrow> rd s i;
       (case utf8_extra lead of
          None \<Rightarrow> Some False
        | Some extra \<Rightarrow>
            if i + extra \<ge> length s then Some False else do {
              ok \<leftarrow> continued s (i + 1) extra;
              if ok then utf8_from s (i + (extra + 1)) else Some False }) })"
  by pat_completeness auto
termination by (relation "measure (\<lambda>(s, i). length s - i)") auto

declare utf8_from.simps [simp del]

definition IsValidUtf8 :: "string \<Rightarrow> bool option" where
  "IsValidUtf8 s = utf8_from (map of_char s) 0"

section \<open>Strings the device serves\<close>

fun back_to_start :: "bytes \<Rightarrow> nat \<Rightarrow> nat" where
  "back_to_start s 0 = 0"
| "back_to_start s (Suc n) = (if continuation (s ! Suc n) then back_to_start s n else Suc n)"

text \<open>The element count, and the buffer when \<^verbatim>\<open>memcpy\<close> stays inside it.\<close>

definition ReturnCharacterString :: "bytes \<Rightarrow> bytes \<Rightarrow> nat \<Rightarrow> (nat \<times> bytes) option" where
  "ReturnCharacterString s buf maxElementCount =
    (let len = wrap32 (length s);
         len = (if maxElementCount > 0 \<and> len \<ge> maxElementCount
                then back_to_start s (maxElementCount - 1) else len)
     in map_option (Pair len) (store (take len s) buf))"

section \<open>Small texts\<close>

definition FormatUptime :: "nat \<Rightarrow> string" where
  "FormatUptime totalSeconds =
    (let days = totalSeconds div 86400;
         hours = (totalSeconds mod 86400) div 3600;
         minutes = (totalSeconds mod 3600) div 60;
         seconds = totalSeconds mod 60
     in append_bounded 64 []
       (if days > 0 then dec days @ ''d '' @ dec hours @ ''h '' @ dec minutes @ ''m '' @ dec seconds @ ''s''
        else if hours > 0 then dec hours @ ''h '' @ dec minutes @ ''m '' @ dec seconds @ ''s''
        else dec minutes @ ''m '' @ dec seconds @ ''s''))"

definition FormatRunLimit :: "nat \<Rightarrow> string" where
  "FormatRunLimit seconds =
    (if seconds mod 3600 = 0 then
       let hours = seconds div 3600 in dec hours @ (if hours = 1 then '' hour'' else '' hours'')
     else FormatUptime seconds)"

fun dotted :: "ipv4 \<Rightarrow> string" where
  "dotted (a, b, c, d) = dec (unat a) @ ''.'' @ dec (unat b) @ ''.'' @ dec (unat c) @ ''.'' @ dec (unat d)"

definition LanHubUri :: "ifaddr list option \<Rightarrow> nat \<Rightarrow> string" where
  "LanHubUri ifap scPort =
    (let ip = (case GetPrimaryIPv4 ifap of Some (ip, _) \<Rightarrow> ip | None \<Rightarrow> (127, 0, 0, 1))
     in append_bounded 64 [] (''wss://'' @ dotted ip @ '':'' @ dec scPort @ ''/''))"

definition HubAcceptUri :: "nat \<Rightarrow> string" where
  "HubAcceptUri scPort = ''wss://0.0.0.0:'' @ dec scPort @ ''/''"

section \<open>The parsers of the helper\<close>

text \<open>\<^verbatim>\<open>errno\<close> after \<^verbatim>\<open>strtol\<close>: the number does not fit a
  \<^verbatim>\<open>long\<close>.\<close>

definition strtol_range_error :: "string \<Rightarrow> bool" where
  "strtol_range_error s =
    (let t = dropWhile is_space s;
         neg = (take 1 t = ''-'');
         u = (if take 1 t = ''-'' \<or> take 1 t = ''+'' then drop 1 t else t);
         v = int (digits_val (takeWhile is_digit u))
     in if neg then v > LONG_MAX + 1 else v > LONG_MAX)"

definition ParseWholeNumber :: "string \<Rightarrow> nat option" where
  "ParseWholeNumber s =
    (if s = [] then None else
     let (v, e) = strtol s in
     if strtol_range_error s \<or> e = s \<or> e \<noteq> [] \<or> v < 0 then None else Some (nat v))"

text \<open>The first value of the flag that is accepted; the others only give a warning.\<close>

fun first_accepted :: "(string \<Rightarrow> 'a option) \<Rightarrow> string \<Rightarrow> 'a \<Rightarrow> string list \<Rightarrow> 'a" where
  "first_accepted accept flag fallback (x # v # later) =
    (if x = flag then
       (case accept v of Some r \<Rightarrow> r | None \<Rightarrow> first_accepted accept flag fallback (v # later))
     else first_accepted accept flag fallback (v # later))"
| "first_accepted accept flag fallback _ = fallback"

definition ParseDccPasswordArg :: "string list \<Rightarrow> string \<Rightarrow> string" where
  "ParseDccPasswordArg argv defaultPassword =
    first_accepted Some ''--dcc-password'' defaultPassword (drop 1 argv)"

definition ParsePortArg :: "string list \<Rightarrow> nat \<Rightarrow> nat" where
  "ParsePortArg argv defaultPort =
    first_accepted (\<lambda>v. case ParseWholeNumber v of
        Some p \<Rightarrow> if p > 0 \<and> p \<le> 65535 then Some p else None | None \<Rightarrow> None)
      ''--port'' defaultPort (drop 1 argv)"

definition ParseDeviceIdArg :: "string list \<Rightarrow> nat \<Rightarrow> nat" where
  "ParseDeviceIdArg argv defaultDeviceId =
    first_accepted (\<lambda>v. case ParseWholeNumber v of
        Some n \<Rightarrow> if n < 4194303 then Some n else None | None \<Rightarrow> None)
      ''--deviceID'' defaultDeviceId (drop 1 argv)"

definition MAX_DEVICE_NAME_LENGTH :: nat where
  "MAX_DEVICE_NAME_LENGTH = 255"

definition printable :: "char \<Rightarrow> bool" where
  "printable c \<longleftrightarrow> (of_char c :: nat) \<ge> 0x20 \<and> (of_char c :: nat) \<noteq> 0x7F"

definition ParseDeviceNameArg :: "string list \<Rightarrow> string \<Rightarrow> string" where
  "ParseDeviceNameArg argv defaultDeviceName =
    first_accepted (\<lambda>name. if 0 < length name \<and> length name \<le> MAX_DEVICE_NAME_LENGTH \<and> list_all printable name
        then Some name else None)
      ''--deviceName'' defaultDeviceName (drop 1 argv)"

definition HandleHelpAndVersionArgs :: "string list \<Rightarrow> bool" where
  "HandleHelpAndVersionArgs argv =
    list_ex (\<lambda>a. a = ''--help'' \<or> a = ''-h'' \<or> a = ''/?'' \<or> a = ''--version'') (drop 1 argv)"

section \<open>What main makes of the command line\<close>

record config =
  scPort :: nat
  bacnetIpEnabled :: bool
  bacnetIpUdpPort :: nat
  deviceInstance :: nat
  scCertDir :: string
  acceptDeviceWithoutHello :: bool
  acceptHubWithoutHello :: bool
  deviceName :: string
  ipNetworkNumber :: nat
  scNetworkNumber :: nat
  scRateLimit :: nat
  scRateLimitTotal :: nat
  scMaxHubConnections :: nat
  scHubUri :: string
  scFailoverUri :: string
  runLimitSeconds :: nat

definition SC_MAX_HUB_CONNECTIONS_LIMIT :: nat where
  "SC_MAX_HUB_CONNECTIONS_LIMIT = 4"

definition DEMO_RUN_LIMIT_SECONDS :: nat where
  "DEMO_RUN_LIMIT_SECONDS = 24 * 60 * 60"

definition MAX_DEVICE_NAME_BYTES :: nat where
  "MAX_DEVICE_NAME_BYTES = 128"

definition default_config :: config where
  "default_config = \<lparr> scPort = 4443, bacnetIpEnabled = False, bacnetIpUdpPort = 47808,
     deviceInstance = 389022, scCertDir = ''./certs'', acceptDeviceWithoutHello = False,
     acceptHubWithoutHello = False, deviceName = ''Chipkin Example B-SCHUB'', ipNetworkNumber = 0,
     scNetworkNumber = 0, scRateLimit = 10, scRateLimitTotal = 50,
     scMaxHubConnections = SC_MAX_HUB_CONNECTIONS_LIMIT, scHubUri = [], scFailoverUri = [],
     runLimitSeconds = DEMO_RUN_LIMIT_SECONDS \<rparr>"

datatype startup = Exit nat | Import string config | Run config

text \<open>\<^verbatim>\<open>strtoull(s, &end, 10)\<close>; a minus sign negates modulo 2^64.\<close>

definition strtoull :: "string \<Rightarrow> nat \<times> string" where
  "strtoull s =
    (let t = dropWhile is_space s;
         neg = (take 1 t = ''-'');
         u = (if take 1 t = ''-'' \<or> take 1 t = ''+'' then drop 1 t else t);
         ds = takeWhile is_digit u;
         v = digits_val ds
     in if ds = [] then (0, s)
        else (if v > ULONG_MAX then ULONG_MAX else if neg then (ULONG_MAX + 1 - v) mod (ULONG_MAX + 1) else v,
              dropWhile is_digit u))"

text \<open>The test limit from the environment, empty when the variable is not set.\<close>

definition run_limit :: "string \<Rightarrow> nat option" where
  "run_limit testLimit =
    (if testLimit = [] then Some DEMO_RUN_LIMIT_SECONDS else
     let (seconds, e) = strtoull testLimit in
     if e = testLimit \<or> e \<noteq> [] \<or> seconds = 0 \<or> seconds > DEMO_RUN_LIMIT_SECONDS then None
     else Some seconds)"

definition ports_of :: "string list \<Rightarrow> config \<Rightarrow> config option" where
  "ports_of argv c = do {
     p \<leftarrow> ParsePortOption argv ''--sc-port'' (scPort c);
     let c = c\<lparr> scPort := p \<rparr>;
     if HasFlag argv ''--port'' then do {
       p \<leftarrow> ParsePortOption argv ''--port'' (bacnetIpUdpPort c);
       Some (c\<lparr> bacnetIpUdpPort := p, bacnetIpEnabled := True \<rparr>) }
     else Some c }"

definition name_of :: "string list \<Rightarrow> config \<Rightarrow> config option" where
  "name_of argv c =
    (if HasFlag argv ''--device-name'' then
       let name = ParseStringArg argv ''--device-name'' in
       if name = [] \<or> length name > MAX_DEVICE_NAME_BYTES \<or> IsValidUtf8 name \<noteq> Some True then None
       else Some (c\<lparr> deviceName := name \<rparr>)
     else Some c)"

definition numbers_of :: "string list \<Rightarrow> config \<Rightarrow> config option" where
  "numbers_of argv c = do {
     ipn \<leftarrow> ParseUIntOption argv ''--ip-network-number'' 1 65534 (ipNetworkNumber c);
     scn \<leftarrow> ParseUIntOption argv ''--sc-network-number'' 1 65534 (scNetworkNumber c);
     rl \<leftarrow> ParseUIntOption argv ''--sc-rate-limit'' 0 65535 (scRateLimit c);
     rlt \<leftarrow> ParseUIntOption argv ''--sc-rate-limit-total'' 0 65535 (scRateLimitTotal c);
     if ipn \<noteq> 0 \<and> \<not> bacnetIpEnabled c then None
     else if ipn \<noteq> 0 \<and> ipn = scn then None
     else do {
       req \<leftarrow> ParseUIntOption argv ''--sc-max-hub-connections'' 1 65535 (scMaxHubConnections c);
       if req > SC_MAX_HUB_CONNECTIONS_LIMIT then None
       else Some (c\<lparr> ipNetworkNumber := ipn, scNetworkNumber := scn, scRateLimit := rl,
         scRateLimitTotal := rlt, scMaxHubConnections := req \<rparr>) } }"

definition connector_of :: "string list \<Rightarrow> config \<Rightarrow> config option" where
  "connector_of argv c =
    (let uri = ParseStringArg argv ''--sc-hub-uri'';
         failover = ParseStringArg argv ''--sc-failover-uri'' in
     if HasFlag argv ''--sc-failover-uri'' \<and> uri = [] then None
     else if list_ex (\<lambda>u. u \<noteq> [] \<and> take 6 u \<noteq> ''wss://'') [uri, failover] then None
     else Some (c\<lparr> scHubUri := uri, scFailoverUri := failover \<rparr>))"

definition configure_from :: "string list \<Rightarrow> string \<Rightarrow> config option" where
  "configure_from argv testLimit = do {
     c \<leftarrow> ports_of argv default_config;
     let c = c\<lparr> deviceInstance := ParseDeviceIdArg argv (deviceInstance c),
       scCertDir := (if HasFlag argv ''--sc-cert-dir'' then ParseStringArg argv ''--sc-cert-dir'' else scCertDir c) \<rparr>;
     if scCertDir c = [] then None else do {
       let c = c\<lparr> acceptDeviceWithoutHello := ParseSwitchArg argv ''--sc-accept-device-without-hello'',
         acceptHubWithoutHello := ParseSwitchArg argv ''--sc-accept-hub-without-hello'' \<rparr>;
       c \<leftarrow> name_of argv c;
       c \<leftarrow> numbers_of argv c;
       c \<leftarrow> connector_of argv c;
       seconds \<leftarrow> run_limit testLimit;
       Some (c\<lparr> runLimitSeconds := seconds \<rparr>) } }"

definition main_startup :: "string list \<Rightarrow> string \<Rightarrow> startup" where
  "main_startup argv testLimit =
    (if \<not> ValidateCommandLine argv then Exit 1
     else if HasFlag argv ''--help'' \<or> HasFlag argv ''-h'' \<or> HasFlag argv ''/?'' then Exit 0
     else if HasFlag argv ''--version'' then Exit 0
     else case configure_from argv testLimit of
       None \<Rightarrow> Exit 1
     | Some c \<Rightarrow>
         let importFile = ParseStringArg argv ''--import-cari'' in
         if importFile \<noteq> [] then Import importFile c else Run c)"

section \<open>The grammar of the command line\<close>

text \<open>The options in order, each with the value that belongs to it.\<close>

fun parse_options :: "string list \<Rightarrow> (string \<times> string option) list option" where
  "parse_options [] = Some []"
| "parse_options (a # later) =
    (if a \<in> set kValueOptions then
       (case later of
          [] \<Rightarrow> None
        | v # rest \<Rightarrow> if prefix ''--'' v then None else map_option ((#) (a, Some v)) (parse_options rest))
     else if a \<in> set kOnOffSwitches then
       (case later of
          [] \<Rightarrow> Some [(a, None)]
        | v # rest \<Rightarrow>
            if ParseOnOff v \<noteq> None then map_option ((#) (a, Some v)) (parse_options rest)
            else map_option ((#) (a, None)) (parse_options (v # rest)))
     else if a \<in> set kSwitches then map_option ((#) (a, None)) (parse_options later)
     else None)"

lemma IsOneOf_set [simp]: "IsOneOf a xs \<longleftrightarrow> a \<in> set xs"
  by (induction xs) auto

declare validate_args.simps(2) [simp del] parse_options.simps(2) [simp del]

lemma take_2_prefix: "take 2 v = ''--'' \<longleftrightarrow> prefix ''--'' v"
  by (cases v; cases "tl v") auto

lemma validate_is_parse: "validate_args args \<longleftrightarrow> parse_options args \<noteq> None"
proof (induction args rule: parse_options.induct)
  case 1
  then show ?case by simp
next
  case (2 a later)
  then show ?case
    by (cases later) (simp_all add: validate_args.simps(2) [of a] parse_options.simps(2) [of a] take_2_prefix)
qed

lemma on_off_no_dash: "ParseOnOff v \<noteq> None \<Longrightarrow> \<not> prefix ''--'' v"
proof
  assume p: "ParseOnOff v \<noteq> None" and "prefix ''--'' v"
  then obtain w where "v = CHR ''-'' # w" by (auto elim: prefixE)
  then show False using p by (auto simp: ParseOnOff_def Let_def to_lower_def split: if_splits)
qed

text \<open>The ways an argument list that parses goes on.\<close>

lemma parse_options_Cons:
  assumes "parse_options (a # later) = Some opts"
  obtains (valued) v rest opts' where "later = v # rest" "opts = (a, Some v) # opts'" "a \<in> set kValueOptions"
      "\<not> prefix ''--'' v" "parse_options rest = Some opts'"
    | (switched) v rest opts' where "later = v # rest" "opts = (a, Some v) # opts'" "a \<in> set kOnOffSwitches"
      "ParseOnOff v \<noteq> None" "parse_options rest = Some opts'"
    | (alone) opts' where "opts = (a, None) # opts'" "a \<in> set kOnOffSwitches"
      "later = [] \<or> ParseOnOff (hd later) = None" "parse_options later = Some opts'"
    | (flag) opts' where "opts = (a, None) # opts'" "a \<in> set kSwitches" "parse_options later = Some opts'"
proof -
  consider "a \<in> set kValueOptions" | "a \<notin> set kValueOptions" "a \<in> set kOnOffSwitches"
    | "a \<notin> set kValueOptions" "a \<notin> set kOnOffSwitches" "a \<in> set kSwitches"
    | "a \<notin> set kValueOptions" "a \<notin> set kOnOffSwitches" "a \<notin> set kSwitches" by blast
  then show thesis
  proof cases
    case 1
    then obtain v rest where l: "later = v # rest" using assms by (cases later) (simp_all add: parse_options.simps(2) [of a])
    have n: "\<not> prefix ''--'' v" using assms 1 unfolding l by (simp add: parse_options.simps(2) [of a] split: if_splits)
    obtain opts' where o: "parse_options rest = Some opts'" "opts = (a, Some v) # opts'"
      using assms 1 n unfolding l by (auto simp: parse_options.simps(2) [of a])
    show thesis by (rule valued [OF l o(2) 1 n o(1)])
  next
    case 2
    show thesis
    proof (cases "later = [] \<or> ParseOnOff (hd later) = None")
      case True
      have "map_option ((#) (a, None)) (parse_options later) = Some opts"
        using assms 2 True by (cases later) (simp_all add: parse_options.simps(2) [of a])
      then obtain opts' where o: "parse_options later = Some opts'" "opts = (a, None) # opts'"
        by auto
      show thesis by (rule alone [OF o(2) 2(2) True o(1)])
    next
      case False
      then obtain v rest where l: "later = v # rest" "ParseOnOff v \<noteq> None" by (cases later) auto
      have "map_option ((#) (a, Some v)) (parse_options rest) = Some opts"
        using assms 2 l by (simp add: parse_options.simps(2) [of a])
      then obtain opts' where o: "parse_options rest = Some opts'" "opts = (a, Some v) # opts'"
        by auto
      show thesis by (rule switched [OF l(1) o(2) 2(2) l(2) o(1)])
    qed
  next
    case 3
    have "map_option ((#) (a, None)) (parse_options later) = Some opts"
      using assms 3 by (simp add: parse_options.simps(2) [of a])
    then obtain opts' where o: "parse_options later = Some opts'" "opts = (a, None) # opts'"
      by auto
    show thesis by (rule flag [OF o(2) 3(3) o(1)])
  next
    case 4
    then show thesis using assms by (simp add: parse_options.simps(2) [of a])
  qed
qed

lemma value_options_dash: "flag \<in> set kValueOptions \<Longrightarrow> prefix ''--'' flag"
  "flag \<in> set kOnOffSwitches \<Longrightarrow> prefix ''--'' flag"
  by (auto simp: kValueOptions_def kOnOffSwitches_def)

lemma option_kinds:
  "a \<in> set kOnOffSwitches \<Longrightarrow> a \<notin> set kValueOptions" "a \<in> set kSwitches \<Longrightarrow> a \<notin> set kValueOptions"
  "a \<in> set kSwitches \<Longrightarrow> a \<notin> set kOnOffSwitches"
  by (auto simp: kValueOptions_def kOnOffSwitches_def kSwitches_def)


lemma dash_not_value:
  "prefix ''--'' flag \<Longrightarrow> \<not> prefix ''--'' v \<Longrightarrow> string_arg flag (v # rest) = string_arg flag rest"
  by (cases rest) auto

lemma string_arg_parsed:
  "parse_options args = Some opts \<Longrightarrow> flag \<in> set kValueOptions \<Longrightarrow>
    string_arg flag args = (case map_of opts flag of Some (Some v) \<Rightarrow> v | _ \<Rightarrow> [])"
proof (induction "length args" arbitrary: args opts rule: less_induct)
  case less
  note dash = value_options_dash(1) [OF less.prems(2)]
  show ?case
  proof (cases args)
    case Nil
    then show ?thesis using less.prems(1) by simp
  next
    case (Cons a later)
    from less.prems(1) [unfolded Cons] show ?thesis
    proof (cases rule: parse_options_Cons)
      case (valued v rest opts')
      have "string_arg flag rest = (case map_of opts' flag of Some (Some v) \<Rightarrow> v | _ \<Rightarrow> [])"
        using less.hyps [of rest opts'] less.prems(2) valued Cons by simp
      then show ?thesis using valued Cons dash_not_value [OF dash valued(4)] by simp
    next
      case (switched v rest opts')
      have "a \<noteq> flag" using switched(3) less.prems(2) option_kinds(1) by blast
      moreover have "string_arg flag rest = (case map_of opts' flag of Some (Some v) \<Rightarrow> v | _ \<Rightarrow> [])"
        using less.hyps [of rest opts'] less.prems(2) switched Cons by simp
      ultimately show ?thesis
        using switched Cons dash_not_value [OF dash on_off_no_dash [OF switched(4)]] by simp
    next
      case (alone opts')
      have "a \<noteq> flag" using alone(2) less.prems(2) option_kinds(1) by blast
      then show ?thesis
        using less.hyps [of later opts'] less.prems(2) alone Cons by (cases later) simp_all
    next
      case (flag opts')
      have "a \<noteq> flag" using flag(2) less.prems(2) option_kinds(2) by blast
      then show ?thesis
        using less.hyps [of later opts'] less.prems(2) flag Cons by (cases later) simp_all
    qed
  qed
qed

lemma HasFlag_parsed:
  "parse_options args = Some opts \<Longrightarrow> prefix ''--'' flag \<Longrightarrow> flag \<in> set args \<longleftrightarrow> flag \<in> fst ` set opts"
proof (induction "length args" arbitrary: args opts rule: less_induct)
  case less
  show ?case
  proof (cases args)
    case Nil
    then show ?thesis using less.prems(1) by simp
  next
    case (Cons a later)
    from less.prems(1) [unfolded Cons] show ?thesis
    proof (cases rule: parse_options_Cons)
      case (valued v rest opts')
      then show ?thesis using less.hyps [of rest opts'] less.prems(2) Cons by auto
    next
      case (switched v rest opts')
      then show ?thesis using less.hyps [of rest opts'] less.prems(2) Cons on_off_no_dash [OF switched(4)] by auto
    next
      case (alone opts')
      then show ?thesis using less.hyps [of later opts'] less.prems(2) Cons by auto
    next
      case (flag opts')
      then show ?thesis using less.hyps [of later opts'] less.prems(2) Cons by auto
    qed
  qed
qed

lemma switch_arg_parsed:
  "parse_options args = Some opts \<Longrightarrow> flag \<in> set kOnOffSwitches \<Longrightarrow>
    switch_arg flag args =
      (case map_of opts flag of None \<Rightarrow> False | Some None \<Rightarrow> True | Some (Some v) \<Rightarrow> the (ParseOnOff v))"
proof (induction "length args" arbitrary: args opts rule: less_induct)
  case less
  note dash = value_options_dash(2) [OF less.prems(2)]
  show ?case
  proof (cases args)
    case Nil
    then show ?thesis using less.prems(1) by simp
  next
    case (Cons a later)
    from less.prems(1) [unfolded Cons] show ?thesis
    proof (cases rule: parse_options_Cons)
      case (valued v rest opts')
      have "a \<noteq> flag" "v \<noteq> flag" using valued(3,4) less.prems(2) option_kinds(1) dash by blast+
      then show ?thesis using less.hyps [of rest opts'] less.prems(2) valued Cons by simp
    next
      case (switched v rest opts')
      have "v \<noteq> flag" using on_off_no_dash [OF switched(4)] dash by blast
      then show ?thesis using less.hyps [of rest opts'] less.prems(2) switched Cons by (auto split: option.splits)
    next
      case (alone opts')
      then show ?thesis using less.hyps [of later opts'] less.prems(2) Cons by (cases later) auto
    next
      case (flag opts')
      have "a \<noteq> flag" using flag(2) less.prems(2) option_kinds(3) by blast
      then show ?thesis using less.hyps [of later opts'] less.prems(2) flag Cons by simp
    qed
  qed
qed



section \<open>The configuration main starts with\<close>

lemma strtol_port: "ParsePortOption argv flag p = Some q \<Longrightarrow> 1 \<le> p \<Longrightarrow> p \<le> 65535 \<Longrightarrow> 1 \<le> q \<and> q \<le> 65535"
  by (auto simp: ParsePortOption_def Let_def split: if_splits prod.splits)

lemma uint_option:
  "ParseUIntOption argv flag lo hi p = Some q \<Longrightarrow> 0 \<le> lo \<Longrightarrow> hi \<le> 65535 \<Longrightarrow>
    q = p \<or> nat lo \<le> q \<and> q \<le> nat hi"
  by (auto simp: ParseUIntOption_def Let_def split: if_splits prod.splits)

lemma first_accepted_cases:
  "first_accepted accept flag fallback args = fallback \<or>
    (\<exists>v. accept v = Some (first_accepted accept flag fallback args))"
  by (induction accept flag fallback args rule: first_accepted.induct) (auto split: option.split)

lemma device_id_bound:
  assumes "d \<le> 4194302" shows "ParseDeviceIdArg argv d \<le> 4194302"
proof -
  define accept where "accept v = (case ParseWholeNumber v of
      Some n \<Rightarrow> if n < 4194303 then Some n else None | None \<Rightarrow> None)" for v
  define r where "r = first_accepted accept ''--deviceID'' d (drop 1 argv)"
  have "accept v = Some r \<Longrightarrow> r \<le> 4194302" for v
    by (auto simp: accept_def split: option.splits if_splits)
  moreover have "r = d \<or> (\<exists>v. accept v = Some r)" unfolding r_def by (rule first_accepted_cases)
  ultimately have "r \<le> 4194302" using assms by blast
  moreover have "ParseDeviceIdArg argv d = r"
    unfolding ParseDeviceIdArg_def r_def accept_def [abs_def] ..
  ultimately show ?thesis by simp
qed

definition config_ok :: "config \<Rightarrow> bool" where
  "config_ok c \<longleftrightarrow>
    1 \<le> scPort c \<and> scPort c \<le> 65535 \<and> 1 \<le> bacnetIpUdpPort c \<and> bacnetIpUdpPort c \<le> 65535 \<and>
    deviceInstance c \<le> 4194302 \<and> scCertDir c \<noteq> [] \<and>
    deviceName c \<noteq> [] \<and> length (deviceName c) \<le> 128 \<and> IsValidUtf8 (deviceName c) = Some True \<and>
    ipNetworkNumber c \<le> 65534 \<and> scNetworkNumber c \<le> 65534 \<and>
    (ipNetworkNumber c \<noteq> 0 \<longrightarrow> bacnetIpEnabled c \<and> ipNetworkNumber c \<noteq> scNetworkNumber c) \<and>
    scRateLimit c \<le> 65535 \<and> scRateLimitTotal c \<le> 65535 \<and>
    1 \<le> scMaxHubConnections c \<and> scMaxHubConnections c \<le> 4 \<and>
    (scHubUri c \<noteq> [] \<longrightarrow> prefix ''wss://'' (scHubUri c)) \<and>
    (scFailoverUri c \<noteq> [] \<longrightarrow> prefix ''wss://'' (scFailoverUri c) \<and> scHubUri c \<noteq> []) \<and>
    1 \<le> runLimitSeconds c \<and> runLimitSeconds c \<le> 86400"

lemma default_name_ok: "IsValidUtf8 (deviceName default_config) = Some True"
  by (simp add: default_config_def IsValidUtf8_def utf8_from.simps utf8_extra_def rd_def)

lemma string_arg_flag: "string_arg flag args \<noteq> [] \<Longrightarrow> flag \<in> set args"
  by (induction flag args rule: string_arg.induct) (auto split: if_splits)

lemma ports_of_ok:
  "ports_of argv c = Some c' \<Longrightarrow> config_ok c \<Longrightarrow>
    config_ok c' \<and> ipNetworkNumber c' = ipNetworkNumber c \<and> scNetworkNumber c' = scNetworkNumber c"
proof -
  assume p: "ports_of argv c = Some c'" and ok: "config_ok c"
  then obtain q where q: "ParsePortOption argv ''--sc-port'' (scPort c) = Some q"
    by (auto simp: ports_of_def split: Option.bind_splits)
  have qb: "1 \<le> q \<and> q \<le> 65535" using strtol_port [OF q] ok by (simp add: config_ok_def)
  show ?thesis
  proof (cases "HasFlag argv ''--port''")
    case True
    then obtain u where u: "ParsePortOption argv ''--port'' (bacnetIpUdpPort c) = Some u"
      "c' = c\<lparr> scPort := q, bacnetIpUdpPort := u, bacnetIpEnabled := True \<rparr>"
      using p q by (auto simp: ports_of_def split: Option.bind_splits)
    have "1 \<le> u \<and> u \<le> 65535" using strtol_port [OF u(1)] ok by (simp add: config_ok_def)
    then show ?thesis using ok qb u(2) by (simp add: config_ok_def)
  next
    case False
    then have "c' = c\<lparr> scPort := q \<rparr>" using p q by (simp add: ports_of_def)
    then show ?thesis using ok qb by (simp add: config_ok_def)
  qed
qed

lemma name_of_ok:
  "name_of argv c = Some c' \<Longrightarrow> config_ok c \<Longrightarrow>
    config_ok c' \<and> ipNetworkNumber c' = ipNetworkNumber c \<and> scNetworkNumber c' = scNetworkNumber c"
proof -
  assume n: "name_of argv c = Some c'" and ok: "config_ok c"
  let ?name = "ParseStringArg argv ''--device-name''"
  show ?thesis
  proof (cases "HasFlag argv ''--device-name''")
    case True
    then have "c' = c\<lparr> deviceName := ?name \<rparr>" "?name \<noteq> []" "length ?name \<le> 128" "IsValidUtf8 ?name = Some True"
      using n by (simp_all add: name_of_def Let_def MAX_DEVICE_NAME_BYTES_def split: if_split_asm)
    then show ?thesis using ok by (simp add: config_ok_def)
  next
    case False
    then show ?thesis using n ok by (simp add: name_of_def)
  qed
qed

lemma numbers_of_ok:
  assumes "numbers_of argv c = Some c'" "config_ok c" "ipNetworkNumber c = 0" "scNetworkNumber c = 0"
  shows "config_ok c'"
proof -
  obtain ipn scn rl rlt req where o:
    "ParseUIntOption argv ''--ip-network-number'' 1 65534 (ipNetworkNumber c) = Some ipn"
    "ParseUIntOption argv ''--sc-network-number'' 1 65534 (scNetworkNumber c) = Some scn"
    "ParseUIntOption argv ''--sc-rate-limit'' 0 65535 (scRateLimit c) = Some rl"
    "ParseUIntOption argv ''--sc-rate-limit-total'' 0 65535 (scRateLimitTotal c) = Some rlt"
    "ParseUIntOption argv ''--sc-max-hub-connections'' 1 65535 (scMaxHubConnections c) = Some req"
    "ipn \<noteq> 0 \<Longrightarrow> bacnetIpEnabled c \<and> ipn \<noteq> scn" "req \<le> 4"
    "c' = c\<lparr> ipNetworkNumber := ipn, scNetworkNumber := scn, scRateLimit := rl,
      scRateLimitTotal := rlt, scMaxHubConnections := req \<rparr>"
    using assms(1) unfolding numbers_of_def SC_MAX_HUB_CONNECTIONS_LIMIT_def
    by (auto split: Option.bind_splits if_splits)
  have b: "ipn \<le> 65534" "scn \<le> 65534" "rl \<le> 65535" "rlt \<le> 65535" "1 \<le> req"
    using uint_option [OF o(1)] uint_option [OF o(2)] uint_option [OF o(3)] uint_option [OF o(4)]
      uint_option [OF o(5)] assms(2-4) by (auto simp: config_ok_def)
  show ?thesis unfolding o(8) using assms(2) b o(6,7) by (simp add: config_ok_def)
qed

lemma connector_of_ok:
  assumes "connector_of argv c = Some c'" "config_ok c" shows "config_ok c'"
proof -
  let ?uri = "ParseStringArg argv ''--sc-hub-uri''" and ?failover = "ParseStringArg argv ''--sc-failover-uri''"
  have six: "take 6 u = ''wss://'' \<Longrightarrow> prefix ''wss://'' u" for u
    by (metis take_is_prefix)
  have "c' = c\<lparr> scHubUri := ?uri, scFailoverUri := ?failover \<rparr>"
    "?uri \<noteq> [] \<Longrightarrow> take 6 ?uri = ''wss://''" "?failover \<noteq> [] \<Longrightarrow> take 6 ?failover = ''wss://''"
    "HasFlag argv ''--sc-failover-uri'' \<Longrightarrow> ?uri \<noteq> []"
    using assms(1) by (auto simp: connector_of_def Let_def split: if_splits)
  moreover have "?failover \<noteq> [] \<Longrightarrow> HasFlag argv ''--sc-failover-uri''"
    using string_arg_flag by (simp add: ParseStringArg_def HasFlag_def)
  ultimately show ?thesis using assms(2) six by (simp add: config_ok_def)
qed

lemma run_limit_ok: "run_limit t = Some n \<Longrightarrow> 1 \<le> n \<and> n \<le> 86400"
  by (auto simp: run_limit_def DEMO_RUN_LIMIT_SECONDS_def Let_def split: if_splits prod.splits)

lemma configure_from_ok: "configure_from argv t = Some c \<Longrightarrow> config_ok c"
proof -
  assume c: "configure_from argv t = Some c"
  let ?dir = "\<lambda>c. if HasFlag argv ''--sc-cert-dir'' then ParseStringArg argv ''--sc-cert-dir'' else scCertDir c"
  let ?extra = "\<lambda>c. c\<lparr> deviceInstance := ParseDeviceIdArg argv (deviceInstance c), scCertDir := ?dir c,
      acceptDeviceWithoutHello := ParseSwitchArg argv ''--sc-accept-device-without-hello'',
      acceptHubWithoutHello := ParseSwitchArg argv ''--sc-accept-hub-without-hello'' \<rparr>"
  obtain c1 c2 c3 c4 n where s: "ports_of argv default_config = Some c1" "?dir c1 \<noteq> []"
    "name_of argv (?extra c1) = Some c2" "numbers_of argv c2 = Some c3" "connector_of argv c3 = Some c4"
    "run_limit t = Some n" "c = c4\<lparr> runLimitSeconds := n \<rparr>"
    using c unfolding configure_from_def Let_def by (fastforce split: Option.bind_splits if_splits)
  have d: "config_ok default_config" "ipNetworkNumber default_config = 0" "scNetworkNumber default_config = 0"
    using default_name_ok
    by (simp_all add: config_ok_def default_config_def SC_MAX_HUB_CONNECTIONS_LIMIT_def DEMO_RUN_LIMIT_SECONDS_def)
  note c1 = ports_of_ok [OF s(1) d(1)]
  have "deviceInstance c1 \<le> 4194302" using c1 by (simp add: config_ok_def)
  then have "config_ok (?extra c1)" using c1 s(2) device_id_bound by (auto simp: config_ok_def split: if_splits)
  note c2 = name_of_ok [OF s(3) this]
  have "config_ok c3" using numbers_of_ok [OF s(4)] c2 c1 d by simp
  from connector_of_ok [OF s(5) this] run_limit_ok [OF s(6)] show ?thesis
    unfolding s(7) by (simp add: config_ok_def)
qed


lemma example_startup: "main_startup [''hub''] [] = Run default_config"
proof -
  have "configure_from [''hub''] [] = Some default_config"
    by (simp add: configure_from_def ports_of_def ParsePortOption_def HasFlag_def ParseStringArg_def
        ParseSwitchArg_def ParseDeviceIdArg_def name_of_def numbers_of_def ParseUIntOption_def connector_of_def
        run_limit_def default_config_def SC_MAX_HUB_CONNECTIONS_LIMIT_def)
  then show ?thesis
    by (simp add: main_startup_def ValidateCommandLine_def HasFlag_def ParseStringArg_def)
qed


section \<open>UTF-8\<close>

text \<open>One character as the check sees it: a lead octet and as many continuation octets as it announces.\<close>

definition utf8_char :: "bytes \<Rightarrow> bool" where
  "utf8_char cs \<longleftrightarrow> cs \<noteq> [] \<and> utf8_extra (hd cs) = Some (length (tl cs)) \<and> list_all continuation (tl cs)"

lemma continued_spec:
  "i + n \<le> length s \<Longrightarrow> continued s i n = Some (list_all continuation (take n (drop i s)))"
proof (induction s i n rule: continued.induct)
  case (2 s i n)
  then have d: "drop i s = s ! i # drop (i + 1) s" by (simp add: Cons_nth_drop_Suc)
  show ?case using 2 d by simp
qed simp

lemma utf8_from_step:
  "i < length s \<Longrightarrow> utf8_from s i =
    (case utf8_extra (s ! i) of
       None \<Rightarrow> Some False
     | Some extra \<Rightarrow>
         if i + extra \<ge> length s then Some False
         else if list_all continuation (take extra (drop (i + 1) s)) then utf8_from s (i + (extra + 1))
         else Some False)"
  using continued_spec [of "i + 1" _ s] by (simp add: utf8_from.simps [of s i] split: option.split)

lemma utf8_from_total: "utf8_from s i \<noteq> None"
proof (induction "length s - i" arbitrary: i rule: less_induct)
  case less
  show ?case
  proof (cases "i < length s")
    case True
    show ?thesis unfolding utf8_from_step [OF True] using less by (auto split: option.split)
  next
    case False
    then show ?thesis by (simp add: utf8_from.simps [of s i])
  qed
qed

lemma utf8_from_chars:
  "utf8_from s i = Some True \<longleftrightarrow> (\<exists>cs. concat cs = drop i s \<and> list_all utf8_char cs)"
proof (induction "length s - i" arbitrary: i rule: less_induct)
  case less
  show ?case
  proof (cases "i < length s")
    case False
    then show ?thesis by (auto simp: utf8_from.simps [of s i] intro: exI [of _ "[]"])
  next
    case True
    have d: "drop i s = s ! i # drop (i + 1) s" using True by (simp add: Cons_nth_drop_Suc)
    show ?thesis
    proof
      assume "utf8_from s i = Some True"
      then obtain extra where e: "utf8_extra (s ! i) = Some extra" "i + extra < length s"
        "list_all continuation (take extra (drop (i + 1) s))" "utf8_from s (i + (extra + 1)) = Some True"
        using True by (auto simp: utf8_from_step split: option.splits if_splits)
      obtain cs where cs: "concat cs = drop (i + (extra + 1)) s" "list_all utf8_char cs"
        using less [of "i + (extra + 1)"] e(2,4) by auto
      let ?c = "s ! i # take extra (drop (i + 1) s)"
      have "utf8_char ?c" using e by (simp add: utf8_char_def)
      moreover have "drop (extra + (i + 1)) s = drop (i + (extra + 1)) s" by (simp add: ac_simps)
      then have "concat (?c # cs) = drop i s"
        unfolding d by (simp add: cs(1)) (metis append_take_drop_id drop_drop add.commute add_Suc_right)
      ultimately show "\<exists>cs. concat cs = drop i s \<and> list_all utf8_char cs"
        using cs(2) by (metis list.pred_inject(2))
    next
      assume "\<exists>cs. concat cs = drop i s \<and> list_all utf8_char cs"
      then obtain c cs where c: "concat (c # cs) = drop i s" "utf8_char c" "list_all utf8_char cs"
        using d by (metis concat.simps(1) list.distinct(1) list.pred_inject(2) neq_Nil_conv)
      then obtain lead conts where l: "c = lead # conts" by (cases c) (auto simp: utf8_char_def)
      have h: "s ! i = lead" "drop (i + 1) s = conts @ concat cs" using c(1) d l by simp_all
      have len: "length s = i + 1 + length conts + length (concat cs)"
        using arg_cong [OF h(2), of length] True by simp
      have "drop (i + (length conts + 1)) s = concat cs"
        using h(2) by (metis add.assoc add.commute append_eq_conv_conj drop_drop)
      then have "utf8_from s (i + (length conts + 1)) = Some True"
        using less [of "i + (length conts + 1)"] c(3) len by auto
      then show "utf8_from s i = Some True"
        using True h len c(2) l by (simp add: utf8_from_step utf8_char_def)
    qed
  qed
qed

lemma lead_not_continuation: "utf8_extra b = Some e \<Longrightarrow> \<not> continuation b"
proof
  assume e: "utf8_extra b = Some e" and c: "continuation b"
  have h: "b AND 0xC0 = 0x80" using c by (simp add: continuation_def)
  have m: "(b AND 0xE0) AND 0xC0 = 0x80" "(b AND 0xF0) AND 0xC0 = 0x80" "(b AND 0xF8) AND 0xC0 = 0x80"
    using h by (simp_all add: and.assoc)
  have "\<not> b < 0x80"
  proof
    assume l: "b < 0x80"
    have "b AND 0xC0 \<le> b" by (simp add: word_and_le2)
    then show False using h l by simp
  qed
  then show False using e m by (auto simp: utf8_extra_def split: if_splits)
qed

lemma back_to_start_in_char:
  assumes "start \<le> n" "\<not> continuation (s ! start) \<or> start = 0" "\<forall>i. start < i \<and> i \<le> n \<longrightarrow> continuation (s ! i)"
  shows "back_to_start s n = start"
  using assms
proof (induction n)
  case (Suc n)
  show ?case
  proof (cases "start = Suc n")
    case True
    then show ?thesis using Suc.prems(2) by auto
  next
    case False
    then have "back_to_start s n = start" using Suc by auto
    then show ?thesis using Suc.prems(1,3) False by simp
  qed
qed simp

lemma utf8_extra_le: "utf8_extra b = Some e \<Longrightarrow> e \<le> 3"
  by (auto simp: utf8_extra_def split: if_splits)

text \<open>The character an offset falls into.\<close>

lemma char_at:
  assumes "list_all utf8_char cs" "n < length (concat cs)"
  obtains cs1 c cs2 where "cs = cs1 @ c # cs2" "utf8_char c"
    "length (concat cs1) \<le> n" "n < length (concat cs1) + length c"
  using assms
proof (induction cs arbitrary: n thesis)
  case (Cons c cs)
  show ?case
  proof (cases "n < length c")
    case True
    then show ?thesis using Cons.prems(1) [of "[]" c cs] Cons.prems(2) by simp
  next
    case False
    then have "n - length c < length (concat cs)" "list_all utf8_char cs" using Cons.prems(2,3) by auto
    then obtain cs1 c' cs2 where "cs = cs1 @ c' # cs2" "utf8_char c'"
      "length (concat cs1) \<le> n - length c" "n - length c < length (concat cs1) + length c'"
      using Cons.IH [of "n - length c"] by blast
    then show ?thesis using Cons.prems(1) [of "c # cs1" c' cs2] False by simp
  qed
qed simp

lemma back_to_boundary:
  assumes "list_all utf8_char cs" "concat cs = s" "n < length s"
  obtains cs1 where "prefix cs1 cs" "concat cs1 = take (back_to_start s n) s"
    "back_to_start s n \<le> n" "n \<le> back_to_start s n + 3"
proof -
  obtain cs1 c cs2 where c: "cs = cs1 @ c # cs2" "utf8_char c"
    "length (concat cs1) \<le> n" "n < length (concat cs1) + length c"
    using char_at [OF assms(1), of n] assms(2,3) by auto
  obtain lead conts where l: "c = lead # conts" using c(2) by (cases c) (auto simp: utf8_char_def)
  have s: "s = concat cs1 @ lead # conts @ concat cs2" using assms(2) c(1) l by simp
  have "s ! length (concat cs1) = lead" by (simp add: s)
  moreover have "\<not> continuation lead" using c(2) l lead_not_continuation by (auto simp: utf8_char_def)
  moreover have "continuation (s ! i)" if "length (concat cs1) < i" "i \<le> n" for i
  proof -
    have k: "i - length (concat cs1) - 1 < length conts" using that c(4) l by simp
    have "s ! i = conts ! (i - length (concat cs1) - 1)"
      using that k by (auto simp: s nth_append nth_Cons')
    then show ?thesis using c(2) l k by (simp add: utf8_char_def list_all_length)
  qed
  ultimately have b: "back_to_start s n = length (concat cs1)"
    using back_to_start_in_char [of "length (concat cs1)" n s] c(3) by blast
  have "length conts \<le> 3" using c(2) l utf8_extra_le by (auto simp: utf8_char_def)
  then show thesis using that [of cs1] b c l s by simp
qed

text \<open>A text the device serves is never cut inside a character: the stack gets a prefix of it that is
  UTF-8 again whenever the text is, always shorter than its buffer, the whole text when that fits, and
  otherwise at most four octets less than the buffer holds.\<close>

theorem served_text_ends_between_characters:
  assumes "utf8_from s 0 = Some True" "length s < 4294967296" "0 < maxElementCount"
    "maxElementCount \<le> length buf"
  shows "\<exists>len filled. ReturnCharacterString s buf maxElementCount = Some (len, filled) \<and>
    take len filled = take len s \<and> len < maxElementCount \<and> utf8_from (take len s) 0 = Some True \<and>
    (if length s < maxElementCount then len = length s else maxElementCount \<le> len + 4)"
proof (cases "length s < maxElementCount")
  case True
  then show ?thesis using assms by (simp add: ReturnCharacterString_def store_def Let_def)
next
  case False
  obtain cs where cs: "concat cs = s" "list_all utf8_char cs" using assms(1) utf8_from_chars [of s 0] by auto
  have n: "maxElementCount - 1 < length s" using False assms(3) by linarith
  let ?b = "back_to_start s (maxElementCount - 1)"
  obtain cs1 where b: "prefix cs1 cs" "concat cs1 = take ?b s" "?b \<le> maxElementCount - 1"
    "maxElementCount - 1 \<le> ?b + 3" by (rule back_to_boundary [OF cs(2,1) n])
  have "list_all utf8_char cs1" using b(1) cs(2) by (auto elim!: prefixE)
  then have u: "utf8_from (take ?b s) 0 = Some True" using utf8_from_chars [of "take ?b s" 0] b(2) by auto
  have "?b \<le> length buf" "?b \<le> length s" using b(3) n assms(3,4) by linarith+
  then have "ReturnCharacterString s buf maxElementCount = Some (?b, take ?b s @ drop ?b buf)"
    using False assms(2,3) by (simp add: ReturnCharacterString_def store_def Let_def)
  then show ?thesis using u b(3,4) False assms(3) \<open>?b \<le> length s\<close>
    by (intro exI [of _ ?b] exI [of _ "take ?b s @ drop ?b buf"]) auto
qed

lemma served_text_ends_between_characters_witness:
  "\<exists>len filled. ReturnCharacterString [0x61, 0xC3, 0xA9] [0, 0] 2 = Some (len, filled) \<and> len < 2 \<and>
    utf8_from (take len [0x61, 0xC3, 0xA9]) 0 = Some True"
proof -
  have "utf8_from [0x61, 0xC3, 0xA9] 0 = Some True"
    by code_simp
  then show ?thesis
    using served_text_ends_between_characters [of "[0x61, 0xC3, 0xA9]" 2 "[0, 0]"] by auto
qed

text \<open>With no room at all the whole text is written.\<close>

lemma no_room_is_overrun: "s \<noteq> [] \<Longrightarrow> length s < 4294967296 \<Longrightarrow> ReturnCharacterString s [] 0 = None"
  by (simp add: ReturnCharacterString_def store_def)

text \<open>An overlong encoding, a surrogate and a lead octet beyond the last code point pass the check.\<close>

lemma check_is_structural:
  "IsValidUtf8 [CHR 0xC0, CHR 0x80] = Some True" "IsValidUtf8 [CHR 0xED, CHR 0xA0, CHR 0x80] = Some True"
  "IsValidUtf8 [CHR 0xF7, CHR 0xBF, CHR 0xBF, CHR 0xBF] = Some True"
  by code_simp+

section \<open>The URIs of the hub\<close>

lemma length_dec_octet: "length (dec (unat (b :: u8))) \<le> 3"
proof -
  have "unat b < 10 ^ 3" by (rule order.strict_trans [OF unat_u8_less]) simp
  then show ?thesis by (intro length_dec) simp_all
qed

lemma dotted_plain: "CHR ''/'' \<notin> set (dotted ip)"
proof -
  have "CHR ''/'' \<notin> set (dec n)" for n using dec_digits [of "CHR ''/''" n] digit_not_sign by blast
  then show ?thesis by (cases ip) simp
qed

lemma length_dotted: "length (dotted ip) \<le> 15"
proof -
  obtain a b c d where ip: "ip = (a, b, c, d)" by (cases ip) auto
  show ?thesis
    using length_dec_octet [of a] length_dec_octet [of b] length_dec_octet [of c] length_dec_octet [of d]
    by (simp add: ip)
qed

lemma accept_uri_parses:
  "1 \<le> port \<Longrightarrow> port \<le> 65535 \<Longrightarrow> ParseWssUri (HubAcceptUri port) = Some (''0.0.0.0'', port, ''/'')"
  using wss_uri_round_trip [of "''0.0.0.0''" port "''/''"] by (simp add: HubAcceptUri_def)

text \<open>The URI the hub listens on and the one it asks a certificate for are URIs the transport accepts,
  whole, for every port the command line can set and every address of the host: the first names every
  interface, the second this machine's address, both the hub's port.\<close>

theorem hub_uris_parse:
  assumes "1 \<le> port" "port \<le> 65535"
  shows "ParseWssUri (HubAcceptUri port) = Some (''0.0.0.0'', port, ''/'') \<and>
    ParseWssUri (LanHubUri ifap port) =
      Some (dotted (case GetPrimaryIPv4 ifap of Some (ip, _) \<Rightarrow> ip | None \<Rightarrow> (127, 0, 0, 1)), port, ''/'')"
proof -
  let ?ip = "case GetPrimaryIPv4 ifap of Some (ip, _) \<Rightarrow> ip | None \<Rightarrow> (127, 0, 0, 1)"
  have "length (dec port) \<le> 5" by (rule length_dec) (use assms(2) in auto)
  then have "length (''wss://'' @ dotted ?ip @ '':'' @ dec port @ ''/'') < 64"
    using length_dotted [of ?ip] by simp
  then have "LanHubUri ifap port = ''wss://'' @ dotted ?ip @ '':'' @ dec port @ ''/''"
    using append_bounded_fits [of "[]" _ 64] by (simp add: LanHubUri_def)
  then show ?thesis
    using wss_uri_round_trip [of "dotted ?ip" port "''/''"] accept_uri_parses assms dotted_plain [of ?ip] by simp
qed

lemma hub_uris_parse_witness:
  "ParseWssUri (HubAcceptUri 4443) = Some (''0.0.0.0'', 4443, ''/'')"
  using hub_uris_parse [of 4443 None] by simp

end
