(* ===== verification/Device_Clock.thy ===== *)
theory Device_Clock
  imports Prelude "HOL-Library.Signed_Division"
begin

text \<open>
  The device's clock and time zone, \<^verbatim>\<open>src/main.cpp\<close>: the offset from the host
  clock that TimeSynchronization sets, UTC_Offset and Daylight_Savings_Status, and the local date and
  time read from them.  The host clock (\<^verbatim>\<open>time(NULL)\<close>, seconds since 1970) is an
  argument.  \<^verbatim>\<open>timegm\<close> and \<^verbatim>\<open>gmtime_r\<close> are the proleptic Gregorian
  calendar without leap seconds; a \<^verbatim>\<open>time_t\<close> is an unbounded integer, which 64 bits
  hold for every date of this device.
\<close>

section \<open>The calendar\<close>

record tm =
  tm_year :: int
  tm_mon :: int
  tm_mday :: int
  tm_hour :: int
  tm_min :: int
  tm_sec :: int
  tm_wday :: int
  tm_isdst :: int

definition leap_year :: "int \<Rightarrow> bool" where
  "leap_year y \<longleftrightarrow> 4 dvd y \<and> (\<not> 100 dvd y \<or> 400 dvd y)"

definition year_len :: "int \<Rightarrow> int" where
  "year_len y = (if leap_year y then 366 else 365)"

definition month_lens :: "int \<Rightarrow> int list" where
  "month_lens y = [31, if leap_year y then 29 else 28, 31, 30, 31, 30, 31, 31, 30, 31, 30, 31]"

text \<open>The day number, from 1970-01-01, of a year's first day and of a date.\<close>

definition days_to_year :: "int \<Rightarrow> int" where
  "days_to_year y = 365 * (y - 1970) + (y - 1) div 4 - (y - 1) div 100 + (y - 1) div 400 - 477"

definition day_number :: "int \<Rightarrow> nat \<Rightarrow> int \<Rightarrow> int" where
  "day_number y m d = days_to_year y + sum_list (take m (month_lens y)) + (d - 1)"

text \<open>\<^verbatim>\<open>CalendarToSeconds\<close>: \<^verbatim>\<open>timegm\<close> takes fields outside
  their range, as \<^verbatim>\<open>mktime\<close> does.\<close>

definition CalendarToSeconds :: "tm \<Rightarrow> int" where
  "CalendarToSeconds c =
    (let y = tm_year c + 1900 + tm_mon c div 12; m = nat (tm_mon c mod 12)
     in ((day_number y m (tm_mday c) * 24 + tm_hour c) * 60 + tm_min c) * 60 + tm_sec c)"

text \<open>The year a day number falls into, with the day of that year.\<close>

function year_from :: "int \<Rightarrow> int \<Rightarrow> int \<times> int" where
  "year_from y d =
    (if d < 0 then year_from (y - 1) (d + year_len (y - 1))
     else if d < year_len y then (y, d)
     else year_from (y + 1) (d - year_len y))"
  by pat_completeness auto

termination
  by (relation "measures [\<lambda>(y, d). if d < 0 then 1 else 0, \<lambda>(y, d). nat \<bar>d\<bar>]") (auto simp: year_len_def split: if_splits)

declare year_from.simps [simp del]

fun month_from :: "int list \<Rightarrow> int \<Rightarrow> nat \<times> int" where
  "month_from [] d = (0, d)"
| "month_from (len # lens) d =
    (if d < len then (0, d) else (case month_from lens (d - len) of (m, r) \<Rightarrow> (Suc m, r)))"

text \<open>\<^verbatim>\<open>SecondsToCalendar\<close>: \<^verbatim>\<open>gmtime_r\<close> fails only when the
  year does not fit an \<^verbatim>\<open>int\<close>.\<close>

definition SecondsToCalendar :: "int \<Rightarrow> tm option" where
  "SecondsToCalendar seconds =
    (let days = seconds div 86400; r = seconds mod 86400;
         (y, yd) = year_from 1970 days;
         (m, md) = month_from (month_lens y) yd
     in if y - 1900 < - (2 ^ 31) \<or> y - 1900 \<ge> 2 ^ 31 then None
        else Some \<lparr> tm_year = y - 1900, tm_mon = int m, tm_mday = md + 1, tm_hour = r div 3600,
          tm_min = r mod 3600 div 60, tm_sec = r mod 60, tm_wday = (days + 4) mod 7, tm_isdst = 0 \<rparr>)"

section \<open>The clock\<close>

record device_clock =
  g_deviceInstance :: nat
  g_clockOffsetSeconds :: int
  g_utcOffsetMinutes :: int
  g_daylightSavings :: bool

definition GetClock :: "int \<Rightarrow> 'a device_clock_scheme \<Rightarrow> int" where
  "GetClock now d = now + g_clockOffsetSeconds d"

definition LocalSecondsFromUtc :: "'a device_clock_scheme \<Rightarrow> int \<Rightarrow> int" where
  "LocalSecondsFromUtc d utcSeconds =
    utcSeconds - g_utcOffsetMinutes d * 60 + (if g_daylightSavings d then 3600 else 0)"

definition GetCurrentLocalTm :: "int \<Rightarrow> 'a device_clock_scheme \<Rightarrow> tm option" where
  "GetCurrentLocalTm now d = SecondsToCalendar (LocalSecondsFromUtc d (GetClock now d))"

text \<open>\<^verbatim>\<open>hostLocal\<close> is what \<^verbatim>\<open>localtime_r\<close> answers.\<close>

definition InitTimeZoneFromHost :: "int \<Rightarrow> tm option \<Rightarrow> 'a device_clock_scheme \<Rightarrow> 'a device_clock_scheme" where
  "InitTimeZoneFromHost now hostLocal d =
    (let d = d\<lparr> g_utcOffsetMinutes := 0, g_daylightSavings := False \<rparr> in
     case hostLocal of
       None \<Rightarrow> d
     | Some host \<Rightarrow>
         let dst = tm_isdst host > 0;
             localAsUtc = CalendarToSeconds (host\<lparr> tm_isdst := 0 \<rparr>) in
         if localAsUtc = -1 then d
         else
           let eastSeconds = localAsUtc - now - (if dst then 3600 else 0);
               minutes = (- eastSeconds) sdiv 60;
               minutes = (if minutes \<ge> 0 then (minutes + 7) sdiv 15 else - ((- minutes + 7) sdiv 15)) * 15 in
           if minutes < -1440 \<or> minutes > 1440 then d
           else d\<lparr> g_utcOffsetMinutes := minutes, g_daylightSavings := dst \<rparr>)"

text \<open>The weekday and the hundredths of a second are ignored.\<close>

definition SetSystemTime ::
  "int \<Rightarrow> nat \<Rightarrow> u8 \<Rightarrow> u8 \<Rightarrow> u8 \<Rightarrow> u8 \<Rightarrow> u8 \<Rightarrow> u8 \<Rightarrow> 'a device_clock_scheme \<Rightarrow> bool \<times> 'a device_clock_scheme" where
  "SetSystemTime now inst year month day hour minute second d =
    (if inst \<noteq> g_deviceInstance d then (False, d)
     else if year = 255 \<or> month = 255 \<or> day = 255 \<or> hour = 255 \<or> minute = 255 \<or> second = 255 then (False, d)
     else
       let requested = \<lparr> tm_year = uint year, tm_mon = uint month - 1, tm_mday = uint day, tm_hour = uint hour,
             tm_min = uint minute, tm_sec = uint second, tm_wday = 0, tm_isdst = 0 \<rparr>;
           requestedLocal = CalendarToSeconds requested in
       if requestedLocal = -1 then (False, d)
       else
         let requestedUtc = requestedLocal + g_utcOffsetMinutes d * 60 - (if g_daylightSavings d then 3600 else 0)
         in (True, d\<lparr> g_clockOffsetSeconds := requestedUtc - now \<rparr>))"

section \<open>Calendar lemmas\<close>

lemma div_step: 
  assumes k: "0 < k"
  shows "(y :: int) div k = (y - 1) div k + (if k dvd y then 1 else 0)"
proof (cases "k dvd y")
  case True
  then obtain q where y: "y = k * q" by blast
  have "y - 1 = (k - 1) + (q - 1) * k" by (simp add: y algebra_simps)
  moreover have "((k - 1) + (q - 1) * k) div k = (q - 1) + (k - 1) div k" using k by (intro div_mult_self1) simp
  moreover have "(k - 1) div k = 0" using k by (intro div_pos_pos_trivial) linarith+
  ultimately have "(y - 1) div k = q - 1" by (simp only:)
  moreover have "y div k = q" using k y by simp
  ultimately show ?thesis using True by simp
next
  case False
  have m: "0 < y mod k" "y mod k < k"
    using k False pos_mod_sign [of k y] pos_mod_bound [of k y] by (simp_all add: dvd_eq_mod_eq_0 order_less_le)
  have "y - 1 = (y mod k - 1) + (y div k) * k" using div_mult_mod_eq [of y k] by linarith
  moreover have "((y mod k - 1) + (y div k) * k) div k = (y div k) + (y mod k - 1) div k" using k by (intro div_mult_self1) simp
  moreover have "(y mod k - 1) div k = 0" using m by (intro div_pos_pos_trivial) linarith+
  ultimately have "(y - 1) div k = y div k" by (simp only:)
  then show ?thesis using False by simp
qed

lemma days_to_year_step: "days_to_year (y + 1) = days_to_year y + year_len y"
proof -
  have steps: "y div 4 = (y - 1) div 4 + (if 4 dvd y then 1 else 0)"
    "y div 100 = (y - 1) div 100 + (if 100 dvd y then 1 else 0)"
    "y div 400 = (y - 1) div 400 + (if 400 dvd y then 1 else 0)"
    by (rule div_step; simp)+
  have dvds: "400 dvd y \<longrightarrow> 100 dvd y" "100 dvd y \<longrightarrow> 4 dvd y" by presburger+
  have "days_to_year (y + 1) - days_to_year y =
      365 + (y div 4 - (y - 1) div 4) - (y div 100 - (y - 1) div 100) + (y div 400 - (y - 1) div 400)"
    by (simp add: days_to_year_def algebra_simps)
  then show ?thesis
    unfolding steps using dvds by (simp add: year_len_def leap_year_def split: if_splits)
qed

lemma days_to_year_steps: "days_to_year (y + int n) \<ge> days_to_year y + int n"
proof (induction n)
  case (Suc n)
  have "1 \<le> year_len (y + int n)" by (simp add: year_len_def)
  then show ?case using Suc days_to_year_step [of "y + int n"] by (simp add: ac_simps)
qed simp

lemma days_to_year_mono: "y \<le> z \<Longrightarrow> days_to_year y \<le> days_to_year z"
  using days_to_year_steps [of y "nat (z - y)"] by simp

lemma year_from_inverse:
  "0 \<le> e \<Longrightarrow> e < year_len z \<Longrightarrow> days_to_year y + d = days_to_year z + e \<Longrightarrow> year_from y d = (z, e)"
proof (induction y d rule: year_from.induct)
  case (1 y d)
  consider "d < 0" | "0 \<le> d" "d < year_len y" | "year_len y \<le> d" "0 \<le> d" by linarith
  then show ?case
  proof cases
    case 1
    then show ?thesis using "1.IH"(1) [OF 1] "1.prems" days_to_year_step [of "y - 1"] year_from.simps [of y d] by simp
  next
    case 2
    have "\<not> y < z" using "1.prems" 2 days_to_year_step [of y] days_to_year_mono [of "y + 1" z] by linarith
    moreover have "\<not> z < y" using "1.prems" 2 days_to_year_step [of z] days_to_year_mono [of "z + 1" y] by linarith
    ultimately show ?thesis using "1.prems" 2 year_from.simps [of y d] by simp
  next
    case 3
    then have "\<not> d < 0" "\<not> d < year_len y" by linarith+
    note ih = "1.IH"(2) [OF this]
    show ?thesis using ih "1.prems" 3 days_to_year_step [of y] year_from.simps [of y d] by simp
  qed
qed
text \<open>The length of a month, counted from 0.\<close>

definition month_len :: "int \<Rightarrow> nat \<Rightarrow> int" where
  "month_len y m = month_lens y ! m"

lemma month_from_inverse:
  "m < length lens \<Longrightarrow> 0 \<le> r \<Longrightarrow> r < lens ! m \<Longrightarrow> \<forall>x \<in> set lens. 0 \<le> x \<Longrightarrow>
    month_from lens (sum_list (take m lens) + r) = (m, r)"
proof (induction lens arbitrary: m)
  case (Cons len lens)
  show ?case
  proof (cases m)
    case 0
    then show ?thesis using Cons.prems by simp
  next
    case (Suc n)
    have "0 \<le> sum_list (take n lens)" using Cons.prems(4) by (intro sum_list_nonneg) (auto dest: in_set_takeD)
    moreover have "month_from lens (sum_list (take n lens) + r) = (n, r)" using Cons Suc by simp
    ultimately show ?thesis using Suc Cons.prems(2) by (simp add: algebra_simps)
  qed
qed simp

lemma month_lens_facts: "length (month_lens y) = 12" "\<forall>x \<in> set (month_lens y). 0 \<le> x" "sum_list (month_lens y) = year_len y"
  by (simp_all add: month_lens_def year_len_def)

lemma sum_take_nth:
  "m < length (xs :: int list) \<Longrightarrow> \<forall>x \<in> set xs. 0 \<le> x \<Longrightarrow> sum_list (take m xs) + xs ! m \<le> sum_list xs"
proof -
  assume m: "m < length xs" and nonneg: "\<forall>x \<in> set xs. 0 \<le> x"
  have "sum_list xs = sum_list (take m xs) + (xs ! m + sum_list (drop (Suc m) xs))"
    using id_take_nth_drop [OF m] by (metis sum_list.Cons sum_list_append)
  moreover have "0 \<le> sum_list (drop (Suc m) xs)" using nonneg by (intro sum_list_nonneg) (auto dest: in_set_dropD)
  ultimately show ?thesis by linarith
qed

text \<open>A calendar date and time, with every field in its range.\<close>

definition civil :: "tm \<Rightarrow> bool" where
  "civil c \<longleftrightarrow> 0 \<le> tm_mon c \<and> tm_mon c < 12 \<and> 1 \<le> tm_mday c \<and>
    tm_mday c \<le> month_len (tm_year c + 1900) (nat (tm_mon c)) \<and> 0 \<le> tm_hour c \<and> tm_hour c < 24 \<and>
    0 \<le> tm_min c \<and> tm_min c < 60 \<and> 0 \<le> tm_sec c \<and> tm_sec c < 60"

lemma split_off: "0 \<le> r \<Longrightarrow> r < k \<Longrightarrow> (r + d * k) div k = (d :: int)" "0 \<le> r \<Longrightarrow> r < k \<Longrightarrow> (r + d * k) mod k = r"
  by (simp_all add: div_pos_pos_trivial)

lemma clock_digits:
  assumes b: "0 \<le> h" "h < 24" "0 \<le> m" "m < 60" "0 \<le> s" "s < (60 :: int)"
    and n: "n = ((d * 24 + h) * 60 + m) * 60 + s"
  shows "n div 86400 = d" "n mod 86400 div 3600 = h" "n mod 86400 mod 3600 div 60 = m" "n mod 86400 mod 60 = s"
proof -
  define r where "r = (h * 60 + m) * 60 + s"
  have e: "n = r + d * 86400" "r = (m * 60 + s) + h * 3600" "r = s + (h * 60 + m) * 60" "m * 60 + s = s + m * 60"
    by (simp_all add: n r_def)
  have r: "0 \<le> r" "r < 86400" "0 \<le> m * 60 + s" "m * 60 + s < 3600" using b by (simp_all add: r_def)
  have day: "n div 86400 = d" "n mod 86400 = r" using split_off [OF r(1,2), of d] by (simp_all add: e(1))
  show "n div 86400 = d" by (rule day(1))
  show "n mod 86400 div 3600 = h" using split_off(1) [OF r(3,4), of h] by (simp only: day(2) e(2))
  show "n mod 86400 mod 3600 div 60 = m"
    using split_off(2) [OF r(3,4), of h] split_off(1) [OF b(5,6), of m] by (simp only: day(2) e(2,4))
  show "n mod 86400 mod 60 = s" using split_off(2) [OF b(5,6), of "h * 60 + m"] by (simp only: day(2) e(3))
qed

text \<open>Reading back the seconds of a date gives the date, with its weekday.\<close>

lemma calendar_round_trip:
  assumes c: "civil c" and y: "- (2 ^ 31) \<le> tm_year c" "tm_year c < 2 ^ 31"
  shows "SecondsToCalendar (CalendarToSeconds c) =
    Some (c\<lparr> tm_wday := (CalendarToSeconds c div 86400 + 4) mod 7, tm_isdst := 0 \<rparr>)"
proof -
  let ?y = "tm_year c + 1900" and ?m = "nat (tm_mon c)"
  have m: "tm_mon c div 12 = 0" "tm_mon c mod 12 = tm_mon c" "?m < 12"
    using c by (simp_all add: civil_def div_pos_pos_trivial mod_pos_pos_trivial nat_less_iff)
  have secs: "CalendarToSeconds c = ((day_number ?y ?m (tm_mday c) * 24 + tm_hour c) * 60 + tm_min c) * 60 + tm_sec c"
    by (simp add: CalendarToSeconds_def m)
  have digits: "CalendarToSeconds c div 86400 = day_number ?y ?m (tm_mday c)"
    "CalendarToSeconds c mod 86400 div 3600 = tm_hour c" "CalendarToSeconds c mod 86400 mod 3600 div 60 = tm_min c"
    "CalendarToSeconds c mod 86400 mod 60 = tm_sec c"
    using c by (intro clock_digits [OF _ _ _ _ _ _ secs]; simp add: civil_def)+
  let ?e = "sum_list (take ?m (month_lens ?y)) + (tm_mday c - 1)"
  have len: "?m < length (month_lens ?y)" using m(3) by (simp add: month_lens_facts)
  have day: "0 \<le> tm_mday c - 1" "tm_mday c - 1 < month_lens ?y ! ?m" using c by (simp_all add: civil_def month_len_def)
  have "0 \<le> sum_list (take ?m (month_lens ?y))"
    using month_lens_facts(2) by (intro sum_list_nonneg) (auto dest: in_set_takeD)
  moreover have "?e < year_len ?y"
    using sum_take_nth [OF len month_lens_facts(2)] day by (simp add: month_lens_facts)
  ultimately have "year_from 1970 (day_number ?y ?m (tm_mday c)) = (?y, ?e)"
    using day by (intro year_from_inverse) (auto simp: day_number_def days_to_year_def)
  moreover have "month_from (month_lens ?y) ?e = (?m, tm_mday c - 1)"
    by (rule month_from_inverse [OF len day month_lens_facts(2)])
  ultimately show ?thesis
    using y m c by (simp add: SecondsToCalendar_def digits civil_def)
qed

text \<open>A calendar date made from seconds has its fields in range and gives the seconds back.\<close>

lemma year_from_sum:
  "year_from y d = (z, e) \<Longrightarrow> 0 \<le> e \<and> e < year_len z \<and> days_to_year y + d = days_to_year z + e"
proof (induction y d arbitrary: z e rule: year_from.induct)
  case (1 y d)
  consider "d < 0" | "0 \<le> d" "d < year_len y" | "year_len y \<le> d" "0 \<le> d" by linarith
  then show ?case
  proof cases
    case 1
    then show ?thesis
      using "1.IH"(1) [OF 1, of z e] "1.prems" days_to_year_step [of "y - 1"] year_from.simps [of y d] by simp
  next
    case 2
    then show ?thesis using "1.prems" year_from.simps [of y d] by simp
  next
    case 3
    then have "\<not> d < 0" "\<not> d < year_len y" by linarith+
    then show ?thesis
      using "1.IH"(2) [of z e] "1.prems" days_to_year_step [of y] year_from.simps [of y d] by simp
  qed
qed

lemma month_from_sum:
  "month_from lens d = (m, r) \<Longrightarrow> 0 \<le> d \<Longrightarrow> d < sum_list lens \<Longrightarrow>
    m < length lens \<and> 0 \<le> r \<and> r < lens ! m \<and> d = sum_list (take m lens) + r"
proof (induction lens d arbitrary: m r rule: month_from.induct)
  case (2 len lens d)
  then show ?case by (cases "d < len") (auto split: prod.splits)
qed simp

lemma calendar_read_back:
  assumes "SecondsToCalendar t = Some c"
  shows "CalendarToSeconds c = t" "civil c"
proof -
  obtain y yd where y: "year_from 1970 (t div 86400) = (y, yd)" by (rule prod.exhaust)
  obtain m md where m: "month_from (month_lens y) yd = (m, md)" by (rule prod.exhaust)
  note ys = year_from_sum [OF y]
  have ms: "m < 12" "0 \<le> md" "md < month_lens y ! m" "yd = sum_list (take m (month_lens y)) + md"
    using month_from_sum [OF m] ys by (simp_all add: month_lens_facts)
  let ?r = "t mod 86400"
  have c: "c = \<lparr> tm_year = y - 1900, tm_mon = int m, tm_mday = md + 1, tm_hour = ?r div 3600,
      tm_min = ?r mod 3600 div 60, tm_sec = ?r mod 60, tm_wday = (t div 86400 + 4) mod 7, tm_isdst = 0 \<rparr>"
    using assms by (simp add: SecondsToCalendar_def y m Let_def split: if_splits)
  have mon: "int m div 12 = 0" "nat (int m mod 12) = m" using ms(1) by simp_all
  have day: "day_number y m (md + 1) = t div 86400"
    using ys ms(4) by (simp add: day_number_def days_to_year_def)
  have sums: "((q * 24 + h) * 60 + m) * 60 + s = q * 86400 + (h * 3600 + (m * 60 + s))" for q h m s :: int by simp
  have last: "?r mod 60 = ?r mod 3600 mod 60" by (simp add: mod_mod_cancel)
  have "CalendarToSeconds c = ((t div 86400 * 24 + ?r div 3600) * 60 + ?r mod 3600 div 60) * 60 + ?r mod 60"
    unfolding CalendarToSeconds_def c by (simp add: mon day)
  then show "CalendarToSeconds c = t" unfolding sums unfolding last by (simp only: div_mult_mod_eq)
  have quotient: "0 \<le> x div k \<and> x div k < n" if "0 < k" "0 \<le> x" "x < n * k" for x k n :: int
  proof
    show "0 \<le> x div k" using that by (simp add: pos_imp_zdiv_nonneg_iff)
    show "x div k < n"
    proof (rule ccontr)
      assume "\<not> x div k < n"
      then have "n * k \<le> x div k * k" using that by (intro mult_right_mono) simp_all
      then show False using that div_mult_mod_eq [of x k] pos_mod_sign [of k x] by linarith
    qed
  qed
  have "0 \<le> ?r div 3600 \<and> ?r div 3600 < 24" "0 \<le> ?r mod 3600 div 60 \<and> ?r mod 3600 div 60 < 60"
    by (rule quotient; simp)+
  then show "civil c" unfolding civil_def c using ms by (simp add: month_len_def)
qed

section \<open>The time zone\<close>

text \<open>Clause 12.11.25: UTC_Offset is a multiple of 15 minutes, at most a day.\<close>

definition zone_ok :: "'a device_clock_scheme \<Rightarrow> bool" where
  "zone_ok d \<longleftrightarrow> -1440 \<le> g_utcOffsetMinutes d \<and> g_utcOffsetMinutes d \<le> 1440 \<and> 15 dvd g_utcOffsetMinutes d"

lemma sdiv_split: "(n :: int) sdiv k = (if n \<ge> 0 then n div k else - ((- n) div k))" if "0 < k"
  using that by (cases "n = 0") (auto simp: signed_divide_int_def sgn_if)

lemma InitTimeZoneFromHost_ok: "zone_ok (InitTimeZoneFromHost now hostLocal d)"
proof (cases hostLocal)
  case None
  then show ?thesis by (simp add: InitTimeZoneFromHost_def zone_ok_def)
next
  case (Some host)
  then show ?thesis by (simp add: InitTimeZoneFromHost_def zone_ok_def Let_def)
qed

lemma abs_in_range: "\<bar>x\<bar> \<le> k \<Longrightarrow> \<not> (x < - k \<or> k < (x :: int))"
  by linarith

text \<open>The offset is the host's standard time, to the nearest quarter of an hour.\<close>

lemma InitTimeZoneFromHost_near:
  assumes "CalendarToSeconds host = now + east + (if tm_isdst host > 0 then 3600 else 0)"
    "CalendarToSeconds host \<noteq> -1" "\<bar>east\<bar> \<le> 86400"
  shows "\<bar>g_utcOffsetMinutes (InitTimeZoneFromHost now (Some host) d) * 60 + east\<bar> \<le> 7 * 60 + 59 \<and>
    g_daylightSavings (InitTimeZoneFromHost now (Some host) d) = (tm_isdst host > 0)"
proof -
  have same: "CalendarToSeconds (host\<lparr> tm_isdst := 0 \<rparr>) = CalendarToSeconds host"
    by (simp add: CalendarToSeconds_def)
  have e: "CalendarToSeconds host - now - (if tm_isdst host > 0 then 3600 else 0) = east" using assms(1) by simp
  let ?m = "(- east) sdiv 60"
  let ?n = "(if ?m \<ge> 0 then (?m + 7) sdiv 15 else - ((- ?m + 7) sdiv 15)) * 15"
  have m: "\<bar>?m * 60 + east\<bar> \<le> 59" "\<bar>?m\<bar> \<le> 1440"
    using assms(3) by (auto simp: sdiv_split) 
  have n: "\<bar>?n - ?m\<bar> \<le> 7" "\<bar>?n\<bar> \<le> 1440"
    using m(2) by (auto simp: sdiv_split [of 15])
  have n': "(?n < -1440 \<or> ?n > 1440) = False" using abs_in_range [OF n(2)] by blast
  have "InitTimeZoneFromHost now (Some host) d =
      (d\<lparr> g_utcOffsetMinutes := 0, g_daylightSavings := False \<rparr>)\<lparr> g_utcOffsetMinutes := ?n, g_daylightSavings := tm_isdst host > 0 \<rparr>"
    unfolding InitTimeZoneFromHost_def Let_def option.case same e by (simp only: assms(2) n' if_False)
  then show ?thesis using m n by simp
qed

end
