(* ===== verification/Device_Model.thy ===== *)
theory Device_Model
  imports Device_Clock Cert_Commit Cert_Layout Command_Line
begin

text \<open>
  The device's objects, \<^verbatim>\<open>src/main.cpp\<close>: the property, file, time,
  ReinitializeDevice and Network Port command callbacks that the BACnet stack calls, over the clock,
  the certificate store and the other globals they use.  A callback's parameters that its body
  ignores (array index, priority, password) are left out.  The answer of a read callback is
  \<^verbatim>\<open>None\<close> when it returns false, which it does without naming an error; a write
  callback answers \<^verbatim>\<open>Inl\<close> the error code it sets, or \<^verbatim>\<open>Inl None\<close> when
  it leaves the code alone.  Where there is an option around the answer, \<^verbatim>\<open>None\<close>
  is undefined behaviour, or a certificate store that does not return.
\<close>

section \<open>Constants\<close>

definition OBJECT_TYPE_ANALOG_INPUT :: nat where [simp]: "OBJECT_TYPE_ANALOG_INPUT = 0"
definition OBJECT_TYPE_DEVICE :: nat where [simp]: "OBJECT_TYPE_DEVICE = 8"
definition OBJECT_TYPE_NETWORK_PORT :: nat where [simp]: "OBJECT_TYPE_NETWORK_PORT = 56"
definition OBJECT_TYPE_FILE :: nat where [simp]: "OBJECT_TYPE_FILE = 10"
definition PROPERTY_IDENTIFIER_APPLICATION_SOFTWARE_VERSION :: nat where
  [simp]: "PROPERTY_IDENTIFIER_APPLICATION_SOFTWARE_VERSION = 12"
definition PROPERTY_IDENTIFIER_APDU_LENGTH :: nat where [simp]: "PROPERTY_IDENTIFIER_APDU_LENGTH = 399"
definition PROPERTY_IDENTIFIER_DESCRIPTION :: nat where [simp]: "PROPERTY_IDENTIFIER_DESCRIPTION = 28"
definition PROPERTY_IDENTIFIER_FIRMWARE_REVISION :: nat where [simp]: "PROPERTY_IDENTIFIER_FIRMWARE_REVISION = 44"
definition PROPERTY_IDENTIFIER_LOCAL_DATE :: nat where [simp]: "PROPERTY_IDENTIFIER_LOCAL_DATE = 56"
definition PROPERTY_IDENTIFIER_LOCAL_TIME :: nat where [simp]: "PROPERTY_IDENTIFIER_LOCAL_TIME = 57"
definition PROPERTY_IDENTIFIER_MODEL_NAME :: nat where [simp]: "PROPERTY_IDENTIFIER_MODEL_NAME = 70"
definition PROPERTY_IDENTIFIER_IP_ADDRESS :: nat where [simp]: "PROPERTY_IDENTIFIER_IP_ADDRESS = 400"
definition PROPERTY_IDENTIFIER_IP_DEFAULT_GATEWAY :: nat where [simp]: "PROPERTY_IDENTIFIER_IP_DEFAULT_GATEWAY = 401"
definition PROPERTY_IDENTIFIER_BACNET_IP_MODE :: nat where [simp]: "PROPERTY_IDENTIFIER_BACNET_IP_MODE = 408"
definition PROPERTY_IDENTIFIER_IP_SUBNET_MASK :: nat where [simp]: "PROPERTY_IDENTIFIER_IP_SUBNET_MASK = 411"
definition PROPERTY_IDENTIFIER_BACNET_IP_UDP_PORT :: nat where [simp]: "PROPERTY_IDENTIFIER_BACNET_IP_UDP_PORT = 412"
definition PROPERTY_IDENTIFIER_OBJECT_NAME :: nat where [simp]: "PROPERTY_IDENTIFIER_OBJECT_NAME = 77"
definition PROPERTY_IDENTIFIER_OUT_OF_SERVICE :: nat where [simp]: "PROPERTY_IDENTIFIER_OUT_OF_SERVICE = 81"
definition PROPERTY_IDENTIFIER_PRESENT_VALUE :: nat where [simp]: "PROPERTY_IDENTIFIER_PRESENT_VALUE = 85"
definition PROPERTY_IDENTIFIER_REFERENCE_PORT :: nat where [simp]: "PROPERTY_IDENTIFIER_REFERENCE_PORT = 483"
definition PROPERTY_IDENTIFIER_UNITS :: nat where [simp]: "PROPERTY_IDENTIFIER_UNITS = 117"
definition PROPERTY_IDENTIFIER_VENDOR_IDENTIFIER :: nat where [simp]: "PROPERTY_IDENTIFIER_VENDOR_IDENTIFIER = 120"
definition PROPERTY_IDENTIFIER_VENDOR_NAME :: nat where [simp]: "PROPERTY_IDENTIFIER_VENDOR_NAME = 121"
definition PROPERTY_IDENTIFIER_DAYLIGHT_SAVINGS_STATUS :: nat where [simp]: "PROPERTY_IDENTIFIER_DAYLIGHT_SAVINGS_STATUS = 24"
definition PROPERTY_IDENTIFIER_UTC_OFFSET :: nat where [simp]: "PROPERTY_IDENTIFIER_UTC_OFFSET = 119"
definition PROPERTY_IDENTIFIER_ARCHIVE :: nat where [simp]: "PROPERTY_IDENTIFIER_ARCHIVE = 13"
definition PROPERTY_IDENTIFIER_FILE_SIZE :: nat where [simp]: "PROPERTY_IDENTIFIER_FILE_SIZE = 42"
definition PROPERTY_IDENTIFIER_FILE_TYPE :: nat where [simp]: "PROPERTY_IDENTIFIER_FILE_TYPE = 43"
definition PROPERTY_IDENTIFIER_MODIFICATION_DATE :: nat where [simp]: "PROPERTY_IDENTIFIER_MODIFICATION_DATE = 71"
definition PROPERTY_IDENTIFIER_READ_ONLY :: nat where [simp]: "PROPERTY_IDENTIFIER_READ_ONLY = 99"
definition REINITIALIZE_STATE_WARMSTART :: nat where [simp]: "REINITIALIZE_STATE_WARMSTART = 1"
definition REINITIALIZE_STATE_ACTIVATE_CHANGES :: nat where [simp]: "REINITIALIZE_STATE_ACTIVATE_CHANGES = 7"
definition NETWORK_PORT_COMMAND_DISCARD_CHANGES :: nat where [simp]: "NETWORK_PORT_COMMAND_DISCARD_CHANGES = 1"
definition NETWORK_PORT_COMMAND_GENERATE_CSR_FILE :: nat where [simp]: "NETWORK_PORT_COMMAND_GENERATE_CSR_FILE = 9"
definition ERROR_CODE_VALUE_OUT_OF_RANGE :: nat where [simp]: "ERROR_CODE_VALUE_OUT_OF_RANGE = 37"
definition ERROR_CODE_OPTIONAL_FUNCTIONALITY_NOT_SUPPORTED :: nat where
  [simp]: "ERROR_CODE_OPTIONAL_FUNCTIONALITY_NOT_SUPPORTED = 45"
definition ERROR_CODE_INVALID_CONFIGURATION_DATA :: nat where [simp]: "ERROR_CODE_INVALID_CONFIGURATION_DATA = 46"
definition ANALOG_INPUT_INSTANCE :: nat where [simp]: "ANALOG_INPUT_INSTANCE = 1"
definition NETWORK_PORT_INSTANCE :: nat where [simp]: "NETWORK_PORT_INSTANCE = 1"
definition SC_NETWORK_PORT_INSTANCE :: nat where [simp]: "SC_NETWORK_PORT_INSTANCE = 2"
definition FILE_OPERATIONAL_CERT_INSTANCE :: nat where [simp]: "FILE_OPERATIONAL_CERT_INSTANCE = 1"
definition FILE_CSR_INSTANCE :: nat where [simp]: "FILE_CSR_INSTANCE = 2"
definition FILE_ISSUER_CERT_1_INSTANCE :: nat where [simp]: "FILE_ISSUER_CERT_1_INSTANCE = 3"
definition FILE_ISSUER_CERT_2_INSTANCE :: nat where [simp]: "FILE_ISSUER_CERT_2_INSTANCE = 4"
definition VENDOR_IDENTIFIER :: nat where [simp]: "VENDOR_IDENTIFIER = 389"
definition MAX_APDU_LENGTH :: nat where [simp]: "MAX_APDU_LENGTH = 1476"
definition NETWORK_PORT_REFERENCE_PORT_NONE :: nat where [simp]: "NETWORK_PORT_REFERENCE_PORT_NONE = 4194303"
definition BACNET_IP_MODE_NORMAL :: nat where [simp]: "BACNET_IP_MODE_NORMAL = 0"
definition ENGINEERING_UNITS_DEGREES_CELSIUS :: nat where [simp]: "ENGINEERING_UNITS_DEGREES_CELSIUS = 62"
definition VENDOR_NAME :: string where "VENDOR_NAME = ''Chipkin Automation Systems''"
definition MODEL_NAME :: string where "MODEL_NAME = ''CAS BACnet Stack Example - B-SCHUB''"
definition APP_VERSION :: string where "APP_VERSION = ''1.8.1''"

section \<open>State\<close>

text \<open>The analog value is the bit pattern of the \<^verbatim>\<open>float\<close>.\<close>

record device = device_clock +
  g_deviceName :: string
  g_firmwareRevision :: string
  g_bacnetIpEnabled :: bool
  g_bacnetIpUdpPort :: nat
  g_ipAddress :: bytes
  g_ipSubnetMask :: bytes
  g_ipDefaultGateway :: bytes
  g_analogInput1Value :: u32
  g_fileArchive :: "bool list"
  g_scTrustedIssuersPath :: string
  g_scReloadCredentialsRequested :: bool
  g_store :: store

section \<open>File objects\<close>

definition IsScCertFileInstance :: "nat \<Rightarrow> bool" where
  "IsScCertFileInstance inst \<longleftrightarrow> inst = FILE_OPERATIONAL_CERT_INSTANCE \<or> inst = FILE_CSR_INSTANCE \<or>
    inst = FILE_ISSUER_CERT_1_INSTANCE \<or> inst = FILE_ISSUER_CERT_2_INSTANCE"

definition IsWritableScCertFileInstance :: "nat \<Rightarrow> bool" where
  "IsWritableScCertFileInstance inst \<longleftrightarrow> inst = FILE_OPERATIONAL_CERT_INSTANCE \<or>
    inst = FILE_ISSUER_CERT_1_INSTANCE \<or> inst = FILE_ISSUER_CERT_2_INSTANCE"

definition ScCertFilePath :: "hub_cert_paths \<Rightarrow> nat \<Rightarrow> string" where
  "ScCertFilePath p inst =
    (if inst = FILE_OPERATIONAL_CERT_INSTANCE then operationalCertificate p
     else if inst = FILE_CSR_INSTANCE then certificateSigningRequest p
     else if inst = FILE_ISSUER_CERT_1_INSTANCE then issuerCertificate1 p
     else if inst = FILE_ISSUER_CERT_2_INSTANCE then issuerCertificate2 p
     else [])"

text \<open>The layout \<^verbatim>\<open>main\<close> gives the certificate store.\<close>

definition hub_layout :: "hub_cert_paths \<Rightarrow> cert_layout" where
  "hub_layout p =
    \<lparr>paths = fold (\<lambda>inst. omap_put inst (ScCertFilePath p inst))
       [FILE_OPERATIONAL_CERT_INSTANCE, FILE_CSR_INSTANCE, FILE_ISSUER_CERT_1_INSTANCE, FILE_ISSUER_CERT_2_INSTANCE] [],
     readFallbackInstances = omap_put FILE_ISSUER_CERT_2_INSTANCE FILE_ISSUER_CERT_1_INSTANCE [],
     operationalInstance = FILE_OPERATIONAL_CERT_INSTANCE,
     issuerInstances = [FILE_ISSUER_CERT_1_INSTANCE, FILE_ISSUER_CERT_2_INSTANCE],
     privateKeyPath = privateKey p, pendingPrivateKeyPath = pendingPrivateKey p,
     csrInstance = FILE_CSR_INSTANCE\<rparr>"

definition StatScCertFile :: "device \<Rightarrow> nat \<Rightarrow> (nat \<times> int) option option" where
  "StatScCertFile d inst = (if IsScCertFileInstance inst then store_stat (g_store d) inst else Some None)"

section \<open>Reading properties\<close>

definition GetPropertyReal :: "device \<Rightarrow> nat \<Rightarrow> nat \<Rightarrow> nat \<Rightarrow> nat \<Rightarrow> u32 option" where
  "GetPropertyReal d dev type inst prop =
    (if dev \<noteq> g_deviceInstance d then None
     else if type = OBJECT_TYPE_ANALOG_INPUT \<and> inst = ANALOG_INPUT_INSTANCE \<and> prop = PROPERTY_IDENTIFIER_PRESENT_VALUE
     then Some (g_analogInput1Value d) else None)"

definition GetPropertyEnumerated :: "device \<Rightarrow> nat \<Rightarrow> nat \<Rightarrow> nat \<Rightarrow> nat \<Rightarrow> nat option" where
  "GetPropertyEnumerated d dev type inst prop =
    (if dev \<noteq> g_deviceInstance d then None
     else if prop = PROPERTY_IDENTIFIER_UNITS \<and> type = OBJECT_TYPE_ANALOG_INPUT \<and> inst = ANALOG_INPUT_INSTANCE
     then Some ENGINEERING_UNITS_DEGREES_CELSIUS
     else if g_bacnetIpEnabled d \<and> type = OBJECT_TYPE_NETWORK_PORT \<and> prop = PROPERTY_IDENTIFIER_BACNET_IP_MODE \<and>
       inst = NETWORK_PORT_INSTANCE
     then Some BACNET_IP_MODE_NORMAL
     else None)"

definition GetPropertyUnsignedInteger :: "device \<Rightarrow> nat \<Rightarrow> nat \<Rightarrow> nat \<Rightarrow> nat \<Rightarrow> nat option option" where
  "GetPropertyUnsignedInteger d dev type inst prop =
    (if dev \<noteq> g_deviceInstance d then Some None
     else if type = OBJECT_TYPE_DEVICE \<and> inst = g_deviceInstance d \<and> prop = PROPERTY_IDENTIFIER_VENDOR_IDENTIFIER
     then Some (Some VENDOR_IDENTIFIER)
     else if g_bacnetIpEnabled d \<and> type = OBJECT_TYPE_NETWORK_PORT \<and> inst = NETWORK_PORT_INSTANCE \<and>
       prop = PROPERTY_IDENTIFIER_APDU_LENGTH
     then Some (Some MAX_APDU_LENGTH)
     else if g_bacnetIpEnabled d \<and> type = OBJECT_TYPE_NETWORK_PORT \<and> inst = NETWORK_PORT_INSTANCE \<and>
       prop = PROPERTY_IDENTIFIER_REFERENCE_PORT
     then Some (Some NETWORK_PORT_REFERENCE_PORT_NONE)
     else if g_bacnetIpEnabled d \<and> type = OBJECT_TYPE_NETWORK_PORT \<and> inst = NETWORK_PORT_INSTANCE \<and>
       prop = PROPERTY_IDENTIFIER_BACNET_IP_UDP_PORT
     then Some (Some (g_bacnetIpUdpPort d))
     else if type = OBJECT_TYPE_FILE \<and> prop = PROPERTY_IDENTIFIER_FILE_SIZE then do {
       r \<leftarrow> StatScCertFile d inst;
       Some (case r of Some (n, mtime) \<Rightarrow> Some (wrap32 n) | None \<Rightarrow> None) }
     else Some None)"

text \<open>The flag of a file is at its instance less the first instance.\<close>

definition GetPropertyBool :: "device \<Rightarrow> nat \<Rightarrow> nat \<Rightarrow> nat \<Rightarrow> nat \<Rightarrow> bool option option" where
  "GetPropertyBool d dev type inst prop =
    (if dev \<noteq> g_deviceInstance d then Some None
     else if prop = PROPERTY_IDENTIFIER_OUT_OF_SERVICE \<and> (type = OBJECT_TYPE_ANALOG_INPUT \<or> type = OBJECT_TYPE_NETWORK_PORT)
     then Some (Some False)
     else if type = OBJECT_TYPE_DEVICE \<and> inst = g_deviceInstance d \<and> prop = PROPERTY_IDENTIFIER_DAYLIGHT_SAVINGS_STATUS
     then Some (Some (g_daylightSavings d))
     else if type = OBJECT_TYPE_FILE \<and> IsScCertFileInstance inst \<and> prop = PROPERTY_IDENTIFIER_ARCHIVE
     then map_option Some (rd (g_fileArchive d) (inst - FILE_OPERATIONAL_CERT_INSTANCE))
     else if type = OBJECT_TYPE_FILE \<and> IsScCertFileInstance inst \<and> prop = PROPERTY_IDENTIFIER_READ_ONLY
     then Some (Some (inst = FILE_CSR_INSTANCE))
     else Some None)"

definition GetPropertySignedInteger :: "device \<Rightarrow> nat \<Rightarrow> nat \<Rightarrow> nat \<Rightarrow> nat \<Rightarrow> int option" where
  "GetPropertySignedInteger d dev type inst prop =
    (if dev \<noteq> g_deviceInstance d \<or> type \<noteq> OBJECT_TYPE_DEVICE \<or> inst \<noteq> g_deviceInstance d \<or>
       prop \<noteq> PROPERTY_IDENTIFIER_UTC_OFFSET then None
     else Some (g_utcOffsetMinutes d))"

text \<open>Monday is 1 and Sunday 7; years count from 1900.\<close>

definition date_of :: "tm \<Rightarrow> u8 \<times> u8 \<times> u8 \<times> u8" where
  "date_of c = (word_of_int (tm_year c), word_of_int (tm_mon c + 1), word_of_int (tm_mday c),
     word_of_int (if tm_wday c = 0 then 7 else tm_wday c))"

definition time_of :: "tm \<Rightarrow> u8 \<times> u8 \<times> u8 \<times> u8" where
  "time_of c = (word_of_int (tm_hour c), word_of_int (tm_min c), word_of_int (tm_sec c), 0)"

text \<open>A file's modification time; the result of \<^verbatim>\<open>gmtime_r\<close> is not tested.\<close>

definition file_calendar :: "device \<Rightarrow> nat \<Rightarrow> tm option option" where
  "file_calendar d inst = do {
     r \<leftarrow> StatScCertFile d inst;
     (case r of
        None \<Rightarrow> Some None
      | Some (n, mtime) \<Rightarrow> map_option Some (SecondsToCalendar mtime)) }"

definition GetPropertyDate ::
  "int \<Rightarrow> device \<Rightarrow> nat \<Rightarrow> nat \<Rightarrow> nat \<Rightarrow> nat \<Rightarrow> (u8 \<times> u8 \<times> u8 \<times> u8) option option" where
  "GetPropertyDate now d dev type inst prop =
    (if dev = g_deviceInstance d \<and> type = OBJECT_TYPE_DEVICE \<and> inst = g_deviceInstance d \<and>
       prop = PROPERTY_IDENTIFIER_LOCAL_DATE
     then Some (map_option date_of (GetCurrentLocalTm now d))
     else if dev \<noteq> g_deviceInstance d \<or> type \<noteq> OBJECT_TYPE_FILE \<or> prop \<noteq> PROPERTY_IDENTIFIER_MODIFICATION_DATE
     then Some None
     else map_option (map_option date_of) (file_calendar d inst))"

definition GetPropertyTime ::
  "int \<Rightarrow> device \<Rightarrow> nat \<Rightarrow> nat \<Rightarrow> nat \<Rightarrow> nat \<Rightarrow> (u8 \<times> u8 \<times> u8 \<times> u8) option option" where
  "GetPropertyTime now d dev type inst prop =
    (if dev = g_deviceInstance d \<and> type = OBJECT_TYPE_DEVICE \<and> inst = g_deviceInstance d \<and>
       prop = PROPERTY_IDENTIFIER_LOCAL_TIME
     then Some (map_option time_of (GetCurrentLocalTm now d))
     else if dev \<noteq> g_deviceInstance d \<or> type \<noteq> OBJECT_TYPE_FILE \<or> prop \<noteq> PROPERTY_IDENTIFIER_MODIFICATION_DATE
     then Some None
     else map_option (map_option time_of) (file_calendar d inst))"

text \<open>The four octets and the buffer; an octet string is read from one of three arrays.\<close>

definition GetPropertyOctetString ::
  "device \<Rightarrow> nat \<Rightarrow> nat \<Rightarrow> nat \<Rightarrow> nat \<Rightarrow> bytes \<Rightarrow> nat \<Rightarrow> (nat \<times> bytes) option option" where
  "GetPropertyOctetString d dev type inst prop buf maxElementCount =
    (if \<not> g_bacnetIpEnabled d \<or> dev \<noteq> g_deviceInstance d \<or> type \<noteq> OBJECT_TYPE_NETWORK_PORT \<or>
       inst \<noteq> NETWORK_PORT_INSTANCE \<or> maxElementCount < 4 then Some None
     else
       case (if prop = PROPERTY_IDENTIFIER_IP_ADDRESS then Some (g_ipAddress d)
             else if prop = PROPERTY_IDENTIFIER_IP_SUBNET_MASK then Some (g_ipSubnetMask d)
             else if prop = PROPERTY_IDENTIFIER_IP_DEFAULT_GATEWAY then Some (g_ipDefaultGateway d)
             else None) of
         None \<Rightarrow> Some None
       | Some source \<Rightarrow> map_option (\<lambda>buf. Some (4, buf)) (Udp_Links.store (take 4 source) buf))"

definition ObjectDescription :: "device \<Rightarrow> nat \<Rightarrow> nat \<Rightarrow> string" where
  "ObjectDescription d type inst =
    (if type = OBJECT_TYPE_DEVICE \<and> inst = g_deviceInstance d then
       ''CAS BACnet Stack example: a BACnet/SC hub (B-SCHUB profile), '' @
       (if g_bacnetIpEnabled d then ''with a BACnet/IP port (--port). '' else ''reachable over BACnet/SC only. '') @
       ''For evaluation and testing only.''
     else if type = OBJECT_TYPE_NETWORK_PORT \<and> inst = NETWORK_PORT_INSTANCE then
       ''BACnet/IP port (UDP), so this hub can also be found and managed over plain BACnet/IP.''
     else if type = OBJECT_TYPE_ANALOG_INPUT \<and> inst = ANALOG_INPUT_INSTANCE then
       ''Example sensor value in degrees C, showing a hub serving its own data. '' @
       ''Change it with the up/down arrow keys in the console.''
     else if type = OBJECT_TYPE_NETWORK_PORT \<and> inst = SC_NETWORK_PORT_INSTANCE then
       ''BACnet/SC port: the hub function (the wss:// listener that devices connect to) and, if '' @
       ''configured, the hub connector. '' @
       ''Its certificates are File objects 1-4.''
     else if type = OBJECT_TYPE_FILE then
       (if inst = FILE_OPERATIONAL_CERT_INSTANCE then
          ''This hub's operational certificate (PEM), presented in every BACnet/SC TLS '' @
          ''handshake. Replace it over BACnet (clause 19.8.3), then ACTIVATE_CHANGES.''
        else if inst = FILE_CSR_INSTANCE then
          ''Certificate signing request (PEM) for this hub's private key. Have your CA sign '' @
          ''it, then write the certificate to File 1.''
        else if inst = FILE_ISSUER_CERT_1_INSTANCE then
          ''Issuer (CA) certificate, slot 1 (PEM). Devices connecting to this hub must be '' @
          ''signed by the issuer in slot 1 or slot 2.''
        else if inst = FILE_ISSUER_CERT_2_INSTANCE then
          ''Issuer (CA) certificate, slot 2 (PEM). Write a second CA here to trust it '' @
          ''alongside slot 1. Shows slot 1's certificate until one is written.''
        else [])
     else [])"

text \<open>The name of an object, and a string of the Device.\<close>

definition object_name :: "device \<Rightarrow> nat \<Rightarrow> nat \<Rightarrow> string option" where
  "object_name d type inst =
    (if type = OBJECT_TYPE_DEVICE \<and> inst = g_deviceInstance d then Some (g_deviceName d)
     else if type = OBJECT_TYPE_ANALOG_INPUT \<and> inst = ANALOG_INPUT_INSTANCE then Some ''Bronze''
     else if g_bacnetIpEnabled d \<and> type = OBJECT_TYPE_NETWORK_PORT \<and> inst = NETWORK_PORT_INSTANCE then Some ''BACnet IP''
     else if type = OBJECT_TYPE_NETWORK_PORT \<and> inst = SC_NETWORK_PORT_INSTANCE then Some ''BACnet SC''
     else if type = OBJECT_TYPE_FILE \<and> inst = FILE_OPERATIONAL_CERT_INSTANCE then Some ''Operational Certificate''
     else if type = OBJECT_TYPE_FILE \<and> inst = FILE_CSR_INSTANCE then Some ''Certificate Signing Request''
     else if type = OBJECT_TYPE_FILE \<and> inst = FILE_ISSUER_CERT_1_INSTANCE then Some ''Issuer Certificate Slot 1''
     else if type = OBJECT_TYPE_FILE \<and> inst = FILE_ISSUER_CERT_2_INSTANCE then Some ''Issuer Certificate Slot 2''
     else None)"

definition device_string :: "device \<Rightarrow> nat \<Rightarrow> string option" where
  "device_string d prop =
    (if prop = PROPERTY_IDENTIFIER_VENDOR_NAME then Some VENDOR_NAME
     else if prop = PROPERTY_IDENTIFIER_MODEL_NAME then Some MODEL_NAME
     else if prop = PROPERTY_IDENTIFIER_FIRMWARE_REVISION then Some (g_firmwareRevision d)
     else if prop = PROPERTY_IDENTIFIER_APPLICATION_SOFTWARE_VERSION then Some APP_VERSION
     else None)"

text \<open>\<^verbatim>\<open>strlen\<close> stops at the first zero character.\<close>

definition c_text :: "string \<Rightarrow> bytes" where
  "c_text s = map byte (takeWhile (\<lambda>c. c \<noteq> CHR 0x00) s)"

definition char_string :: "device \<Rightarrow> nat \<Rightarrow> nat \<Rightarrow> nat \<Rightarrow> nat \<Rightarrow> string option" where
  "char_string d dev type inst prop =
    (if dev \<noteq> g_deviceInstance d then None
     else if prop = PROPERTY_IDENTIFIER_DESCRIPTION \<and> ObjectDescription d type inst \<noteq> []
     then Some (ObjectDescription d type inst)
     else if prop = PROPERTY_IDENTIFIER_OBJECT_NAME \<and> object_name d type inst \<noteq> None
     then object_name d type inst
     else if prop = PROPERTY_IDENTIFIER_FILE_TYPE \<and> type = OBJECT_TYPE_FILE \<and> IsScCertFileInstance inst
     then Some ''application/x-pem-file''
     else if type = OBJECT_TYPE_DEVICE \<and> inst = g_deviceInstance d then device_string d prop
     else None)"

definition GetPropertyCharString ::
  "device \<Rightarrow> nat \<Rightarrow> nat \<Rightarrow> nat \<Rightarrow> nat \<Rightarrow> bytes \<Rightarrow> nat \<Rightarrow> (nat \<times> bytes) option option" where
  "GetPropertyCharString d dev type inst prop buf maxElementCount =
    (case char_string d dev type inst prop of
       None \<Rightarrow> Some None
     | Some s \<Rightarrow> map_option Some (ReturnCharacterString (c_text s) buf maxElementCount))"

section \<open>Device management\<close>

definition DeviceCommunicationControl :: "device \<Rightarrow> nat \<Rightarrow> nat option + unit" where
  "DeviceCommunicationControl d dev =
    (if dev \<noteq> g_deviceInstance d then Inl (Some ERROR_CODE_OPTIONAL_FUNCTIONALITY_NOT_SUPPORTED) else Inr ())"

text \<open>AtomicReadFile: the count, the end-of-file flag and the buffer.\<close>

definition CallbackReadFile ::
  "os \<Rightarrow> device \<Rightarrow> nat \<Rightarrow> nat \<Rightarrow> nat \<Rightarrow> nat \<Rightarrow> bytes \<Rightarrow> nat \<Rightarrow> (nat \<times> bool \<times> bytes) option option" where
  "CallbackReadFile e d dev inst fileStart requestedCount buf maxFileDataLength =
    (if dev \<noteq> g_deviceInstance d then Some None
     else if \<not> IsScCertFileInstance inst then Some None
     else do {
       r \<leftarrow> store_read e (g_store d) inst;
       (case r of
          None \<Rightarrow> Some None
        | Some file \<Rightarrow>
            let totalSize = wrap32 (length file) in
            if totalSize < fileStart then Some None
            else
              let remaining = sub32 totalSize fileStart;
                  toRead = (if requestedCount < remaining then requestedCount else remaining);
                  toRead = (if toRead > maxFileDataLength then maxFileDataLength else toRead);
                  data = map byte (take toRead (drop fileStart file))
              in map_option (\<lambda>buf. Some (toRead, fileStart + toRead \<ge> totalSize, buf)) (Udp_Links.store data buf)) })"

definition CallbackWriteFile ::
  "os \<Rightarrow> nat \<Rightarrow> nat \<Rightarrow> int \<Rightarrow> bytes \<Rightarrow> device \<Rightarrow> ((nat option + nat) \<times> device) option" where
  "CallbackWriteFile e dev inst fileStart data d =
    (if dev \<noteq> g_deviceInstance d \<or> \<not> IsWritableScCertFileInstance inst then Some (Inl None, d)
     else do {
       (r, st) \<leftarrow> Write e (g_store d) inst fileStart (map char_of_byte data);
       Some (case r of Inl why \<Rightarrow> Inl (Some (error_code_number why)) | Inr ackFileStart \<Rightarrow> Inr ackFileStart,
             d\<lparr> g_store := st \<rparr>) })"

definition SetPropertyBool :: "nat \<Rightarrow> nat \<Rightarrow> nat \<Rightarrow> nat \<Rightarrow> bool \<Rightarrow> device \<Rightarrow> ((nat option + unit) \<times> device) option" where
  "SetPropertyBool dev type inst prop val d =
    (if dev = g_deviceInstance d \<and> type = OBJECT_TYPE_DEVICE \<and> inst = g_deviceInstance d \<and>
       prop = PROPERTY_IDENTIFIER_DAYLIGHT_SAVINGS_STATUS
     then Some (Inr (), d\<lparr> g_daylightSavings := val \<rparr>)
     else if dev \<noteq> g_deviceInstance d \<or> type \<noteq> OBJECT_TYPE_FILE \<or> prop \<noteq> PROPERTY_IDENTIFIER_ARCHIVE \<or>
       \<not> IsScCertFileInstance inst
     then Some (Inl None, d)
     else if inst - FILE_OPERATIONAL_CERT_INSTANCE < length (g_fileArchive d)
     then Some (Inr (), d\<lparr> g_fileArchive := (g_fileArchive d)[inst - FILE_OPERATIONAL_CERT_INSTANCE := val] \<rparr>)
     else None)"

definition SetPropertyUnsignedInteger ::
  "os \<Rightarrow> nat \<Rightarrow> nat \<Rightarrow> nat \<Rightarrow> nat \<Rightarrow> nat \<Rightarrow> device \<Rightarrow> ((nat option + unit) \<times> device) option" where
  "SetPropertyUnsignedInteger e dev type inst prop val d =
    (if dev \<noteq> g_deviceInstance d \<or> type \<noteq> OBJECT_TYPE_FILE \<or> prop \<noteq> PROPERTY_IDENTIFIER_FILE_SIZE \<or>
       \<not> IsWritableScCertFileInstance inst
     then Some (Inl None, d)
     else do {
       (r, st) \<leftarrow> Resize e (g_store d) inst val;
       Some (case r of Inl why \<Rightarrow> Inl (map_option error_code_number why) | Inr u \<Rightarrow> Inr (), d\<lparr> g_store := st \<rparr>) })"

definition SetPropertySignedInteger ::
  "nat \<Rightarrow> nat \<Rightarrow> nat \<Rightarrow> nat \<Rightarrow> int \<Rightarrow> device \<Rightarrow> (nat option + unit) \<times> device" where
  "SetPropertySignedInteger dev type inst prop val d =
    (if dev \<noteq> g_deviceInstance d \<or> type \<noteq> OBJECT_TYPE_DEVICE \<or> inst \<noteq> g_deviceInstance d \<or>
       prop \<noteq> PROPERTY_IDENTIFIER_UTC_OFFSET
     then (Inl None, d)
     else if val < -1440 \<or> val > 1440 \<or> val smod 15 \<noteq> 0 then (Inl (Some ERROR_CODE_VALUE_OUT_OF_RANGE), d)
     else (Inr (), d\<lparr> g_utcOffsetMinutes := val \<rparr>))"

text \<open>A bundle that cannot be written is only logged.\<close>

definition ReinitializeDevice ::
  "os \<Rightarrow> ('c, 'k) openssl \<Rightarrow> nat \<Rightarrow> nat \<Rightarrow> device \<Rightarrow> ((nat option + unit) \<times> device) option" where
  "ReinitializeDevice e ssl dev reinitializedState d =
    (if dev \<noteq> g_deviceInstance d then Some (Inl (Some ERROR_CODE_OPTIONAL_FUNCTIONALITY_NOT_SUPPORTED), d)
     else if reinitializedState \<noteq> REINITIALIZE_STATE_ACTIVATE_CHANGES \<and> reinitializedState \<noteq> REINITIALIZE_STATE_WARMSTART
     then Some (Inl (Some ERROR_CODE_OPTIONAL_FUNCTIONALITY_NOT_SUPPORTED), d)
     else if \<not> HasStagedChanges (g_store d) then Some (Inr (), d)
     else do {
       (why, st) \<leftarrow> ValidateStaged e ssl (g_store d);
       if why \<noteq> None then Some (Inl (Some ERROR_CODE_INVALID_CONFIGURATION_DATA), d\<lparr> g_store := st \<rparr>)
       else
         (case CommitStaged e st of
            (Some why, st) \<Rightarrow> Some (Inl (Some ERROR_CODE_INVALID_CONFIGURATION_DATA), d\<lparr> g_store := st \<rparr>)
          | (None, st) \<Rightarrow> do {
              (why, st) \<leftarrow> WriteTrustedIssuerBundle e ssl (g_scTrustedIssuersPath d) st;
              Some (Inr (), d\<lparr> g_store := st, g_scReloadCredentialsRequested := True \<rparr>) }) })"

definition NetworkPortCommand ::
  "os \<Rightarrow> ('c, 'k) openssl \<Rightarrow> nat \<Rightarrow> nat \<Rightarrow> nat \<Rightarrow> device \<Rightarrow> ((nat option + unit) \<times> device) option" where
  "NetworkPortCommand e ssl dev port command d =
    (if dev \<noteq> g_deviceInstance d then Some (Inl (Some ERROR_CODE_OPTIONAL_FUNCTIONALITY_NOT_SUPPORTED), d)
     else if command = NETWORK_PORT_COMMAND_DISCARD_CHANGES then
       Some (Inr (),
         if port = SC_NETWORK_PORT_INSTANCE \<and> HasStagedChanges (g_store d)
         then d\<lparr> g_store := DiscardStaged (g_store d) \<rparr> else d)
     else if command = NETWORK_PORT_COMMAND_GENERATE_CSR_FILE \<and> port = SC_NETWORK_PORT_INSTANCE then do {
       (why, st) \<leftarrow> GenerateKeyAndCsr e ssl (g_store d);
       Some (if why \<noteq> None then Inl (Some ERROR_CODE_INVALID_CONFIGURATION_DATA) else Inr (), d\<lparr> g_store := st \<rparr>) }
     else Some (Inl (Some ERROR_CODE_OPTIONAL_FUNCTIONALITY_NOT_SUPPORTED), d))"

section \<open>The calls that change the device\<close>

text \<open>One call of the stack into a callback that can change something.\<close>

datatype device_call =
    TimeSync u8 u8 u8 u8 u8 u8
  | WriteSigned nat nat nat int
  | WriteBool nat nat nat bool
  | WriteUnsigned nat nat nat nat
  | WriteFileData nat int bytes
  | Reinitialize nat
  | PortCommand nat nat

definition device_step ::
  "os \<Rightarrow> ('c, 'k) openssl \<Rightarrow> int \<Rightarrow> nat \<Rightarrow> device_call \<Rightarrow> device \<Rightarrow> device option" where
  "device_step e ssl now dev call d =
    (case call of
       TimeSync year month day hour minute second \<Rightarrow> Some (snd (SetSystemTime now dev year month day hour minute second d))
     | WriteSigned type inst prop val \<Rightarrow> Some (snd (SetPropertySignedInteger dev type inst prop val d))
     | WriteBool type inst prop val \<Rightarrow> map_option snd (SetPropertyBool dev type inst prop val d)
     | WriteUnsigned type inst prop val \<Rightarrow> map_option snd (SetPropertyUnsignedInteger e dev type inst prop val d)
     | WriteFileData inst fileStart data \<Rightarrow> map_option snd (CallbackWriteFile e dev inst fileStart data d)
     | Reinitialize reinitializedState \<Rightarrow> map_option snd (ReinitializeDevice e ssl dev reinitializedState d)
     | PortCommand port command \<Rightarrow> map_option snd (NetworkPortCommand e ssl dev port command d))"

text \<open>A run: each call with the file system, OpenSSL and host clock of its moment.\<close>

fun device_run ::
  "(os \<times> ('c, 'k) openssl \<times> int \<times> nat \<times> device_call) list \<Rightarrow> device \<Rightarrow> device option" where
  "device_run [] d = Some d"
| "device_run ((e, ssl, now, dev, call) # calls) d = do {
     d \<leftarrow> device_step e ssl now dev call d;
     device_run calls d }"

section \<open>Start-up\<close>

text \<open>The certificate store \<^verbatim>\<open>main\<close> opens, and the globals when the loop starts:
  the command line's, the addresses of the host, and the time zone.\<close>

definition open_store :: "hub_cert_paths \<Rightarrow> disk \<Rightarrow> store" where
  "open_store p dsk =
    SetLayout (hub_layout p)
      \<lparr>g_layout = hub_layout p, g_staged = [], g_commitPromotesPendingKey = False, g_disk = dsk\<rparr>"

definition start_device ::
  "config \<Rightarrow> hub_cert_paths \<Rightarrow> string \<Rightarrow> (ipv4 \<times> ipv4) option \<Rightarrow> int \<Rightarrow> tm option \<Rightarrow> disk \<Rightarrow> device" where
  "start_device c p firmware addresses now hostLocal dsk =
    InitTimeZoneFromHost now hostLocal
      \<lparr>g_deviceInstance = deviceInstance c, g_clockOffsetSeconds = 0, g_utcOffsetMinutes = 0, g_daylightSavings = False,
       g_deviceName = deviceName c, g_firmwareRevision = firmware, g_bacnetIpEnabled = bacnetIpEnabled c,
       g_bacnetIpUdpPort = bacnetIpUdpPort c,
       g_ipAddress = (case addresses of Some (ip, netmask) \<Rightarrow> ip_octets ip | None \<Rightarrow> [0, 0, 0, 0]),
       g_ipSubnetMask = (case addresses of Some (ip, netmask) \<Rightarrow> ip_octets netmask | None \<Rightarrow> [0, 0, 0, 0]),
       g_ipDefaultGateway = [0, 0, 0, 0], g_analogInput1Value = 0x41AC0000, g_fileArchive = [False, False, False, False],
       g_scTrustedIssuersPath = trustedIssuers p, g_scReloadCredentialsRequested = False, g_store = open_store p dsk\<rparr>"

end
