(* ===== verification/Device_Sound.thy ===== *)
theory Device_Sound
  imports Device_Model
begin

text \<open>
  What the device's callbacks promise: the invariant every call keeps, the certificate procedure
  from the first write to the new files on disk, the files a read can reach, and the clock.
\<close>

lemma pair_cases:
  assumes "x \<noteq> None" obtains a b where "x = Some (a, b)"
  using assms by (cases x) auto

section \<open>Layout\<close>

lemma hub_layout_eq:
  "hub_layout p = \<lparr>paths = [(1, operationalCertificate p), (2, certificateSigningRequest p), (3, issuerCertificate1 p),
     (4, issuerCertificate2 p)], readFallbackInstances = [(4, 3)], operationalInstance = 1, issuerInstances = [3, 4],
     privateKeyPath = privateKey p, pendingPrivateKeyPath = pendingPrivateKey p, csrInstance = 2\<rparr>"
  by (simp add: hub_layout_def ScCertFilePath_def)

text \<open>The paths of a layout are different, not empty, and none ends as a temporary file does.\<close>

definition paths_ok :: "hub_cert_paths \<Rightarrow> bool" where
  "paths_ok p \<longleftrightarrow> distinct (all_paths p) \<and> (\<forall>q \<in> set (all_paths p). q \<noteq> [] \<and> last q \<noteq> CHR ''p'')"

lemma hub_layout_ok: "paths_ok p \<Longrightarrow> layout_ok (hub_layout p)"
proof -
  assume p: "paths_ok p"
  let ?qs = "[operationalCertificate p, certificateSigningRequest p, issuerCertificate1 p, issuerCertificate2 p,
    privateKey p, pendingPrivateKey p]"
  have fp: "file_paths (hub_layout p) = ?qs" by (simp add: file_paths_def hub_layout_eq)
  have sub: "set ?qs \<subseteq> set (all_paths p)" by (auto simp: all_paths_def)
  have f1: "distinct ?qs" using p by (simp add: paths_ok_def all_paths_def)
  have f2: "[] \<notin> set ?qs" using p sub unfolding paths_ok_def by blast
  have f3: "\<forall>a \<in> set ?qs. \<forall>b \<in> set ?qs. tmp a \<noteq> b"
  proof (intro ballI)
    fix a b assume b: "b \<in> set ?qs"
    show "tmp a \<noteq> b"
    proof
      assume "tmp a = b"
      then have "last b = CHR ''p''" by (auto simp: tmp_def)
      then show False using p sub b unfolding paths_ok_def by blast
    qed
  qed
  have maps: "omap_ok (paths (hub_layout p))" "omap_ok (readFallbackInstances (hub_layout p))"
    "\<forall>fb \<in> snd ` set (readFallbackInstances (hub_layout p)). map_of (readFallbackInstances (hub_layout p)) fb = None"
    "omap_has (paths (hub_layout p)) (operationalInstance (hub_layout p))"
    "\<not> omap_has (readFallbackInstances (hub_layout p)) (operationalInstance (hub_layout p))"
    by (simp_all add: hub_layout_eq omap_has_def)
  show ?thesis unfolding layout_ok_def fp by (intro conjI) (fact maps f1 f2 f3)+
qed

lemma resolved_paths_ok: "paths_ok (ResolveHubCertPaths dir inst listing)"
proof -
  obtain folder inst' where r: "all_paths (ResolveHubCertPaths dir inst listing) = all_paths (FillCari dir folder inst')"
    using Resolve_FillCari [of dir inst listing] by blast
  have "q \<noteq> [] \<and> last q \<noteq> CHR ''p''" if "q \<in> set (all_paths (FillCari dir folder inst'))" for q
    using that by (auto simp: all_paths_def FillCari_def Join_def under_def HUB_FILE_NAME_def)
  then show ?thesis using FillCari_distinct [of dir folder inst'] by (simp add: paths_ok_def r)
qed

section \<open>The invariant\<close>

definition device_ok :: "hub_cert_paths \<Rightarrow> device \<Rightarrow> bool" where
  "device_ok p d \<longleftrightarrow> paths_ok p \<and> zone_ok d \<and> length (g_fileArchive d) = 4 \<and>
    store_ok (g_store d) \<and> g_layout (g_store d) = hub_layout p \<and> g_scTrustedIssuersPath d = trustedIssuers p"

lemma device_layout: "device_ok p d \<Longrightarrow> layout_ok (g_layout (g_store d))"
  unfolding device_ok_def store_ok_def by blast

lemma store_stat_total:
  assumes "layout_ok (g_layout st)"
  shows "store_stat st inst \<noteq> None"
proof (cases "FallbackInstance st inst = 0")
  case True
  then show ?thesis by (simp add: store_stat.simps [of st inst] split: option.split)
next
  case False
  note flat = FallbackInstance_flat [OF assms False]
  show ?thesis
    using False flat
    by (simp add: store_stat.simps [of st inst] store_stat.simps [of st "FallbackInstance st inst"] split: option.split)
qed

lemma collect_issuers_total: "layout_ok (g_layout st) \<Longrightarrow> collect_issuers e ssl st insts acc \<noteq> None"
  by (induction insts arbitrary: acc) (simp_all add: Effective_total split: sum.split)

lemma bundle_collected: "layout_ok (g_layout st) \<Longrightarrow> collect_bundle e ssl st insts acc \<noteq> None"
  by (induction insts arbitrary: acc) (simp_all add: store_read_total)

lemma ValidateStaged_total: "layout_ok (g_layout st) \<Longrightarrow> ValidateStaged e ssl st \<noteq> None"
  using collect_issuers_total [of st e ssl "issuerInstances (g_layout st)" "[]"]
  by (auto simp: ValidateStaged_def Effective_total Let_def split: sum.split)

lemma Write_total: "store_ok st \<Longrightarrow> Write e st inst fileStart data \<noteq> None"
  using Stage_defined [of st inst e] by (auto simp: Write_def split: if_splits)

lemma Resize_total: "store_ok st \<Longrightarrow> Resize e st inst n \<noteq> None"
  using Stage_defined [of st inst e] by (auto simp: Resize_def split: if_splits)

lemma GenerateKeyAndCsr_total: "layout_ok (g_layout st) \<Longrightarrow> GenerateKeyAndCsr e ssl st \<noteq> None"
  by (auto simp: GenerateKeyAndCsr_def Effective_total Let_def split: option.split)

lemma bundle_result:
  assumes "layout_ok (g_layout st)"
  obtains why dsk where "WriteTrustedIssuerBundle e ssl path st = Some (why, st\<lparr>g_disk := dsk\<rparr>)"
    "\<And>q. q \<noteq> path \<Longrightarrow> q \<noteq> tmp path \<Longrightarrow> dsk q = g_disk st q"
proof -
  obtain acc where acc: "collect_bundle e ssl st (issuerInstances (g_layout st)) ([], []) = Some acc"
    using bundle_collected [OF assms] by blast
  obtain why dsk where w: "AtomicWriteFileToDisk e path (snd acc) False (g_disk st) = (why, dsk)" by fastforce
  have other: "dsk q = g_disk st q" if "q \<noteq> path" "q \<noteq> tmp path" for q
    using w that by (auto simp: AtomicWriteFileToDisk_def WriteTempFile_def ReplaceWithTemp_def rename_file_def
        remove_file_def split: if_splits)
  show thesis
  proof (cases "snd acc = []")
    case True
    then show thesis using that [of _ "g_disk st"] acc by (simp add: WriteTrustedIssuerBundle_def)
  next
    case False
    then show thesis using that [OF _ other] acc w by (simp add: WriteTrustedIssuerBundle_def)
  qed
qed

lemma CommitStaged_keeps:
  assumes "store_ok st" "CommitStaged e st = (why, st')"
  shows "store_ok st' \<and> g_layout st' = g_layout st"
proof -
  have "g_layout st' = g_layout st \<and> (g_staged st' = [] \<or> g_staged st' = g_staged st)"
    using assms(2) by (auto simp: CommitStaged_def PromotePendingKey_def Let_def split: prod.splits sum.splits option.splits if_splits bool.splits)
  then show ?thesis using assms(1) by (elim conjE disjE) (simp_all add: store_ok_def omap_ok_def)
qed

text \<open>Every call returns and keeps the invariant.\<close>

definition keeps :: "hub_cert_paths \<Rightarrow> device \<Rightarrow> ('r \<times> device) option \<Rightarrow> bool" where
  "keeps p d m \<longleftrightarrow> (\<exists>r d'. m = Some (r, d') \<and> device_ok p d' \<and> g_deviceInstance d' = g_deviceInstance d)"

lemma keeps_Some [simp]: "keeps p d (Some (r, d')) \<longleftrightarrow> device_ok p d' \<and> g_deviceInstance d' = g_deviceInstance d"
  by (simp add: keeps_def)

lemma keeps_if: "keeps p d (if b then x else y) \<longleftrightarrow> (b \<longrightarrow> keeps p d x) \<and> (\<not> b \<longrightarrow> keeps p d y)"
  by simp

lemma device_store: "device_ok p d \<Longrightarrow> store_ok (g_store d)"
  by (simp add: device_ok_def)

lemma store_ok_layout: "store_ok st \<Longrightarrow> layout_ok (g_layout st)"
  by (simp add: store_ok_def)

lemma store_ok_flag [simp]: "store_ok (st\<lparr>g_commitPromotesPendingKey := b\<rparr>) \<longleftrightarrow> store_ok st"
  by (simp add: store_ok_def)

lemma store_ok_disk [simp]: "store_ok (st\<lparr>g_disk := x\<rparr>) \<longleftrightarrow> store_ok st"
  by (simp add: store_ok_def)

lemma device_ok_store: "device_ok p d \<Longrightarrow> store_ok st \<Longrightarrow> g_layout st = g_layout (g_store d) \<Longrightarrow> device_ok p (d\<lparr> g_store := st \<rparr>)"
  by (simp add: device_ok_def zone_ok_def)

lemma device_ok_flags [simp]:
  "device_ok p (d\<lparr> g_scReloadCredentialsRequested := b \<rparr>) \<longleftrightarrow> device_ok p d"
  "device_ok p (d\<lparr> g_daylightSavings := b \<rparr>) \<longleftrightarrow> device_ok p d"
  "device_ok p (d\<lparr> g_clockOffsetSeconds := n \<rparr>) \<longleftrightarrow> device_ok p d"
  "device_ok p (d\<lparr> g_fileArchive := (g_fileArchive d)[i := b] \<rparr>) \<longleftrightarrow> device_ok p d"
  by (simp_all add: device_ok_def zone_ok_def)

lemma ValidateStaged_keeps:
  "store_ok st \<Longrightarrow> ValidateStaged e ssl st = Some (why, st') \<Longrightarrow> store_ok st' \<and> g_layout st' = g_layout st"
  by (drule ValidateStaged_frame) auto

lemma CallbackWriteFile_keeps:
  assumes "device_ok p d" shows "keeps p d (CallbackWriteFile e dev inst fileStart data d)"
proof -
  note ok = device_store [OF assms]
  obtain r st where w: "Write e (g_store d) inst fileStart (map char_of_byte data) = Some (r, st)"
    by (rule pair_cases [OF Write_total [OF ok]])
  have "device_ok p (d\<lparr> g_store := st \<rparr>)" using Write_keeps [OF ok w] by (intro device_ok_store [OF assms]) auto
  then show ?thesis using assms w by (simp add: CallbackWriteFile_def)
qed

lemma SetPropertyUnsignedInteger_keeps:
  assumes "device_ok p d" shows "keeps p d (SetPropertyUnsignedInteger e dev type inst prop val d)"
proof -
  note ok = device_store [OF assms]
  obtain r st where w: "Resize e (g_store d) inst val = Some (r, st)"
    by (rule pair_cases [OF Resize_total [OF ok]])
  have "device_ok p (d\<lparr> g_store := st \<rparr>)" using Resize_keeps [OF ok w] by (intro device_ok_store [OF assms]) auto
  then show ?thesis using assms w by (simp add: SetPropertyUnsignedInteger_def)
qed

text \<open>How a ReinitializeDevice that the guards let through ends.\<close>

lemma ReinitializeDevice_cases:
  assumes "device_ok p d" "dev = g_deviceInstance d"
    "reinitializedState = REINITIALIZE_STATE_ACTIVATE_CHANGES \<or> reinitializedState = REINITIALIZE_STATE_WARMSTART"
    "HasStagedChanges (g_store d)"
  obtains (refused) why st where "ValidateStaged e ssl (g_store d) = Some (Some why, st)"
      "ReinitializeDevice e ssl dev reinitializedState d = Some (Inl (Some ERROR_CODE_INVALID_CONFIGURATION_DATA), d\<lparr> g_store := st \<rparr>)"
    | (stopped) st why st2 where "ValidateStaged e ssl (g_store d) = Some (None, st)" "CommitStaged e st = (Some why, st2)"
      "ReinitializeDevice e ssl dev reinitializedState d = Some (Inl (Some ERROR_CODE_INVALID_CONFIGURATION_DATA), d\<lparr> g_store := st2 \<rparr>)"
    | (activated) st st2 dsk where "ValidateStaged e ssl (g_store d) = Some (None, st)" "CommitStaged e st = (None, st2)"
      "ReinitializeDevice e ssl dev reinitializedState d =
        Some (Inr (), d\<lparr> g_store := st2\<lparr>g_disk := dsk\<rparr>, g_scReloadCredentialsRequested := True \<rparr>)"
      "\<And>q. q \<noteq> g_scTrustedIssuersPath d \<Longrightarrow> q \<noteq> tmp (g_scTrustedIssuersPath d) \<Longrightarrow> dsk q = g_disk st2 q"
proof -
  have lay: "layout_ok (g_layout (g_store d))" by (rule device_layout [OF assms(1)])
  have ok: "store_ok (g_store d)" using assms(1) by (simp add: device_ok_def)
  obtain why st where v: "ValidateStaged e ssl (g_store d) = Some (why, st)"
    by (rule pair_cases [OF ValidateStaged_total [OF lay]])
  note R = ReinitializeDevice_def
  show thesis
  proof (cases why)
    case (Some w)
    then show thesis using refused [of w st] v assms(2-4) by (auto simp: R)
  next
    case None
    obtain why2 st2 where c: "CommitStaged e st = (why2, st2)" by fastforce
    have st: "store_ok st" "g_layout st = g_layout (g_store d)"
      using ValidateStaged_frame [OF v] ok by auto
    show thesis
    proof (cases why2)
      case (Some w)
      then show thesis using stopped [of st w st2] v None c assms(2-4) by (auto simp: R)
    next
      case n2: None
      have "layout_ok (g_layout st2)" using CommitStaged_keeps [OF st(1) c] store_ok_layout by blast
      then obtain w3 dsk where b: "WriteTrustedIssuerBundle e ssl (g_scTrustedIssuersPath d) st2 = Some (w3, st2\<lparr>g_disk := dsk\<rparr>)"
        "\<And>q. q \<noteq> g_scTrustedIssuersPath d \<Longrightarrow> q \<noteq> tmp (g_scTrustedIssuersPath d) \<Longrightarrow> dsk q = g_disk st2 q"
        by (rule bundle_result [where e = e and ssl = ssl and path = "g_scTrustedIssuersPath d"]) blast
      show thesis by (rule activated [of st st2 dsk]) (use v None c n2 b assms(2-4) in \<open>auto simp: R\<close>)
    qed
  qed
qed

lemma ReinitializeDevice_keeps:
  assumes "device_ok p d" shows "keeps p d (ReinitializeDevice e ssl dev reinitializedState d)"
proof (cases "dev = g_deviceInstance d \<and> (reinitializedState = REINITIALIZE_STATE_ACTIVATE_CHANGES \<or>
    reinitializedState = REINITIALIZE_STATE_WARMSTART) \<and> HasStagedChanges (g_store d)")
  case False
  then show ?thesis using assms by (auto simp: ReinitializeDevice_def)
next
  case True
  note v = ValidateStaged_keeps [OF device_store [OF assms]]
  have c: "store_ok st2 \<and> g_layout st2 = g_layout (g_store d)"
    if "ValidateStaged e ssl (g_store d) = Some (why, st)" "CommitStaged e st = (why2, st2)" for why st why2 st2
    using v [OF that(1)] CommitStaged_keeps [OF _ that(2)] by simp
  from True have t: "dev = g_deviceInstance d" "reinitializedState = REINITIALIZE_STATE_ACTIVATE_CHANGES \<or>
    reinitializedState = REINITIALIZE_STATE_WARMSTART" "HasStagedChanges (g_store d)" by blast+
  from assms t show ?thesis
  proof (cases rule: ReinitializeDevice_cases [where e = e and ssl = ssl])
    case (refused why st)
    then show ?thesis using device_ok_store [OF assms, of st] v [OF refused(1)] by simp
  next
    case (stopped st why st2)
    then show ?thesis using device_ok_store [OF assms, of st2] c [OF stopped(1,2)] by simp
  next
    case (activated st st2 dsk)
    have "device_ok p (d\<lparr> g_store := st2\<lparr>g_disk := dsk\<rparr> \<rparr>)"
      using c [OF activated(1,2)] by (intro device_ok_store [OF assms]) simp_all
    then show ?thesis using activated(3) by simp
  qed
qed

lemma NetworkPortCommand_keeps:
  assumes "device_ok p d" shows "keeps p d (NetworkPortCommand e ssl dev port command d)"
proof -
  note ok = device_store [OF assms]
  obtain why st where g: "GenerateKeyAndCsr e ssl (g_store d) = Some (why, st)"
    by (rule pair_cases [OF GenerateKeyAndCsr_total [OF device_layout [OF assms]]])
  have "store_ok st \<and> g_layout st = g_layout (g_store d)"
    using device_layout [OF assms] g by (cases rule: GenerateKeyAndCsr_cases) (use ok in auto)
  then have "device_ok p (d\<lparr> g_store := st \<rparr>)" by (intro device_ok_store [OF assms]) auto
  moreover have "store_ok (DiscardStaged (g_store d))" using ok by (simp add: DiscardStaged_def store_ok_def)
  then have "device_ok p (d\<lparr> g_store := DiscardStaged (g_store d) \<rparr>)"
    by (intro device_ok_store [OF assms]) (simp_all add: DiscardStaged_def)
  ultimately show ?thesis using g assms by (auto simp: NetworkPortCommand_def)
qed

lemma SetPropertyBool_keeps:
  assumes "device_ok p d" shows "keeps p d (SetPropertyBool dev type inst prop val d)"
proof -
  have "inst - FILE_OPERATIONAL_CERT_INSTANCE < length (g_fileArchive d)" if "IsScCertFileInstance inst"
    using that assms by (auto simp: IsScCertFileInstance_def device_ok_def)
  then show ?thesis using assms by (auto simp: SetPropertyBool_def keeps_if)
qed

lemma smod_dvd: "0 < k \<Longrightarrow> (v :: int) smod k = 0 \<longleftrightarrow> k dvd v"
  by (simp add: signed_modulo_int_def mod_eq_0_iff_dvd sgn_eq_0_iff) auto

lemma SetPropertySignedInteger_keeps:
  assumes "device_ok p d" shows "keeps p d (Some (SetPropertySignedInteger dev type inst prop val d))"
proof -
  have "device_ok p (d\<lparr> g_utcOffsetMinutes := val \<rparr>)" if "-1440 \<le> val" "val \<le> 1440" "15 dvd val"
    using assms that by (simp add: device_ok_def zone_ok_def)
  then show ?thesis using assms by (simp add: SetPropertySignedInteger_def smod_dvd)
qed

lemma SetSystemTime_keeps:
  assumes "device_ok p d" shows "keeps p d (Some (SetSystemTime now dev year month day hour minute second d))"
  using assms by (simp add: SetSystemTime_def Let_def)

lemma keeps_step:
  "keeps p d m \<Longrightarrow> \<exists>d'. map_option snd m = Some d' \<and> device_ok p d' \<and> g_deviceInstance d' = g_deviceInstance d"
  "keeps p d (Some x) \<Longrightarrow> \<exists>d'. Some (snd x) = Some d' \<and> device_ok p d' \<and> g_deviceInstance d' = g_deviceInstance d"
  by (auto simp: keeps_def)

lemma device_step_keeps:
  assumes "device_ok p d"
  shows "\<exists>d'. device_step e ssl now dev call d = Some d' \<and> device_ok p d' \<and> g_deviceInstance d' = g_deviceInstance d"
  by (cases call; simp only: device_step_def device_call.case; rule keeps_step;
      rule SetPropertyBool_keeps SetPropertyUnsignedInteger_keeps CallbackWriteFile_keeps ReinitializeDevice_keeps
        NetworkPortCommand_keeps SetPropertySignedInteger_keeps SetSystemTime_keeps; rule assms)

lemma device_run_keeps:
  "device_ok p d \<Longrightarrow> \<exists>d'. device_run calls d = Some d' \<and> device_ok p d' \<and> g_deviceInstance d' = g_deviceInstance d"
proof (induction calls arbitrary: d)
  case (Cons c calls)
  obtain e ssl now dev call where c: "c = (e, ssl, now, dev, call)" by (cases c)
  obtain d1 where "device_step e ssl now dev call d = Some d1" "device_ok p d1" "g_deviceInstance d1 = g_deviceInstance d"
    using device_step_keeps [OF Cons.prems] by blast
  then show ?case using Cons.IH [of d1] c by auto
qed simp

lemma open_store_ok: "paths_ok p \<Longrightarrow> store_ok (open_store p dsk) \<and> g_layout (open_store p dsk) = hub_layout p"
  by (simp add: open_store_def SetLayout_def store_ok_def hub_layout_ok)

lemma InitTimeZone_frame:
  "\<exists>n b. InitTimeZoneFromHost now hostLocal d = d\<lparr> g_utcOffsetMinutes := n, g_daylightSavings := b \<rparr>"
  by (auto simp: InitTimeZoneFromHost_def Let_def split: option.split)

lemma InitTimeZone_same [simp]:
  fixes d :: device
  shows "g_store (InitTimeZoneFromHost now hostLocal d) = g_store d"
    "g_fileArchive (InitTimeZoneFromHost now hostLocal d) = g_fileArchive d"
    "g_scTrustedIssuersPath (InitTimeZoneFromHost now hostLocal d) = g_scTrustedIssuersPath d"
    "g_deviceInstance (InitTimeZoneFromHost now hostLocal d) = g_deviceInstance d"
  using InitTimeZone_frame [of now hostLocal d] by auto

lemma start_device_ok:
  assumes "paths_ok p" shows "device_ok p (start_device c p firmware addresses now hostLocal dsk)"
  using assms open_store_ok [OF assms, of dsk] by (simp add: device_ok_def start_device_def InitTimeZoneFromHost_ok)

text \<open>C8: The type invariant of the device.  From the start-up state, and whatever the BACnet stack calls in
  whatever order, every callback returns; UTC_Offset stays a multiple of a quarter of an hour within a
  day (also when it comes from the host), the four Archive flags stay four, no other device instance
  appears, and the certificate store stays sound over the layout of the hub.\<close>

theorem device_type_invariant:
  "\<exists>d. device_run calls (start_device c (ResolveHubCertPaths dir inst listing) firmware addresses now hostLocal dsk) = Some d \<and>
    -1440 \<le> g_utcOffsetMinutes d \<and> g_utcOffsetMinutes d \<le> 1440 \<and> 15 dvd g_utcOffsetMinutes d \<and>
    length (g_fileArchive d) = 4 \<and> g_deviceInstance d = deviceInstance c \<and>
    store_ok (g_store d) \<and> g_layout (g_store d) = hub_layout (ResolveHubCertPaths dir inst listing)"
  using device_run_keeps [OF start_device_ok [OF resolved_paths_ok [of dir inst listing]],
      of calls c firmware addresses now hostLocal dsk]
  by (auto simp: device_ok_def zone_ok_def start_device_def)

section \<open>Reading a file in pieces\<close>

text \<open>The contents of a file object, and a client that reads it from the start, a number of octets at a
  time, until the device says it is at the end.\<close>

definition file_bytes :: "os \<Rightarrow> device \<Rightarrow> nat \<Rightarrow> bytes option" where
  "file_bytes e d inst = (case store_read e (g_store d) inst of Some (Some s) \<Rightarrow> Some (map byte s) | _ \<Rightarrow> None)"

partial_function (option) read_pieces :: "os \<Rightarrow> device \<Rightarrow> nat \<Rightarrow> nat \<Rightarrow> nat \<Rightarrow> bytes \<Rightarrow> bytes option" where
  "read_pieces e d inst count start acc =
    (case CallbackReadFile e d (g_deviceInstance d) inst start count (replicate count 0) count of
       Some (Some (got, endOfFile, buf)) \<Rightarrow>
         if endOfFile then Some (acc @ take got buf) else read_pieces e d inst count (start + got) (acc @ take got buf)
     | _ \<Rightarrow> None)"

lemma CallbackReadFile_piece:
  assumes "IsScCertFileInstance inst" "store_read e (g_store d) inst = Some (Some s)" "length s < 2 ^ 32"
    "start \<le> length s"
  shows "\<exists>buf. CallbackReadFile e d (g_deviceInstance d) inst start count (replicate count 0) count =
      Some (Some (length (take count (drop start s)), length s \<le> start + length (take count (drop start s)), buf)) \<and>
    take (length (take count (drop start s))) buf = map byte (take count (drop start s))"
proof (cases "count < length s - start")
  case True
  then show ?thesis using assms by (simp add: CallbackReadFile_def Udp_Links.store_def)
next
  case False
  then have "length (drop start s) \<le> count" by simp
  then have all: "take count (drop start s) = drop start s" by simp
  show ?thesis
    using assms False by (simp add: CallbackReadFile_def Udp_Links.store_def all Let_def)
qed

lemma read_pieces_step:
  assumes "CallbackReadFile e d (g_deviceInstance d) inst start count (replicate count 0) count = Some (Some (got, eof, buf))"
  shows "read_pieces e d inst count start acc =
    (if eof then Some (acc @ take got buf) else read_pieces e d inst count (start + got) (acc @ take got buf))"
  by (subst read_pieces.simps) (simp add: assms)

lemma read_pieces_from:
  assumes "IsScCertFileInstance inst" "store_read e (g_store d) inst = Some (Some s)" "length s < 2 ^ 32" "0 < count"
  shows "start \<le> length s \<Longrightarrow> read_pieces e d inst count start acc = Some (acc @ map byte (drop start s))"
proof (induction "length s - start" arbitrary: start acc rule: less_induct)
  case less
  let ?piece = "take count (drop start s)"
  obtain buf where buf: "CallbackReadFile e d (g_deviceInstance d) inst start count (replicate count 0) count =
      Some (Some (length ?piece, length s \<le> start + length ?piece, buf))" "take (length ?piece) buf = map byte ?piece"
    using CallbackReadFile_piece [OF assms(1-3) less.prems] by blast
  note step = read_pieces_step [OF buf(1), of acc, unfolded buf(2)]
  show ?case
  proof (cases "length s \<le> start + length ?piece")
    case True
    then have "?piece = drop start s" by simp
    then show ?thesis using True step by simp
  next
    case False
    then have n: "length ?piece = count" "start + count < length s" by auto
    have ih: "read_pieces e d inst count (start + count) (acc @ map byte ?piece) =
        Some ((acc @ map byte ?piece) @ map byte (drop (start + count) s))"
      by (rule less.hyps) (use n assms(4) in linarith)+
    have "?piece @ drop (start + count) s = drop start s"
      by (metis append_take_drop_id drop_drop add.commute)
    then have "map byte ?piece @ map byte (drop (start + count) s) = (map byte (drop start s) :: bytes)"
      by (metis map_append)
    then show ?thesis using False step ih by (simp only: n(1) if_False append_assoc)
  qed
qed


section \<open>What a read can reach\<close>

text \<open>The device over another disk.\<close>

definition with_disk :: "disk \<Rightarrow> device \<Rightarrow> device" where
  "with_disk dsk d = d\<lparr> g_store := (g_store d)\<lparr>g_disk := dsk\<rparr> \<rparr>"

lemma own_path_managed: "OwnPath st inst \<noteq> [] \<Longrightarrow> OwnPath st inst \<in> snd ` set (paths (g_layout st))"
  by (auto simp: OwnPath_def split: option.splits intro: path_in)

lemma reads_only_managed:
  assumes "layout_ok (g_layout st)" "\<And>q. q \<in> snd ` set (paths (g_layout st)) \<Longrightarrow> dsk q = g_disk st q"
  shows "store_read e (st\<lparr>g_disk := dsk\<rparr>) inst = store_read e st inst \<and>
    store_stat (st\<lparr>g_disk := dsk\<rparr>) inst = store_stat st inst"
proof -
  let ?st = "st\<lparr>g_disk := dsk\<rparr>"
  have own: "OwnPath ?st i = OwnPath st i" for i by (simp add: OwnPath_def)
  have same: "OwnPath st i = [] \<or> dsk (OwnPath st i) = g_disk st (OwnPath st i)" for i
    using own_path_managed [of st i] assms(2) by blast
  have fb: "FallbackInstance ?st i = FallbackInstance st i" for i
    using same [of i] by (auto simp: FallbackInstance_def own Let_def disk_exists_def)
  have read: "read_own e ?st i = read_own e st i" for i
    using same [of i] by (auto simp: read_own_def own ReadDisk_def split: option.split)
  have lay: "layout_ok (g_layout ?st)" using assms(1) by simp
  have base: "store_stat ?st i = store_stat st i" if "FallbackInstance st i = 0" for i
    using that same [of i] fb [of i] by (auto simp: store_stat.simps [of _ i] own split: option.split)
  have "store_stat ?st inst = store_stat st inst"
  proof (cases "FallbackInstance st inst = 0")
    case True
    then show ?thesis by (rule base)
  next
    case False
    note flat = FallbackInstance_flat [OF assms(1) False]
    show ?thesis
      using False fb [of inst] base [OF flat]
      by (simp add: store_stat.simps [of ?st inst] store_stat.simps [of st inst] split: option.split)
  qed
  moreover have "read_once e ?st inst = read_once e st inst" by (simp add: read_once_def read fb)
  ultimately show ?thesis by (simp add: store_read_total [OF lay] store_read_total [OF assms(1)])
qed

text \<open>C7: No read over BACnet depends on a private key.  Replace or remove the private key file,
  or the pending one, by anything: AtomicReadFile, File_Size and Modification_Date of every file
  object answer exactly the same, octet for octet.\<close>

theorem private_key_never_read:
  assumes "device_ok p d" "k = privateKey p \<or> k = pendingPrivateKey p"
  shows "CallbackReadFile e (with_disk ((g_disk (g_store d))(k := any)) d) dev inst start count buf room =
      CallbackReadFile e d dev inst start count buf room \<and>
    GetPropertyUnsignedInteger (with_disk ((g_disk (g_store d))(k := any)) d) dev type inst prop =
      GetPropertyUnsignedInteger d dev type inst prop \<and>
    GetPropertyDate now (with_disk ((g_disk (g_store d))(k := any)) d) dev type inst prop =
      GetPropertyDate now d dev type inst prop \<and>
    GetPropertyTime now (with_disk ((g_disk (g_store d))(k := any)) d) dev type inst prop =
      GetPropertyTime now d dev type inst prop"
proof -
  let ?dsk = "(g_disk (g_store d))(k := any)"
  note lay = device_layout [OF assms(1)]
  have "k \<notin> snd ` set (paths (g_layout (g_store d)))"
    using layout_ok_facts(6,7) [OF lay] assms by (auto simp: device_ok_def hub_layout_eq)
  then have same: "?dsk q = g_disk (g_store d) q" if "q \<in> snd ` set (paths (g_layout (g_store d)))" for q
    using that by auto
  have r: "store_read e ((g_store d)\<lparr>g_disk := ?dsk\<rparr>) i = store_read e (g_store d) i \<and>
      store_stat ((g_store d)\<lparr>g_disk := ?dsk\<rparr>) i = store_stat (g_store d) i" for e i
    by (rule reads_only_managed [OF lay]) (rule same)
  have st: "StatScCertFile (with_disk ?dsk d) inst = StatScCertFile d inst"
    using r by (simp add: StatScCertFile_def with_disk_def)
  have now: "GetCurrentLocalTm now (with_disk ?dsk d) = GetCurrentLocalTm now d"
    by (simp add: GetCurrentLocalTm_def LocalSecondsFromUtc_def GetClock_def with_disk_def)
  have dev: "g_deviceInstance (with_disk ?dsk d) = g_deviceInstance d" by (simp add: with_disk_def)
  have "CallbackReadFile e (with_disk ?dsk d) dev inst start count buf room = CallbackReadFile e d dev inst start count buf room"
    using r by (simp add: CallbackReadFile_def with_disk_def)
  moreover have "GetPropertyUnsignedInteger (with_disk ?dsk d) dev type inst prop = GetPropertyUnsignedInteger d dev type inst prop"
    by (simp add: GetPropertyUnsignedInteger_def dev st) (simp add: with_disk_def)
  moreover have "GetPropertyDate now (with_disk ?dsk d) dev type inst prop = GetPropertyDate now d dev type inst prop"
    by (simp add: GetPropertyDate_def dev st now file_calendar_def)
  moreover have "GetPropertyTime now (with_disk ?dsk d) dev type inst prop = GetPropertyTime now d dev type inst prop"
    by (simp add: GetPropertyTime_def dev st now file_calendar_def)
  ultimately show ?thesis by blast
qed

section \<open>The certificate procedure\<close>

text \<open>The client's part of clause 19.8.3: the octets of a file, written in pieces, each at the end.\<close>

fun write_pieces :: "os \<Rightarrow> nat \<Rightarrow> bytes list \<Rightarrow> device \<Rightarrow> (bool \<times> device) option" where
  "write_pieces e inst [] d = Some (True, d)"
| "write_pieces e inst (chunk # chunks) d = do {
     (r, d) \<leftarrow> CallbackWriteFile e (g_deviceInstance d) inst (-1) chunk d;
     (case r of Inl why \<Rightarrow> Some (False, d) | Inr at \<Rightarrow> write_pieces e inst chunks d) }"

lemma writable_managed: "device_ok p d \<Longrightarrow> IsWritableScCertFileInstance inst \<Longrightarrow> omap_has (paths (g_layout (g_store d))) inst"
  by (auto simp: IsWritableScCertFileInstance_def device_ok_def hub_layout_eq omap_has_def)

lemma Write_at_end:
  assumes "store_ok st" "omap_has (paths (g_layout st)) inst" "length (contents e st inst) + length data \<le> MAX_FILE_BYTES"
  obtains st' where "Write e st inst (-1) data = Some (Inr (length (contents e st inst)), st')" "store_ok st'"
    "g_disk st' = g_disk st" "g_layout st' = g_layout st" "contents e st' inst = contents e st inst @ data"
    "omap_has (g_staged st') inst"
proof -
  obtain s st1 where s: "Stage e st inst = Some (Some (s, st1))"
    using Stage_defined [OF assms(1), of inst e] assms(2) by auto
  note r = Stage_result [OF assms(1) s]
  let ?t = "\<lparr>s_bytes = splice (s_bytes s) (length (s_bytes s)) data, s_modified = clock_now e\<rparr>"
  have w: "Write e st inst (-1) data = Some (Inr (length (contents e st inst)), st1\<lparr>g_staged := omap_put inst ?t (g_staged st1)\<rparr>)"
    using s r assms(3) by (simp add: Write_def Let_def)
  have ok1: "store_ok st1" and lay1: "g_layout st1 = g_layout st" using r by blast+
  have o: "omap_ok (g_staged st1)" "omap_has (paths (g_layout st1)) inst"
    using ok1 lay1 assms(2) by (simp_all add: store_ok_def)
  show thesis
    by (rule that [OF w store_ok_put [OF ok1 o(2)]])
      (use r o(1) contents_put [OF o(1)] in \<open>simp_all add: splice_def omap_has_def\<close>)
qed

lemma write_pieces_result:
  "device_ok p d \<Longrightarrow> IsWritableScCertFileInstance inst \<Longrightarrow> omap_has (g_staged (g_store d)) inst \<Longrightarrow>
    length (contents e (g_store d) inst) + length (concat chunks) \<le> MAX_FILE_BYTES \<Longrightarrow>
    \<exists>st. write_pieces e inst chunks d = Some (True, d\<lparr> g_store := st \<rparr>) \<and> device_ok p (d\<lparr> g_store := st \<rparr>) \<and>
      g_disk st = g_disk (g_store d) \<and> omap_has (g_staged st) inst \<and>
      contents e st inst = contents e (g_store d) inst @ map char_of_byte (concat chunks)"
proof (induction chunks arbitrary: d)
  case Nil
  then show ?case by (intro exI [of _ "g_store d"]) simp
next
  case (Cons chunk chunks)
  let ?data = "map char_of_byte chunk"
  have fits: "length (contents e (g_store d) inst) + length ?data \<le> MAX_FILE_BYTES" using Cons.prems(4) by simp
  obtain st1 where w: "Write e (g_store d) inst (-1) ?data = Some (Inr (length (contents e (g_store d) inst)), st1)"
    "store_ok st1" "g_disk st1 = g_disk (g_store d)" "g_layout st1 = g_layout (g_store d)"
    "contents e st1 inst = contents e (g_store d) inst @ ?data" "omap_has (g_staged st1) inst"
    by (rule Write_at_end [OF device_store [OF Cons.prems(1)] writable_managed [OF Cons.prems(1,2)] fits])
  let ?d = "d\<lparr> g_store := st1 \<rparr>"
  have ok: "device_ok p ?d" by (rule device_ok_store [OF Cons.prems(1) w(2,4)])
  have call: "CallbackWriteFile e (g_deviceInstance d) inst (-1) chunk d = Some (Inr (length (contents e (g_store d) inst)), ?d)"
    using Cons.prems(2) w(1) by (simp add: CallbackWriteFile_def)
  obtain st where st: "write_pieces e inst chunks ?d = Some (True, ?d\<lparr> g_store := st \<rparr>)" "device_ok p (?d\<lparr> g_store := st \<rparr>)"
    "g_disk st = g_disk st1" "omap_has (g_staged st) inst" "contents e st inst = contents e st1 inst @ map char_of_byte (concat chunks)"
    using Cons.IH [OF ok Cons.prems(2)] w(5,6) Cons.prems(4) by auto
  then show ?case using call w(3,5) by (intro exI [of _ st]) simp
qed

lemma Resize_to_zero:
  assumes "store_ok st" "omap_has (paths (g_layout st)) inst"
  obtains st' where "Resize e st inst 0 = Some (Inr (), st')" "store_ok st'"
    "g_disk st' = g_disk st" "g_layout st' = g_layout st" "contents e st' inst = []" "omap_has (g_staged st') inst"
proof -
  obtain s st1 where s: "Stage e st inst = Some (Some (s, st1))"
    using Stage_defined [OF assms(1), of inst e] assms(2) by auto
  note r = Stage_result [OF assms(1) s]
  let ?t = "\<lparr>s_bytes = resize_string (s_bytes s) 0, s_modified = clock_now e\<rparr>"
  have w: "Resize e st inst 0 = Some (Inr (), st1\<lparr>g_staged := omap_put inst ?t (g_staged st1)\<rparr>)"
    using s by (simp add: Resize_def)
  have ok1: "store_ok st1" and lay1: "g_layout st1 = g_layout st" using r by blast+
  have o: "omap_ok (g_staged st1)" "omap_has (paths (g_layout st1)) inst"
    using ok1 lay1 assms(2) by (simp_all add: store_ok_def)
  show thesis
    by (rule that [OF w store_ok_put [OF ok1 o(2)]])
      (use r o(1) contents_put [OF o(1)] in \<open>simp_all add: resize_string_def omap_has_def\<close>)
qed

text \<open>A commit, however it ends, changes what no file reads as.\<close>

lemma CommitStaged_reads:
  assumes "store_ok st" "all_readable e" "CommitStaged e st = (why, st')"
  shows "read_once e st' inst = read_once e st inst"
proof (cases "why = None \<or> why = Some CouldNotPromote")
  case True
  then show ?thesis using CommitStaged_ends [OF assms] by blast
next
  case False
  then obtain w where w: "why = Some w" "w \<noteq> CouldNotPromote" by auto
  then obtain dsk where dsk: "st' = st\<lparr>g_disk := dsk\<rparr>"
    "\<And>q. q \<notin> tmp ` set (staged_paths (g_layout st) (g_staged st)) \<Longrightarrow>
      q \<notin> set (staged_paths (g_layout st) (g_staged st)) \<or> (\<forall>p. w \<noteq> CouldNotReplace p) \<Longrightarrow> dsk q = g_disk st q"
    using CommitStaged_fails [OF assms(1) assms(3)[unfolded w(1)] w(2)] by blast
  have "dsk q = g_disk st q" if "map_of (g_staged st) i = None" "map_of (paths (g_layout st)) i = Some q" for i q
    using dsk(2) path_unstaged [OF assms(1) that] by simp
  then show ?thesis by (intro read_once_cong) (use assms(2) in \<open>simp_all add: dsk(1)\<close>)
qed

text \<open>The bundle is none of the store's files.\<close>

lemma bundle_unmanaged:
  assumes "device_ok p d"
  shows "g_scTrustedIssuersPath d \<notin> set (file_paths (hub_layout p)) \<and> tmp (g_scTrustedIssuersPath d) \<notin> set (file_paths (hub_layout p))"
proof -
  have ok: "paths_ok p" "g_scTrustedIssuersPath d = trustedIssuers p" using assms by (simp_all add: device_ok_def)
  have sub: "set (file_paths (hub_layout p)) \<subseteq> set (all_paths p)" by (auto simp: file_paths_def hub_layout_eq all_paths_def)
  have "last (tmp (trustedIssuers p)) = CHR ''p''" by (simp add: tmp_def)
  then have "tmp (trustedIssuers p) \<notin> set (all_paths p)" using ok(1) unfolding paths_ok_def by metis
  moreover have "trustedIssuers p \<notin> set (file_paths (hub_layout p))"
    using ok(1) by (auto simp: paths_ok_def all_paths_def file_paths_def hub_layout_eq)
  ultimately show ?thesis using sub ok(2) by auto
qed

lemma working_pair_disk:
  assumes "layout_ok (g_layout st)" "all_readable e" "\<And>q. q \<in> set (file_paths (g_layout st)) \<Longrightarrow> dsk q = g_disk st q"
  shows "working_pair e ssl (st\<lparr>g_disk := dsk\<rparr>) = working_pair e ssl st"
proof -
  have "disk_leaf e ssl (st\<lparr>g_disk := dsk\<rparr>) = disk_leaf e ssl st"
    using assms(3) layout_ok_facts(3) [OF assms(1)] by (intro disk_leaf_cong) (auto simp: assms(2))
  moreover have "key_fits e ssl dsk (privateKeyPath (g_layout st)) leaf = key_fits e ssl (g_disk st) (privateKeyPath (g_layout st)) leaf" for leaf
    using assms(3) layout_ok_facts(4) [OF assms(1)] by (intro key_fits_cong [OF _ _ assms(2,2)]) auto
  ultimately show ?thesis by (simp add: working_pair_def split: option.split)
qed

lemma hub_path: "map_of (paths (hub_layout p)) inst = Some q \<Longrightarrow> q = ScCertFilePath p inst"
  by (auto simp: hub_layout_eq ScCertFilePath_def split: if_splits)

lemma staged_hub_path:
  assumes "device_ok p d" "map_of (g_staged (g_store d)) inst = Some s"
  shows "map_of (paths (g_layout (g_store d))) inst = Some (ScCertFilePath p inst)"
proof -
  have "(inst, s) \<in> set (g_staged (g_store d))" using assms(2) by (rule map_of_SomeD)
  then obtain q where q: "map_of (paths (g_layout (g_store d))) inst = Some q"
    by (rule staged_has_path [OF device_store [OF assms(1)]])
  moreover have "g_layout (g_store d) = hub_layout p" using assms(1) by (simp add: device_ok_def)
  ultimately show ?thesis using hub_path [of p inst q] by simp
qed

lemma validated_working_pair:
  assumes "store_ok st" "all_readable e" "ValidateStaged e ssl st = Some (None, st1)" "CommitStaged e st1 = (None, st2)"
  shows "working_pair e ssl st2"
  by (rule validated_commit [OF assms, OF disjI1 [OF refl]]) (simp add: working_pair_def)

text \<open>How an accepted ReinitializeDevice leaves the device.\<close>

definition reinit_ends :: "os \<Rightarrow> ('c, 'k) openssl \<Rightarrow> hub_cert_paths \<Rightarrow> device \<Rightarrow> (nat option + unit) \<Rightarrow> device \<Rightarrow> bool" where
  "reinit_ends e ssl p d r d' \<longleftrightarrow>
    (if r = Inr () then g_scReloadCredentialsRequested d' \<and> g_staged (g_store d') = [] \<and> working_pair e ssl (g_store d') \<and>
       (\<forall>i s. map_of (g_staged (g_store d)) i = Some s \<longrightarrow>
          map_option d_bytes (g_disk (g_store d') (ScCertFilePath p i)) = Some (s_bytes s))
     else r = Inl (Some ERROR_CODE_INVALID_CONFIGURATION_DATA) \<and>
       g_scReloadCredentialsRequested d' = g_scReloadCredentialsRequested d)"

lemma Reinitialize_outcome:
  assumes ok: "device_ok p d" and rd: "all_readable e" and staged: "HasStagedChanges (g_store d)"
    and g: "reinitializedState = REINITIALIZE_STATE_ACTIVATE_CHANGES \<or> reinitializedState = REINITIALIZE_STATE_WARMSTART"
  obtains r d' where "ReinitializeDevice e ssl (g_deviceInstance d) reinitializedState d = Some (r, d')" "device_ok p d'"
    "\<And>i. read_once e (g_store d') i = read_once e (g_store d) i"
    "reinit_ends e ssl p d r d'"
proof -
  note st_ok = device_store [OF ok]
  have kept: "device_ok p d'" if "ReinitializeDevice e ssl (g_deviceInstance d) reinitializedState d = Some (r, d')" for r d'
    using ReinitializeDevice_keeps [OF ok, of e ssl "g_deviceInstance d" reinitializedState] that by simp
  have val: "store_ok st \<and> g_layout st = g_layout (g_store d) \<and> g_staged st = g_staged (g_store d) \<and>
      (\<forall>i. read_once e st i = read_once e (g_store d) i)"
    if v: "ValidateStaged e ssl (g_store d) = Some (why, st)" for why st
  proof -
    obtain b where st: "st = (g_store d)\<lparr>g_commitPromotesPendingKey := b\<rparr>" using ValidateStaged_frame [OF v] by blast
    have "read_once e st i = read_once e (g_store d) i" for i by (rule read_once_cong) (simp_all add: st rd)
    then show ?thesis using st_ok by (simp add: st)
  qed
  from ok refl g staged show thesis
  proof (cases rule: ReinitializeDevice_cases [where e = e and ssl = ssl])
    case (refused why st)
    show thesis by (rule that [OF refused(2) kept [OF refused(2)]]) (use val [OF refused(1)] in \<open>simp_all add: reinit_ends_def\<close>)
  next
    case (stopped st why st2)
    have "read_once e st2 i = read_once e (g_store d) i" for i
      using val [OF stopped(1)] CommitStaged_reads [OF _ rd stopped(2), of i] by simp
    then show thesis by (intro that [OF stopped(3) kept [OF stopped(3)]]) (simp_all add: reinit_ends_def)
  next
    case (activated st st2 dsk)
    note v = val [OF activated(1)]
    note ends = CommitStaged_ends [OF _ rd activated(2), simplified]
    have lay: "g_layout st2 = hub_layout p" "store_ok st2" "g_staged st2 = []"
      using v ends ok by (auto simp: device_ok_def)
    then have lok: "layout_ok (g_layout st2)" using store_ok_layout by blast
    have same: "dsk q = g_disk st2 q" if "q \<in> set (file_paths (g_layout st2))" for q
      using activated(4) that bundle_unmanaged [OF ok] lay(1) by metis
    have same_paths: "dsk q = g_disk st2 q" if "q \<in> snd ` set (paths (g_layout st2))" for q
      using same layout_ok_facts(3) [OF lok] that by blast
    have read: "read_once e (st2\<lparr>g_disk := dsk\<rparr>) i = read_once e (g_store d) i" for i
    proof -
      have "read_once e (st2\<lparr>g_disk := dsk\<rparr>) i = read_once e st2 i"
        by (rule read_once_cong) (use same_paths [OF path_in] rd in simp_all)
      then show ?thesis using v ends by simp
    qed
    have "working_pair e ssl (st2\<lparr>g_disk := dsk\<rparr>)"
      using validated_working_pair [OF st_ok rd activated(1,2)] working_pair_disk [OF lok rd same, of ssl] by simp
    moreover have "map_option d_bytes (dsk (ScCertFilePath p i)) = Some (s_bytes s)"
      if "map_of (g_staged (g_store d)) i = Some s" for i s
    proof -
      note q = staged_hub_path [OF ok that]
      have "g_disk st2 (ScCertFilePath p i) = Some (new_file e s)" using ends v q that by simp
      moreover have "ScCertFilePath p i \<in> snd ` set (paths (g_layout st2))"
        using path_in [OF q] lay(1) ok by (simp add: device_ok_def)
      ultimately show ?thesis using same_paths by (simp add: new_file_def)
    qed
    ultimately show thesis
      by (intro that [OF activated(3) kept [OF activated(3)]]) (use read lay(3) in \<open>simp_all add: reinit_ends_def\<close>)
  qed
qed

text \<open>C20: ReinitializeDevice, on every branch.  A wrong device instance or another state than
  ACTIVATE_CHANGES and WARMSTART is refused with optional-functionality-not-supported, and without staged
  changes nothing happens at all.  Otherwise it either succeeds: the key on disk fits the certificate on
  disk, nothing stays staged, and a reload of TLS is requested; or it answers invalid-configuration-data
  and requests none.  In every case each file reads afterwards as it did before.\<close>

theorem reinitialize_device_exact:
  assumes "device_ok p d" "all_readable e"
  shows "\<exists>r d'. ReinitializeDevice e ssl dev reinitializedState d = Some (r, d') \<and> device_ok p d' \<and>
    store_read e (g_store d') inst = store_read e (g_store d) inst \<and>
    (if dev \<noteq> g_deviceInstance d \<or> reinitializedState \<notin> {REINITIALIZE_STATE_ACTIVATE_CHANGES, REINITIALIZE_STATE_WARMSTART}
     then r = Inl (Some ERROR_CODE_OPTIONAL_FUNCTIONALITY_NOT_SUPPORTED) \<and> d' = d
     else if \<not> HasStagedChanges (g_store d) then r = Inr () \<and> d' = d
     else if r = Inr () then g_scReloadCredentialsRequested d' \<and> \<not> HasStagedChanges (g_store d') \<and> working_pair e ssl (g_store d')
     else r = Inl (Some ERROR_CODE_INVALID_CONFIGURATION_DATA) \<and>
       g_scReloadCredentialsRequested d' = g_scReloadCredentialsRequested d)"
proof (cases "dev \<noteq> g_deviceInstance d \<or> reinitializedState \<notin> {REINITIALIZE_STATE_ACTIVATE_CHANGES, REINITIALIZE_STATE_WARMSTART} \<or>
    \<not> HasStagedChanges (g_store d)")
  case True
  then show ?thesis using assms(1) by (auto simp: ReinitializeDevice_def)
next
  case False
  then have g: "dev = g_deviceInstance d" "HasStagedChanges (g_store d)"
    "reinitializedState = REINITIALIZE_STATE_ACTIVATE_CHANGES \<or> reinitializedState = REINITIALIZE_STATE_WARMSTART" by auto
  obtain r d' where r: "ReinitializeDevice e ssl (g_deviceInstance d) reinitializedState d = Some (r, d')" "device_ok p d'"
    "read_once e (g_store d') inst = read_once e (g_store d) inst"
    "reinit_ends e ssl p d r d'"
    by (rule Reinitialize_outcome [OF assms g(2,3), where ssl = ssl]) blast
  have "store_read e (g_store d') inst = store_read e (g_store d) inst"
    using r(3) by (simp add: store_read_total device_layout [OF r(2)] device_layout [OF assms(1)])
  moreover have "dev \<noteq> g_deviceInstance d \<or> reinitializedState \<notin> {REINITIALIZE_STATE_ACTIVATE_CHANGES, REINITIALIZE_STATE_WARMSTART} \<longleftrightarrow> False"
    using g(1,3) by auto
  ultimately show ?thesis
    using r(1,2,4) g(1,2) by (intro exI [of _ r] exI [of _ d']) (simp only: if_False simp_thms HasStagedChanges_def reinit_ends_def split: if_splits)
qed

text \<open>C3: The certificate procedure of clause 19.8.3 as a whole.  Setting File_Size to 0 and
  writing the new certificate in pieces at the end is accepted as long as the file stays within 64 KB;
  nothing on disk changes meanwhile, and the file already reads back as exactly the octets written.
  ReinitializeDevice then either puts exactly those octets in the file on disk, with a private key that fits,
  and requests the TLS reload, or it refuses and they remain readable as before.\<close>

theorem certificate_procedure_installs:
  assumes "device_ok p d" "all_readable e" "IsWritableScCertFileInstance inst" "length (concat chunks) \<le> MAX_FILE_BYTES"
  obtains d1 d2 r d3 where
    "SetPropertyUnsignedInteger e (g_deviceInstance d) OBJECT_TYPE_FILE inst PROPERTY_IDENTIFIER_FILE_SIZE 0 d = Some (Inr (), d1)"
    "write_pieces e inst chunks d1 = Some (True, d2)" "g_disk (g_store d2) = g_disk (g_store d)"
    "file_bytes e d2 inst = Some (concat chunks)"
    "ReinitializeDevice e ssl (g_deviceInstance d2) REINITIALIZE_STATE_ACTIVATE_CHANGES d2 = Some (r, d3)"
    "file_bytes e d3 inst = Some (concat chunks)"
    "if r = Inr () then map_option d_bytes (g_disk (g_store d3) (ScCertFilePath p inst)) = Some (map char_of_byte (concat chunks)) \<and>
       working_pair e ssl (g_store d3) \<and> g_scReloadCredentialsRequested d3
     else r = Inl (Some ERROR_CODE_INVALID_CONFIGURATION_DATA)"
proof -
  obtain st1 where z: "Resize e (g_store d) inst 0 = Some (Inr (), st1)" "store_ok st1" "g_disk st1 = g_disk (g_store d)"
    "g_layout st1 = g_layout (g_store d)" "contents e st1 inst = []" "omap_has (g_staged st1) inst"
    by (rule Resize_to_zero [OF device_store [OF assms(1)] writable_managed [OF assms(1,3)]])
  let ?d1 = "d\<lparr> g_store := st1 \<rparr>"
  have ok1: "device_ok p ?d1" by (rule device_ok_store [OF assms(1) z(2,4)])
  have c1: "SetPropertyUnsignedInteger e (g_deviceInstance d) OBJECT_TYPE_FILE inst PROPERTY_IDENTIFIER_FILE_SIZE 0 d = Some (Inr (), ?d1)"
    using z(1) assms(3) by (simp add: SetPropertyUnsignedInteger_def)
  obtain st2 where w: "write_pieces e inst chunks ?d1 = Some (True, ?d1\<lparr> g_store := st2 \<rparr>)" "device_ok p (?d1\<lparr> g_store := st2 \<rparr>)"
    "g_disk st2 = g_disk st1" "omap_has (g_staged st2) inst" "contents e st2 inst = map char_of_byte (concat chunks)"
    using write_pieces_result [OF ok1 assms(3), of e chunks] z(5,6) assms(4) by auto
  let ?d2 = "?d1\<lparr> g_store := st2 \<rparr>"
  obtain s where s: "map_of (g_staged st2) inst = Some s" using w(4) by (auto simp: omap_has_def)
  have bytes: "s_bytes s = map char_of_byte (concat chunks)"
    using w(5) read_once_staged [OF s, of e] by (simp add: contents_def)
  have rt: "map byte (map char_of_byte (concat chunks)) = concat chunks"
    by (simp add: comp_def)
  have read2: "read_once e st2 inst = Some (map char_of_byte (concat chunks))" using read_once_staged [OF s, of e] bytes by simp
  have staged: "HasStagedChanges (g_store ?d2)" using s by (auto simp: HasStagedChanges_def)
  obtain r d3 where r: "ReinitializeDevice e ssl (g_deviceInstance ?d2) REINITIALIZE_STATE_ACTIVATE_CHANGES ?d2 = Some (r, d3)"
    "device_ok p d3" "read_once e (g_store d3) inst = read_once e (g_store ?d2) inst"
    "reinit_ends e ssl p ?d2 r d3"
    by (rule Reinitialize_outcome [OF w(2) assms(2) staged disjI1 [OF refl], where ssl = ssl]) blast
  have fb: "file_bytes e d' inst = Some (concat chunks)"
    if "device_ok p d'" "read_once e (g_store d') inst = Some (map char_of_byte (concat chunks))" for d'
    using that(2) rt by (simp add: file_bytes_def store_read_total device_layout [OF that(1)])
  have fb2: "file_bytes e ?d2 inst = Some (concat chunks)" by (rule fb [OF w(2)]) (simp add: read2)
  have fb3: "file_bytes e d3 inst = Some (concat chunks)" by (rule fb [OF r(2)]) (simp add: r(3) read2)
  show thesis
    by (rule that [OF c1 w(1) _ fb2 r(1) fb3]) (use w(3) z(3) r(4) s bytes in \<open>auto simp: reinit_ends_def split: if_splits\<close>)
qed

section \<open>Setting the clock\<close>

text \<open>The date and time of a TimeSynchronization request, and the weekday of a date.\<close>

definition requested_tm :: "u8 \<Rightarrow> u8 \<Rightarrow> u8 \<Rightarrow> u8 \<Rightarrow> u8 \<Rightarrow> u8 \<Rightarrow> tm" where
  "requested_tm year month day hour minute second =
    \<lparr> tm_year = uint year, tm_mon = uint month - 1, tm_mday = uint day, tm_hour = uint hour, tm_min = uint minute,
      tm_sec = uint second, tm_wday = 0, tm_isdst = 0 \<rparr>"

definition bacnet_weekday :: "tm \<Rightarrow> u8" where
  "bacnet_weekday c = word_of_int (let w = (CalendarToSeconds c div 86400 + 4) mod 7 in if w = 0 then 7 else w)"

lemma month_len_le: "m < 12 \<Longrightarrow> month_len y m \<le> 31"
proof -
  assume "m < 12"
  then have "month_len y m \<in> set (month_lens y)" by (simp add: month_len_def month_lens_facts)
  then show ?thesis by (auto simp: month_lens_def split: if_splits)
qed

lemma u8_ne_255: "uint (w :: u8) < 255 \<Longrightarrow> w \<noteq> 255"
  by auto

lemma civil_specified:
  assumes "civil (requested_tm year month day hour minute second)"
  shows "month \<noteq> 255" "day \<noteq> 255" "hour \<noteq> 255" "minute \<noteq> 255" "second \<noteq> 255"
proof -
  have c: "0 \<le> uint month - 1" "uint month - 1 < 12" "uint hour < 24" "uint minute < 60" "uint second < 60"
    "uint day \<le> month_len (uint year + 1900) (nat (uint month - 1))"
    using assms by (simp_all add: civil_def requested_tm_def)
  have "nat (uint month - 1) < 12" using c(2) by simp
  then have "uint day \<le> 31" using c(6) month_len_le [of "nat (uint month - 1)" "uint year + 1900"] by linarith
  then show "month \<noteq> 255" "day \<noteq> 255" "hour \<noteq> 255" "minute \<noteq> 255" "second \<noteq> 255" using c by auto
qed

lemma minus_one_second: "SecondsToCalendar (-1) =
    Some \<lparr> tm_year = 69, tm_mon = 11, tm_mday = 31, tm_hour = 23, tm_min = 59, tm_sec = 59, tm_wday = 3, tm_isdst = 0 \<rparr>"
  by code_simp

lemma tm_eqI:
  "CalendarToSeconds c = -1 \<Longrightarrow> civil c \<Longrightarrow> tm_year c \<in> {0..255} \<Longrightarrow>
    tm_year c = 69 \<and> tm_mon c = 11 \<and> tm_mday c = 31 \<and> tm_hour c = 23 \<and> tm_min c = 59 \<and> tm_sec c = 59"
  using calendar_round_trip [of c] minus_one_second by (cases c) auto

text \<open>C21: TimeSynchronization sets the clock exactly.  After an accepted request Local_Date and
  Local_Time read as the date and time asked for, with that date's weekday, whatever UTC_Offset,
  Daylight_Savings_Status and the host's clock are, and both settings are kept; from then on the local
  time advances with the host's clock.  A real date is refused in one case only: the last second of
  1969-12-31, which \<^verbatim>\<open>timegm\<close> cannot tell from its error.\<close>

theorem time_synchronization_exact:
  assumes "civil (requested_tm year month day hour minute second)" "year \<noteq> 255"
  shows "if (year, month, day, hour, minute, second) = (69, 12, 31, 23, 59, 59)
    then SetSystemTime now (g_deviceInstance d) year month day hour minute second d = (False, d)
    else \<exists>d'. SetSystemTime now (g_deviceInstance d) year month day hour minute second (d :: device) = (True, d') \<and>
      g_utcOffsetMinutes d' = g_utcOffsetMinutes d \<and> g_daylightSavings d' = g_daylightSavings d \<and>
      GetPropertyDate now d' (g_deviceInstance d) OBJECT_TYPE_DEVICE (g_deviceInstance d) PROPERTY_IDENTIFIER_LOCAL_DATE =
        Some (Some (year, month, day, bacnet_weekday (requested_tm year month day hour minute second))) \<and>
      GetPropertyTime now d' (g_deviceInstance d) OBJECT_TYPE_DEVICE (g_deviceInstance d) PROPERTY_IDENTIFIER_LOCAL_TIME =
        Some (Some (hour, minute, second, 0)) \<and>
      (\<forall>k. GetCurrentLocalTm (now + k) d' =
        SecondsToCalendar (CalendarToSeconds (requested_tm year month day hour minute second) + k))"
proof -
  let ?c = "requested_tm year month day hour minute second"
  let ?s = "CalendarToSeconds ?c"
  have set: "SetSystemTime now (g_deviceInstance d) year month day hour minute second d =
      (if ?s = -1 then (False, d)
       else (True, d\<lparr> g_clockOffsetSeconds :=
         ?s + g_utcOffsetMinutes d * 60 - (if g_daylightSavings d then 3600 else 0) - now \<rparr>))"
    using civil_specified [OF assms(1)] assms(2) by (simp add: SetSystemTime_def requested_tm_def Let_def)
  have year: "uint year < 256" "0 \<le> uint year" using unsigned_less [of year] by (simp_all add: uint_nonnegative)
  have m1: "?s = -1 \<longleftrightarrow> (year, month, day, hour, minute, second) = (69, 12, 31, 23, 59, 59)"
  proof
    assume "?s = -1"
    from tm_eqI [OF this assms(1)] have "uint year = 69 \<and> uint month = 12 \<and> uint day = 31 \<and> uint hour = 23 \<and>
        uint minute = 59 \<and> uint second = 59"
      using year by (simp add: requested_tm_def)
    then show "(year, month, day, hour, minute, second) = (69, 12, 31, 23, 59, 59)"
      by (simp add: word_uint_eq_iff)
  next
    assume "(year, month, day, hour, minute, second) = (69, 12, 31, 23, 59, 59)"
    then show "?s = -1" by (simp add: requested_tm_def) code_simp
  qed
  let ?d = "d\<lparr> g_clockOffsetSeconds := ?s + g_utcOffsetMinutes d * 60 - (if g_daylightSavings d then 3600 else 0) - now \<rparr>"
  have later: "GetCurrentLocalTm (now + k) ?d = SecondsToCalendar (?s + k)" for k
    by (simp add: GetCurrentLocalTm_def LocalSecondsFromUtc_def GetClock_def add.commute)
  have at: "SecondsToCalendar ?s = Some (?c\<lparr> tm_wday := (?s div 86400 + 4) mod 7, tm_isdst := 0 \<rparr>)"
    using year by (intro calendar_round_trip [OF assms(1)]) (simp_all add: requested_tm_def order_trans [OF _ uint_nonnegative])
  then have now: "GetCurrentLocalTm now ?d = Some (?c\<lparr> tm_wday := (?s div 86400 + 4) mod 7, tm_isdst := 0 \<rparr>)"
    using later [of 0] by simp
  have "date_of (?c\<lparr> tm_wday := (?s div 86400 + 4) mod 7, tm_isdst := 0 \<rparr>) = (year, month, day, bacnet_weekday ?c)"
    by (simp add: date_of_def requested_tm_def bacnet_weekday_def Let_def)
  moreover have "time_of (?c\<lparr> tm_wday := (?s div 86400 + 4) mod 7, tm_isdst := 0 \<rparr>) = (hour, minute, second, 0)"
    by (simp add: time_of_def requested_tm_def)
  ultimately have "?s \<noteq> -1 \<Longrightarrow> SetSystemTime now (g_deviceInstance d) year month day hour minute second d = (True, ?d) \<and>
      g_utcOffsetMinutes ?d = g_utcOffsetMinutes d \<and> g_daylightSavings ?d = g_daylightSavings d \<and>
      GetPropertyDate now ?d (g_deviceInstance d) OBJECT_TYPE_DEVICE (g_deviceInstance d) PROPERTY_IDENTIFIER_LOCAL_DATE =
        Some (Some (year, month, day, bacnet_weekday ?c)) \<and>
      GetPropertyTime now ?d (g_deviceInstance d) OBJECT_TYPE_DEVICE (g_deviceInstance d) PROPERTY_IDENTIFIER_LOCAL_TIME =
        Some (Some (hour, minute, second, 0)) \<and>
      (\<forall>k. GetCurrentLocalTm (now + k) ?d = SecondsToCalendar (?s + k))"
    using set now later by (simp add: GetPropertyDate_def GetPropertyTime_def)
  then show ?thesis using set m1 by (auto split: if_splits)
qed

section \<open>Names and strings\<close>

lemma c_text_le: "length (c_text s) \<le> length s"
  by (simp add: c_text_def length_takeWhile_le)

lemma description_length: "length (ObjectDescription d type inst) \<le> 160"
  by (simp add: ObjectDescription_def)

lemma char_string_length:
  assumes "char_string d dev type inst prop = Some s" "length (g_deviceName d) \<le> 128" "length (g_firmwareRevision d) \<le> 31"
  shows "length s \<le> 160"
proof -
  have "length n \<le> 128" if "object_name d type inst = Some n" for n
    using that assms(2) by (auto simp: object_name_def split: if_splits)
  moreover have "length n \<le> 35" if "device_string d prop = Some n" for n
    using that assms(3) by (auto simp: device_string_def VENDOR_NAME_def MODEL_NAME_def APP_VERSION_def split: if_splits)
  ultimately show ?thesis
    using assms(1) description_length [of d type inst] by (fastforce simp: char_string_def split: if_splits)
qed

text \<open>Every string the device serves fits the 256 octets the stack reads it into: the whole
  text is copied, none of it is cut, and nothing is written outside the buffer, for every object and
  property, with the longest device name the command line lets in.\<close>

theorem served_strings_are_whole:
  assumes "length (g_deviceName d) \<le> MAX_DEVICE_NAME_BYTES" "length (g_firmwareRevision d) \<le> 31" "length buf = 256"
  shows "GetPropertyCharString d dev type inst prop buf 256 =
    Some (case char_string d dev type inst prop of None \<Rightarrow> None
      | Some s \<Rightarrow> Some (length (c_text s), c_text s @ drop (length (c_text s)) buf))"
proof (cases "char_string d dev type inst prop")
  case None
  then show ?thesis by (simp add: GetPropertyCharString_def)
next
  case (Some s)
  have "length (c_text s) \<le> 160"
    using c_text_le [of s] char_string_length [OF Some] assms(1,2) by (simp add: MAX_DEVICE_NAME_BYTES_def)
  then show ?thesis using Some assms(3)
    by (simp add: GetPropertyCharString_def ReturnCharacterString_def Udp_Links.store_def Let_def)
qed

text \<open>Two objects of the device never have the same Object_Name, except the Device itself when its
  configured name is the name of another object, which nothing checks.\<close>

theorem object_names_distinct:
  assumes "object_name d type inst = Some n" "object_name d type' inst' = Some n" "(type, inst) \<noteq> (type', inst')"
  shows "n = g_deviceName d \<and> (type = OBJECT_TYPE_DEVICE \<and> inst = g_deviceInstance d \<or>
    type' = OBJECT_TYPE_DEVICE \<and> inst' = g_deviceInstance d)"
  using assms by (auto simp: object_name_def split: if_splits)

section \<open>Concrete instances\<close>

text \<open>A hub as it starts, with an operational certificate on disk.\<close>

definition hub_paths :: hub_cert_paths where
  "hub_paths = ResolveHubCertPaths ''c'' 7 None"

definition hub_device :: device where
  "hub_device = start_device default_config hub_paths ''5.2.0.0'' None 1000000 None
    (\<lambda>q. if q = operationalCertificate hub_paths then Some (disk_text ''abc'') else None)"

lemma hub_device_ok: "device_ok hub_paths hub_device"
  by (simp add: hub_device_def hub_paths_def start_device_ok resolved_paths_ok)

lemma hub_device_fields:
  "g_store hub_device = open_store hub_paths (\<lambda>q. if q = operationalCertificate hub_paths then Some (disk_text ''abc'') else None)"
  "g_deviceInstance hub_device = 389022"
  by (simp_all add: hub_device_def start_device_def default_config_def)

lemma example_readable: "all_readable example_os"
  by (simp add: all_readable_def example_os_def)

lemma hub_file: "store_read example_os (g_store hub_device) 1 = Some (Some ''abc'')"
proof -
  have "operationalCertificate hub_paths \<noteq> []"
    using resolved_paths_ok [of "''c''" 7 None] by (simp add: hub_paths_def paths_ok_def all_paths_def)
  then show ?thesis
    using device_layout [OF hub_device_ok]
    by (simp add: store_read_total read_once_def read_own_def hub_device_fields open_store_def SetLayout_def hub_layout_eq
        omap_has_def FallbackInstance_def OwnPath_def Let_def disk_exists_def ReadDisk_def disk_text_def example_os_def)
qed


lemma private_key_never_read_witness:
  "GetPropertyUnsignedInteger (with_disk ((g_disk (g_store hub_device))(privateKey hub_paths := Some (disk_text ''secret''))) hub_device)
      389022 10 1 42 = GetPropertyUnsignedInteger hub_device 389022 10 1 42"
  using private_key_never_read [OF hub_device_ok disjI1 [OF refl]] by blast

lemma reinitialize_device_exact_witness:
  "\<exists>r d'. ReinitializeDevice example_os example_ssl 389022 0 hub_device = Some (r, d') \<and>
    r = Inl (Some ERROR_CODE_OPTIONAL_FUNCTIONALITY_NOT_SUPPORTED)"
  using reinitialize_device_exact [OF hub_device_ok example_readable, of example_ssl 389022 0] by auto

lemma certificate_procedure_installs_witness:
  "\<exists>d1 d2 r d3. write_pieces example_os 3 [[1, 2], [3]] d1 = Some (True, d2) \<and> file_bytes example_os d2 3 = Some [1, 2, 3] \<and>
    ReinitializeDevice example_os example_ssl (g_deviceInstance d2) REINITIALIZE_STATE_ACTIVATE_CHANGES d2 = Some (r, d3) \<and>
    file_bytes example_os d3 3 = Some [1, 2, 3]"
  by (rule certificate_procedure_installs [OF hub_device_ok example_readable, of 3 "[[1, 2], [3]]" example_ssl])
    (auto simp: IsWritableScCertFileInstance_def MAX_FILE_BYTES_def)

lemma time_synchronization_exact_witness:
  "\<exists>d'. SetSystemTime 5 389022 124 2 29 12 30 15 hub_device = (True, d') \<and>
    GetPropertyDate 5 d' 389022 8 389022 56 = Some (Some (124, 2, 29, bacnet_weekday (requested_tm 124 2 29 12 30 15)))"
proof -
  have "civil (requested_tm 124 2 29 12 30 15)" by code_simp
  from time_synchronization_exact [OF this, of 5 hub_device] show ?thesis
    by (auto simp: hub_device_fields)
qed

lemma served_strings_are_whole_witness:
  "GetPropertyCharString hub_device 389022 0 1 77 (replicate 256 0) 256 =
    Some (Some (6, [66, 114, 111, 110, 122, 101] @ replicate 250 0))"
proof -
  have "g_deviceName hub_device = ''Chipkin Example B-SCHUB''" "g_firmwareRevision hub_device = ''5.2.0.0''"
    by (simp_all add: hub_device_def start_device_def default_config_def InitTimeZoneFromHost_def)
  then show ?thesis
    using served_strings_are_whole [of hub_device "replicate 256 0" 389022 0 1 77]
    by (simp add: MAX_DEVICE_NAME_BYTES_def char_string_def hub_device_fields object_name_def c_text_def byte_def)
qed

lemma object_names_distinct_witness: "g_deviceName (hub_device\<lparr> g_deviceName := ''Bronze'' \<rparr>) = ''Bronze'' \<and>
    object_name (hub_device\<lparr> g_deviceName := ''Bronze'' \<rparr>) 0 1 = Some ''Bronze''"
  using object_names_distinct [of "hub_device\<lparr> g_deviceName := ''Bronze'' \<rparr>" 0 1 "''Bronze''" 8 389022]
  by (simp add: object_name_def hub_device_fields)

end
