(* ===== verification/Device_Setup.thy ===== *)
theory Device_Setup
  imports Device_Sound
begin

text \<open>
  How \<^verbatim>\<open>main\<close> configures the BACnet stack, \<^verbatim>\<open>src/main.cpp\<close>: the calls
  in their order for a command line, each of which ends the program with exit code 1 when the stack
  refuses it.  The stack itself is not part of the sources: it is an argument of the run, and the preconditions
  that the comments at the calls quote from its documentation are the automaton below.
\<close>

unbundle bit_operations_syntax

section \<open>Constants\<close>

definition SERVICE_READ_PROPERTY :: nat where [simp]: "SERVICE_READ_PROPERTY = 12"
definition SERVICE_READ_PROPERTY_MULTIPLE :: nat where [simp]: "SERVICE_READ_PROPERTY_MULTIPLE = 14"
definition SERVICE_WRITE_PROPERTY :: nat where [simp]: "SERVICE_WRITE_PROPERTY = 15"
definition SERVICE_DEVICE_COMMUNICATION_CONTROL :: nat where [simp]: "SERVICE_DEVICE_COMMUNICATION_CONTROL = 17"
definition SERVICE_REINITIALIZE_DEVICE :: nat where [simp]: "SERVICE_REINITIALIZE_DEVICE = 20"
definition SERVICE_I_AM :: nat where [simp]: "SERVICE_I_AM = 26"
definition SERVICE_I_HAVE :: nat where [simp]: "SERVICE_I_HAVE = 27"
definition SERVICE_TIME_SYNCHRONIZATION :: nat where [simp]: "SERVICE_TIME_SYNCHRONIZATION = 32"
definition SERVICE_WHO_HAS :: nat where [simp]: "SERVICE_WHO_HAS = 33"
definition SERVICE_WHO_IS :: nat where [simp]: "SERVICE_WHO_IS = 34"
definition SERVICE_UTC_TIME_SYNCHRONIZATION :: nat where [simp]: "SERVICE_UTC_TIME_SYNCHRONIZATION = 36"
definition SERVICE_ATOMIC_READ_FILE :: nat where [simp]: "SERVICE_ATOMIC_READ_FILE = 6"
definition SERVICE_ATOMIC_WRITE_FILE :: nat where [simp]: "SERVICE_ATOMIC_WRITE_FILE = 7"
definition NETWORK_PORT_NETWORK_TYPE_IPV4 :: nat where [simp]: "NETWORK_PORT_NETWORK_TYPE_IPV4 = 5"
definition NETWORK_PORT_NETWORK_TYPE_SECURE_CONNECT :: nat where [simp]: "NETWORK_PORT_NETWORK_TYPE_SECURE_CONNECT = 11"
definition NETWORK_PORT_PROTOCOL_LEVEL_BACNET_APPLICATION :: nat where
  [simp]: "NETWORK_PORT_PROTOCOL_LEVEL_BACNET_APPLICATION = 2"
definition NETWORK_NUMBER_QUALITY_UNKNOWN :: nat where [simp]: "NETWORK_NUMBER_QUALITY_UNKNOWN = 0"
definition NETWORK_NUMBER_QUALITY_CONFIGURED :: nat where [simp]: "NETWORK_NUMBER_QUALITY_CONFIGURED = 3"
definition FILE_ACCESS_METHOD_STREAM :: nat where [simp]: "FILE_ACCESS_METHOD_STREAM = 1"
definition SC_COMPATIBILITY_ACCEPT_CONNECT_ACCEPT_WITHOUT_HELLO :: u8 where
  "SC_COMPATIBILITY_ACCEPT_CONNECT_ACCEPT_WITHOUT_HELLO = 0x01"
definition SC_COMPATIBILITY_ACCEPT_CONNECT_REQUEST_WITHOUT_HELLO :: u8 where
  "SC_COMPATIBILITY_ACCEPT_CONNECT_REQUEST_WITHOUT_HELLO = 0x02"
definition SC_DEVICE_UUID :: bytes where
  "SC_DEVICE_UUID =
    [0x53, 0x43, 0x48, 0x55, 0x42, 0x2d, 0x44, 0x45, 0x4d, 0x4f, 0x2d, 0x33, 0x38, 0x39, 0x30, 0x32]"

section \<open>The calls\<close>

text \<open>The calls, all for the hub's own device instance; what a call switches on or makes writable it
  passes as true, and the connection role of the accept URI is 0, the hub function.\<close>

datatype stack_call =
    AddDevice
  | SetServiceEnabled nat
  | SetPropertyWritable nat nat nat
  | AddObject nat nat
  | AddNetworkPortObject nat nat nat nat nat nat
  | SetBACnetSCUuid bytes
  | AddBACnetSCAcceptUri nat string
  | SetBACnetSCHubFunctionConfig nat nat
  | SetBACnetSCCompatibilityFlags u8
  | SetBACnetSCHubConnectorForNetworkPort nat bytes string nat string nat
  | AddFileObject nat bool nat
  | SetBACnetSCCertificateFileObjects nat nat nat "nat list"
  | ActivateNetworkPortPendingChanges nat
  | SetPropertyEnabled nat nat nat

definition service_calls :: "nat \<Rightarrow> stack_call list" where
  "service_calls inst =
    [AddDevice, SetServiceEnabled SERVICE_READ_PROPERTY, SetServiceEnabled SERVICE_READ_PROPERTY_MULTIPLE,
     SetServiceEnabled SERVICE_DEVICE_COMMUNICATION_CONTROL, SetServiceEnabled SERVICE_ATOMIC_READ_FILE,
     SetServiceEnabled SERVICE_WRITE_PROPERTY, SetServiceEnabled SERVICE_ATOMIC_WRITE_FILE,
     SetServiceEnabled SERVICE_REINITIALIZE_DEVICE, SetServiceEnabled SERVICE_TIME_SYNCHRONIZATION,
     SetServiceEnabled SERVICE_UTC_TIME_SYNCHRONIZATION,
     SetPropertyWritable OBJECT_TYPE_DEVICE inst PROPERTY_IDENTIFIER_UTC_OFFSET,
     SetPropertyWritable OBJECT_TYPE_DEVICE inst PROPERTY_IDENTIFIER_DAYLIGHT_SAVINGS_STATUS,
     SetServiceEnabled SERVICE_WHO_IS, SetServiceEnabled SERVICE_I_AM, SetServiceEnabled SERVICE_WHO_HAS,
     SetServiceEnabled SERVICE_I_HAVE]"

definition port_calls :: "config \<Rightarrow> stack_call list" where
  "port_calls c =
    [AddObject OBJECT_TYPE_ANALOG_INPUT ANALOG_INPUT_INSTANCE] @
    (if bacnetIpEnabled c then
       [AddNetworkPortObject NETWORK_PORT_INSTANCE NETWORK_PORT_NETWORK_TYPE_IPV4
          NETWORK_PORT_PROTOCOL_LEVEL_BACNET_APPLICATION (ipNetworkNumber c)
          (if ipNetworkNumber c \<noteq> 0 then NETWORK_NUMBER_QUALITY_CONFIGURED else NETWORK_NUMBER_QUALITY_UNKNOWN)
          NETWORK_PORT_REFERENCE_PORT_NONE]
     else []) @
    [AddNetworkPortObject SC_NETWORK_PORT_INSTANCE NETWORK_PORT_NETWORK_TYPE_SECURE_CONNECT
       NETWORK_PORT_PROTOCOL_LEVEL_BACNET_APPLICATION (scNetworkNumber c)
       (if scNetworkNumber c \<noteq> 0 then NETWORK_NUMBER_QUALITY_CONFIGURED else NETWORK_NUMBER_QUALITY_UNKNOWN)
       NETWORK_PORT_REFERENCE_PORT_NONE]"

definition compatibility_flags :: "config \<Rightarrow> u8" where
  "compatibility_flags c =
    (if acceptHubWithoutHello c then SC_COMPATIBILITY_ACCEPT_CONNECT_ACCEPT_WITHOUT_HELLO else 0) OR
    (if acceptDeviceWithoutHello c then SC_COMPATIBILITY_ACCEPT_CONNECT_REQUEST_WITHOUT_HELLO else 0)"

definition hub_calls :: "config \<Rightarrow> stack_call list" where
  "hub_calls c =
    [SetBACnetSCUuid SC_DEVICE_UUID, AddBACnetSCAcceptUri SC_NETWORK_PORT_INSTANCE (HubAcceptUri (scPort c)),
     SetBACnetSCHubFunctionConfig SC_NETWORK_PORT_INSTANCE (scMaxHubConnections c)] @
    (if compatibility_flags c \<noteq> 0 then [SetBACnetSCCompatibilityFlags (compatibility_flags c)] else [])"

text \<open>The connector's VMAC: the last six octets of the UUID, the final one changed when all six are
  zero or all are 0xFF.\<close>

definition vmac_of :: "bytes \<Rightarrow> bytes" where
  "vmac_of uuid =
    (let vmac = drop (length uuid - 6) uuid;
         allZero = list_all (\<lambda>b. b = 0x00) vmac; allFF = list_all (\<lambda>b. b = 0xFF) vmac in
     if allZero \<or> allFF then vmac[5 := vmac ! 5 XOR 0x01] else vmac)"

definition connector_calls :: "config \<Rightarrow> stack_call list" where
  "connector_calls c =
    (if scHubUri c \<noteq> [] then
       [SetBACnetSCHubConnectorForNetworkPort SC_NETWORK_PORT_INSTANCE (vmac_of SC_DEVICE_UUID)
          (scHubUri c) (wrap16 (length (scHubUri c))) (scFailoverUri c) (wrap16 (length (scFailoverUri c)))]
     else [])"

definition file_calls :: "stack_call list" where
  "file_calls =
    [AddFileObject FILE_OPERATIONAL_CERT_INSTANCE True FILE_ACCESS_METHOD_STREAM,
     AddFileObject FILE_CSR_INSTANCE False FILE_ACCESS_METHOD_STREAM,
     AddFileObject FILE_ISSUER_CERT_1_INSTANCE True FILE_ACCESS_METHOD_STREAM,
     AddFileObject FILE_ISSUER_CERT_2_INSTANCE True FILE_ACCESS_METHOD_STREAM] @
    map (\<lambda>inst. SetPropertyWritable OBJECT_TYPE_FILE inst PROPERTY_IDENTIFIER_ARCHIVE)
      [FILE_OPERATIONAL_CERT_INSTANCE, FILE_CSR_INSTANCE, FILE_ISSUER_CERT_1_INSTANCE, FILE_ISSUER_CERT_2_INSTANCE] @
    [SetBACnetSCCertificateFileObjects SC_NETWORK_PORT_INSTANCE FILE_OPERATIONAL_CERT_INSTANCE FILE_CSR_INSTANCE
       [FILE_ISSUER_CERT_1_INSTANCE, FILE_ISSUER_CERT_2_INSTANCE],
     ActivateNetworkPortPendingChanges 4194303]"

definition description_calls :: "config \<Rightarrow> stack_call list" where
  "description_calls c =
    map (\<lambda>(type, inst). SetPropertyEnabled type inst PROPERTY_IDENTIFIER_DESCRIPTION)
      (filter (\<lambda>(type, inst). \<not> (type = OBJECT_TYPE_NETWORK_PORT \<and> inst = NETWORK_PORT_INSTANCE \<and> \<not> bacnetIpEnabled c))
        [(OBJECT_TYPE_DEVICE, deviceInstance c), (OBJECT_TYPE_ANALOG_INPUT, ANALOG_INPUT_INSTANCE),
         (OBJECT_TYPE_NETWORK_PORT, NETWORK_PORT_INSTANCE), (OBJECT_TYPE_NETWORK_PORT, SC_NETWORK_PORT_INSTANCE),
         (OBJECT_TYPE_FILE, FILE_OPERATIONAL_CERT_INSTANCE), (OBJECT_TYPE_FILE, FILE_CSR_INSTANCE),
         (OBJECT_TYPE_FILE, FILE_ISSUER_CERT_1_INSTANCE), (OBJECT_TYPE_FILE, FILE_ISSUER_CERT_2_INSTANCE)])"

definition setup_calls :: "config \<Rightarrow> stack_call list" where
  "setup_calls c =
    (service_calls (deviceInstance c) @ port_calls c) @ (hub_calls c @ connector_calls c) @ file_calls @ description_calls c"

text \<open>\<^verbatim>\<open>None\<close> is the return from \<^verbatim>\<open>main\<close> with 1.\<close>

fun run_setup :: "(stack_call \<Rightarrow> 's \<Rightarrow> 's option) \<Rightarrow> stack_call list \<Rightarrow> 's \<Rightarrow> 's option" where
  "run_setup stack [] s = Some s"
| "run_setup stack (call # calls) s =
    (case stack call s of None \<Rightarrow> None | Some s \<Rightarrow> run_setup stack calls s)"

section \<open>What the stack asks for\<close>

text \<open>The documented order: the device first; an object before its properties are touched; the UUID once,
  and before any BACnet/SC data link can start; an accept URI before the hub function; a connector only
  with a primary URI and a six-octet VMAC that is neither all zero nor all 0xFF; two issuer slots; the
  certificate files before they are bound; and bindings stay pending until they are activated.\<close>

record stack_state =
  has_device :: bool
  objects :: "(nat \<times> nat) set"
  services :: "nat set"
  writable :: "(nat \<times> nat \<times> nat) set"
  described :: "(nat \<times> nat) set"
  uuid_set :: bool
  accept_uris :: "string list"
  hub_limit :: "nat option"
  connector :: "(string \<times> string) option"
  writable_files :: "nat set"
  changes_pending :: bool

definition empty_stack :: stack_state where
  "empty_stack = \<lparr>has_device = False, objects = {}, services = {}, writable = {}, described = {}, uuid_set = False,
     accept_uris = [], hub_limit = None, connector = None, writable_files = {}, changes_pending = False\<rparr>"

definition allowed :: "bool \<Rightarrow> stack_state \<Rightarrow> stack_state option" where
  "allowed b s = (if b then Some s else None)"

fun stack_accepts :: "nat \<Rightarrow> stack_call \<Rightarrow> stack_state \<Rightarrow> stack_state option" where
  "stack_accepts dev AddDevice s =
    allowed (\<not> has_device s) (s\<lparr> has_device := True, objects := {(OBJECT_TYPE_DEVICE, dev)} \<rparr>)"
| "stack_accepts dev (SetServiceEnabled n) s = allowed (has_device s) (s\<lparr> services := insert n (services s) \<rparr>)"
| "stack_accepts dev (SetPropertyWritable type inst prop) s =
    allowed ((type, inst) \<in> objects s) (s\<lparr> writable := insert (type, inst, prop) (writable s) \<rparr>)"
| "stack_accepts dev (AddObject type inst) s =
    allowed (has_device s \<and> (type, inst) \<notin> objects s) (s\<lparr> objects := insert (type, inst) (objects s) \<rparr>)"
| "stack_accepts dev (AddNetworkPortObject inst networkType level number quality reference) s =
    allowed (has_device s \<and> (OBJECT_TYPE_NETWORK_PORT, inst) \<notin> objects s \<and> number \<le> 65534 \<and>
      (quality = NETWORK_NUMBER_QUALITY_UNKNOWN \<longleftrightarrow> number = 0))
      (s\<lparr> objects := insert (OBJECT_TYPE_NETWORK_PORT, inst) (objects s) \<rparr>)"
| "stack_accepts dev (SetBACnetSCUuid uuid) s =
    allowed (\<not> uuid_set s \<and> accept_uris s = [] \<and> length uuid = 16) (s\<lparr> uuid_set := True \<rparr>)"
| "stack_accepts dev (AddBACnetSCAcceptUri inst uri) s =
    allowed (uuid_set s \<and> (OBJECT_TYPE_NETWORK_PORT, inst) \<in> objects s \<and> ParseWssUri uri \<noteq> None)
      (s\<lparr> accept_uris := uri # accept_uris s \<rparr>)"
| "stack_accepts dev (SetBACnetSCHubFunctionConfig inst maxConnections) s =
    allowed (accept_uris s \<noteq> [] \<and> (OBJECT_TYPE_NETWORK_PORT, inst) \<in> objects s) (s\<lparr> hub_limit := Some maxConnections \<rparr>)"
| "stack_accepts dev (SetBACnetSCCompatibilityFlags flags) s = allowed (flags \<noteq> 0) s"
| "stack_accepts dev (SetBACnetSCHubConnectorForNetworkPort inst vmac primary n failover m) s =
    allowed (uuid_set s \<and> (OBJECT_TYPE_NETWORK_PORT, inst) \<in> objects s \<and> n \<noteq> 0 \<and> length vmac = 6 \<and>
      vmac \<noteq> replicate 6 0 \<and> vmac \<noteq> replicate 6 0xFF) (s\<lparr> connector := Some (take n primary, take m failover) \<rparr>)"
| "stack_accepts dev (AddFileObject inst isWritable accessMethod) s =
    allowed (has_device s \<and> (OBJECT_TYPE_FILE, inst) \<notin> objects s)
      (s\<lparr> objects := insert (OBJECT_TYPE_FILE, inst) (objects s),
          writable_files := (if isWritable then insert inst (writable_files s) else writable_files s) \<rparr>)"
| "stack_accepts dev (SetBACnetSCCertificateFileObjects port operational csr issuers) s =
    allowed ((OBJECT_TYPE_NETWORK_PORT, port) \<in> objects s \<and> length issuers = 2 \<and>
      list_all (\<lambda>inst. (OBJECT_TYPE_FILE, inst) \<in> objects s) (operational # csr # issuers)) (s\<lparr> changes_pending := True \<rparr>)"
| "stack_accepts dev (ActivateNetworkPortPendingChanges port) s =
    allowed (has_device s) (s\<lparr> changes_pending := False \<rparr>)"
| "stack_accepts dev (SetPropertyEnabled type inst prop) s =
    allowed ((type, inst) \<in> objects s) (s\<lparr> described := insert (type, inst) (described s) \<rparr>)"

lemma run_setup_append:
  "run_setup stack (calls @ rest) s = (case run_setup stack calls s of None \<Rightarrow> None | Some s \<Rightarrow> run_setup stack rest s)"
  by (induction calls arbitrary: s) (auto split: option.split)

lemma run_setup_trans:
  "run_setup stack calls s = Some t \<Longrightarrow> run_setup stack rest t = Some u \<Longrightarrow> run_setup stack (calls @ rest) s = Some u"
  by (simp add: run_setup_append)

lemma uuid_vmac:
  "vmac_of SC_DEVICE_UUID = [0x2d, 0x33, 0x38, 0x39, 0x30, 0x32]" "length SC_DEVICE_UUID = 16"
  by code_simp+

lemma uuid_not_extreme:
  "[0x2d, 0x33, 0x38, 0x39, 0x30, 0x32 :: u8] \<noteq> replicate 6 0" "[0x2d, 0x33, 0x38, 0x39, 0x30, 0x32 :: u8] \<noteq> replicate 6 0xFF"
  by code_simp+

text \<open>The objects the calls create: the four files are the certificate files of the store.\<close>

definition hub_objects :: "config \<Rightarrow> (nat \<times> nat) set" where
  "hub_objects c =
    {(OBJECT_TYPE_DEVICE, deviceInstance c), (OBJECT_TYPE_ANALOG_INPUT, ANALOG_INPUT_INSTANCE),
     (OBJECT_TYPE_NETWORK_PORT, SC_NETWORK_PORT_INSTANCE)} \<union>
    (if bacnetIpEnabled c then {(OBJECT_TYPE_NETWORK_PORT, NETWORK_PORT_INSTANCE)} else {}) \<union>
    {OBJECT_TYPE_FILE} \<times> {FILE_OPERATIONAL_CERT_INSTANCE, FILE_CSR_INSTANCE, FILE_ISSUER_CERT_1_INSTANCE, FILE_ISSUER_CERT_2_INSTANCE}"


lemmas setup_defs = run_setup_append service_calls_def port_calls_def hub_calls_def connector_calls_def file_calls_def
  description_calls_def allowed_def

definition after_ports :: "config \<Rightarrow> stack_state" where
  "after_ports c =
    \<lparr>has_device = True,
     objects = {(OBJECT_TYPE_DEVICE, deviceInstance c), (OBJECT_TYPE_ANALOG_INPUT, ANALOG_INPUT_INSTANCE),
        (OBJECT_TYPE_NETWORK_PORT, SC_NETWORK_PORT_INSTANCE)} \<union>
       (if bacnetIpEnabled c then {(OBJECT_TYPE_NETWORK_PORT, NETWORK_PORT_INSTANCE)} else {}),
     services = {6, 7, 12, 14, 15, 17, 20, 26, 27, 32, 33, 34, 36},
     writable = {OBJECT_TYPE_DEVICE} \<times> {deviceInstance c} \<times>
       {PROPERTY_IDENTIFIER_UTC_OFFSET, PROPERTY_IDENTIFIER_DAYLIGHT_SAVINGS_STATUS},
     described = {}, uuid_set = False, accept_uris = [], hub_limit = None, connector = None, writable_files = {},
     changes_pending = False\<rparr>"

lemma services_accepted:
  "run_setup (stack_accepts inst) (service_calls inst) empty_stack =
    Some (empty_stack\<lparr> has_device := True, objects := {(OBJECT_TYPE_DEVICE, inst)},
      services := {6, 7, 12, 14, 15, 17, 20, 26, 27, 32, 33, 34, 36},
      writable := {OBJECT_TYPE_DEVICE} \<times> {inst} \<times>
       {PROPERTY_IDENTIFIER_UTC_OFFSET, PROPERTY_IDENTIFIER_DAYLIGHT_SAVINGS_STATUS} \<rparr>)"
  by (simp add: service_calls_def allowed_def empty_stack_def) auto

lemma ports_accepted:
  assumes "config_ok c"
  shows "run_setup (stack_accepts (deviceInstance c)) (service_calls (deviceInstance c) @ port_calls c) empty_stack =
    Some (after_ports c)"
proof (cases "bacnetIpEnabled c")
  case True
  then show ?thesis using assms unfolding run_setup_append services_accepted
    by (simp add: port_calls_def allowed_def empty_stack_def after_ports_def config_ok_def) blast
next
  case False
  then show ?thesis using assms unfolding run_setup_append services_accepted
    by (simp add: port_calls_def allowed_def empty_stack_def after_ports_def config_ok_def) blast
qed

lemma hub_accepted:
  assumes "config_ok c" "length (scHubUri c) < 65536" "length (scFailoverUri c) < 65536"
  shows "run_setup (stack_accepts (deviceInstance c)) (hub_calls c @ connector_calls c) (after_ports c) =
    Some ((after_ports c)\<lparr> uuid_set := True, accept_uris := [HubAcceptUri (scPort c)],
      hub_limit := Some (scMaxHubConnections c),
      connector := (if scHubUri c \<noteq> [] then Some (scHubUri c, scFailoverUri c) else None) \<rparr>)"
proof -
  have "ParseWssUri (HubAcceptUri (scPort c)) = Some (''0.0.0.0'', scPort c, ''/'')"
    by (rule accept_uri_parses) (use assms(1) in \<open>simp_all add: config_ok_def\<close>)
  then show ?thesis
    using assms(2,3)
    by (cases "scHubUri c = []"; cases "compatibility_flags c = 0")
      (simp_all add: run_setup_append hub_calls_def connector_calls_def allowed_def after_ports_def uuid_vmac uuid_not_extreme)
qed

lemma files_accepted:
  assumes "has_device s" "(OBJECT_TYPE_NETWORK_PORT, SC_NETWORK_PORT_INSTANCE) \<in> objects s"
    "\<And>inst. (OBJECT_TYPE_FILE, inst) \<notin> objects s"
  shows "run_setup (stack_accepts dev) file_calls s =
    Some (s\<lparr> objects := {OBJECT_TYPE_FILE} \<times> {1, 2, 3, 4} \<union> objects s,
      writable := {OBJECT_TYPE_FILE} \<times> {1, 2, 3, 4} \<times> {PROPERTY_IDENTIFIER_ARCHIVE} \<union> writable s,
      writable_files := {1, 3, 4} \<union> writable_files s, changes_pending := False \<rparr>)"
  using assms by (simp add: file_calls_def allowed_def insert_commute)

lemma descriptions_accepted:
  assumes "objects s = hub_objects c"
  shows "run_setup (stack_accepts (deviceInstance c)) (description_calls c) s =
    Some (s\<lparr> described := hub_objects c \<union> described s \<rparr>)"
  using assms by (simp add: description_calls_def allowed_def hub_objects_def insert_commute)

lemma start_device_fields:
  "g_deviceInstance (start_device c p firmware addresses now hostLocal dsk) = deviceInstance c"
  "g_deviceName (start_device c p firmware addresses now hostLocal dsk) = deviceName c"
  "g_bacnetIpEnabled (start_device c p firmware addresses now hostLocal dsk) = bacnetIpEnabled c"
  by (simp_all add: start_device_def InitTimeZoneFromHost_def Let_def split: option.split)

lemma hub_objects_served:
  assumes "g_deviceInstance d = deviceInstance c" "g_bacnetIpEnabled d = bacnetIpEnabled c"
  shows "(type, inst) \<in> hub_objects c \<longleftrightarrow> object_name d type inst \<noteq> None"
    "(type, inst) \<in> hub_objects c \<Longrightarrow> ObjectDescription d type inst \<noteq> []"
proof -
  show "(type, inst) \<in> hub_objects c \<longleftrightarrow> object_name d type inst \<noteq> None"
    using assms by (auto simp: hub_objects_def object_name_def split: if_splits)
  show "(type, inst) \<in> hub_objects c \<Longrightarrow> ObjectDescription d type inst \<noteq> []"
    using assms by (auto simp: hub_objects_def ObjectDescription_def split: if_splits)
qed



end
