(* ===== verification/Main_Loop.thy ===== *)
theory Main_Loop
  imports Device_Sound Sc_Router
begin

text \<open>
  The loop of \<^verbatim>\<open>main\<close>, \<^verbatim>\<open>src/main.cpp\<close>: the run limit, the stack's tick,
  the transport's service, the message about refused devices, the check of the revocation list, the TLS
  reload and the console keys.  What the stack does in a tick is an argument, as are the readings of
  the steady clock (nanoseconds), the revocation file's size and time, what lws does, and the key.
\<close>

section \<open>State\<close>

record hub =
  the_device :: device
  the_router :: router
  crlFingerprint :: string
  lastCrlCheck :: nat
  running :: bool
  refusalsSeen :: nat
  lastLimitMessage :: nat
  limitMessageShown :: bool

text \<open>The console: what a key means, from the octets read from the terminal.\<close>

datatype key_command =
    KeyNone | KeyHelp | KeyQuit | ArrowUp | ArrowDown | DemoAdvance | WriteGroupDemo | DiscoverRemote
  | RouterAnnounce | KeyMetrics | SimulatedPeerToggle | ContactToggle | ForceOpen | BadgePulse

definition letter :: "char \<Rightarrow> key_command" where
  "letter c =
    (if c = CHR ''h'' \<or> c = CHR ''H'' then KeyHelp
     else if c = CHR ''q'' \<or> c = CHR ''Q'' then KeyQuit
     else if c = CHR ''s'' \<or> c = CHR ''S'' then DemoAdvance
     else if c = CHR ''w'' \<or> c = CHR ''W'' then WriteGroupDemo
     else if c = CHR ''d'' \<or> c = CHR ''D'' then DiscoverRemote
     else if c = CHR ''r'' \<or> c = CHR ''R'' then RouterAnnounce
     else if c = CHR ''m'' \<or> c = CHR ''M'' then KeyMetrics
     else if c = CHR ''k'' \<or> c = CHR ''K'' then SimulatedPeerToggle
     else if c = CHR ''o'' \<or> c = CHR ''O'' then ContactToggle
     else if c = CHR ''f'' \<or> c = CHR ''F'' then ForceOpen
     else if c = CHR ''p'' \<or> c = CHR ''P'' then BadgePulse
     else KeyNone)"

text \<open>\<^verbatim>\<open>PollKey\<close>: at most three octets are read at a time.\<close>

definition PollKey :: "string \<Rightarrow> key_command" where
  "PollKey typed =
    (let buf = take 3 typed in
     if buf = [] then KeyNone
     else if length buf \<ge> 3 \<and> buf ! 0 = CHR 0x1B \<and> buf ! 1 = CHR ''['' then
       (if buf ! 2 = CHR ''A'' then ArrowUp else if buf ! 2 = CHR ''B'' then ArrowDown else KeyNone)
     else letter (buf ! 0))"

text \<open>\<^verbatim>\<open>stat\<close> of the revocation list: its size and modification time.\<close>

definition int_text :: "int \<Rightarrow> string" where
  "int_text n = (if n < 0 then ''-'' @ dec (nat (- n)) else dec (nat n))"

definition FileFingerprint :: "(nat \<times> int) option \<Rightarrow> string" where
  "FileFingerprint st =
    (case st of None \<Rightarrow> [] | Some (n, mtime) \<Rightarrow> dec n @ ''@'' @ int_text mtime)"

section \<open>One turn\<close>

text \<open>What a turn meets.  The clock is read for the run limit, for the message, and twice for the
  revocation list.  \<^verbatim>\<open>stack_tick\<close> is \<^verbatim>\<open>BACnetStack_Tick\<close>, which calls the
  callbacks; \<^verbatim>\<open>add_float\<close> the processor's addition.\<close>

record turn_env =
  now_limit :: nat
  now_message :: nat
  now_due :: nat
  now_check :: nat
  stack_tick :: "device \<times> router \<Rightarrow> (device \<times> router) option"
  service_env :: listen_env
  listener_callbacks :: "server_event list"
  client_callbacks :: "string \<Rightarrow> client_event list"
  crl_stat :: "(nat \<times> int) option"
  reload_env :: listen_env
  typed :: string
  add_float :: "u32 \<Rightarrow> u32 \<Rightarrow> u32"

datatype message = RunLimitReached nat | ConnectionLimit nat nat | CrlRemoved | CrlChanged

definition second :: nat where
  "second = 1000000000"

text \<open>The message that the hub is full: at most once a minute.\<close>

definition limit_message_step :: "config \<Rightarrow> turn_env \<Rightarrow> hub \<Rightarrow> message list \<times> hub" where
  "limit_message_step c env h =
    (let metrics = GetMetrics (transport (the_router h)) in
     if metric_refused metrics > refusalsSeen h then
       let h = h\<lparr> refusalsSeen := metric_refused metrics \<rparr>; now = now_message env in
       if acceptedPeerCount metrics \<ge> scMaxHubConnections c \<and>
         (\<not> limitMessageShown h \<or> int now - int (lastLimitMessage h) \<ge> int (60 * second))
       then ([ConnectionLimit (scMaxHubConnections c) now], h\<lparr> limitMessageShown := True, lastLimitMessage := now \<rparr>)
       else ([], h)
     else ([], h))"

text \<open>The revocation list is looked at every five seconds.\<close>

definition crl_step :: "turn_env \<Rightarrow> hub \<Rightarrow> message list \<times> hub" where
  "crl_step env h =
    (if int (now_due env) - int (lastCrlCheck h) \<ge> int (5 * second) then
       let h = h\<lparr> lastCrlCheck := now_check env \<rparr>; fingerprint = FileFingerprint (crl_stat env) in
       if fingerprint \<noteq> crlFingerprint h then
         ([if fingerprint = [] then CrlRemoved else CrlChanged],
          h\<lparr> crlFingerprint := fingerprint, the_device := (the_device h)\<lparr> g_scReloadCredentialsRequested := True \<rparr> \<rparr>)
       else ([], h)
     else ([], h))"

definition reload_step :: "turn_env \<Rightarrow> hub \<Rightarrow> hub option" where
  "reload_step env h =
    (if g_scReloadCredentialsRequested (the_device h) then do {
       t \<leftarrow> ReloadCredentials (reload_env env) (transport (the_router h));
       Some (h\<lparr> the_device := (the_device h)\<lparr> g_scReloadCredentialsRequested := False \<rparr>,
                the_router := (the_router h)\<lparr> transport := t \<rparr> \<rparr>) }
     else Some h)"

text \<open>1.1f is 0x3F8CCCCD; subtracting it is adding its negation.\<close>

definition key_step :: "turn_env \<Rightarrow> hub \<Rightarrow> hub" where
  "key_step env h =
    (case PollKey (typed env) of
       KeyQuit \<Rightarrow> h\<lparr> running := False \<rparr>
     | ArrowUp \<Rightarrow> h\<lparr> the_device := (the_device h)\<lparr> g_analogInput1Value := add_float env (g_analogInput1Value (the_device h)) 0x3F8CCCCD \<rparr> \<rparr>
     | ArrowDown \<Rightarrow> h\<lparr> the_device := (the_device h)\<lparr> g_analogInput1Value := add_float env (g_analogInput1Value (the_device h)) 0xBF8CCCCD \<rparr> \<rparr>
     | _ \<Rightarrow> h)"

text \<open>\<^verbatim>\<open>Inl\<close> is the \<^verbatim>\<open>break\<close> at the run limit.\<close>

definition loop_turn :: "config \<Rightarrow> nat \<Rightarrow> turn_env \<Rightarrow> hub \<Rightarrow> (message list \<times> (hub + hub)) option" where
  "loop_turn c startTime env h =
    (if int (now_limit env) - int startTime \<ge> int (runLimitSeconds c * second)
     then Some ([RunLimitReached (runLimitSeconds c)], Inl h)
     else do {
       (d, r) \<leftarrow> stack_tick env (the_device h, the_router h);
       t \<leftarrow> Service (service_env env) (listener_callbacks env) (client_callbacks env) (transport r);
       (calls, r) \<leftarrow> DrainStatusEvents (r\<lparr> transport := t \<rparr>);
       let (said1, h) = limit_message_step c env (h\<lparr> the_device := d, the_router := r \<rparr>);
       let (said2, h) = crl_step env h;
       h \<leftarrow> reload_step env h;
       Some (said1 @ said2, Inr (key_step env h)) })"

text \<open>The loop over the turns it is given: \<^verbatim>\<open>None\<close> in the result while it is still running.
  After it, the sockets are closed.\<close>

fun main_loop :: "config \<Rightarrow> nat \<Rightarrow> turn_env list \<Rightarrow> hub \<Rightarrow> (message list \<times> hub \<times> bool) option" where
  "main_loop c startTime [] h = Some ([], h, \<not> running h)"
| "main_loop c startTime (env # later) h =
    (if \<not> running h then Some ([], h, True)
     else do {
       (said, result) \<leftarrow> loop_turn c startTime env h;
       (case result of
          Inl h \<Rightarrow> Some (said, h, True)
        | Inr h \<Rightarrow> do {
            (more, h, stopped) \<leftarrow> main_loop c startTime later h;
            Some (said @ more, h, stopped) }) })"

definition after_loop :: "hub \<Rightarrow> hub" where
  "after_loop h = h\<lparr> the_router := RouterShutdown (the_router h) \<rparr>"

section \<open>What a reload does\<close>

lemma omap_put_ne: "omap_put k v m \<noteq> []"
  by (cases m) (auto split: prod.splits if_splits)

lemma Disconnect_frame: "peers (Disconnect uri s) = [] \<longleftrightarrow> peers s = []"
  "listener_of (Disconnect uri s) = listener_of s"
  by (auto simp: Disconnect_def listener_of_def put_client_def Let_def omap_put_ne split: option.split prod.split)

lemma fold_disconnect_frame:
  "peers (fold (\<lambda>(uri, conn). if client_wsi conn \<noteq> None then Disconnect uri else id) cs s) = [] \<longleftrightarrow> peers s = []"
  "listener_of (fold (\<lambda>(uri, conn). if client_wsi conn \<noteq> None then Disconnect uri else id) cs s) = listener_of s"
  by (induction cs arbitrary: s) (auto simp: Disconnect_frame split: prod.split)

lemma reload_effect:
  assumes "sc_ok s D" "wantedListenUri s \<noteq> []" "configured s" "tears_down env s D" "ReloadCredentials env s = Some s'"
  shows "peers s' = []" "listenerUp s' \<longleftrightarrow> can_listen env (wantedListenUri s) (s\<lparr> lastListenCreateFailure := 0 \<rparr>)"
    "listenerUp s' \<Longrightarrow> listenUri s' = wantedListenUri s"
proof -
  let ?uri = "wantedListenUri s"
  obtain v where v: "DestroyListenerContext env s = Some v" "\<not> listenerUp v"
    using DestroyListenerContext_ok [OF assms(1,4)] by metis
  have cfg: "config_of v = config_of s" using DestroyListenerContext_config [OF v(1)] by simp
  have none: "peers v = []"
  proof (cases "listenerUp s")
    case True
    then show ?thesis using DestroyListenerContext_config [OF v(1)] by simp
  next
    case False
    then show ?thesis using v(1) sc_okD(6) [OF assms(1)] by (simp add: DestroyListenerContext_def)
  qed
  let ?v = "v\<lparr> lastListenCreateFailure := 0 \<rparr>"
  let ?w = "?v\<lparr> wantedListenUri := ?uri \<rparr>"
  obtain ok t where o: "open_listener env ?uri ?w = (ok, t)" by fastforce
  have "configured v" using cfg assms(3) by (simp add: config_of_def)
  then have start: "StartListening env ?uri ?v = Some (ok, t)" using v(2) o by (simp add: StartListening_def)
  have s': "s' = fold (\<lambda>(uri, conn). if client_wsi conn \<noteq> None then Disconnect uri else id) (clients t) t"
    using assms(2,5) v(1) start by (simp add: ReloadCredentials_def)
  have l: "listenerUp s' = listenerUp t" "listenUri s' = listenUri t"
    using fold_disconnect_frame(2) [of "clients t" t] by (simp_all add: s' listener_of_def)
  note ex = open_listener_exact [OF o]
  have "config_of ?w = config_of (s\<lparr> lastListenCreateFailure := 0 \<rparr>)" using cfg by (simp add: config_of_def)
  then have can: "can_listen env ?uri ?w = can_listen env ?uri (s\<lparr> lastListenCreateFailure := 0 \<rparr>)" by (rule can_listen_config)
  show "peers s' = []" using fold_disconnect_frame(1) [of "clients t" t] ex(3) none by (simp add: s')
  show "listenerUp s' \<longleftrightarrow> can_listen env ?uri (s\<lparr> lastListenCreateFailure := 0 \<rparr>)"
    using l ex(1,2,5) v(2) can by auto
  show "listenUri s' = ?uri" if "listenerUp s'" using l ex(1,2,5) v(2) that by auto
qed

text \<open>The steps of a turn that ends.\<close>

lemma loop_turn_steps:
  assumes "loop_turn c startTime env h = Some (said, Inr h')"
  obtains d r t h1 said1 h2 said2 h3 where
    "stack_tick env (the_device h, the_router h) = Some (d, r)"
    "Service (service_env env) (listener_callbacks env) (client_callbacks env) (transport r) = Some t"
    "h1 = h\<lparr> the_device := d, the_router := r\<lparr> transport := t\<lparr> statusQueue := [] \<rparr> \<rparr> \<rparr>"
    "limit_message_step c env h1 = (said1, h2)" "crl_step env h2 = (said2, h3)"
    "\<exists>h4. reload_step env h3 = Some h4 \<and> h' = key_step env h4" "said = said1 @ said2"
    "int (now_limit env) - int startTime < int (runLimitSeconds c * second)"
  using assms that
  by (auto simp: loop_turn_def DrainStatusEvents_def drain_events_all split: if_splits Option.bind_splits prod.splits)


section \<open>The message that the hub is full\<close>

fun limit_times :: "message list \<Rightarrow> nat list" where
  "limit_times [] = []"
| "limit_times (ConnectionLimit n t # said) = t # limit_times said"
| "limit_times (_ # said) = limit_times said"

lemma limit_times_append [simp]: "limit_times (a @ b) = limit_times a @ limit_times b"
  by (induction a rule: limit_times.induct) auto

lemma crl_step_frame:
  assumes "crl_step env h = (said, h')"
  shows "limit_times said = [] \<and> (\<forall>n t. ConnectionLimit n t \<notin> set said) \<and> (\<forall>n. RunLimitReached n \<notin> set said) \<and>
    limitMessageShown h' = limitMessageShown h \<and>
    lastLimitMessage h' = lastLimitMessage h \<and> running h' = running h"
  using assms by (auto simp: crl_step_def Let_def split: if_splits)

lemma later_steps_frame:
  "reload_step env h = Some h' \<Longrightarrow> limitMessageShown h' = limitMessageShown h \<and> lastLimitMessage h' = lastLimitMessage h \<and> running h' = running h"
  by (auto simp: reload_step_def split: if_splits Option.bind_splits)

lemma key_step_frame:
  "limitMessageShown (key_step env h) = limitMessageShown h \<and> lastLimitMessage (key_step env h) = lastLimitMessage h \<and>
    running (key_step env h) = (running h \<and> PollKey (typed env) \<noteq> KeyQuit)"
  by (auto simp: key_step_def split: key_command.split)

text \<open>What a turn says about the limit, and when.\<close>

lemma limit_step_result:
  assumes "limit_message_step c env h = (said, h')"
  shows "running h' = running h \<and>
    (said = [] \<and> limitMessageShown h' = limitMessageShown h \<and> lastLimitMessage h' = lastLimitMessage h \<or>
     said = [ConnectionLimit (scMaxHubConnections c) (now_message env)] \<and> limitMessageShown h' \<and>
     lastLimitMessage h' = now_message env \<and>
     (limitMessageShown h \<longrightarrow> lastLimitMessage h + 60 * second \<le> now_message env) \<and>
     scMaxHubConnections c \<le> acceptedPeerCount (GetMetrics (transport (the_router h))))"
  using assms by (auto simp: limit_message_step_def Let_def split: if_splits)

lemma turn_limit:
  assumes "loop_turn c startTime env h = Some (said, Inr h')"
  shows "(limit_times said = [] \<and> limitMessageShown h' = limitMessageShown h \<and> lastLimitMessage h' = lastLimitMessage h \<or>
     limit_times said = [now_message env] \<and> limitMessageShown h' \<and> lastLimitMessage h' = now_message env \<and>
     (limitMessageShown h \<longrightarrow> lastLimitMessage h + 60 * second \<le> now_message env)) \<and>
    (\<forall>n t. ConnectionLimit n t \<in> set said \<longrightarrow> n = scMaxHubConnections c) \<and> (\<forall>n. RunLimitReached n \<notin> set said) \<and>
    running h' = (running h \<and> PollKey (typed env) \<noteq> KeyQuit)"
proof -
  obtain d r t h1 said1 h2 said2 h3 h4 where s:
    "h1 = h\<lparr> the_device := d, the_router := r\<lparr> transport := t\<lparr> statusQueue := [] \<rparr> \<rparr> \<rparr>"
    "limit_message_step c env h1 = (said1, h2)" "crl_step env h2 = (said2, h3)"
    "reload_step env h3 = Some h4" "h' = key_step env h4" "said = said1 @ said2"
    by (rule loop_turn_steps [OF assms]) auto
  note f = limit_step_result [OF s(2)] crl_step_frame [OF s(3)] later_steps_frame [OF s(4)] key_step_frame [of env h4]
  have h1: "limitMessageShown h1 = limitMessageShown h" "lastLimitMessage h1 = lastLimitMessage h" "running h1 = running h"
    by (simp_all add: s(1))
  show ?thesis using f h1 by (auto simp: s(5,6))
qed

definition a_minute_apart :: "nat list \<Rightarrow> bool" where
  "a_minute_apart ts \<longleftrightarrow> sorted_wrt (\<lambda>a b. a + 60 * second \<le> b) ts"

lemma main_loop_limit:
  "main_loop c startTime envs h = Some (said, h', stopped) \<Longrightarrow>
    a_minute_apart (limit_times said) \<and> (\<forall>n t. ConnectionLimit n t \<in> set said \<longrightarrow> n = scMaxHubConnections c) \<and>
    (limitMessageShown h \<longrightarrow> (\<forall>t \<in> set (limit_times said). lastLimitMessage h + 60 * second \<le> t))"
proof (induction envs arbitrary: h said)
  case Nil
  then show ?case by (simp add: a_minute_apart_def)
next
  case (Cons env envs)
  show ?case
  proof (cases "running h")
    case False
    then show ?thesis using Cons.prems by (simp add: a_minute_apart_def)
  next
    case True
    obtain said1 result where t: "loop_turn c startTime env h = Some (said1, result)"
      using Cons.prems True by (auto split: Option.bind_splits)
    show ?thesis
    proof (cases result)
      case (Inl h1)
      then have "said = said1" using Cons.prems True t by simp
      then show ?thesis using t Inl by (auto simp: loop_turn_def a_minute_apart_def split: if_splits Option.bind_splits prod.splits)
    next
      case (Inr h1)
      obtain later h2 st where l: "main_loop c startTime envs h1 = Some (later, h2, st)" "said = said1 @ later" "h2 = h'" "st = stopped"
        using Cons.prems True t Inr by (auto split: Option.bind_splits prod.splits)
      have "main_loop c startTime envs h1 = Some (later, h', stopped)" using l by simp
      note ih = Cons.IH [OF this]
      note turn = turn_limit [OF t [unfolded Inr]]
      show ?thesis
      proof (cases "limit_times said1 = []")
        case True
        then show ?thesis using ih turn l(2) by (auto simp: a_minute_apart_def)
      next
        case False
        then have "limit_times said1 = [now_message env]" "limitMessageShown h1" "lastLimitMessage h1 = now_message env"
          "limitMessageShown h \<longrightarrow> lastLimitMessage h + 60 * second \<le> now_message env" using turn by auto
        then show ?thesis using ih turn l(2) by (fastforce simp: a_minute_apart_def)
      qed
    qed
  qed
qed

text \<open>However many devices the hub refuses and however fast, the message that the hub is full is
  given at most once a minute: over any run of the loop two of them are at least sixty seconds apart,
  and each names the limit in force.\<close>

theorem limit_message_at_most_once_a_minute:
  assumes "main_loop c startTime envs h = Some (said, h', stopped)"
  shows "sorted_wrt (\<lambda>a b. a + 60 * 1000000000 \<le> b) (limit_times said) \<and>
    filter (\<lambda>m. case m of ConnectionLimit n t \<Rightarrow> n \<noteq> scMaxHubConnections c | _ \<Rightarrow> False) said = []"
proof -
  note m = main_loop_limit [OF assms]
  have "filter (\<lambda>m. case m of ConnectionLimit n t \<Rightarrow> n \<noteq> scMaxHubConnections c | _ \<Rightarrow> False) said = []"
    using m by (auto simp: filter_empty_conv split: message.split)
  then show ?thesis using m by (simp add: a_minute_apart_def second_def)
qed

section \<open>The run limit\<close>

lemma main_loop_ends:
  "main_loop c startTime envs h = Some (said, h', stopped) \<Longrightarrow>
    ((\<exists>env \<in> set envs. startTime + runLimitSeconds c * second \<le> now_limit env) \<longrightarrow> stopped) \<and>
    (stopped \<longrightarrow> \<not> running h' \<or> said \<noteq> [] \<and> last said = RunLimitReached (runLimitSeconds c)) \<and>
    (\<forall>n. RunLimitReached n \<in> set said \<longrightarrow> (\<exists>env \<in> set envs. startTime + runLimitSeconds c * second \<le> now_limit env))"
proof (induction envs arbitrary: h said)
  case (Cons env envs)
  show ?case
  proof (cases "running h")
    case False
    then show ?thesis using Cons.prems by auto
  next
    case True
    obtain said1 result where t: "loop_turn c startTime env h = Some (said1, result)"
      using Cons.prems True by (auto split: Option.bind_splits)
    show ?thesis
    proof (cases result)
      case (Inl h1)
      then have said: "said = said1" "stopped" using Cons.prems True t by simp_all
      have "int (runLimitSeconds c * second) \<le> int (now_limit env) - int startTime" "said1 = [RunLimitReached (runLimitSeconds c)]"
        using t Inl by (auto simp: loop_turn_def simp del: of_nat_mult split: if_splits Option.bind_splits prod.splits)
      then have "startTime + runLimitSeconds c * second \<le> now_limit env" "said1 = [RunLimitReached (runLimitSeconds c)]" by linarith+
      then show ?thesis using said by auto
    next
      case (Inr h1)
      obtain later where l: "main_loop c startTime envs h1 = Some (later, h', stopped)" "said = said1 @ later"
        using Cons.prems True t Inr by (auto split: Option.bind_splits prod.splits)
      have early: "\<not> startTime + runLimitSeconds c * second \<le> now_limit env"
        by (rule loop_turn_steps [OF t [unfolded Inr]]) linarith
      have quiet: "RunLimitReached n \<notin> set said1" for n using turn_limit [OF t [unfolded Inr]] by blast
      show ?thesis using Cons.IH [OF l(1)] early quiet l(2) by auto
    qed
  qed
qed simp


section \<open>A run\<close>

definition quiet_listen :: listen_env where
  "quiet_listen = \<lparr> opens = (\<lambda>_. True), cert_ok = (\<lambda>_. True), clock = 10000000000, creates = (\<lambda>_ _. True), turns = [],
     closing = [] \<rparr>"

definition quiet_turn :: "nat \<Rightarrow> turn_env" where
  "quiet_turn now = \<lparr> now_limit = now, now_message = now, now_due = now, now_check = now, stack_tick = Some,
     service_env = quiet_listen, listener_callbacks = [], client_callbacks = (\<lambda>_. []), crl_stat = None,
     reload_env = quiet_listen, typed = [], add_float = (\<lambda>x y. x) \<rparr>"

definition start_hub :: hub where
  "start_hub = \<lparr> the_device = hub_device, the_router = new_router 1 2 initial_sc_state, crlFingerprint = [],
     lastCrlCheck = 0, running = True, refusalsSeen = 0, lastLimitMessage = 0, limitMessageShown = False \<rparr>"

text \<open>A hub with one device, which it has accepted, and a refusal it has not yet spoken of.\<close>

definition full_hub :: hub where
  "full_hub = start_hub\<lparr> the_router := new_router 1 2 (connected_state\<lparr> peers := [(7, example_peer\<lparr> accepted := True \<rparr>)],
     connectRequestsRefused := 1 \<rparr>) \<rparr>"

lemma connected_more [simp]: "clients connected_state = []" "listenerUp connected_state" "statusQueue connected_state = []"
  "configured connected_state" "wantedListenUri connected_state = ''wss://:1''" "peers connected_state = [(7, example_peer)]"
  "connectRequestsRefused connected_state = 0"
  by (simp_all add: connected_state_def listening_state_def) (simp_all add: configured_state_def Configure_def initial_sc_state_def)

lemma quiet_service: "listenerUp s \<Longrightarrow> clients s = [] \<Longrightarrow> Service env [] cbs s = Some s"
  by (simp add: Service_def)

lemma limit_message_at_most_once_a_minute_witness:
  "\<exists>said h'. main_loop (default_config\<lparr> scMaxHubConnections := 1 \<rparr>) 0 [quiet_turn 10] full_hub = Some (said, h', False) \<and>
    said = [ConnectionLimit 1 10] \<and> sorted_wrt (\<lambda>a b. a + 60 * 1000000000 \<le> b) (limit_times said)"
proof -
  let ?c = "default_config\<lparr> scMaxHubConnections := 1 \<rparr>"
  have t: "\<exists>h'. loop_turn ?c 0 (quiet_turn 10) full_hub = Some ([ConnectionLimit 1 10], Inr h') \<and> running h'"
    by (simp add: loop_turn_def quiet_turn_def full_hub_def start_hub_def new_router_def default_config_def
        DEMO_RUN_LIMIT_SECONDS_def second_def quiet_service DrainStatusEvents_def drain_events_all limit_message_step_def GetMetrics_def
        crl_step_def reload_step_def key_step_def PollKey_def hub_device_def start_device_def InitTimeZoneFromHost_def)
  then obtain h' where h': "main_loop ?c 0 [quiet_turn 10] full_hub = Some ([ConnectionLimit 1 10], h', False)"
    by (auto simp: full_hub_def start_hub_def)
  show ?thesis using limit_message_at_most_once_a_minute [OF h'] h' by blast
qed



end
