(* ===== verification/Frame_Xml.thy ===== *)
theory Frame_Xml
  imports Frame_Summary
begin

text \<open>
  The frame log of \<^verbatim>\<open>src/common/CASExampleHelper.cpp\<close>: \<^verbatim>\<open>PrintFrameAsXml\<close>, which
  prints a frame as a block of XML, and \<^verbatim>\<open>LogBacnetFrame\<close>, which chooses between it and the
  one-line summary.  Every \<^verbatim>\<open>printf\<close> is a piece of the text; reading an octet outside the
  frame is \<^verbatim>\<open>None\<close>.
\<close>

section \<open>Pieces\<close>

definition nl :: string where
  "nl = [CHR 0x0A]"

definition attr :: "string \<Rightarrow> string \<Rightarrow> string" where
  "attr name v = '' '' @ name @ ''='' @ CHR 0x22 # v @ [CHR 0x22]"

text \<open>The loop of \<^verbatim>\<open>%02X\<close>.\<close>

fun hex_octets :: "bytes \<Rightarrow> nat \<Rightarrow> nat \<Rightarrow> string option" where
  "hex_octets frame pos 0 = Some []"
| "hex_octets frame pos (Suc n) = do {
     b \<leftarrow> rd frame pos;
     rest \<leftarrow> hex_octets frame (pos + 1) n;
     Some (hex2 b @ rest) }"

definition route_xml :: "bytes \<Rightarrow> string \<Rightarrow> u16 \<Rightarrow> nat option \<Rightarrow> u8 \<Rightarrow> string option" where
  "route_xml frame name net ptr len = do {
     mac \<leftarrow> (case ptr of
        Some pos \<Rightarrow>
          if len > 0 then do { h \<leftarrow> hex_octets frame pos (unat len); Some (attr ''mac'' h) } else Some []
      | None \<Rightarrow> Some []);
     Some (''      <'' @ name @ attr ''net'' (dec (unat net)) @ mac @ ''/>'' @ nl) }"

text \<open>A number, and its name when it has one.\<close>

definition named :: "string \<Rightarrow> string \<Rightarrow> nat \<Rightarrow> string option \<Rightarrow> string" where
  "named number name v known =
    (case known of
       Some text \<Rightarrow> attr number (dec v) @ attr name text
     | None \<Rightarrow> attr number (dec v))"

definition PDU_TYPE_NAMES :: "string list" where
  "PDU_TYPE_NAMES = [''ConfirmedRequest'', ''UnconfirmedRequest'', ''SimpleACK'', ''ComplexACK'', ''SegmentACK'',
     ''Error'', ''Reject'', ''Abort'']"

definition object_xml :: "decoded_frame \<Rightarrow> string option" where
  "object_xml d = do {
     typeName \<leftarrow> ObjectTypeName (objectType d);
     propName \<leftarrow> PropertyName (propertyId d);
     Some
       (''        <Object'' @ named ''type'' ''typeName'' (unat (objectType d)) typeName @
          attr ''instance'' (dec (unat (objectInstance d))) @ ''/>'' @ nl @
        ''        <Property'' @ named ''id'' ''name'' (unat (propertyId d)) propName @ ''/>'' @ nl @
        (if hasArrayIndex d
         then ''        <ArrayIndex'' @ attr ''value'' (dec (unat (arrayIndex d))) @ ''/>'' @ nl else [])) }"

definition apdu_attrs :: "decoded_frame \<Rightarrow> string option" where
  "apdu_attrs d = do {
     pduTypeName \<leftarrow> (if pduType d < 8 then rd PDU_TYPE_NAMES (unat (pduType d)) else Some ''Unknown'');
     Some (attr ''type'' pduTypeName @
       (if hasInvokeId d then attr ''invokeId'' (dec (unat (invokeId d))) else []) @
       (if hasServiceChoice d
        then named ''service'' ''serviceName'' (unat (serviceChoice d))
          (if pduType d = 1 then UnconfirmedServiceName (serviceChoice d) else ConfirmedServiceName (serviceChoice d))
        else []) @
       (if hasReason d
        then named ''reason'' ''reasonName'' (unat (reason d))
          (if pduType d = 6 then RejectReasonName (reason d) else AbortReasonName (reason d))
        else [])) }"

definition apdu_xml :: "decoded_frame \<Rightarrow> string option" where
  "apdu_xml d = do {
     attrs \<leftarrow> apdu_attrs d;
     if \<not> hasObjectProperty d then Some (''      <APDU'' @ attrs @ ''/>'' @ nl)
     else do {
       inner \<leftarrow> object_xml d;
       Some (''      <APDU'' @ attrs @ ''>'' @ nl @ inner @ ''      </APDU>'' @ nl) } }"

definition npdu_xml :: "bytes \<Rightarrow> decoded_frame \<Rightarrow> string option" where
  "npdu_xml frame d = do {
     dest \<leftarrow> (if hasDest d then route_xml frame ''Destination'' (dnet d) (dadr d) (dadrLength d) else Some []);
     source \<leftarrow> (if hasSrc d then route_xml frame ''Source'' (snet d) (sadr d) (sadrLength d) else Some []);
     body \<leftarrow>
       (if isNetworkMessage d then
          Some (''      <NetworkLayerMessage'' @ named ''type'' ''name'' (unat (networkMessageType d))
            (NetworkMessageName (networkMessageType d)) @ ''/>'' @ nl)
        else if hasApdu d then apdu_xml d
        else Some []);
     Some (''    <NPDU'' @ attr ''version'' (dec (unat (npduVersion d))) @
       attr ''control'' (''0x'' @ hex2 (npduControl d)) @ ''>'' @ nl @
       dest @ source @ body @ ''    </NPDU>'' @ nl) }"

definition PrintFrameAsXml :: "bytes option \<Rightarrow> nat \<Rightarrow> string option" where
  "PrintFrameAsXml memory frameLength = do {
     d \<leftarrow> DecodeBacnetFrame memory frameLength;
     let frame = (case memory of Some f \<Rightarrow> f | None \<Rightarrow> []);
     let head = nl @ ''  <BACnetMessage'' @ attr ''bytes'' (dec frameLength) @ ''>'' @ nl;
     if \<not> bacnetIp d then
       Some (head @ ''    <Error>not a recognizable BACnet/IP (BVLC) frame</Error>'' @ nl @ ''  </BACnetMessage>'' @ nl)
     else do {
       npdu \<leftarrow> (if hasNpdu d then npdu_xml frame d else Some []);
       raw \<leftarrow> hex_octets frame 0 frameLength;
       Some (head @ ''    <BVLC'' @ attr ''function'' (''0x'' @ hex2 (bvlcFunction d)) @ ''/>'' @ nl @ npdu @
         ''    <RawHex>'' @ raw @ ''</RawHex>'' @ nl @ ''  </BACnetMessage>'' @ nl) } }"

text \<open>The switch of the command line, and the choice.\<close>

definition ParseXmlLogArg :: "string list \<Rightarrow> bool \<Rightarrow> bool" where
  "ParseXmlLogArg argv enabled = (enabled \<or> list_ex (\<lambda>a. a = ''--xmlLog'' \<or> a = ''--xml'') (tl argv))"

definition LogBacnetFrame :: "bool \<Rightarrow> bytes option \<Rightarrow> nat \<Rightarrow> string option" where
  "LogBacnetFrame xmlEnabled frame frameLength =
    (if xmlEnabled then PrintFrameAsXml frame frameLength
     else do { summary \<leftarrow> SummarizeBacnetFrame frame frameLength 192; Some ('' - '' @ summary @ nl) })"

section \<open>The document it means\<close>

text \<open>XML elements: without contents, with text, or with elements inside, printed with an indentation.\<close>

datatype xml =
    Empty string "(string \<times> string) list"
  | Leaf string string
  | Block string "(string \<times> string) list" "xml list"

definition attrs_text :: "(string \<times> string) list \<Rightarrow> string" where
  "attrs_text attrs = concat (map (\<lambda>(name, v). attr name v) attrs)"

fun render :: "nat \<Rightarrow> xml \<Rightarrow> string" where
  "render i (Empty name attrs) = replicate i (CHR '' '') @ ''<'' @ name @ attrs_text attrs @ ''/>'' @ nl"
| "render i (Leaf name text) = replicate i (CHR '' '') @ ''<'' @ name @ ''>'' @ text @ ''</'' @ name @ ''>'' @ nl"
| "render i (Block name attrs parts) =
    replicate i (CHR '' '') @ ''<'' @ name @ attrs_text attrs @ ''>'' @ nl @ concat (map (render (i + 2)) parts) @
    replicate i (CHR '' '') @ ''</'' @ name @ ''>'' @ nl"

text \<open>Names of letters only, and nothing in a value or a text that would be read as markup.\<close>

definition is_letter :: "char \<Rightarrow> bool" where
  "is_letter c \<longleftrightarrow> (let n = of_char c :: nat in 65 \<le> n \<and> n \<le> 90 \<or> 97 \<le> n \<and> n \<le> 122)"

definition plain :: "char \<Rightarrow> bool" where
  "plain c \<longleftrightarrow> (let n = of_char c :: nat in 32 \<le> n \<and> n < 127 \<and> n \<notin> {34, 38, 60, 62})"

definition is_name :: "string \<Rightarrow> bool" where
  "is_name s \<longleftrightarrow> s \<noteq> [] \<and> list_all is_letter s"

definition attrs_ok :: "(string \<times> string) list \<Rightarrow> bool" where
  "attrs_ok attrs \<longleftrightarrow> distinct (map fst attrs) \<and> list_all (\<lambda>(name, v). is_name name \<and> list_all plain v) attrs"

fun well_formed :: "xml \<Rightarrow> bool" where
  "well_formed (Empty name attrs) \<longleftrightarrow> is_name name \<and> attrs_ok attrs"
| "well_formed (Leaf name text) \<longleftrightarrow> is_name name \<and> list_all plain text"
| "well_formed (Block name attrs parts) \<longleftrightarrow> is_name name \<and> attrs_ok attrs \<and> list_all well_formed parts"

text \<open>The document of a decoded frame.\<close>

definition hex_text :: "bytes \<Rightarrow> string" where
  "hex_text bs = concat (map hex2 bs)"

definition named_attrs :: "string \<Rightarrow> string \<Rightarrow> nat \<Rightarrow> string option \<Rightarrow> (string \<times> string) list" where
  "named_attrs number name v known = (number, dec v) # (case known of Some t \<Rightarrow> [(name, t)] | None \<Rightarrow> [])"

definition route_tree :: "bytes \<Rightarrow> string \<Rightarrow> u16 \<Rightarrow> nat option \<Rightarrow> u8 \<Rightarrow> xml" where
  "route_tree frame name net ptr len =
    Empty name ((''net'', dec (unat net)) #
      (case ptr of Some pos \<Rightarrow> if len > 0 then [(''mac'', hex_text (take (unat len) (drop pos frame)))] else [] | None \<Rightarrow> []))"

definition apdu_attr_list :: "decoded_frame \<Rightarrow> (string \<times> string) list" where
  "apdu_attr_list d =
    (''type'', if pduType d < 8 then PDU_TYPE_NAMES ! unat (pduType d) else ''Unknown'') #
    (if hasInvokeId d then [(''invokeId'', dec (unat (invokeId d)))] else []) @
    (if hasServiceChoice d
     then named_attrs ''service'' ''serviceName'' (unat (serviceChoice d))
       (if pduType d = 1 then UnconfirmedServiceName (serviceChoice d) else ConfirmedServiceName (serviceChoice d))
     else []) @
    (if hasReason d
     then named_attrs ''reason'' ''reasonName'' (unat (reason d))
       (if pduType d = 6 then RejectReasonName (reason d) else AbortReasonName (reason d))
     else [])"

definition apdu_tree :: "decoded_frame \<Rightarrow> xml" where
  "apdu_tree d =
    (if \<not> hasObjectProperty d then Empty ''APDU'' (apdu_attr_list d)
     else Block ''APDU'' (apdu_attr_list d)
       ([Empty ''Object'' (named_attrs ''type'' ''typeName'' (unat (objectType d)) (map_of OBJECT_TYPE_NAMES (unat (objectType d))) @
           [(''instance'', dec (unat (objectInstance d)))]),
         Empty ''Property'' (named_attrs ''id'' ''name'' (unat (propertyId d)) (map_of PROPERTY_NAMES (unat (propertyId d))))] @
        (if hasArrayIndex d then [Empty ''ArrayIndex'' [(''value'', dec (unat (arrayIndex d)))]] else [])))"

definition npdu_tree :: "bytes \<Rightarrow> decoded_frame \<Rightarrow> xml" where
  "npdu_tree frame d =
    Block ''NPDU'' [(''version'', dec (unat (npduVersion d))), (''control'', ''0x'' @ hex2 (npduControl d))]
      ((if hasDest d then [route_tree frame ''Destination'' (dnet d) (dadr d) (dadrLength d)] else []) @
       (if hasSrc d then [route_tree frame ''Source'' (snet d) (sadr d) (sadrLength d)] else []) @
       (if isNetworkMessage d then
          [Empty ''NetworkLayerMessage'' (named_attrs ''type'' ''name'' (unat (networkMessageType d))
            (NetworkMessageName (networkMessageType d)))]
        else if hasApdu d then [apdu_tree d] else []))"

definition frame_tree :: "bytes \<Rightarrow> decoded_frame \<Rightarrow> xml" where
  "frame_tree frame d =
    Block ''BACnetMessage'' [(''bytes'', dec (length frame))]
      (if \<not> bacnetIp d then [Leaf ''Error'' ''not a recognizable BACnet/IP (BVLC) frame'']
       else [Empty ''BVLC'' [(''function'', ''0x'' @ hex2 (bvlcFunction d))]] @
         (if hasNpdu d then [npdu_tree frame d] else []) @ [Leaf ''RawHex'' (hex_text frame)])"

section \<open>What is printed is the document\<close>

lemma hex_octets_text:
  "pos + n \<le> length frame \<Longrightarrow> hex_octets frame pos n = Some (hex_text (take n (drop pos frame)))"
proof (induction frame pos n rule: hex_octets.induct)
  case (2 frame pos n)
  then have "take (Suc n) (drop pos frame) = frame ! pos # take n (drop (pos + 1) frame)"
    using Cons_nth_drop_Suc [of pos frame] by (metis Suc_eq_plus1 add_Suc_right le_add1 less_le_trans lessI linorder_not_le
        not_add_less1 take_Suc_Cons le_less_trans)
  then show ?case using 2 by (simp add: hex_text_def)
qed (simp add: hex_text_def)

lemma attrs_text_simps [simp]:
  "attrs_text [] = []" "attrs_text ((name, v) # attrs) = attr name v @ attrs_text attrs"
  "attrs_text (attrs @ rest) = attrs_text attrs @ attrs_text rest"
  by (simp_all add: attrs_text_def)

lemma named_text: "named number name v known = attrs_text (named_attrs number name v known)"
  by (simp add: named_def named_attrs_def split: option.split)

lemma indents:
  "replicate 2 (CHR '' '') = ''  ''" "replicate 4 (CHR '' '') = ''    ''" "replicate 6 (CHR '' '') = ''      ''"
  "replicate 8 (CHR '' '') = ''        ''"
  by code_simp+

lemma object_xml_parts:
  "object_xml d = Some (concat (map (render 8)
     ([Empty ''Object'' (named_attrs ''type'' ''typeName'' (unat (objectType d)) (map_of OBJECT_TYPE_NAMES (unat (objectType d))) @
         [(''instance'', dec (unat (objectInstance d)))]),
       Empty ''Property'' (named_attrs ''id'' ''name'' (unat (propertyId d)) (map_of PROPERTY_NAMES (unat (propertyId d))))] @
      (if hasArrayIndex d then [Empty ''ArrayIndex'' [(''value'', dec (unat (arrayIndex d)))]] else []))))"
  by (simp add: object_xml_def ObjectTypeName_map_of PropertyName_map_of named_text indents)

lemma apdu_attrs_text: "apdu_attrs d = Some (attrs_text (apdu_attr_list d))"
proof -
  have "rd PDU_TYPE_NAMES (unat (pduType d)) = Some (PDU_TYPE_NAMES ! unat (pduType d))" if "pduType d < 8"
    using that by (simp add: PDU_TYPE_NAMES_def word_less_nat_alt)
  then show ?thesis by (simp add: apdu_attrs_def apdu_attr_list_def named_text)
qed

lemma apdu_xml_render: "apdu_xml d = Some (render 6 (apdu_tree d))"
  by (simp add: apdu_xml_def apdu_tree_def apdu_attrs_text object_xml_parts indents del: append.simps(2))

lemma route_xml_render:
  assumes "pointer_inside (length frame) ptr len"
  shows "route_xml frame name net ptr len = Some (render 6 (route_tree frame name net ptr len))"
  using assms hex_octets_text by (cases ptr) (auto simp: route_xml_def route_tree_def indents)

lemma npdu_xml_render:
  assumes "routes_inside (length frame) d" shows "npdu_xml frame d = Some (render 4 (npdu_tree frame d))"
  using assms by (simp add: npdu_xml_def npdu_tree_def routes_inside_def route_xml_render apdu_xml_render named_text indents)

lemma PrintFrameAsXml_render:
  assumes "length frame \<le> 65535" "DecodeBacnetFrame (Some frame) (length frame) = Some d"
  shows "PrintFrameAsXml (Some frame) (length frame) = Some (nl @ render 2 (frame_tree frame d))"
  using npdu_xml_render [OF DecodeBacnetFrame_inside [OF assms]] hex_octets_text [of 0 "length frame" frame] assms(2)
  by (simp add: PrintFrameAsXml_def frame_tree_def indents Let_def)

section \<open>The document is well formed\<close>

lemma xml_digit_plain: "is_digit c \<Longrightarrow> plain c"
  by (auto simp: is_digit_def plain_def Let_def)

lemma dec_plain [simp]: "list_all plain (dec n)"
  using dec_digits xml_digit_plain by (auto simp: list_all_iff)

lemma hex_digit_plain: "n < 16 \<Longrightarrow> plain (hex_digit n)"
  by (auto simp: hex_digit_def plain_def Let_def)

lemma hex2_plain [simp]: "list_all plain (hex2 b)"
proof -
  have "unat b div 16 < 16" "unat b mod 16 < 16" using unat_u8_less [of b] by (simp_all add: less_mult_imp_div_less)
  then show ?thesis by (simp add: hex2_def hex_digit_plain)
qed

lemma hex_text_plain [simp]: "list_all plain (hex_text bs)"
  by (induction bs) (simp_all add: hex_text_def)

text \<open>The characters of the generated names.\<close>

lemma plain_chars:
  "plain CHR ''-''" "plain CHR ''6''" "plain CHR ''A''" "plain CHR ''B''" "plain CHR ''C''" "plain CHR ''D''"
  "plain CHR ''E''" "plain CHR ''F''" "plain CHR ''G''" "plain CHR ''H''" "plain CHR ''I''" "plain CHR ''K''"
  "plain CHR ''L''" "plain CHR ''M''" "plain CHR ''N''" "plain CHR ''O''" "plain CHR ''P''" "plain CHR ''Q''"
  "plain CHR ''R''" "plain CHR ''S''" "plain CHR ''T''" "plain CHR ''U''" "plain CHR ''V''" "plain CHR ''W''"
  "plain CHR ''Z''" "plain CHR ''_''" "plain CHR ''a''" "plain CHR ''b''" "plain CHR ''c''" "plain CHR ''d''"
  "plain CHR ''e''" "plain CHR ''f''" "plain CHR ''g''" "plain CHR ''h''" "plain CHR ''i''" "plain CHR ''j''"
  "plain CHR ''k''" "plain CHR ''l''" "plain CHR ''m''" "plain CHR ''n''" "plain CHR ''o''" "plain CHR ''p''"
  "plain CHR ''q''" "plain CHR ''r''" "plain CHR ''s''" "plain CHR ''t''" "plain CHR ''u''" "plain CHR ''v''"
  "plain CHR ''w''" "plain CHR ''x''" "plain CHR ''y''" "plain CHR ''z''"
  by code_simp+

definition plain_table :: "id_name list \<Rightarrow> bool" where
  "plain_table table \<longleftrightarrow> list_all (\<lambda>entry. list_all plain (snd entry)) table"

lemma table_object_types: "plain_table OBJECT_TYPE_NAMES"
  by (simp only: plain_table_def OBJECT_TYPE_NAMES_def list.pred_inject snd_conv plain_chars simp_thms)

lemma table_properties:
  "plain_table PROPERTY_NAMES_1" "plain_table PROPERTY_NAMES_2" "plain_table PROPERTY_NAMES_3"
  "plain_table PROPERTY_NAMES_4" "plain_table PROPERTY_NAMES_5"
  by (simp_all only: plain_table_def PROPERTY_NAMES_1_def PROPERTY_NAMES_2_def PROPERTY_NAMES_3_def PROPERTY_NAMES_4_def
    PROPERTY_NAMES_5_def list.pred_inject snd_conv plain_chars simp_thms)

lemma table_name_plain: "plain_table table \<Longrightarrow> map_of table k = Some t \<Longrightarrow> list_all plain t"
  by (auto simp: plain_table_def list_all_iff dest!: map_of_SomeD)

lemma index_name_plain: "list_all (list_all plain) names \<Longrightarrow> index_name names c = Some t \<Longrightarrow> list_all plain t"
  using nth_mem by (auto simp: index_name_def rd_eq_Some list_all_iff split: if_splits)

lemma choices_plain:
  "list_all (list_all plain) confirmed_service_names" "list_all (list_all plain) unconfirmed_service_names"
  "list_all (list_all plain) reject_reason_names" "list_all (list_all plain) abort_reason_names"
  "list_all (list_all plain) PDU_TYPE_NAMES" "list_all plain ''Unknown''"
  by (simp_all only: confirmed_service_names_def unconfirmed_service_names_def reject_reason_names_def abort_reason_names_def
    PDU_TYPE_NAMES_def list.pred_inject plain_chars simp_thms)

lemma names_plain:
  "ConfirmedServiceName c = Some t \<Longrightarrow> list_all plain t" "UnconfirmedServiceName c = Some t \<Longrightarrow> list_all plain t"
  "RejectReasonName c = Some t \<Longrightarrow> list_all plain t" "AbortReasonName c = Some t \<Longrightarrow> list_all plain t"
  "map_of OBJECT_TYPE_NAMES k = Some t \<Longrightarrow> list_all plain t"
  using choices_plain table_object_types
  by (auto simp: ConfirmedServiceName_def UnconfirmedServiceName_def RejectReasonName_def AbortReasonName_def
    intro: index_name_plain table_name_plain)

lemma property_name_plain: "map_of PROPERTY_NAMES k = Some t \<Longrightarrow> list_all plain t"
proof -
  have "plain_table PROPERTY_NAMES" using table_properties by (simp add: PROPERTY_NAMES_def plain_table_def)
  then show "map_of PROPERTY_NAMES k = Some t \<Longrightarrow> list_all plain t" by (rule table_name_plain)
qed

lemma network_name_plain:
  assumes "NetworkMessageName c = Some t" shows "list_all plain t"
proof -
  have "list_all (list_all plain) [''Who-Is-Router-To-Network'', ''I-Am-Router-To-Network'', ''I-Could-Be-Router-To-Network'',
      ''Reject-Message-To-Network'', ''Router-Busy-To-Network'', ''Router-Available-To-Network'',
      ''Initialize-Routing-Table'', ''Initialize-Routing-Table-Ack'', ''What-Is-Network-Number'', ''Network-Number-Is'']"
    by (simp only: list.pred_inject plain_chars simp_thms)
  moreover have "t \<in> set [''Who-Is-Router-To-Network'', ''I-Am-Router-To-Network'', ''I-Could-Be-Router-To-Network'',
      ''Reject-Message-To-Network'', ''Router-Busy-To-Network'', ''Router-Available-To-Network'',
      ''Initialize-Routing-Table'', ''Initialize-Routing-Table-Ack'', ''What-Is-Network-Number'', ''Network-Number-Is'']"
    using assms unfolding NetworkMessageName_def list.set insert_iff empty_iff
    by (simp only: option.inject option.distinct split: if_splits) (simp_all only: simp_thms)
  ultimately show ?thesis unfolding list_all_iff by blast
qed

text \<open>The element and attribute names.\<close>

lemma markup_names:
  "is_name ''BACnetMessage''" "is_name ''Error''" "is_name ''BVLC''" "is_name ''RawHex''" "is_name ''NPDU''"
  "is_name ''Destination''" "is_name ''Source''" "is_name ''NetworkLayerMessage''" "is_name ''APDU''" "is_name ''Object''"
  "is_name ''Property''" "is_name ''ArrayIndex''" "is_name ''bytes''" "is_name ''function''" "is_name ''version''"
  "is_name ''control''" "is_name ''net''" "is_name ''mac''" "is_name ''type''" "is_name ''name''" "is_name ''invokeId''"
  "is_name ''service''" "is_name ''serviceName''" "is_name ''reason''" "is_name ''reasonName''" "is_name ''typeName''"
  "is_name ''instance''" "is_name ''id''" "is_name ''value''"
  by code_simp+

lemma fixed_texts:
  "list_all plain ''not a recognizable BACnet/IP (BVLC) frame''" "plain CHR ''0''" "plain CHR ''x''"
  by code_simp+

lemma attrs_ok_Nil [simp]: "attrs_ok []"
  by (simp add: attrs_ok_def)

lemma attrs_ok_Cons [simp]:
  "attrs_ok ((name, v) # attrs) \<longleftrightarrow> is_name name \<and> list_all plain v \<and> name \<notin> fst ` set attrs \<and> attrs_ok attrs"
  by (auto simp: attrs_ok_def)

lemma attrs_ok_append [simp]:
  "attrs_ok (attrs @ rest) \<longleftrightarrow> attrs_ok attrs \<and> attrs_ok rest \<and> fst ` set attrs \<inter> fst ` set rest = {}"
  by (auto simp: attrs_ok_def)

lemma named_ok:
  "is_name a \<Longrightarrow> is_name b \<Longrightarrow> a \<noteq> b \<Longrightarrow> (\<And>t. known = Some t \<Longrightarrow> list_all plain t) \<Longrightarrow> attrs_ok (named_attrs a b v known)"
  by (simp add: named_attrs_def split: option.split)

lemma named_keys_subset: "fst ` set (named_attrs a b v known) \<subseteq> {a, b}"
  by (cases known) (simp_all add: named_attrs_def)

lemma named_keys: "fst ` set (named_attrs a b v known) = insert a (if known = None then {} else {b})"
  by (cases known) (simp_all add: named_attrs_def)

lemma route_tree_ok: "is_name name \<Longrightarrow> well_formed (route_tree frame name net ptr len)"
  by (simp add: route_tree_def markup_names split: option.split)

lemma service_attrs_ok:
  "attrs_ok (named_attrs ''service'' ''serviceName'' v
     (if ty = (1 :: u8) then UnconfirmedServiceName c else ConfirmedServiceName c))"
  "attrs_ok (named_attrs ''reason'' ''reasonName'' v (if ty = (6 :: u8) then RejectReasonName c else AbortReasonName c))"
  by (intro named_ok markup_names; use names_plain(1-4) in \<open>simp split: if_splits\<close>)+

lemma apdu_attr_list_ok: "attrs_ok (apdu_attr_list d)"
proof -
  have "list_all plain (PDU_TYPE_NAMES ! unat (pduType d))" if "pduType d < 8"
  proof -
    have "unat (pduType d) < length PDU_TYPE_NAMES" using that by (simp add: PDU_TYPE_NAMES_def word_less_nat_alt)
    then show ?thesis using choices_plain(5) nth_mem by (fastforce simp: list_all_iff)
  qed
  then have first: "list_all plain (if pduType d < 8 then PDU_TYPE_NAMES ! unat (pduType d) else ''Unknown'')"
    using choices_plain(6) by simp
  define sv where "sv = (if hasServiceChoice d
     then named_attrs ''service'' ''serviceName'' (unat (serviceChoice d))
       (if pduType d = 1 then UnconfirmedServiceName (serviceChoice d) else ConfirmedServiceName (serviceChoice d))
     else [])"
  define rs where "rs = (if hasReason d
     then named_attrs ''reason'' ''reasonName'' (unat (reason d))
       (if pduType d = 6 then RejectReasonName (reason d) else AbortReasonName (reason d))
     else [])"
  define iv where "iv = (if hasInvokeId d then [(''invokeId'', dec (unat (invokeId d)))] else [])"
  have ok: "attrs_ok sv" "attrs_ok rs" "attrs_ok iv"
    unfolding sv_def rs_def iv_def using service_attrs_ok by (simp_all add: markup_names)
  have keys: "fst ` set sv \<subseteq> {''service'', ''serviceName''}" "fst ` set rs \<subseteq> {''reason'', ''reasonName''}"
    "fst ` set iv \<subseteq> {''invokeId''}"
  proof -
    show "fst ` set sv \<subseteq> {''service'', ''serviceName''}"
      unfolding sv_def by (cases "hasServiceChoice d") (simp_all only: if_True if_False named_keys_subset, simp)
    show "fst ` set rs \<subseteq> {''reason'', ''reasonName''}"
      unfolding rs_def by (cases "hasReason d") (simp_all only: if_True if_False named_keys_subset, simp)
    show "fst ` set iv \<subseteq> {''invokeId''}" unfolding iv_def by auto
  qed
  have disjoint: "''type'' \<notin> fst ` set (iv @ sv @ rs)" "fst ` set iv \<inter> fst ` set (sv @ rs) = {}"
    "fst ` set sv \<inter> fst ` set rs = {}"
  proof -
    have apart: "A \<inter> B = {}" if "A \<subseteq> A'" "B \<subseteq> B'" "A' \<inter> B' = {}" for A B A' B' :: "string set"
      using that by blast
    have "{''type''} \<inter> fst ` set sv = {}" "{''type''} \<inter> fst ` set rs = {}" "{''type''} \<inter> fst ` set iv = {}"
      by (rule apart [OF subset_refl keys(1)] apart [OF subset_refl keys(2)] apart [OF subset_refl keys(3)]; simp)+
    then show "''type'' \<notin> fst ` set (iv @ sv @ rs)" by (simp add: image_Un)
    have "fst ` set iv \<inter> fst ` set sv = {}" by (rule apart [OF keys(3,1)]) simp
    moreover have "fst ` set iv \<inter> fst ` set rs = {}" by (rule apart [OF keys(3,2)]) simp
    ultimately show "fst ` set iv \<inter> fst ` set (sv @ rs) = {}" by (simp add: image_Un Int_Un_distrib)
    show "fst ` set sv \<inter> fst ` set rs = {}" by (rule apart [OF keys(1,2)]) simp
  qed
  show ?thesis unfolding apdu_attr_list_def sv_def [symmetric] rs_def [symmetric] iv_def [symmetric]
    unfolding attrs_ok_Cons attrs_ok_append using first ok disjoint markup_names by blast
qed

lemma object_attrs_ok:
  "attrs_ok (named_attrs ''type'' ''typeName'' v (map_of OBJECT_TYPE_NAMES k))"
  "attrs_ok (named_attrs ''id'' ''name'' v (map_of PROPERTY_NAMES k))"
  "attrs_ok (named_attrs ''type'' ''name'' v (NetworkMessageName c))"
  by (intro named_ok markup_names; use names_plain(5) property_name_plain network_name_plain in simp)+

lemma apdu_tree_ok: "well_formed (apdu_tree d)"
  by (simp add: apdu_tree_def apdu_attr_list_ok object_attrs_ok named_keys markup_names)

lemma npdu_tree_ok: "well_formed (npdu_tree frame d)"
  by (simp add: npdu_tree_def route_tree_ok apdu_tree_ok object_attrs_ok markup_names fixed_texts)

lemma frame_tree_ok: "well_formed (frame_tree frame d)"
  by (simp add: frame_tree_def npdu_tree_ok markup_names fixed_texts [simplified])

section \<open>Reading the frame back\<close>

definition hex_value :: "char \<Rightarrow> nat" where
  "hex_value c = (let n = of_char c in if n < 65 then n - 48 else n - 55)"

fun unhex :: "string \<Rightarrow> bytes" where
  "unhex (a # b # s) = of_nat (16 * hex_value a + hex_value b) # unhex s"
| "unhex _ = []"

lemma hex_value_digit: "n < 16 \<Longrightarrow> hex_value (hex_digit n) = n"
  by (auto simp: hex_digit_def hex_value_def Let_def)

lemma unhex_text [simp]: "unhex (hex_text bs) = bs"
proof (induction bs)
  case (Cons b bs)
  have "unat b div 16 < 16" "unat b mod 16 < 16" using unat_u8_less [of b] by (simp_all add: less_mult_imp_div_less)
  then have "of_nat (16 * hex_value (hex_digit (unat b div 16)) + hex_value (hex_digit (unat b mod 16))) = b"
    by (simp only: hex_value_digit mult_div_mod_eq) simp
  then show ?case using Cons by (simp add: hex_text_def hex2_def)
qed (simp add: hex_text_def)

text \<open>The raw octets of a document.\<close>

fun raw_texts :: "xml \<Rightarrow> string list" where
  "raw_texts (Empty name attrs) = []"
| "raw_texts (Leaf name text) = (if name = ''RawHex'' then [text] else [])"
| "raw_texts (Block name attrs parts) = concat (map raw_texts parts)"

lemma npdu_tree_raw: "raw_texts (npdu_tree frame d) = []"
  by (simp add: npdu_tree_def route_tree_def apdu_tree_def)

text \<open>C37: The frame log is a well-formed XML document for every frame: reading only the frame's own
  octets, it prints one element tree, indented by two columns a level, in which no name, value or text can be
  taken for markup, and its raw text gives back every octet of the frame, so that nothing of it is lost.
  The exception is a frame that is not BACnet/IP, of which nothing but its length is printed, although the comment
  at the function says that the raw octets are always included.\<close>

theorem frame_log_is_well_formed_xml:
  assumes "length frame \<le> 65535"
  obtains d doc where "DecodeBacnetFrame (Some frame) (length frame) = Some d"
    "PrintFrameAsXml (Some frame) (length frame) = Some (nl @ render 2 doc)" "well_formed doc"
    "map unhex (raw_texts doc) = (if bacnetIp d then [frame] else [])"
proof -
  obtain d where d: "DecodeBacnetFrame (Some frame) (length frame) = Some d"
    using DecodeBacnetFrame_safe [of frame "length frame"] assms by (auto simp: safe_def fits_def)
  show ?thesis
    by (rule that [OF d PrintFrameAsXml_render [OF assms d] frame_tree_ok])
      (simp add: frame_tree_def npdu_tree_raw)
qed

lemma frame_log_is_well_formed_xml_witness:
  "\<exists>doc. PrintFrameAsXml (Some [0x81, 0x0B, 0, 9, 1, 0x28, 0, 5, 200]) 9 = Some (nl @ render 2 doc) \<and> well_formed doc"
proof -
  let ?frame = "[0x81, 0x0B, 0, 9, 1, 0x28, 0, 5, 200] :: bytes"
  obtain doc where "PrintFrameAsXml (Some ?frame) (length ?frame) = Some (nl @ render 2 doc)" "well_formed doc"
    by (rule frame_log_is_well_formed_xml [of ?frame]) simp_all
  moreover have "length ?frame = 9" by simp
  ultimately show ?thesis by metis
qed

text \<open>What stands on the console for a frame that is not BACnet/IP.\<close>

lemma foreign_frame_is_not_kept:
  "PrintFrameAsXml (Some [0x55, 1]) 2 =
    Some (nl @ render 2 (Block ''BACnetMessage'' [(''bytes'', ''2'')] [Leaf ''Error'' ''not a recognizable BACnet/IP (BVLC) frame'']))"
  by code_simp

end
