(* ===== verification/Log_File.thy ===== *)
theory Log_File
  imports Prelude
begin

text \<open>
  The log file, \<^verbatim>\<open>src/log_file.cpp\<close>: \<^verbatim>\<open>LogFile::Start\<close> points the
  descriptors 1 and 2 of the process at a pipe, a thread copies the pipe to the console and to the file,
  and \<^verbatim>\<open>Stop\<close> puts everything back.  The model keeps the table of open descriptors of the
  process, what stands in the pipe, the screens behind the terminals and the contents of the file.
\<close>

section \<open>Descriptors\<close>

text \<open>What a descriptor refers to: a file or terminal the process was started with, an end of the pipe,
  or the log file.\<close>

datatype target = Terminal nat | PipeRead | PipeWrite | LogStream

type_synonym descriptors = "nat \<Rightarrow> target option"

text \<open>A new descriptor is the lowest one that is free, below the limit of the process.\<close>

definition alloc :: "nat \<Rightarrow> descriptors \<Rightarrow> nat option" where
  "alloc limit f = find (\<lambda>i. f i = None) [0..<limit]"

definition fd_open :: "nat \<Rightarrow> target \<Rightarrow> descriptors \<Rightarrow> (nat \<times> descriptors) option" where
  "fd_open limit t f = map_option (\<lambda>i. (i, f(i \<mapsto> t))) (alloc limit f)"

definition fd_dup :: "nat \<Rightarrow> nat \<Rightarrow> descriptors \<Rightarrow> (nat \<times> descriptors) option" where
  "fd_dup limit i f = (case f i of None \<Rightarrow> None | Some t \<Rightarrow> fd_open limit t f)"

text \<open>\<^verbatim>\<open>dup2(from, to)\<close>, which closes \<^verbatim>\<open>to\<close> first; \<^verbatim>\<open>close\<close>.\<close>

definition fd_dup2 :: "nat \<Rightarrow> nat \<Rightarrow> descriptors \<Rightarrow> descriptors option" where
  "fd_dup2 i j f = (case f i of None \<Rightarrow> None | Some t \<Rightarrow> Some (f(j \<mapsto> t)))"

definition fd_close :: "nat option \<Rightarrow> descriptors \<Rightarrow> descriptors" where
  "fd_close i f = (case i of None \<Rightarrow> f | Some i \<Rightarrow> f(i := None))"

section \<open>State\<close>

text \<open>\<^verbatim>\<open>None\<close> is the descriptor -1, and the null pointer of \<^verbatim>\<open>g_file\<close>, which
  holds the descriptor behind the stream.  \<^verbatim>\<open>log_content\<close> is \<^verbatim>\<open>None\<close> while
  there is no file.\<close>

record log_state =
  g_file :: "nat option"
  g_pipeRead :: "nat option"
  g_pipeWrite :: "nat option"
  g_consoleOut :: "nat option"
  g_consoleErr :: "nat option"
  g_thread :: bool
  g_running :: bool
  registered :: bool
  fds :: descriptors
  pipe_data :: string
  screen :: "nat \<Rightarrow> string"
  log_content :: "string option"

text \<open>What the system decides while \<^verbatim>\<open>Start\<close> runs: the limit of descriptors, whether the file
  can be made, the pipe, and the two \<^verbatim>\<open>dup2\<close> onto 1 and 2.\<close>

record log_os =
  fd_limit :: nat
  opens_log :: bool
  makes_pipe :: bool
  dup2_ok :: "nat \<Rightarrow> bool"

definition fd_pipe :: "nat \<Rightarrow> descriptors \<Rightarrow> (nat \<times> nat \<times> descriptors) option" where
  "fd_pipe limit f =
    (case fd_open limit PipeRead f of None \<Rightarrow> None
     | Some (r, f) \<Rightarrow> (case fd_open limit PipeWrite f of None \<Rightarrow> None | Some (w, f) \<Rightarrow> Some (r, w, f)))"

definition try_dup2 :: "log_os \<Rightarrow> nat \<Rightarrow> nat \<Rightarrow> descriptors \<Rightarrow> bool \<times> descriptors" where
  "try_dup2 e i j f =
    (if dup2_ok e j then (case fd_dup2 i j f of None \<Rightarrow> (False, f) | Some f \<Rightarrow> (True, f)) else (False, f))"

text \<open>A \<^verbatim>\<open>dup2\<close> whose result is not looked at.\<close>

definition put_back :: "nat option \<Rightarrow> nat \<Rightarrow> descriptors \<Rightarrow> descriptors" where
  "put_back i j f = (case i of None \<Rightarrow> f | Some i \<Rightarrow> (case fd_dup2 i j f of None \<Rightarrow> f | Some f \<Rightarrow> f))"

section \<open>Start, the copy thread and Stop\<close>

definition capture :: "log_os \<Rightarrow> nat option \<Rightarrow> nat \<Rightarrow> descriptors \<Rightarrow> bool \<times> descriptors" where
  "capture e consoleOut w f =
    (if consoleOut = None then (False, f)
     else case try_dup2 e w 1 f of
       (False, f) \<Rightarrow> (False, f)
     | (True, f) \<Rightarrow> try_dup2 e w 2 f)"

definition dup_of :: "nat \<Rightarrow> nat \<Rightarrow> descriptors \<Rightarrow> nat option \<times> descriptors" where
  "dup_of limit i f = (case fd_dup limit i f of None \<Rightarrow> (None, f) | Some (j, f) \<Rightarrow> (Some j, f))"

definition Start :: "log_os \<Rightarrow> log_state \<Rightarrow> bool \<times> log_state" where
  "Start e s =
    (if g_running s then (True, s)
     else if \<not> opens_log e then (False, s\<lparr> g_file := None \<rparr>)
     else case fd_open (fd_limit e) LogStream (fds s) of
       None \<Rightarrow> (False, s\<lparr> g_file := None \<rparr>)
     | Some (file, f) \<Rightarrow>
         let s = s\<lparr> log_content := Some [] \<rparr> in
         (case (if makes_pipe e then fd_pipe (fd_limit e) f else None) of
            None \<Rightarrow> (False, s\<lparr> g_file := None, fds := fd_close (Some file) f \<rparr>)
          | Some (r, w, f) \<Rightarrow>
              let (consoleOut, f) = dup_of (fd_limit e) 1 f;
                  (consoleErr, f) = dup_of (fd_limit e) 2 f;
                  (captured, f) = capture e consoleOut w f in
              if \<not> captured then
                let f = fd_close consoleOut (put_back consoleOut 1 f);
                    f = fd_close consoleErr (put_back consoleErr 2 f);
                    f = fd_close (Some file) (fd_close (Some w) (fd_close (Some r) f)) in
                (False, s\<lparr> g_file := None, g_pipeRead := None, g_pipeWrite := None, g_consoleOut := None,
                           g_consoleErr := None, fds := f \<rparr>)
              else
                (True, s\<lparr> g_file := Some file, g_pipeRead := Some r, g_pipeWrite := Some w,
                          g_consoleOut := consoleOut, g_consoleErr := consoleErr, fds := f, pipe_data := [],
                          g_running := True, g_thread := True, registered := True \<rparr>)))"

text \<open>A write of the process; and one turn of \<^verbatim>\<open>CopyLoop\<close>, a \<^verbatim>\<open>read\<close>
  that returned \<^verbatim>\<open>n\<close> of the octets waiting, at most the 4096 of the buffer.  The writes to the
  console and to the file take all they are given.\<close>

definition to_target :: "string \<Rightarrow> target option \<Rightarrow> log_state \<Rightarrow> log_state" where
  "to_target text t s =
    (case t of
       Some (Terminal i) \<Rightarrow> s\<lparr> screen := (screen s)(i := screen s i @ text) \<rparr>
     | Some PipeWrite \<Rightarrow> s\<lparr> pipe_data := pipe_data s @ text \<rparr>
     | Some LogStream \<Rightarrow> s\<lparr> log_content := map_option (\<lambda>c. c @ text) (log_content s) \<rparr>
     | _ \<Rightarrow> s)"

definition at_fd :: "nat option \<Rightarrow> log_state \<Rightarrow> target option" where
  "at_fd i s = (case i of None \<Rightarrow> None | Some i \<Rightarrow> fds s i)"

definition CopyTurn :: "nat \<Rightarrow> log_state \<Rightarrow> log_state" where
  "CopyTurn n s =
    (let buffer = take (min n 4096) (pipe_data s);
         s = s\<lparr> pipe_data := drop (min n 4096) (pipe_data s) \<rparr>;
         s = to_target buffer (at_fd (g_consoleOut s) s) s
     in to_target buffer (at_fd (g_file s) s) s)"

datatype log_event = ProcessWrites nat string | ThreadReads nat

fun log_event_step :: "log_event \<Rightarrow> log_state \<Rightarrow> log_state" where
  "log_event_step (ProcessWrites i text) s = to_target text (fds s i) s"
| "log_event_step (ThreadReads n) s = (if g_thread s then CopyTurn n s else s)"

text \<open>\<^verbatim>\<open>CopyLoop\<close> to its end: it reads until the pipe is empty, and ends when no descriptor
  of the process can write to the pipe any more.  \<^verbatim>\<open>None\<close>: it waits for ever.  What the thread
  writes into the pipe itself comes back to it.\<close>

definition pipe_closed :: "nat \<Rightarrow> log_state \<Rightarrow> bool" where
  "pipe_closed limit s = list_all (\<lambda>i. fds s i \<noteq> Some PipeWrite) [0..<limit]"

partial_function (option) CopyLoop :: "nat \<Rightarrow> log_state \<Rightarrow> log_state option" where
  "CopyLoop limit s =
    (if pipe_data s = [] then (if pipe_closed limit s then Some s else CopyLoop limit s)
     else CopyLoop limit (CopyTurn 4096 s))"

definition Stop :: "nat \<Rightarrow> log_state \<Rightarrow> log_state option" where
  "Stop limit s =
    (if \<not> g_running s then Some s
     else do {
       let f = put_back (g_consoleErr s) 2 (put_back (g_consoleOut s) 1 (fds s));
       let s = s\<lparr> g_running := False, fds := fd_close (g_pipeWrite s) f, g_pipeWrite := None \<rparr>;
       s \<leftarrow> (if g_thread s then CopyLoop limit s else Some s);
       let f = fd_close (g_consoleErr s) (fd_close (g_consoleOut s) (fd_close (g_pipeRead s) (fds s)));
       Some (s\<lparr> g_thread := False, g_pipeRead := None, g_consoleOut := None, g_consoleErr := None,
                fds := fd_close (g_file s) f, g_file := None \<rparr>) })"

section \<open>Descriptors: lemmas\<close>

definition free_count :: "nat \<Rightarrow> descriptors \<Rightarrow> nat" where
  "free_count limit f = card {i. i < limit \<and> f i = None}"

lemma alloc_Some: "alloc limit f = Some i \<Longrightarrow> i < limit \<and> f i = None"
  unfolding alloc_def by (auto simp: find_Some_iff)

lemma alloc_None: "alloc limit f = None \<longleftrightarrow> free_count limit f = 0"
  by (auto simp: alloc_def find_None_iff free_count_def card_eq_0_iff)

lemma free_count_take:
  assumes "i < limit" "f i = None" shows "free_count limit f = Suc (free_count limit (f(i \<mapsto> t)))"
proof -
  have "{j. j < limit \<and> f j = None} = insert i {j. j < limit \<and> (f(i \<mapsto> t)) j = None}" using assms by auto
  then show ?thesis by (simp add: free_count_def)
qed

lemma fd_open_cases:
  obtains "free_count limit f = 0" "fd_open limit t f = None"
  | i where "i < limit" "f i = None" "fd_open limit t f = Some (i, f(i \<mapsto> t))"
      "free_count limit f = Suc (free_count limit (f(i \<mapsto> t)))"
proof (cases "alloc limit f")
  case None
  then show ?thesis using alloc_None [of limit f] that(1) by (simp add: fd_open_def)
next
  case (Some i)
  note i = alloc_Some [OF Some, THEN conjunct1] alloc_Some [OF Some, THEN conjunct2]
  show ?thesis by (rule that(2) [OF i _ free_count_take [of i limit f t, OF i]]) (simp add: fd_open_def Some)
qed

lemma dup_of_cases:
  assumes "f i = Some t"
  obtains "free_count limit f = 0" "dup_of limit i f = (None, f)"
  | j where "j < limit" "f j = None" "dup_of limit i f = (Some j, f(j \<mapsto> t))"
      "free_count limit f = Suc (free_count limit (f(j \<mapsto> t)))"
  by (rule fd_open_cases [of limit f t]) (simp_all add: that dup_of_def fd_dup_def assms)

text \<open>The table after a start that worked.\<close>

definition captured_fds :: "nat \<Rightarrow> nat \<Rightarrow> nat \<Rightarrow> nat \<Rightarrow> target \<Rightarrow> nat option \<Rightarrow> target \<Rightarrow> descriptors \<Rightarrow> descriptors" where
  "captured_fds file r w co a ce b f =
    (let f = f(file \<mapsto> LogStream, r \<mapsto> PipeRead, w \<mapsto> PipeWrite, co \<mapsto> a);
         f = (case ce of None \<Rightarrow> f | Some j \<Rightarrow> f(j \<mapsto> b))
     in f(1 \<mapsto> PipeWrite, 2 \<mapsto> PipeWrite))"

text \<open>The descriptors that a start took are distinct and were free.\<close>

definition taken :: "nat \<Rightarrow> nat list \<Rightarrow> descriptors \<Rightarrow> bool" where
  "taken limit ds f \<longleftrightarrow> distinct ds \<and> (\<forall>i \<in> set ds. i < limit \<and> f i = None)"

lemma capture_cases:
  assumes "f w = Some PipeWrite" "w \<noteq> 1"
  shows "capture e None w f = (False, f)"
    "capture e (Some co) w f = (True, f(1 \<mapsto> PipeWrite, 2 \<mapsto> PipeWrite)) \<or>
     capture e (Some co) w f = (False, f) \<or> capture e (Some co) w f = (False, f(1 \<mapsto> PipeWrite))"
  using assms by (auto simp: capture_def try_dup2_def fd_dup2_def)

lemma fd_pipe_cases:
  assumes "fd_pipe limit f = Some (r, w, f')"
  shows "taken limit [r, w] f \<and> f' = f(r \<mapsto> PipeRead, w \<mapsto> PipeWrite) \<and>
    free_count limit f = Suc (Suc (free_count limit f'))"
proof (cases rule: fd_open_cases [of limit f PipeRead])
  case 1
  then show ?thesis using assms by (simp add: fd_pipe_def)
next
  case (2 i)
  note first = this
  show ?thesis
  proof (cases rule: fd_open_cases [of limit "f(i \<mapsto> PipeRead)" PipeWrite])
    case 1
    then show ?thesis using assms first by (simp add: fd_pipe_def)
  next
    case (2 j)
    have "fd_pipe limit f = Some (i, j, f(i \<mapsto> PipeRead, j \<mapsto> PipeWrite))"
      using first(3) 2(3) by (simp add: fd_pipe_def)
    then have eqs: "r = i" "w = j" "f' = f(i \<mapsto> PipeRead, j \<mapsto> PipeWrite)" using assms by simp_all
    show ?thesis unfolding eqs using first 2 by (auto simp: taken_def split: if_splits)
  qed
qed

lemma undo_capture:
  assumes "taken limit ([lf, r, w, co] @ (case ce of None \<Rightarrow> [] | Some j \<Rightarrow> [j])) f" "f 1 = Some a" "f 2 = Some b"
    "g = f(lf \<mapsto> LogStream, r \<mapsto> PipeRead, w \<mapsto> PipeWrite, co \<mapsto> a)"
    "h = (case ce of None \<Rightarrow> g | Some j \<Rightarrow> g(j \<mapsto> b))" "h' = h \<or> h' = h(1 \<mapsto> PipeWrite)"
  shows "fd_close (Some lf) (fd_close (Some w) (fd_close (Some r)
    (fd_close ce (put_back ce 2 (fd_close (Some co) (put_back (Some co) 1 h')))))) = f"
proof -
  have new: "lf \<noteq> 1" "lf \<noteq> 2" "r \<noteq> 1" "r \<noteq> 2" "w \<noteq> 1" "w \<noteq> 2" "co \<noteq> 1" "co \<noteq> 2"
    "co \<noteq> lf" "co \<noteq> r" "co \<noteq> w" "f lf = None" "f r = None" "f w = None" "f co = None"
    using assms(1-3) by (auto simp: taken_def)
  have h: "h 1 = Some a" "h co = Some a" "h 2 = Some b"
    using assms(1-5) new by (auto simp: taken_def split: option.splits)
  have "h'(1 \<mapsto> a) = h" using assms(6) h(1) by (auto simp: fun_eq_iff)
  moreover have "h' co = Some a" using assms(6) h(2) new by auto
  ultimately have back1: "put_back (Some co) 1 h' = h" by (simp add: put_back_def fd_dup2_def)
  show ?thesis
  proof (cases ce)
    case None
    then show ?thesis unfolding back1 assms(4,5)
      by (intro ext) (simp add: fd_close_def put_back_def new)
  next
    case (Some k)
    then have k: "k \<noteq> 1" "k \<noteq> 2" "k \<noteq> lf" "k \<noteq> r" "k \<noteq> w" "k \<noteq> co" "f k = None"
      using assms(1-3) by (auto simp: taken_def)
    have "h k = Some b" using Some assms(5) by simp
    then have back2: "put_back (Some k) 2 (fd_close (Some co) h) = fd_close (Some co) h"
      using h(3) new k by (auto simp: put_back_def fd_dup2_def fd_close_def fun_eq_iff)
    show ?thesis unfolding back1 Some back2
      by (intro ext) (simp add: fd_close_def new k Some assms(4,5))
  qed
qed

lemma Start_steps:
  assumes "\<not> g_running s" "opens_log e" "fd_open (fd_limit e) LogStream (fds s) = Some (lf, f)"
    "makes_pipe e" "fd_pipe (fd_limit e) f = Some (r, w, g2)"
    "dup_of (fd_limit e) 1 g2 = (co, g3)" "dup_of (fd_limit e) 2 g3 = (ce, g4)" "capture e co w g4 = (captured, g5)"
  shows "Start e s = (if captured
     then (True, s\<lparr> log_content := Some [], g_file := Some lf, g_pipeRead := Some r, g_pipeWrite := Some w,
        g_consoleOut := co, g_consoleErr := ce, fds := g5, pipe_data := [], g_running := True, g_thread := True,
        registered := True \<rparr>)
     else (False, s\<lparr> log_content := Some [], g_file := None, g_pipeRead := None, g_pipeWrite := None, g_consoleOut := None,
        g_consoleErr := None, fds := fd_close (Some lf) (fd_close (Some w) (fd_close (Some r)
          (fd_close ce (put_back ce 2 (fd_close co (put_back co 1 g5)))))) \<rparr>))"
  by (cases captured) (simp_all add: Start_def Let_def assms del: One_nat_def)

lemma Start_outcome:
  assumes "\<not> g_running s" "fds s 1 = Some (Terminal a)" "fds s 2 = Some (Terminal b)" "Start e s = (ok, s')"
  obtains (failed) "\<not> ok" "fds s' = fds s" "\<not> g_running s'" "screen s' = screen s"
  | (started) lf r w co ce where "ok"
    "taken (fd_limit e) ([lf, r, w, co] @ (case ce of None \<Rightarrow> [] | Some j \<Rightarrow> [j])) (fds s)"
    "s' = s\<lparr> g_file := Some lf, g_pipeRead := Some r, g_pipeWrite := Some w, g_consoleOut := Some co,
       g_consoleErr := ce, fds := captured_fds lf r w co (Terminal a) ce (Terminal b) (fds s), pipe_data := [],
       g_running := True, g_thread := True, registered := True, log_content := Some [] \<rparr>"
    "ce = None \<longleftrightarrow> free_count (fd_limit e) (fds s) = 4"
proof -
  let ?n = "fd_limit e" and ?f = "fds s"
  consider (closed) "\<not> opens_log e \<or> fd_open ?n LogStream ?f = None"
    | (lf) lf where "opens_log e" "lf < ?n" "?f lf = None" "fd_open ?n LogStream ?f = Some (lf, ?f(lf \<mapsto> LogStream))"
      "free_count ?n ?f = Suc (free_count ?n (?f(lf \<mapsto> LogStream)))"
    by (rule fd_open_cases [of ?n ?f LogStream]; cases "opens_log e") simp_all
  then show thesis
  proof cases
    case closed
    then show ?thesis using assms(1,4) by (intro failed) (auto simp: Start_def split: if_splits)
  next
    case lf
    let ?g = "?f(lf \<mapsto> LogStream)"
    show ?thesis
    proof (cases "if makes_pipe e then fd_pipe ?n ?g else None")
      case None
      then have "s' = s\<lparr> log_content := Some [], g_file := None, fds := fd_close (Some lf) ?g \<rparr>" "\<not> ok"
        using assms(1,4) lf by (auto simp: Start_def Let_def)
      then show ?thesis using assms(1) lf(3) by (intro failed) (auto simp: fd_close_def)
    next
      case (Some p)
      then obtain r w g2 where p: "p = (r, w, g2)" "fd_pipe ?n ?g = Some (r, w, g2)"
        by (cases p) (auto split: if_splits)
      note fp = fd_pipe_cases [OF p(2)]
      obtain co g3 where c1: "dup_of ?n 1 g2 = (co, g3)" by (rule prod.exhaust)
      obtain ce g4 where c2: "dup_of ?n 2 g3 = (ce, g4)" by (rule prod.exhaust)
      obtain captured g5 where c3: "capture e co w g4 = (captured, g5)" by (rule prod.exhaust)
      note c = c1 c2 c3
      have new: "lf \<noteq> 1" "lf \<noteq> 2" "r \<noteq> 1" "r \<noteq> 2" "w \<noteq> 1" "w \<noteq> 2" "w \<noteq> lf" "r \<noteq> lf" "r \<noteq> w"
        using fp lf(3) assms(2,3) by (auto simp: taken_def split: if_splits)
      have g2eq: "g2 = ?f(lf \<mapsto> LogStream, r \<mapsto> PipeRead, w \<mapsto> PipeWrite)" using fp by simp
      have rw: "r < ?n" "w < ?n" "?f r = None" "?f w = None" using fp new by (auto simp: taken_def split: if_splits)
      have g2: "g2 1 = Some (Terminal a)" "g2 2 = Some (Terminal b)" "g2 w = Some PipeWrite"
        using fp new assms(2,3) by auto
      have pipes: "makes_pipe e" using Some p(1) by (auto split: if_splits)
      note step = Start_steps [OF assms(1) lf(1,4) pipes p(2) c, unfolded assms(4)]
      show ?thesis
      proof (cases co)
        case None
        have full: "g3 = g2" "free_count ?n g2 = 0"
          by (rule dup_of_cases [of g2 1 "Terminal a" ?n, OF g2(1)]; use c(1) None in simp)+
        moreover have "ce = None" "g4 = g3"
          by (rule dup_of_cases [of g2 2 "Terminal b" ?n, OF g2(2)]; use c(2) full in simp)+
        ultimately have "g5 = g2" "\<not> captured" "ce = None" using c(3) None by (simp_all add: capture_def)
        then have "s' = s\<lparr> log_content := Some [], g_file := None, g_pipeRead := None, g_pipeWrite := None, g_consoleOut := None,
          g_consoleErr := None, fds := fd_close (Some lf) (fd_close (Some w) (fd_close (Some r) g2)) \<rparr>" "\<not> ok"
          using step None by (simp_all add: fd_close_def put_back_def)
        moreover have "fd_close (Some lf) (fd_close (Some w) (fd_close (Some r) g2)) = ?f"
          unfolding g2eq using lf(3) rw by (auto simp: fd_close_def fun_eq_iff)
        ultimately show ?thesis using assms(1) by (intro failed) simp_all
      next
        case (Some j)
        have j: "j < ?n" "g2 j = None" "g3 = g2(j \<mapsto> Terminal a)" "free_count ?n g2 = Suc (free_count ?n g3)"
          by (rule dup_of_cases [of g2 1 "Terminal a" ?n, OF g2(1)]; use c(1) Some in simp)+
        then have g3: "g3 2 = Some (Terminal b)" using g2 new by auto
        have ce: "g4 = (case ce of None \<Rightarrow> g3 | Some k \<Rightarrow> g3(k \<mapsto> Terminal b))" "\<forall>k. ce = Some k \<longrightarrow> k < ?n \<and> g3 k = None"
          "ce = None \<longleftrightarrow> free_count ?n g3 = 0"
          by (rule dup_of_cases [of g3 2 "Terminal b" ?n, OF g3]; use c(2) in auto)+
        have t: "taken ?n ([lf, r, w, j] @ (case ce of None \<Rightarrow> [] | Some j \<Rightarrow> [j])) ?f"
        proof -
          have "j \<noteq> lf" "j \<noteq> r" "j \<noteq> w" "?f j = None" using j(2) g2eq by (auto split: if_splits)
          moreover have "k \<noteq> lf \<and> k \<noteq> r \<and> k \<noteq> w \<and> k \<noteq> j \<and> ?f k = None" if "g3 k = None" for k
            using that j(3) g2eq by (auto split: if_splits)
          ultimately show ?thesis using rw lf(2,3) j(1) ce(2) new by (cases ce) (auto simp: taken_def)
        qed
        have four: "ce = None \<longleftrightarrow> free_count ?n ?f = 4" using lf(5) fp j(4) ce(3) by auto
        have g4w: "g4 w = Some PipeWrite" using ce g2(3) j(2,3) by (auto split: option.splits)
        note cap = capture_cases(2) [of g4 w e j, OF g4w new(5), folded Some, unfolded c(3)]
        show ?thesis
        proof (cases captured)
          case True
          then have "g5 = captured_fds lf r w j (Terminal a) ce (Terminal b) ?f"
            using cap unfolding captured_fds_def Let_def ce(1) j(3) g2eq by simp
          then show ?thesis using True step t four Some by (intro started) auto
        next
          case False
          then have "g5 = g4 \<or> g5 = g4(1 \<mapsto> PipeWrite)" using cap by auto
          from undo_capture [OF t assms(2,3) _ _ this] fp ce(1) j(3) Some False step assms(1)
          show ?thesis by (intro failed) auto
        qed
      qed
    qed
  qed
qed

section \<open>What is written reaches the console and the file\<close>

fun event_text :: "log_event \<Rightarrow> string" where
  "event_text (ProcessWrites i text) = text"
| "event_text (ThreadReads n) = []"

definition by_stdio :: "log_event \<Rightarrow> bool" where
  "by_stdio ev \<longleftrightarrow> (\<forall>i text. ev = ProcessWrites i text \<longrightarrow> i \<in> {1, 2})"

text \<open>While it runs: the file and the console have the same beginning of what was written, and the rest
  stands in the pipe.\<close>

definition copying :: "nat \<Rightarrow> (nat \<Rightarrow> string) \<Rightarrow> string \<Rightarrow> log_state \<Rightarrow> bool" where
  "copying a scr out s \<longleftrightarrow>
    (\<exists>l. log_content s = Some l \<and> out = l @ pipe_data s \<and> screen s = scr(a := scr a @ l)) \<and>
    at_fd (g_consoleOut s) s = Some (Terminal a) \<and> at_fd (g_file s) s = Some LogStream"

text \<open>What stays: everything but the pipe, the screens and the file.\<close>

definition same_plumbing :: "log_state \<Rightarrow> log_state \<Rightarrow> bool" where
  "same_plumbing s s' \<longleftrightarrow> fds s' = fds s \<and> g_file s' = g_file s \<and> g_pipeRead s' = g_pipeRead s \<and>
    g_pipeWrite s' = g_pipeWrite s \<and> g_consoleOut s' = g_consoleOut s \<and> g_consoleErr s' = g_consoleErr s \<and>
    g_thread s' = g_thread s \<and> g_running s' = g_running s"

lemma same_plumbing_refl [simp]: "same_plumbing s s"
  by (simp add: same_plumbing_def)

lemma same_plumbing_trans: "same_plumbing s t \<Longrightarrow> same_plumbing t u \<Longrightarrow> same_plumbing s u"
  by (simp add: same_plumbing_def)

lemma to_target_plumbing [simp]: "same_plumbing s (to_target text t s)"
  by (simp add: to_target_def same_plumbing_def split: option.split target.split)

lemma CopyTurn_plumbing: "same_plumbing s (CopyTurn n s)"
proof -
  let ?s = "s\<lparr> pipe_data := drop (min n 4096) (pipe_data s) \<rparr>"
  have "same_plumbing s ?s" by (simp add: same_plumbing_def)
  then show ?thesis unfolding CopyTurn_def Let_def
    by (blast intro: same_plumbing_trans to_target_plumbing)
qed

lemma CopyTurn_copying: "copying a scr out s \<Longrightarrow> copying a scr out (CopyTurn n s)"
  by (auto simp: copying_def CopyTurn_def to_target_def Let_def at_fd_def split: option.splits)

lemma CopyTurn_pipe: "copying a scr out s \<Longrightarrow> pipe_data (CopyTurn n s) = drop (min n 4096) (pipe_data s)"
  by (auto simp: copying_def CopyTurn_def to_target_def Let_def at_fd_def split: option.splits)

lemma events_copied:
  assumes "list_all by_stdio evs" "copying a scr out s" "fds s 1 = Some PipeWrite" "fds s 2 = Some PipeWrite"
  shows "copying a scr (out @ concat (map event_text evs)) (fold log_event_step evs s) \<and>
    same_plumbing s (fold log_event_step evs s)"
  using assms
proof (induction evs arbitrary: s out)
  case (Cons ev evs)
  have "copying a scr (out @ event_text ev) (log_event_step ev s) \<and> same_plumbing s (log_event_step ev s)"
  proof (cases ev)
    case (ProcessWrites i written)
    then have "fds s i = Some PipeWrite" using Cons.prems by (auto simp: by_stdio_def)
    then show ?thesis using Cons.prems(2) ProcessWrites
      by (auto simp: copying_def to_target_def same_plumbing_def at_fd_def split: option.splits)
  next
    case (ThreadReads n)
    then show ?thesis using Cons.prems(2) CopyTurn_copying CopyTurn_plumbing by simp
  qed
  moreover from this have "fds (log_event_step ev s) = fds s" by (simp add: same_plumbing_def)
  ultimately show ?case using Cons.IH [of "out @ event_text ev" "log_event_step ev s"] Cons.prems
    by (auto intro: same_plumbing_trans)
qed simp

lemma pipe_closed_plumbing: "same_plumbing s t \<Longrightarrow> pipe_closed limit t = pipe_closed limit s"
  by (simp add: same_plumbing_def pipe_closed_def)

lemma CopyLoop_drains:
  assumes "copying a scr out s" "pipe_closed limit s"
  shows "\<exists>t. CopyLoop limit s = Some t \<and> copying a scr out t \<and> pipe_data t = [] \<and> same_plumbing s t"
  using assms
proof (induction "length (pipe_data s)" arbitrary: s rule: less_induct)
  case less
  show ?case
  proof (cases "pipe_data s = []")
    case True
    then show ?thesis using less.prems CopyLoop.simps [of limit s] by simp
  next
    case False
    let ?t = "CopyTurn 4096 s"
    have "length (pipe_data ?t) < length (pipe_data s)" using CopyTurn_pipe [OF less.prems(1)] False by simp
    from less.hyps [OF this CopyTurn_copying [OF less.prems(1)]] less.prems(2)
      pipe_closed_plumbing [OF CopyTurn_plumbing]
    obtain t where "CopyLoop limit ?t = Some t" "copying a scr out t" "pipe_data t = []" "same_plumbing ?t t" by blast
    then show ?thesis using False CopyLoop.simps [of limit s] same_plumbing_trans [OF CopyTurn_plumbing] by auto
  qed
qed

lemma CopyLoop_needs_closed:
  assumes "CopyLoop limit s = Some t" shows "pipe_closed limit s"
proof (rule CopyLoop.raw_induct [where P = "\<lambda>limit s t. pipe_closed limit s", OF _ assms])
  fix loop limit s t
  assume ih: "\<And>limit s t. loop limit s = Some t \<Longrightarrow> pipe_closed limit s"
    and step: "(if pipe_data s = [] then if pipe_closed limit s then Some s else loop limit s
      else loop limit (CopyTurn 4096 s)) = Some t"
  show "pipe_closed limit s"
  proof (cases "pipe_data s = []")
    case True
    then show ?thesis using ih step by (auto split: if_splits)
  next
    case False
    then have "pipe_closed limit (CopyTurn 4096 s)" using ih step by simp
    then show ?thesis using pipe_closed_plumbing [OF CopyTurn_plumbing [of s 4096]] by simp
  qed
qed

text \<open>C23: The log file as a whole: starting it either leaves the process exactly as it was, or from then
  on everything the process writes to its output or its error stream, in any interleaving with the copy
  thread, stands in the file and on the console, once and in order, when \<^verbatim>\<open>Stop\<close> returns;
  and \<^verbatim>\<open>Stop\<close> does return, with every descriptor as before the start, unless the
  process had exactly four descriptors left, when the copy of the error stream could not be made: then
  descriptor 2 still holds the pipe open and \<^verbatim>\<open>Stop\<close> waits for the thread for ever.\<close>

theorem log_file_keeps_everything:
  assumes "\<not> g_running s" "fds s 1 = Some (Terminal a)" "fds s 2 = Some (Terminal b)" "PipeWrite \<notin> ran (fds s)"
    "Start e s = (ok, s1)" "list_all by_stdio evs" "2 < fd_limit e"
  shows "if \<not> ok then fds s1 = fds s \<and> screen s1 = screen s \<and> \<not> g_running s1
    else if free_count (fd_limit e) (fds s) = 4 then Stop (fd_limit e) (fold log_event_step evs s1) = None
    else \<exists>s2. Stop (fd_limit e) (fold log_event_step evs s1) = Some s2 \<and>
      log_content s2 = Some (concat (map event_text evs)) \<and>
      screen s2 = (screen s)(a := screen s a @ concat (map event_text evs)) \<and>
      fds s2 = fds s \<and> \<not> g_running s2"
  using assms(1-3,5)
proof (cases rule: Start_outcome)
  case failed
  then show ?thesis by simp
next
  case (started lf r w co ce)
  let ?t = "fold log_event_step evs s1" and ?n = "fd_limit e"
  have new: "lf \<noteq> 1" "lf \<noteq> 2" "r \<noteq> 1" "r \<noteq> 2" "w \<noteq> 1" "w \<noteq> 2" "co \<noteq> 1" "co \<noteq> 2" "distinct [lf, r, w, co]"
    "fds s lf = None" "fds s r = None" "fds s w = None" "fds s co = None" "w < ?n"
    using started(2) assms(2,3) by (auto simp: taken_def)
  have ce: "k \<notin> {1, 2, lf, r, w, co} \<and> fds s k = None" if "ce = Some k" for k
    using started(2) assms(2,3) that by (auto simp: taken_def)
  have at: "fds s1 lf = Some LogStream" "fds s1 co = Some (Terminal a)" "fds s1 1 = Some PipeWrite" "fds s1 2 = Some PipeWrite"
    using new ce unfolding started(3) captured_fds_def by (auto simp: Let_def split: option.split)
  have "copying a (screen s) [] s1" using at(1,2) started(3) by (simp add: copying_def at_fd_def)
  from events_copied [OF assms(6) this at(3,4)]
  have t: "copying a (screen s) (concat (map event_text evs)) ?t" "same_plumbing s1 ?t" by simp_all
  then have plumbing: "fds ?t = fds s1" "g_file ?t = Some lf" "g_pipeRead ?t = Some r" "g_pipeWrite ?t = Some w"
    "g_consoleOut ?t = Some co" "g_consoleErr ?t = ce" "g_thread ?t" "g_running ?t"
    using started(3) by (simp_all add: same_plumbing_def)
  let ?f = "fd_close (Some w) (put_back ce 2 (put_back (Some co) 1 (fds s1)))"
  let ?u = "?t\<lparr> g_running := False, fds := ?f, g_pipeWrite := None \<rparr>"
  have stop: "Stop ?n ?t = map_option (\<lambda>s. s\<lparr> g_thread := False, g_pipeRead := None, g_consoleOut := None,
      g_consoleErr := None, fds := fd_close (g_file s) (fd_close (g_consoleErr s) (fd_close (g_consoleOut s)
        (fd_close (g_pipeRead s) (fds s)))), g_file := None \<rparr>) (CopyLoop ?n ?u)"
    using plumbing by (cases "CopyLoop ?n ?u") (simp_all add: Stop_def Let_def)
  show ?thesis
  proof (cases ce)
    case None
    have "fds s1 co = Some (Terminal a)" by (rule at(2))
    then have "?f 2 = Some PipeWrite"
      using None at(4) new by (simp add: fd_close_def put_back_def fd_dup2_def)
    then have "\<not> pipe_closed ?n ?u" using assms(7) by (auto simp: pipe_closed_def list_all_iff)
    then have "CopyLoop ?n ?u = None" using CopyLoop_needs_closed by fastforce
    then show ?thesis using stop started(1,4) None by simp
  next
    case (Some k)
    note k = ce [OF Some]
    have "fds s1 k = Some (Terminal b)"
      using k unfolding started(3) captured_fds_def by (simp add: Let_def Some)
    then have f: "?f = (fds s)(lf \<mapsto> LogStream, r \<mapsto> PipeRead, co \<mapsto> Terminal a, k \<mapsto> Terminal b)"
      using at k new assms(2,3) Some started(3)
      by (auto simp: fd_close_def put_back_def fd_dup2_def captured_fds_def Let_def fun_eq_iff)
    have "pipe_closed ?n ?u"
      unfolding pipe_closed_def list_all_iff log_state.simps f using assms(4) by (auto simp: ran_def)
    moreover have "copying a (screen s) (concat (map event_text evs)) ?u"
      using t(1) k new plumbing unfolding copying_def at_fd_def log_state.simps f by auto
    ultimately obtain v where v: "CopyLoop ?n ?u = Some v" "copying a (screen s) (concat (map event_text evs)) v"
      "pipe_data v = []" "same_plumbing ?u v" using CopyLoop_drains by blast
    have closed: "fd_close (Some lf) (fd_close (Some k) (fd_close (Some co) (fd_close (Some r)
        ((fds s)(lf \<mapsto> LogStream, r \<mapsto> PipeRead, co \<mapsto> Terminal a, k \<mapsto> Terminal b))))) = fds s"
      using k new by (auto simp: fd_close_def fun_eq_iff)
    have v2: "fds v = ?f" "g_file v = Some lf" "g_pipeRead v = Some r" "g_consoleOut v = Some co"
      "g_consoleErr v = Some k" "\<not> g_running v"
      using v(4) plumbing Some by (simp_all add: same_plumbing_def)
    show ?thesis using started(1,4) Some stop v(1) v(2,3) v2 closed f
      by (auto simp: copying_def)
  qed
qed

section \<open>Runs\<close>

definition example_state :: "descriptors \<Rightarrow> log_state" where
  "example_state f = \<lparr> g_file = None, g_pipeRead = None, g_pipeWrite = None, g_consoleOut = None, g_consoleErr = None,
     g_thread = False, g_running = False, registered = False, fds = f, pipe_data = [], screen = (\<lambda>_. []),
     log_content = None \<rparr>"

definition example_system :: "nat \<Rightarrow> log_os" where
  "example_system limit = \<lparr> fd_limit = limit, opens_log = True, makes_pipe = True, dup2_ok = (\<lambda>_. True) \<rparr>"

definition stdio_open :: descriptors where
  "stdio_open = (\<lambda>i. if i < 3 then Some (Terminal 0) else None)"

lemma example_start: "fst (Start (example_system 9) (example_state stdio_open))"
  by code_simp

lemma stdio_free: "free_count limit stdio_open = limit - 3"
proof -
  have "{i. i < limit \<and> stdio_open i = None} = {3..<limit}" by (auto simp: stdio_open_def)
  then show ?thesis by (simp add: free_count_def)
qed

lemma log_file_keeps_everything_witness:
  "\<exists>s2. Stop 9 (fold log_event_step [ProcessWrites 1 ''a'', ThreadReads 1, ProcessWrites 2 ''b'']
      (snd (Start (example_system 9) (example_state stdio_open)))) = Some s2 \<and>
    log_content s2 = Some ''ab'' \<and> fds s2 = stdio_open"
proof -
  have "\<not> g_running (example_state stdio_open)" "fds (example_state stdio_open) 1 = Some (Terminal 0)"
    "fds (example_state stdio_open) 2 = Some (Terminal 0)" "PipeWrite \<notin> ran (fds (example_state stdio_open))"
    "Start (example_system 9) (example_state stdio_open) = (True, snd (Start (example_system 9) (example_state stdio_open)))"
    "list_all by_stdio [ProcessWrites 1 ''a'', ThreadReads 1, ProcessWrites 2 ''b'']" "2 < fd_limit (example_system 9)"
    using example_start by (auto simp: example_state_def stdio_open_def ran_def by_stdio_def example_system_def
      prod_eq_iff split: if_splits)
  from log_file_keeps_everything [OF this] show ?thesis
    by (auto simp: example_state_def example_system_def stdio_free)
qed

text \<open>A process started with its error stream closed: the log file takes descriptor 2, the pipe then
  takes it over, and what the thread writes to the file comes back through the pipe; it is never
  empty again.\<close>

lemma closed_stderr_feeds_back:
  "pipe_data (fold log_event_step [ProcessWrites 1 ''ab'', ThreadReads 2, ThreadReads 2]
     (snd (Start (example_system 9) (example_state (stdio_open(2 := None)))))) = ''ab''"
  "screen (fold log_event_step [ProcessWrites 1 ''ab'', ThreadReads 2, ThreadReads 2]
     (snd (Start (example_system 9) (example_state (stdio_open(2 := None)))))) 0 = ''abab''"
  by code_simp+

end
