(* ===== verification/Console_Log.thy ===== *)
theory Console_Log
  imports Main_Loop
begin

text \<open>
  The console log: \<^verbatim>\<open>src/common/CASExampleLog.cpp\<close>, the libwebsockets lines that
  \<^verbatim>\<open>LwsLogCallback\<close> of \<^verbatim>\<open>src/main.cpp\<close> passes on to it, the counters of the
  key M and the lines about state changes.  What is printed is the result; the text a format gives, up to its
  first NUL, and the clock are arguments.
\<close>

section \<open>The log\<close>

datatype LogLevel = Debug | Info | Warning | Error

datatype console = Stdout | Stderr

fun level_number :: "LogLevel \<Rightarrow> nat" where
  "level_number Debug = 0"
| "level_number Info = 1"
| "level_number Warning = 2"
| "level_number Error = 3"

text \<open>The severities in their order, which is the order of the numbers.\<close>

instantiation LogLevel :: linorder
begin

definition less_eq_LogLevel :: "LogLevel \<Rightarrow> LogLevel \<Rightarrow> bool" where
  "less_eq_LogLevel a b \<longleftrightarrow> level_number a \<le> level_number b"

definition less_LogLevel :: "LogLevel \<Rightarrow> LogLevel \<Rightarrow> bool" where
  "less_LogLevel a b \<longleftrightarrow> level_number a < level_number b"

instance
proof
  fix a b :: LogLevel
  show "a = b" if "a \<le> b" "b \<le> a"
    using that unfolding less_eq_LogLevel_def by (cases a; cases b) simp_all
qed (auto simp: less_eq_LogLevel_def less_LogLevel_def)

end

lemma Info_least_printed: "Info \<le> severity \<longleftrightarrow> severity \<noteq> Debug"
  by (cases severity) (simp_all add: less_eq_LogLevel_def)

fun LevelName :: "LogLevel \<Rightarrow> string" where
  "LevelName Debug = ''DEBUG''"
| "LevelName Info = ''INFO''"
| "LevelName Warning = ''WARNING''"
| "LevelName Error = ''ERROR''"

definition MAX_LOG_MESSAGE_LENGTH :: nat where
  "MAX_LOG_MESSAGE_LENGTH = 1024"

text \<open>\<^verbatim>\<open>%0wd\<close>.\<close>

definition zero_padded :: "nat \<Rightarrow> int \<Rightarrow> string" where
  "zero_padded w n =
    (if n < 0 then let s = dec (nat (- n)) in ''-'' @ replicate (w - 1 - length s) (CHR ''0'') @ s
     else let s = dec (nat n) in replicate (w - length s) (CHR ''0'') @ s)"

definition timestamp :: "tm \<Rightarrow> string" where
  "timestamp utc = append_bounded 32 []
    (zero_padded 4 (tm_year utc + 1900) @ ''-'' @ zero_padded 2 (tm_mon utc + 1) @ ''-'' @ zero_padded 2 (tm_mday utc) @
     '' '' @ zero_padded 2 (tm_hour utc) @ '':'' @ zero_padded 2 (tm_min utc) @ '':'' @ zero_padded 2 (tm_sec utc))"

text \<open>The line and where it goes, or \<^verbatim>\<open>None\<close> inside when the level is below the minimum; the
  outer \<^verbatim>\<open>None\<close> is a \<^verbatim>\<open>gmtime_r\<close> that failed, whose result is read
  nevertheless.\<close>

definition Log :: "int \<Rightarrow> LogLevel \<Rightarrow> LogLevel \<Rightarrow> string \<Rightarrow> (console \<times> string) option option" where
  "Log now g_logLevel severity formatted =
    (if level_number severity < level_number g_logLevel then Some None
     else do {
       utc \<leftarrow> SecondsToCalendar now;
       let message = append_bounded MAX_LOG_MESSAGE_LENGTH [] formatted;
       Some (Some (if severity = Warning \<or> severity = Error then Stderr else Stdout,
         timestamp utc @ '' ['' @ LevelName severity @ ''] '' @ message @ [CHR 0x0A])) })"

section \<open>Lines of libwebsockets\<close>

definition LLL_ERR :: u32 where "LLL_ERR = 1"

definition LLL_WARN :: u32 where "LLL_WARN = 2"

definition strip_line_ends :: "string \<Rightarrow> string" where
  "strip_line_ends text = rev (dropWhile (\<lambda>c. c = CHR 0x0A \<or> c = CHR 0x0D) (rev text))"

definition LwsLogCallback :: "int \<Rightarrow> LogLevel \<Rightarrow> u32 \<Rightarrow> string option \<Rightarrow> (console \<times> string) option option" where
  "LwsLogCallback now g_logLevel flags line =
    (let text = strip_line_ends (case line of Some l \<Rightarrow> l | None \<Rightarrow> []) in
     if text = [] then Some None
     else
       let mapped = (if flags AND LLL_ERR \<noteq> 0 then Error else if flags AND LLL_WARN \<noteq> 0 then Warning else Info) in
       Log now g_logLevel mapped (''lws: '' @ text))"

section \<open>The counters and the state changes\<close>

definition PrintConnectionCounters :: "nat \<Rightarrow> nat \<Rightarrow> nat \<Rightarrow> sc_state \<Rightarrow> string list" where
  "PrintConnectionCounters startTime now limit s =
    (let m = GetMetrics s; uptime = (now - startTime) div second in
     [''--- BACnet/SC counters ---------------------------------------------------'',
      ''Uptime:                        '' @ FormatUptime uptime,
      ''BACnet/SC listener:            '' @
        (if listenerUp s then listenUri s else ''NOT listening (see the certificate messages)''),
      ''BACnet/SC devices connected:   '' @ dec (acceptedPeerCount m) @ '' of at most '' @ dec limit,
      ''BACnet/SC connects total:      '' @ dec (metric_connects m),
      ''BACnet/SC disconnects total:   '' @ dec (metric_disconnects m),
      ''BACnet/SC devices refused:     '' @ dec (metric_refused m),
      ''BACnet/SC rate-limit rejects:  '' @ dec (metric_rejections m),
      ''BACnet/SC RX: '' @ dec (fst (metric_rx m)) @ '' message(s), '' @ dec (snd (metric_rx m)) @ '' byte(s)'',
      ''BACnet/SC TX: '' @ dec (fst (metric_tx m)) @ '' message(s), '' @ dec (snd (metric_tx m)) @ '' byte(s)'',
      ''BACnet/SC transmit-queue-full closes: '' @ dec (metric_overflows m),
      ''------------------------------------------------------------------------''])"

text \<open>The URI is printed with its length as precision, up to its first NUL.\<close>

definition CallbackBACnetSCStateChange :: "u8 \<Rightarrow> u8 \<Rightarrow> u8 \<Rightarrow> string \<Rightarrow> string" where
  "CallbackBACnetSCStateChange stateMachine previousState newState websocketUri =
    ''BACnet/SC: state machine '' @ dec (unat stateMachine) @ '': '' @ dec (unat previousState) @ '' -> '' @
    dec (unat newState) @ (if websocketUri \<noteq> [] then '' ('' else []) @
    takeWhile (\<lambda>c. c \<noteq> CHR 0x00) websocketUri @ (if websocketUri \<noteq> [] then '')'' else []) @ [CHR 0x0A]"

section \<open>Years of four digits\<close>

text \<open>Until the year 10000 the year has four digits.\<close>

lemma year_in_range:
  assumes "0 \<le> t" "t < 253402300800"
  obtains c where "SecondsToCalendar t = Some c" "0 \<le> tm_year c + 1900" "tm_year c + 1900 < 10000"
proof -
  obtain y yd where y: "year_from 1970 (t div 86400) = (y, yd)" by (rule prod.exhaust)
  note ys = year_from_sum [OF y]
  have "0 \<le> t div 86400" "t div 86400 < 2932897" using assms by (simp_all add: pos_imp_zdiv_nonneg_iff)
  moreover have "days_to_year 1970 = 0" "days_to_year 10000 = 2932897" by (simp_all add: days_to_year_def)
  moreover have "days_to_year y \<ge> days_to_year 10000" if "10000 \<le> y" using that by (rule days_to_year_mono)
  moreover have "days_to_year (y + 1) \<le> days_to_year 1970" if "y < 1970" using that by (intro days_to_year_mono) simp
  ultimately have "1970 \<le> y" "y < 10000" using ys days_to_year_step [of y] by fastforce+
  moreover obtain m md where "month_from (month_lens y) yd = (m, md)" by (rule prod.exhaust)
  ultimately show thesis by (intro that) (simp add: SecondsToCalendar_def y Let_def, simp_all)
qed

section \<open>A line read back\<close>

definition read_log_line :: "string \<Rightarrow> int \<times> LogLevel option \<times> string" where
  "read_log_line line =
    (let field = (\<lambda>i w. int (digits_val (take w (drop i line))));
         rest = drop 21 line; name = takeWhile (\<lambda>c. c \<noteq> CHR '']'') rest
     in (CalendarToSeconds \<lparr> tm_year = field 0 4 - 1900, tm_mon = field 5 2 - 1, tm_mday = field 8 2, tm_hour = field 11 2,
           tm_min = field 14 2, tm_sec = field 17 2, tm_wday = 0, tm_isdst = 0 \<rparr>,
         find (\<lambda>l. LevelName l = name) [Debug, Info, Warning, Error], butlast (drop (length name + 2) rest)))"

lemma digits_val_zeros [simp]: "digits_val (replicate k (CHR ''0'') @ s) = digits_val s"
  by (induction k) (simp_all add: digits_val_def digit_val_def)

lemma zero_padded_field:
  assumes "0 \<le> n" "n < 10 ^ w" "0 < w"
  shows "length (zero_padded w n) = w" "digits_val (zero_padded w n) = nat n"
proof -
  have "nat n < 10 ^ w" using assms(1,2) by (simp add: nat_less_iff)
  then have "length (dec (nat n)) \<le> w" using length_dec assms(3) by blast
  then show "length (zero_padded w n) = w" "digits_val (zero_padded w n) = nat n"
    using assms(1) by (simp_all add: zero_padded_def Let_def)
qed

text \<open>The parts of a line stand at their columns.\<close>

lemma column:
  assumes "length a = i" "length b = w"
  shows "take w (drop i (a @ b @ rest)) = b"
  using assms by simp

lemma level_read_back: "find (\<lambda>l. LevelName l = LevelName severity) [Debug, Info, Warning, Error] = Some severity"
  by (cases severity) simp_all

lemma LevelName_no_bracket: "CHR '']'' \<notin> set (LevelName severity)"
  by (cases severity) simp_all

lemma Log_read_back:
  assumes "0 \<le> now" "now < 253402300800" "g_logLevel \<le> severity"
  obtains line where
    "Log now g_logLevel severity formatted = Some (Some (if severity = Warning \<or> severity = Error then Stderr else Stdout, line))"
    "read_log_line line = (now, Some severity, take 1023 formatted)"
proof -
  obtain c where c: "SecondsToCalendar now = Some c" "0 \<le> tm_year c + 1900" "tm_year c + 1900 < 10000"
    using year_in_range assms(1,2) by blast
  note read = calendar_read_back [OF c(1)]
  have small: "tm_mday c < 100"
  proof -
    have "tm_mday c \<le> 31" using read(2)
      by (auto simp: civil_def month_len_def month_lens_def nth_Cons' split: if_splits)
    then show ?thesis by simp
  qed
  define Y where "Y = zero_padded 4 (tm_year c + 1900)"
  define M where "M = zero_padded 2 (tm_mon c + 1)"
  define D where "D = zero_padded 2 (tm_mday c)"
  define h where "h = zero_padded 2 (tm_hour c)"
  define m where "m = zero_padded 2 (tm_min c)"
  define s where "s = zero_padded 2 (tm_sec c)"
  note parts = Y_def M_def D_def h_def m_def s_def
  have len: "length Y = 4" "length M = 2" "length D = 2" "length h = 2" "length m = 2" "length s = 2"
    unfolding parts by (rule zero_padded_field; use c read(2) small in \<open>simp add: civil_def\<close>)+
  have val: "int (digits_val Y) = tm_year c + 1900" "int (digits_val M) = tm_mon c + 1" "int (digits_val D) = tm_mday c"
    "int (digits_val h) = tm_hour c" "int (digits_val m) = tm_min c" "int (digits_val s) = tm_sec c"
    unfolding parts using c read(2) small by (simp_all add: zero_padded_field civil_def)
  have stamp: "timestamp c = Y @ ''-'' @ M @ ''-'' @ D @ '' '' @ h @ '':'' @ m @ '':'' @ s"
    unfolding timestamp_def by (subst append_bounded_fits) (simp_all add: parts [symmetric] len)
  let ?rest = "LevelName severity @ ''] '' @ take 1023 formatted @ [CHR 0x0A]"
  let ?line = "timestamp c @ '' ['' @ ?rest"
  have line: "?line = Y @ CHR ''-'' # M @ CHR ''-'' # D @ CHR '' '' # h @ CHR '':'' # m @ CHR '':'' # s @ CHR '' '' # CHR ''['' # ?rest"
    by (simp add: stamp)
  have name: "takeWhile (\<lambda>x. x \<noteq> CHR '']'') ?rest = LevelName severity"
    using LevelName_no_bracket [of severity] by (subst takeWhile_append2) auto
  have fields: "take 4 ?line = Y" "take 2 (drop 5 ?line) = M" "take 2 (drop 8 ?line) = D" "take 2 (drop 11 ?line) = h"
    "take 2 (drop 14 ?line) = m" "take 2 (drop 17 ?line) = s" "drop 21 ?line = ?rest"
    unfolding line by (simp_all add: len drop_Cons' take_Cons')
  have "read_log_line ?line = (now, Some severity, take 1023 formatted)"
    unfolding read_log_line_def Let_def drop_0 fields name val level_read_back
    using read(1) by (simp add: CalendarToSeconds_def)
  then show thesis
    using assms(3) by (intro that [of ?line]) (simp_all add: Log_def c(1) append_bounded_def MAX_LOG_MESSAGE_LENGTH_def less_eq_LogLevel_def)
qed

section \<open>What the log keeps\<close>

text \<open>C38: The console log can be read back: a line at the minimum level or above carries the instant it was
  printed at, to the second and in UTC, its level, and the first 1023 characters of its message, for every instant of
  the years 1970 to 9999 and every message, also one with brackets or line ends in it; warnings and
  errors go to the error stream, the other lines to the output.\<close>

theorem log_lines_read_back:
  assumes "0 \<le> now" "now < 253402300800" "g_logLevel \<le> severity"
  obtains line where
    "Log now g_logLevel severity formatted = Some (Some (if severity = Warning \<or> severity = Error then Stderr else Stdout, line))"
    "read_log_line line = (now, Some severity, take 1023 formatted)"
  by (rule Log_read_back [OF assms])

lemma log_lines_read_back_witness:
  "\<exists>line. Log 1700000000 Info Warning ''a] b'' = Some (Some (Stderr, line)) \<and>
    read_log_line line = (1700000000, Some Warning, ''a] b'')"
  by (rule log_lines_read_back [of 1700000000 Info Warning "''a] b''"]) (simp_all add: Info_least_printed)

lemma strip_line_ends_exact:
  assumes "set ends \<subseteq> {CHR 0x0A, CHR 0x0D}" "body \<noteq> []" "last body \<notin> {CHR 0x0A, CHR 0x0D}"
  shows "strip_line_ends (body @ ends) = body"
proof -
  have "dropWhile (\<lambda>c. c = CHR 0x0A \<or> c = CHR 0x0D) (rev (body @ ends)) = dropWhile (\<lambda>c. c = CHR 0x0A \<or> c = CHR 0x0D) (rev body)"
    using assms(1) unfolding rev_append by (subst dropWhile_append2) auto
  also have "\<dots> = rev body" using assms(2,3) by (cases body rule: rev_cases) auto
  finally show ?thesis by (simp add: strip_line_ends_def)
qed

text \<open>A line of libwebsockets, whatever line ends it carries, is one line of the log; an error or a warning
  stays on the error stream.\<close>

lemma lws_line_read_back:
  assumes "0 \<le> now" "now < 253402300800" "set ends \<subseteq> {CHR 0x0A, CHR 0x0D}" "body \<noteq> []"
    "last body \<notin> {CHR 0x0A, CHR 0x0D}"
  obtains out line l where "LwsLogCallback now Info flags (Some (body @ ends)) = Some (Some (out, line))"
    "read_log_line line = (now, Some l, take 1023 (''lws: '' @ body))"
    "out = Stderr \<longleftrightarrow> flags AND LLL_ERR \<noteq> 0 \<or> flags AND LLL_WARN \<noteq> 0"
proof -
  define l where "l = (if flags AND LLL_ERR \<noteq> 0 then Error else if flags AND LLL_WARN \<noteq> 0 then Warning else Info)"
  have "Info \<le> l" by (simp add: l_def Info_least_printed)
  from Log_read_back [OF assms(1,2) this, of "''lws: '' @ body"] obtain line where
    line: "Log now Info l (''lws: '' @ body) = Some (Some (if l = Warning \<or> l = Error then Stderr else Stdout, line))"
      "read_log_line line = (now, Some l, take 1023 (''lws: '' @ body))" .
  have call: "LwsLogCallback now Info flags (Some (body @ ends)) = Log now Info l (''lws: '' @ body)"
    using assms(4) by (simp add: LwsLogCallback_def strip_line_ends_exact [OF assms(3-5)] l_def Let_def)
  show thesis by (rule that [OF call [unfolded line(1)] line(2)]) (simp add: l_def)
qed

end
