(* ===== verification/Hub_Start.thy ===== *)
theory Hub_Start
  imports Cert_Tool Sc_Tls Main_Loop Device_Setup
begin

text \<open>
  The program as \<^verbatim>\<open>main\<close> of \<^verbatim>\<open>src/main.cpp\<close> puts it together: the
  one-shot import of a response, the preparation of the certificates, the transport and the router, the configuration of the
  stack, and the loop.  Every part is the definition of its own theory.
\<close>

section \<open>What the start meets\<close>

text \<open>The folders below the certificate folder, the two views of the file system and of OpenSSL that the
  certificate store and the certificate tool have (the store reads a protected key with the password typed),
  zlib, the interfaces of the host, the socket, and the clocks.\<close>

record ('c, 'k, 'd, 'l, 'q, 'x) start_env =
  cert_listing :: "device_listing list option"
  store_os :: os
  store_ssl :: "string option \<Rightarrow> ('c, 'k) openssl"
  request_os :: tool_os
  request_ssl :: "('d, 'l, 'q, 'x) tool_ssl"
  zip_deflate :: "string \<Rightarrow> string"
  zip_inflate :: zinflate
  zip_crc :: crc
  zip_time :: dos_now
  relative_key :: "string option"
  unlocks :: "string \<Rightarrow> string \<Rightarrow> bool"
  typed_lines :: "string list"
  udp_env :: socket_env
  interfaces :: "ifaddr list option"
  firmware :: string
  host_now :: int
  host_local :: "tm option"

text \<open>The hub when its certificates are prepared, and what was reported on the way.\<close>

record prepared =
  hub_paths_used :: hub_cert_paths
  key_ok :: bool
  key_password :: "string option"
  swap :: reconcile
  request :: request_result
  request_note :: request_message
  issuer_file :: "reason option"
  prepared_device :: device
  prepared_router :: router
  made_folders :: "string list"

section \<open>The steps of main\<close>

text \<open>\<^verbatim>\<open>ReadFileText\<close> of the key, empty when it cannot be read.\<close>

definition key_text :: "os \<Rightarrow> disk \<Rightarrow> string \<Rightarrow> string" where
  "key_text e d path = (case ReadDisk e d path of None \<Rightarrow> [] | Some text \<Rightarrow> text)"

text \<open>The files TLS is given, and the transport's settings.\<close>

definition tls_of :: "hub_cert_paths \<Rightarrow> reason option \<Rightarrow> tls_files" where
  "tls_of p why =
    \<lparr> certPath = operationalCertificate p, keyPath = privateKey p,
      caCertPath = (if why = None then trustedIssuers p else ScCertFilePath p FILE_ISSUER_CERT_1_INSTANCE),
      crlPath = revocationList p \<rparr>"

definition hub_subprotocol :: string where
  "hub_subprotocol = ''hub.bsc.bacnet.org''"

definition configure_transport :: "config \<Rightarrow> tls_files \<Rightarrow> sc_state \<Rightarrow> sc_state" where
  "configure_transport c f t =
    (let t = Configure f hub_subprotocol t
     in t\<lparr> rate := SetConnectionRateLimits (scRateLimit c) (scRateLimitTotal c) (rate t) \<rparr>)"

definition prepare_hub ::
  "('c, 'k, 'd, 'l, 'q, 'x) start_env \<Rightarrow> config \<Rightarrow> router \<Rightarrow> disk \<Rightarrow> (nat + prepared) option" where
  "prepare_hub env c r dsk =
    (let (connected, r) = (if bacnetIpEnabled c then RouterStart (udp_env env) (of_nat (bacnetIpUdpPort c)) r else (True, r)) in
     if \<not> connected then Some (Inl 1)
     else do {
       let addresses = (if bacnetIpEnabled c then GetPrimaryIPv4 (interfaces env) else None);
       let p = ResolveHubCertPaths (scCertDir c) (deviceInstance c) (cert_listing env);
       let (keyOk, password) = Prepare (unlocks env) (key_text (store_os env) dsk (privateKey p)) (typed_lines env);
       let ssl = store_ssl env (Get password);
       let (swapped, st) = ReconcilePendingKey (store_os env) ssl (open_store p dsk);
       (res, requestNote, ts) \<leftarrow> EnsureHubRequest (request_os env) (request_ssl env) (zip_deflate env) (zip_crc env) (zip_time env)
         (cert_listing env) (relative_key env) (scCertDir c) (deviceInstance c) (deviceName c)
         (LanHubUri (interfaces env) (scPort c)) \<lparr>t_files = g_disk st, t_folders = []\<rparr>;
       (why, st) \<leftarrow> WriteTrustedIssuerBundle (store_os env) ssl (trustedIssuers p) (st\<lparr>g_disk := t_files ts\<rparr>);
       let d = start_device c p (firmware env) addresses (host_now env) (host_local env) dsk;
       let t = configure_transport c (tls_of p why) (transport r);
       Some (Inr \<lparr> hub_paths_used = p, key_ok = keyOk, key_password = password, swap = swapped, request = res,
         request_note = requestNote, issuer_file = why, prepared_device = d\<lparr> g_store := st \<rparr>,
         prepared_router = r\<lparr> transport := t \<rparr>, made_folders = t_folders ts \<rparr>) })"

text \<open>The import mode: the exit code, and the files it leaves.\<close>

definition import_mode ::
  "('c, 'k, 'd, 'l, 'q, 'x) start_env \<Rightarrow> config \<Rightarrow> string \<Rightarrow> disk \<Rightarrow> (nat \<times> disk) option" where
  "import_mode env c importFile dsk = do {
     (r, ts) \<leftarrow> ImportCariResponse (request_os env) (request_ssl env) (zip_inflate env) (zip_crc env) (cert_listing env)
       (scCertDir c) (deviceInstance c) importFile \<lparr>t_files = dsk, t_folders = []\<rparr>;
     Some (case r of Inl _ \<Rightarrow> 1 | Inr _ \<Rightarrow> 0, t_files ts) }"

text \<open>The hub when the loop begins; \<^verbatim>\<open>lastLimitMessage\<close> is the clock's epoch.\<close>

definition loop_start :: "nat \<Rightarrow> (nat \<times> int) option \<Rightarrow> device \<Rightarrow> router \<Rightarrow> hub" where
  "loop_start now crl d r =
    \<lparr> the_device = d, the_router = r, crlFingerprint = FileFingerprint crl, lastCrlCheck = now, running = True,
      refusalsSeen = 0, lastLimitMessage = 0, limitMessageShown = False \<rparr>"

text \<open>\<^verbatim>\<open>main\<close>.  \<^verbatim>\<open>stack\<close> answers the calls of the configuration, in which it
  may call back into the device and the transport; \<^verbatim>\<open>startTime\<close> and
  \<^verbatim>\<open>checkTime\<close> are the steady clock after the command line and before the loop, \<^verbatim>\<open>crl\<close>
  the revocation list then.  The log file, which copies the console only, is left out.  The I-Am of a hub with
  BACnet/IP goes out before the loop.\<close>

datatype ending = Exited nat | Finished hub | Going hub

definition hub_main ::
  "('c, 'k, 'd, 'l, 'q, 'x) start_env \<Rightarrow> (stack_call \<Rightarrow> device \<times> router \<Rightarrow> (device \<times> router) option) \<Rightarrow>
   nat \<Rightarrow> nat \<Rightarrow> (nat \<times> int) option \<Rightarrow> turn_env list \<Rightarrow> string list \<Rightarrow> string \<Rightarrow> disk \<Rightarrow>
   ((bytes \<times> u32) list \<times> message list \<times> ending) option" where
  "hub_main env stack startTime checkTime crl met argv testLimit dsk =
    (case main_startup argv testLimit of
       Exit n \<Rightarrow> Some ([], [], Exited n)
     | Import importFile c \<Rightarrow> map_option (\<lambda>(n, _). ([], [], Exited n)) (import_mode env c importFile dsk)
     | Run c \<Rightarrow> do {
         result \<leftarrow> prepare_hub env c (new_router 1 2 initial_sc_state) dsk;
         (case result of
            Inl n \<Rightarrow> Some ([], [], Exited n)
          | Inr s \<Rightarrow>
              (case run_setup stack (setup_calls c) (prepared_device s, prepared_router s) of
                 None \<Rightarrow> Some ([], [], Exited 1)
               | Some (d, r) \<Rightarrow> do {
                   let announced = (if bacnetIpEnabled c then [RouterSendIAm (interfaces env) r] else []);
                   (said, h, stopped) \<leftarrow> main_loop c startTime met (loop_start checkTime crl d r);
                   Some (announced, said, if stopped then Finished (after_loop h) else Going h) })) })"

section \<open>What the steps leave\<close>

lemma Reconcile_result:
  assumes "ReconcilePendingKey e ssl st = (res, st')" "layout_ok (g_layout st)"
  obtains (same) "res \<noteq> KeySwapped" "st' = st"
  | (swapped) leaf where "res = KeySwapped" "disk_leaf e ssl st = Some leaf"
      "\<not> key_fits e ssl (g_disk st) (privateKeyPath (g_layout st)) leaf"
      "key_fits e ssl (g_disk st) (pendingPrivateKeyPath (g_layout st)) leaf"
      "st' = st\<lparr>g_disk := (g_disk st)(privateKeyPath (g_layout st) := g_disk st (pendingPrivateKeyPath (g_layout st)),
        pendingPrivateKeyPath (g_layout st) := None)\<rparr>"
proof (cases "st' = st \<and> res \<noteq> KeySwapped")
  case True
  then show ?thesis using same by blast
next
  case changed: False
  have acts: "ReconcilePendingKey e ssl st \<noteq> (NothingToDo, st)" using assms(1) changed by auto
  have "disk_leaf e ssl st \<noteq> None"
  proof
    assume "disk_leaf e ssl st = None"
    then have "ReconcilePendingKey e ssl st = (NothingToDo, st)"
      by (auto simp: ReconcilePendingKey_def disk_leaf_def Let_def split: option.split_asm sum.split_asm list.split_asm)
    then show False using acts by simp
  qed
  then obtain leaf where leaf: "disk_leaf e ssl st = Some leaf" by blast
  have fits: "\<not> key_fits e ssl (g_disk st) (privateKeyPath (g_layout st)) leaf"
    "key_fits e ssl (g_disk st) (pendingPrivateKeyPath (g_layout st)) leaf"
    using Reconcile_leaves [OF leaf] acts by blast+
  have "(res, st') = (case PromotePendingKey e st of (False, st) \<Rightarrow> (SwapFailed, st) | (True, st) \<Rightarrow> (KeySwapped, st))"
    using Reconcile_swaps [OF assms(2) leaf fits] assms(1) by simp
  then show ?thesis
    using swapped [OF _ leaf fits] changed layout_ok_facts(8) [OF assms(2)]
    by (auto simp: PromotePendingKey_def rename_file_def split: if_splits)
qed

lemma Reconcile_works:
  assumes "layout_ok (g_layout st)" "all_readable e" "\<forall>p. can_rename_to e p" "disk_leaf e ssl st = Some leaf"
    "key_fits e ssl (g_disk st) (privateKeyPath (g_layout st)) leaf \<or>
     key_fits e ssl (g_disk st) (pendingPrivateKeyPath (g_layout st)) leaf"
    "ReconcilePendingKey e ssl st = (res, st')"
  shows "working_pair e ssl st' \<and> g_layout st' = g_layout st"
proof (cases "key_fits e ssl (g_disk st) (privateKeyPath (g_layout st)) leaf")
  case True
  then show ?thesis using Reconcile_leaves [OF assms(4)] assms(4,6) by (simp add: working_pair_def)
next
  case False
  then have pending: "key_fits e ssl (g_disk st) (pendingPrivateKeyPath (g_layout st)) leaf" using assms(5) by simp
  obtain d where d: "PromotePendingKey e st = (True, st\<lparr>g_disk := d\<rparr>)"
    "key_fits e ssl d (privateKeyPath (g_layout st)) leaf" "\<forall>q \<in> snd ` set (paths (g_layout st)). d q = g_disk st q"
    using promote_result [OF assms(1-3) pending] by blast
  have "st' = st\<lparr>g_disk := d\<rparr>" using Reconcile_swaps [OF assms(1,4) False pending] assms(6) d(1) by simp
  moreover have "disk_leaf e ssl (st\<lparr>g_disk := d\<rparr>) = Some leaf"
    using disk_leaf_cong [of "st\<lparr>g_disk := d\<rparr>" st e e ssl] d(3) assms(2,4) by simp
  ultimately show ?thesis using d(2) by (simp add: working_pair_def)
qed

text \<open>A working pair depends on its two files only, which both exist.\<close>

lemma working_pair_files:
  assumes "working_pair e ssl st" "layout_ok (g_layout st)"
  obtains q where "map_of (paths (g_layout st)) (operationalInstance (g_layout st)) = Some q"
    "disk_exists (g_disk st) q" "disk_exists (g_disk st) (privateKeyPath (g_layout st))"
    "\<forall>dsk. dsk q = g_disk st q \<longrightarrow> dsk (privateKeyPath (g_layout st)) = g_disk st (privateKeyPath (g_layout st)) \<longrightarrow>
      working_pair e ssl (st\<lparr>g_disk := dsk\<rparr>)"
proof -
  obtain leaf where leaf: "disk_leaf e ssl st = Some leaf" "key_fits e ssl (g_disk st) (privateKeyPath (g_layout st)) leaf"
    using assms(1) by (auto simp: working_pair_def split: option.splits)
  obtain q where q: "map_of (paths (g_layout st)) (operationalInstance (g_layout st)) = Some q"
    using leaf(1) by (cases "map_of (paths (g_layout st)) (operationalInstance (g_layout st))") (simp_all add: disk_leaf_def)
  show thesis
  proof (rule that [OF q])
    show "disk_exists (g_disk st) q"
      using leaf(1) q by (auto simp: disk_leaf_def ReadDisk_def disk_exists_def split: option.splits if_splits)
    show "disk_exists (g_disk st) (privateKeyPath (g_layout st))"
      using leaf(2) by (auto simp: key_fits_def LoadKey_def ReadDisk_def disk_exists_def split: option.splits if_splits)
    have "working_pair e ssl (st\<lparr>g_disk := dsk\<rparr>)"
      if eq: "dsk q = g_disk st q" "dsk (privateKeyPath (g_layout st)) = g_disk st (privateKeyPath (g_layout st))" for dsk
    proof -
    have "disk_leaf e ssl (st\<lparr>g_disk := dsk\<rparr>) = disk_leaf e ssl st" using q eq(1) by (simp add: disk_leaf_def ReadDisk_def)
    moreover have "key_fits e ssl dsk (privateKeyPath (g_layout st)) leaf"
    proof -
      have "ReadDisk e dsk (privateKeyPath (g_layout st)) = ReadDisk e (g_disk st) (privateKeyPath (g_layout st))"
        using eq(2) by (simp add: ReadDisk_def)
      then show ?thesis using leaf(2) by (simp add: key_fits_def LoadKey_def split: if_splits)
    qed
    ultimately show ?thesis using leaf(1) by (simp add: working_pair_def)
    qed
    then show "\<forall>dsk. dsk q = g_disk st q \<longrightarrow> dsk (privateKeyPath (g_layout st)) = g_disk st (privateKeyPath (g_layout st)) \<longrightarrow>
        working_pair e ssl (st\<lparr>g_disk := dsk\<rparr>)" by blast
  qed
qed

lemma EnsureHubRequest_total: "EnsureHubRequest e ssl deflate crc32 now listing rel dir inst cn uri st \<noteq> None"
  by (auto simp: EnsureHubRequest_def HubRequestZip_def find_token Let_def split: prod.split sum.split bool.split)

text \<open>The preparation returns, and these are its steps.\<close>

lemma prepare_hub_steps:
  assumes "bacnetIpEnabled c \<Longrightarrow> fst (RouterStart (udp_env env) (of_nat (bacnetIpUdpPort c)) r)"
    and "p = ResolveHubCertPaths (scCertDir c) (deviceInstance c) (cert_listing env)"
  obtains s st1 msg ts st2 r1 where "prepare_hub env c r dsk = Some (Inr s)" "hub_paths_used s = p"
    "ReconcilePendingKey (store_os env) (store_ssl env (Get (key_password s))) (open_store p dsk) = (swap s, st1)"
    "EnsureHubRequest (request_os env) (request_ssl env) (zip_deflate env) (zip_crc env) (zip_time env) (cert_listing env)
       (relative_key env) (scCertDir c) (deviceInstance c) (deviceName c) (LanHubUri (interfaces env) (scPort c))
       \<lparr>t_files = g_disk st1, t_folders = []\<rparr> = Some (request s, msg, ts)"
    "WriteTrustedIssuerBundle (store_os env) (store_ssl env (Get (key_password s))) (trustedIssuers p)
       (st1\<lparr>g_disk := t_files ts\<rparr>) = Some (issuer_file s, st2)"
    "\<exists>d. prepared_device s = d\<lparr> g_store := st2 \<rparr> \<and> device_ok p d" "g_store (prepared_device s) = st2"
    "prepared_router s = r1\<lparr> transport := configure_transport c (tls_of p (issuer_file s)) (transport r1) \<rparr>"
    "transport r1 = transport r"
proof -
  let ?start = "if bacnetIpEnabled c then RouterStart (udp_env env) (of_nat (bacnetIpUdpPort c)) r else (True, r)"
  obtain r1 where r1: "?start = (True, r1)" using assms(1) by (cases ?start) (auto split: if_splits)
  have r1_transport: "transport r1 = transport r" using r1 by (auto simp: RouterStart_def Let_def split: if_splits prod.splits)
  obtain keyOk pw where key: "Prepare (unlocks env) (key_text (store_os env) dsk (privateKey p)) (typed_lines env) = (keyOk, pw)"
    by (rule prod.exhaust)
  let ?ssl = "store_ssl env (Get pw)"
  obtain swapped st1 where st1: "ReconcilePendingKey (store_os env) ?ssl (open_store p dsk) = (swapped, st1)" by (rule prod.exhaust)
  obtain res msg ts where req: "EnsureHubRequest (request_os env) (request_ssl env) (zip_deflate env) (zip_crc env) (zip_time env)
      (cert_listing env) (relative_key env) (scCertDir c) (deviceInstance c) (deviceName c) (LanHubUri (interfaces env) (scPort c))
      \<lparr>t_files = g_disk st1, t_folders = []\<rparr> = Some (res, msg, ts)"
    using EnsureHubRequest_total by (metis not_None_eq prod_cases3)
  have ok: "paths_ok p" unfolding assms(2) by (rule resolved_paths_ok)
  have lay: "layout_ok (g_layout (open_store p dsk))" using open_store_ok [OF ok, of dsk] hub_layout_ok [OF ok] by simp
  have "layout_ok (g_layout (st1\<lparr>g_disk := t_files ts\<rparr>))"
    by (rule Reconcile_result [OF st1 lay]) (simp_all add: lay)
  then obtain why st2 where bun: "WriteTrustedIssuerBundle (store_os env) ?ssl (trustedIssuers p) (st1\<lparr>g_disk := t_files ts\<rparr>) = Some (why, st2)"
    by (rule bundle_result)
  let ?d = "start_device c p (firmware env) (if bacnetIpEnabled c then GetPrimaryIPv4 (interfaces env) else None) (host_now env)
    (host_local env) dsk"
  have "prepare_hub env c r dsk = Some (Inr \<lparr> hub_paths_used = p, key_ok = keyOk, key_password = pw, swap = swapped, request = res,
      request_note = msg, issuer_file = why, prepared_device = ?d\<lparr> g_store := st2 \<rparr>,
      prepared_router = r1\<lparr> transport := configure_transport c (tls_of p why) (transport r1) \<rparr>, made_folders = t_folders ts \<rparr>)"
    unfolding prepare_hub_def by (simp add: r1 Let_def key st1 req bun assms(2) [symmetric])
  then show thesis
    by (rule that [where ?r1.0 = r1]) (use st1 req bun start_device_ok [OF ok] in \<open>auto simp: r1_transport\<close>)
qed

text \<open>The import mode writes the certificate and the issuers, nothing else.\<close>

lemma import_mode_frame:
  assumes "import_mode env c importFile dsk = Some (n, dsk')"
    and "p = ResolveHubCertPaths (scCertDir c) (deviceInstance c) (cert_listing env)"
    and "q \<notin> {operationalCertificate p, issuerCertificate1 p, issuerCertificate2 p}"
  shows "dsk' q = dsk q"
  using assms
  by (auto simp: import_mode_def ImportCariResponse_def install_response_def Let_def tool_WriteFile_def
      split: Option.bind_splits sum.splits prod.splits bool.splits option.splits if_splits)

section \<open>The disk after the steps\<close>

text \<open>The store after the swap, the request (which keeps every file there is) and the trusted issuers.\<close>

definition prepared_from ::
  "os \<Rightarrow> ('c, 'k) openssl \<Rightarrow> hub_cert_paths \<Rightarrow> disk \<Rightarrow> reconcile \<Rightarrow> reason option \<Rightarrow> store \<Rightarrow> bool" where
  "prepared_from e ssl p dsk swapped why st2 \<longleftrightarrow> paths_ok p \<and>
    (\<exists>st1 dsk1. ReconcilePendingKey e ssl (open_store p dsk) = (swapped, st1) \<and>
      (\<forall>q. disk_exists (g_disk st1) q \<longrightarrow> dsk1 q = g_disk st1 q) \<and>
      WriteTrustedIssuerBundle e ssl (trustedIssuers p) (st1\<lparr>g_disk := dsk1\<rparr>) = Some (why, st2))"

lemma open_store_facts:
  assumes "paths_ok p"
  shows "layout_ok (g_layout (open_store p dsk))" "g_layout (open_store p dsk) = hub_layout p"
    "g_disk (open_store p dsk) = dsk" "g_staged (open_store p dsk) = []" "store_ok (open_store p dsk)"
  using open_store_ok [OF assms, of dsk] hub_layout_ok [OF assms] by (simp_all add: open_store_def SetLayout_def)

lemma hub_keys [simp]: "privateKeyPath (hub_layout p) = privateKey p" "pendingPrivateKeyPath (hub_layout p) = pendingPrivateKey p"
  by (simp_all add: hub_layout_eq)

lemma issuers_apart:
  assumes "paths_ok p" "q \<in> set (file_paths (hub_layout p))"
  shows "q \<noteq> trustedIssuers p" "q \<noteq> tmp (trustedIssuers p)"
proof -
  obtain d where d: "device_ok p d" using start_device_ok [OF assms(1)] by blast
  then have "g_scTrustedIssuersPath d = trustedIssuers p" by (simp add: device_ok_def)
  then show "q \<noteq> trustedIssuers p" "q \<noteq> tmp (trustedIssuers p)" using bundle_unmanaged [OF d] assms(2) by auto
qed

lemma prepared_from_steps:
  assumes "prepared_from e ssl p dsk swapped why st2"
  obtains st1 dsk1 dsk2 where "ReconcilePendingKey e ssl (open_store p dsk) = (swapped, st1)"
    "g_layout st1 = hub_layout p" "g_staged st1 = []" "layout_ok (hub_layout p)"
    "\<And>q. disk_exists (g_disk st1) q \<Longrightarrow> dsk1 q = g_disk st1 q"
    "WriteTrustedIssuerBundle e ssl (trustedIssuers p) (st1\<lparr>g_disk := dsk1\<rparr>) = Some (why, st2)"
    "st2 = st1\<lparr>g_disk := dsk2\<rparr>"
    "\<And>q. q \<noteq> trustedIssuers p \<Longrightarrow> q \<noteq> tmp (trustedIssuers p) \<Longrightarrow> dsk2 q = dsk1 q"
proof -
  obtain st1 dsk1 where s: "paths_ok p" "ReconcilePendingKey e ssl (open_store p dsk) = (swapped, st1)"
    "\<And>q. disk_exists (g_disk st1) q \<Longrightarrow> dsk1 q = g_disk st1 q"
    "WriteTrustedIssuerBundle e ssl (trustedIssuers p) (st1\<lparr>g_disk := dsk1\<rparr>) = Some (why, st2)"
    using assms unfolding prepared_from_def by blast
  note st0 = open_store_facts [OF s(1), of dsk]
  have st1: "g_layout st1 = hub_layout p" "g_staged st1 = []"
    by (rule Reconcile_result [OF s(2) st0(1)]; simp add: st0)+
  have lay: "layout_ok (hub_layout p)" using s(1) by (rule hub_layout_ok)
  then have "layout_ok (g_layout (st1\<lparr>g_disk := dsk1\<rparr>))" using st1(1) by simp
  then obtain why' dsk2 where
    w: "WriteTrustedIssuerBundle e ssl (trustedIssuers p) (st1\<lparr>g_disk := dsk1\<rparr>) = Some (why', st1\<lparr>g_disk := dsk1, g_disk := dsk2\<rparr>)"
    "\<And>q. q \<noteq> trustedIssuers p \<Longrightarrow> q \<noteq> tmp (trustedIssuers p) \<Longrightarrow> dsk2 q = g_disk (st1\<lparr>g_disk := dsk1\<rparr>) q"
    by (rule bundle_result) blast
  then show thesis using s(4) by (intro that [OF s(2) st1 lay s(3,4), of dsk2]) simp_all
qed

lemma prepared_store_sound:
  assumes "paths_ok p" "ReconcilePendingKey e ssl (open_store p dsk) = (swapped, st1)"
    "WriteTrustedIssuerBundle e ssl (trustedIssuers p) (st1\<lparr>g_disk := dsk1\<rparr>) = Some (why, st2)"
  shows "store_ok st2 \<and> g_layout st2 = hub_layout p"
proof -
  note st0 = open_store_facts [OF assms(1), of dsk]
  have st1: "g_layout st1 = hub_layout p" "g_staged st1 = []"
    by (rule Reconcile_result [OF assms(2) st0(1)]; simp add: st0)+
  have lay: "layout_ok (hub_layout p)" by (rule hub_layout_ok [OF assms(1)])
  then have "layout_ok (g_layout (st1\<lparr>g_disk := dsk1\<rparr>))" using st1(1) by simp
  then obtain dsk2 where "st2 = st1\<lparr>g_disk := dsk2\<rparr>"
    by (rule bundle_result [of _ e ssl "trustedIssuers p"]) (use assms(3) in simp)
  then show ?thesis using st1 lay by (simp add: store_ok_def)
qed

lemma prepared_keeps_files:
  assumes "prepared_from e ssl p dsk swapped why st2" "disk_exists dsk q"
    "q \<notin> {trustedIssuers p, tmp (trustedIssuers p)}" "swapped \<noteq> KeySwapped \<or> q \<notin> {privateKey p, pendingPrivateKey p}"
  shows "g_disk st2 q = dsk q"
proof -
  obtain st1 dsk1 dsk2 where s: "ReconcilePendingKey e ssl (open_store p dsk) = (swapped, st1)"
    "\<And>q. disk_exists (g_disk st1) q \<Longrightarrow> dsk1 q = g_disk st1 q" "st2 = st1\<lparr>g_disk := dsk2\<rparr>"
    "\<And>q. q \<noteq> trustedIssuers p \<Longrightarrow> q \<noteq> tmp (trustedIssuers p) \<Longrightarrow> dsk2 q = dsk1 q"
    by (rule prepared_from_steps [OF assms(1)]) blast
  have "paths_ok p" using assms(1) by (simp add: prepared_from_def)
  note st0 = open_store_facts [OF this, of dsk]
  have "g_disk st1 q = dsk q" by (rule Reconcile_result [OF s(1) st0(1)]) (use assms(4) st0 in auto)
  then show ?thesis using s(2) [of q] s(3) s(4) [of q] assms(2,3) by (simp add: disk_exists_def)
qed

lemma prepared_pair_works:
  assumes "prepared_from e ssl p dsk swapped why st2" "all_readable e" "\<forall>q. can_rename_to e q"
    "disk_leaf e ssl (open_store p dsk) = Some leaf"
    "key_fits e ssl dsk (privateKey p) leaf \<or> key_fits e ssl dsk (pendingPrivateKey p) leaf"
  shows "working_pair e ssl st2"
proof -
  obtain st1 dsk1 dsk2 where s: "ReconcilePendingKey e ssl (open_store p dsk) = (swapped, st1)"
    "g_layout st1 = hub_layout p" "layout_ok (hub_layout p)"
    "\<And>q. disk_exists (g_disk st1) q \<Longrightarrow> dsk1 q = g_disk st1 q" "st2 = st1\<lparr>g_disk := dsk2\<rparr>"
    "\<And>q. q \<noteq> trustedIssuers p \<Longrightarrow> q \<noteq> tmp (trustedIssuers p) \<Longrightarrow> dsk2 q = dsk1 q"
    by (rule prepared_from_steps [OF assms(1)]) blast
  have ok: "paths_ok p" using assms(1) by (simp add: prepared_from_def)
  note st0 = open_store_facts [OF ok, of dsk]
  have works: "working_pair e ssl st1"
    using Reconcile_works [OF st0(1) assms(2-4) _ s(1)] assms(5) st0 by simp
  have lay: "layout_ok (g_layout st1)" using s(2,3) by simp
  have kept: "dsk2 q = g_disk st1 q" if "q \<in> set (file_paths (hub_layout p))" "disk_exists (g_disk st1) q" for q
    using s(6) [OF issuers_apart [OF ok that(1)]] s(4) [OF that(2)] by simp
  obtain q where q: "map_of (paths (g_layout st1)) (operationalInstance (g_layout st1)) = Some q"
    "disk_exists (g_disk st1) q" "disk_exists (g_disk st1) (privateKeyPath (g_layout st1))"
    "\<forall>dsk. dsk q = g_disk st1 q \<longrightarrow> dsk (privateKeyPath (g_layout st1)) = g_disk st1 (privateKeyPath (g_layout st1)) \<longrightarrow>
      working_pair e ssl (st1\<lparr>g_disk := dsk\<rparr>)"
    by (rule working_pair_files [OF works lay])
  have "q \<in> set (file_paths (hub_layout p))" "privateKeyPath (g_layout st1) \<in> set (file_paths (hub_layout p))"
    using path_in [OF q(1)] layout_ok_facts(3,4) [OF lay] s(2) by auto
  then show ?thesis unfolding s(5) using q(4) kept q(2,3) by blast
qed

lemma prepared_swaps_when_needed:
  assumes "prepared_from e ssl p dsk swapped why st2" "all_readable e" "\<forall>q. can_rename_to e q"
    "disk_leaf e ssl (open_store p dsk) = Some leaf"
    "key_fits e ssl dsk (privateKey p) leaf \<or> key_fits e ssl dsk (pendingPrivateKey p) leaf"
  shows "swapped = KeySwapped \<longleftrightarrow> \<not> key_fits e ssl dsk (privateKey p) leaf"
proof -
  obtain st1 where r: "ReconcilePendingKey e ssl (open_store p dsk) = (swapped, st1)"
    using assms(1) unfolding prepared_from_def by blast
  have ok: "paths_ok p" using assms(1) by (simp add: prepared_from_def)
  note st0 = open_store_facts [OF ok, of dsk]
  have works: "working_pair e ssl st1"
    using Reconcile_works [OF st0(1) assms(2-4) _ r] assms(5) st0 by simp
  show ?thesis
    by (rule Reconcile_result [OF r st0(1)]) (use works assms(4) st0 in \<open>simp_all add: working_pair_def\<close>)
qed

lemma prepared_issuers:
  assumes "prepared_from e ssl p dsk swapped None st2" "all_readable e"
  shows "map_option d_bytes (g_disk st2 (trustedIssuers p)) =
    Some (concat (firsts (concat (map (issuer_pems e ssl st2) [FILE_ISSUER_CERT_1_INSTANCE, FILE_ISSUER_CERT_2_INSTANCE]))))"
proof -
  obtain st1 dsk1 dsk2 where s: "g_layout st1 = hub_layout p" "layout_ok (hub_layout p)"
    "WriteTrustedIssuerBundle e ssl (trustedIssuers p) (st1\<lparr>g_disk := dsk1\<rparr>) = Some (None, st2)" "st2 = st1\<lparr>g_disk := dsk2\<rparr>"
    "\<And>q. q \<noteq> trustedIssuers p \<Longrightarrow> q \<noteq> tmp (trustedIssuers p) \<Longrightarrow> dsk2 q = dsk1 q"
    by (rule prepared_from_steps [OF assms(1)]) blast
  have ok: "paths_ok p" using assms(1) by (simp add: prepared_from_def)
  have lay: "layout_ok (g_layout (st1\<lparr>g_disk := dsk1\<rparr>))" using s(1,2) by simp
  have ne: "trustedIssuers p \<noteq> []" using ok by (auto simp: paths_ok_def all_paths_def)
  have "read_once e st2 i = read_once e (st1\<lparr>g_disk := dsk1\<rparr>) i" for i
  proof (rule read_once_cong)
    fix j q assume "map_of (paths (g_layout (st1\<lparr>g_disk := dsk1\<rparr>))) j = Some q"
    then have "q \<in> set (file_paths (hub_layout p))"
      using path_in [of "hub_layout p" j q] s(1) layout_ok_facts(3) [OF s(2)] by auto
    then show "g_disk st2 q = g_disk (st1\<lparr>g_disk := dsk1\<rparr>) q" using s(4,5) issuers_apart [OF ok] by simp
  qed (use s(4) assms(2) in simp_all)
  then have "issuer_pems e ssl st2 = issuer_pems e ssl (st1\<lparr>g_disk := dsk1\<rparr>)" by (simp add: issuer_pems_def fun_eq_iff)
  moreover have "issuerInstances (g_layout (st1\<lparr>g_disk := dsk1\<rparr>)) = [FILE_ISSUER_CERT_1_INSTANCE, FILE_ISSUER_CERT_2_INSTANCE]"
    using s(1) by (simp add: hub_layout_eq)
  ultimately show ?thesis using trusted_issuers_written [OF lay ne, of e ssl] s(3) by (auto simp: Let_def)
qed

section \<open>The start keeps the credentials\<close>


section \<open>A start after an interrupted activation\<close>

definition example_start :: "(char, char, char, char, char, unit) start_env" where
  "example_start = \<lparr> cert_listing = None, store_os = example_os, store_ssl = (\<lambda>_. example_ssl), request_os = toy_os,
     request_ssl = toy_ssl, zip_deflate = (\<lambda>s. s), zip_inflate = stored_inflate, zip_crc = length_crc, zip_time = example_now,
     relative_key = None, unlocks = (\<lambda>_ _. False), typed_lines = [], udp_env = \<lparr> new_handle = None, binds = (\<lambda>_. False) \<rparr>,
     interfaces = None, firmware = ''5.2.0.0'', host_now = 1000000, host_local = None \<rparr>"

definition start_paths :: hub_cert_paths where
  "start_paths = ResolveHubCertPaths (scCertDir default_config) (deviceInstance default_config) None"

definition interrupted_disk :: disk where
  "interrupted_disk = [operationalCertificate start_paths \<mapsto> disk_text (cert_file (CHR ''k'')),
     privateKey start_paths \<mapsto> disk_text ''old'', pendingPrivateKey start_paths \<mapsto> disk_text ''key'']"

lemma start_paths_ok: "paths_ok start_paths"
  by (simp add: start_paths_def resolved_paths_ok)

lemma interrupted_pair:
  "disk_leaf example_os example_ssl (open_store start_paths interrupted_disk) = Some (CHR ''k'')"
  "\<not> key_fits example_os example_ssl interrupted_disk (privateKey start_paths) (CHR ''k'')"
  "key_fits example_os example_ssl interrupted_disk (pendingPrivateKey start_paths) (CHR ''k'')"
proof -
  have ne: "distinct (all_paths start_paths)" "\<forall>q \<in> set (all_paths start_paths). q \<noteq> []"
    using start_paths_ok by (simp_all add: paths_ok_def)
  have disk: "interrupted_disk (operationalCertificate start_paths) = Some (disk_text (cert_file (CHR ''k'')))"
    "interrupted_disk (privateKey start_paths) = Some (disk_text ''old'')"
    "interrupted_disk (pendingPrivateKey start_paths) = Some (disk_text ''key'')"
    using ne(1) by (auto simp: interrupted_disk_def all_paths_def)
  show "disk_leaf example_os example_ssl (open_store start_paths interrupted_disk) = Some (CHR ''k'')"
    using disk(1) open_store_facts(2,3) [OF start_paths_ok]
    by (simp add: disk_leaf_def hub_layout_eq ReadDisk_def example_os_def disk_text_def example_parse)
  show "\<not> key_fits example_os example_ssl interrupted_disk (privateKey start_paths) (CHR ''k'')"
    "key_fits example_os example_ssl interrupted_disk (pendingPrivateKey start_paths) (CHR ''k'')"
    using disk(2,3) ne(2) by (simp_all add: key_fits_def LoadKey_def ReadDisk_def example_os_def disk_text_def example_ssl_def all_paths_def)
qed


end
