(* ===== verification/Guarded_Runs.thy ===== *)
theory Guarded_Runs
  imports Prelude
begin

text \<open>
  Runs of a partial step under a contract of the environment: the step must answer, and keep the invariant, whenever
  the environment keeps its part of the contract.  The contract may speak of a ghost \<^verbatim>\<open>D\<close>, what
  the environment has promised so far, which every step updates.
\<close>

section \<open>Runs\<close>

fun run_all :: "('a \<Rightarrow> 's \<Rightarrow> 's option) \<Rightarrow> 'a list \<Rightarrow> 's \<Rightarrow> 's option" where
  "run_all step [] s = Some s"
| "run_all step (a # later) s = do { s \<leftarrow> step a s; run_all step later s }"

fun all_guarded :: "('a \<Rightarrow> 's \<Rightarrow> 's option) \<Rightarrow> ('a \<Rightarrow> 's \<Rightarrow> 'g \<Rightarrow> bool) \<Rightarrow> ('a \<Rightarrow> 's \<Rightarrow> 'g \<Rightarrow> 'g) \<Rightarrow>
    'a list \<Rightarrow> 's \<Rightarrow> 'g \<Rightarrow> bool" where
  "all_guarded step guard after [] s D \<longleftrightarrow> True"
| "all_guarded step guard after (a # later) s D \<longleftrightarrow> guard a s D \<and>
    (case step a s of None \<Rightarrow> True | Some t \<Rightarrow> all_guarded step guard after later t (after a s D))"

fun ghost_after :: "('a \<Rightarrow> 's \<Rightarrow> 's option) \<Rightarrow> ('a \<Rightarrow> 's \<Rightarrow> 'g \<Rightarrow> 'g) \<Rightarrow> 'a list \<Rightarrow> 's \<Rightarrow> 'g \<Rightarrow> 'g" where
  "ghost_after step after [] s D = D"
| "ghost_after step after (a # later) s D =
    (case step a s of None \<Rightarrow> D | Some t \<Rightarrow> ghost_after step after later t (after a s D))"

section \<open>The contract\<close>

locale guarded_steps =
  fixes step :: "'a \<Rightarrow> 's \<Rightarrow> 's option"
    and guard :: "'a \<Rightarrow> 's \<Rightarrow> 'g \<Rightarrow> bool"
    and after :: "'a \<Rightarrow> 's \<Rightarrow> 'g \<Rightarrow> 'g"
    and ok :: "'s \<Rightarrow> 'g \<Rightarrow> bool"
  assumes step_keeps: "ok s D \<Longrightarrow> guard a s D \<Longrightarrow> \<exists>t. step a s = Some t \<and> ok t (after a s D)"
begin

lemma run_keeps:
  assumes "ok s D" "all_guarded step guard after as s D"
  shows "\<exists>t. run_all step as s = Some t \<and> ok t (ghost_after step after as s D)"
  using assms
proof (induction as arbitrary: s D)
  case (Cons a later)
  obtain t where t: "step a s = Some t" "ok t (after a s D)" using step_keeps [of s D a] Cons.prems by auto
  then show ?case using Cons.IH [OF t(2)] Cons.prems(2) by simp
qed simp

lemma run_append:
  "run_all step (as @ bs) s = do { t \<leftarrow> run_all step as s; run_all step bs t }"
  by (induction as arbitrary: s) (simp_all split: Option.bind_split)

end

end
