(* ===== verification/Hub_System.thy ===== *)
theory Hub_System
  imports Hub_Start Guarded_Runs
begin

text \<open>
  The whole hub while it runs: what the BACnet stack may call during its tick, what libwebsockets may
  call while it is serviced, and the loop of \<^verbatim>\<open>main\<close> around them, with the invariant
  that the device and the transport keep together.
\<close>

section \<open>The callbacks about connections\<close>

text \<open>The four callbacks of \<^verbatim>\<open>src/main.cpp\<close> that the stack has for WebSocket
  connections copy the URI out of the stack's buffer; the outer \<^verbatim>\<open>None\<close> is a read past
  its end.\<close>

definition uri_of :: "bytes \<Rightarrow> nat \<Rightarrow> string option" where
  "uri_of websocketUri len = (if len \<le> length websocketUri then Some (string_of (take len websocketUri)) else None)"

definition CallbackInitiateWebsocket :: "connect_env \<Rightarrow> bytes \<Rightarrow> nat \<Rightarrow> router \<Rightarrow> (bool \<times> router) option" where
  "CallbackInitiateWebsocket env websocketUri len r = do {
     uri \<leftarrow> uri_of websocketUri len;
     (started, t) \<leftarrow> Connect env uri (transport r);
     Some (started, r\<lparr> transport := t \<rparr>) }"

definition CallbackDisconnectWebsocket :: "bytes \<Rightarrow> nat \<Rightarrow> router \<Rightarrow> router option" where
  "CallbackDisconnectWebsocket websocketUri len r = do {
     uri \<leftarrow> uri_of websocketUri len;
     Some (r\<lparr> transport := Disconnect uri (transport r) \<rparr>) }"

definition CallbackSCStartListening :: "listen_env \<Rightarrow> bytes \<Rightarrow> nat \<Rightarrow> router \<Rightarrow> (bool \<times> router) option" where
  "CallbackSCStartListening env websocketUri len r = do {
     uri \<leftarrow> uri_of websocketUri len;
     (ok, t) \<leftarrow> StartListening env uri (transport r);
     Some (ok, r\<lparr> transport := t \<rparr>) }"

definition CallbackSCStopListening :: "listen_env \<Rightarrow> bytes \<Rightarrow> nat \<Rightarrow> router \<Rightarrow> router option" where
  "CallbackSCStopListening env websocketUri len r = do {
     uri \<leftarrow> uri_of websocketUri len;
     t \<leftarrow> StopListening env uri (transport r);
     Some (r\<lparr> transport := t \<rparr>) }"

section \<open>What the stack does in a tick\<close>

text \<open>One call of the stack, with what the system decides while it runs.\<close>

datatype stack_action =
    DeviceCall os int nat device_call
  | Receive nat nat "datagram option" stack_buffers
  | Transmit "ifaddr list option" "sent \<Rightarrow> int" bytes "bytes option" nat u32 bool
  | Initiate connect_env bytes nat
  | Drop bytes nat
  | Listen listen_env bytes nat
  | StopListen listen_env bytes nat

definition perform :: "('c, 'k) openssl \<Rightarrow> stack_action \<Rightarrow> device \<times> router \<Rightarrow> (device \<times> router) option" where
  "perform ssl a x =
    (case x of (d, r) \<Rightarrow>
       (case a of
          DeviceCall e now dev call \<Rightarrow> map_option (\<lambda>d. (d, r)) (device_step e ssl now dev call d)
        | Receive maxM maxC waiting out \<Rightarrow> map_option (\<lambda>(_, _, r). (d, r)) (HandleReceiveMessage maxM maxC waiting out r)
        | Transmit ifap sendto message connStr len npi broadcast \<Rightarrow>
            map_option (\<lambda>(_, _, r). (d, r)) (HandleSendMessage ifap sendto message connStr len npi broadcast r)
        | Initiate env uri len \<Rightarrow> map_option (\<lambda>(_, r). (d, r)) (CallbackInitiateWebsocket env uri len r)
        | Drop uri len \<Rightarrow> map_option (\<lambda>r. (d, r)) (CallbackDisconnectWebsocket uri len r)
        | Listen env uri len \<Rightarrow> map_option (\<lambda>(_, r). (d, r)) (CallbackSCStartListening env uri len r)
        | StopListen env uri len \<Rightarrow> map_option (\<lambda>r. (d, r)) (CallbackSCStopListening env uri len r)))"

text \<open>The stack passes buffers of the lengths it says, and lws closes every socket of a listener that is
  torn down.  \<^verbatim>\<open>D\<close> is the set of sockets lws is closing already.\<close>

definition uri_fits :: "bytes \<Rightarrow> nat \<Rightarrow> bool" where
  "uri_fits uri len \<longleftrightarrow> len \<le> length uri"

definition uri_text :: "bytes \<Rightarrow> nat \<Rightarrow> string" where
  "uri_text uri len = string_of (take len uri)"

definition permitted :: "stack_action \<Rightarrow> router \<Rightarrow> nat set \<Rightarrow> bool" where
  "permitted a r D \<longleftrightarrow>
    (case a of
       DeviceCall e now dev call \<Rightarrow> True
     | Receive maxM maxC waiting out \<Rightarrow> buffers_fit maxM maxC out \<and> maxM < 65536
     | Transmit ifap sendto message connStr len npi broadcast \<Rightarrow> length message \<le> 65535 \<and>
         (case connStr of None \<Rightarrow> len = 0 | Some buf \<Rightarrow> len \<le> length buf)
     | Initiate env uri len \<Rightarrow> uri_fits uri len
     | Drop uri len \<Rightarrow> uri_fits uri len
     | Listen env uri len \<Rightarrow> uri_fits uri len \<and>
         tears_down env ((transport r)\<lparr> wantedListenUri := uri_text uri len \<rparr>) D
     | StopListen env uri len \<Rightarrow> uri_fits uri len \<and> tears_down env (no_longer_wanted (uri_text uri len) (transport r)) D)"

definition closing_after :: "stack_action \<Rightarrow> router \<Rightarrow> nat set \<Rightarrow> nat set" where
  "closing_after a r D =
    (let s = transport r in
     case a of
       Listen env uri len \<Rightarrow>
         if configured s \<and> listenerUp s \<and> listenUri s \<noteq> uri_text uri len then {} else D
     | StopListen env uri len \<Rightarrow> if listenerUp s \<and> listenUri s = uri_text uri len then {} else D
     | _ \<Rightarrow> D)"

text \<open>The calls of one tick, one after the other.\<close>

abbreviation perform_all :: "('c, 'k) openssl \<Rightarrow> stack_action list \<Rightarrow> device \<times> router \<Rightarrow> (device \<times> router) option" where
  "perform_all ssl \<equiv> run_all (perform ssl)"

abbreviation all_permitted :: "('c, 'k) openssl \<Rightarrow> stack_action list \<Rightarrow> device \<times> router \<Rightarrow> nat set \<Rightarrow> bool" where
  "all_permitted ssl \<equiv> all_guarded (perform ssl) (\<lambda>a x. permitted a (snd x)) (\<lambda>a x. closing_after a (snd x))"

abbreviation closing_all :: "('c, 'k) openssl \<Rightarrow> stack_action list \<Rightarrow> device \<times> router \<Rightarrow> nat set \<Rightarrow> nat set" where
  "closing_all ssl \<equiv> ghost_after (perform ssl) (\<lambda>a x. closing_after a (snd x))"

section \<open>What libwebsockets does while it is serviced\<close>

text \<open>A callback answers lws and may let it close the socket.\<close>

definition served_callback :: "server_event \<Rightarrow> sc_state \<Rightarrow> sc_state option" where
  "served_callback e s = map_option snd (HandleServerCallback e s)"

definition doomed_by :: "server_event \<Rightarrow> sc_state \<Rightarrow> nat set \<Rightarrow> nat set" where
  "doomed_by e s D = (case HandleServerCallback e s of None \<Rightarrow> D | Some (r, _) \<Rightarrow> doomed_after e r D)"

abbreviation callbacks_permitted :: "server_event list \<Rightarrow> sc_state \<Rightarrow> nat set \<Rightarrow> bool" where
  "callbacks_permitted \<equiv> all_guarded served_callback (\<lambda>e s D. lws_allows s D e) doomed_by"

abbreviation doomed_run :: "server_event list \<Rightarrow> sc_state \<Rightarrow> nat set \<Rightarrow> nat set" where
  "doomed_run \<equiv> ghost_after served_callback doomed_by"

lemma run_server_all: "run_server es s = run_all served_callback es s"
  by (induction es arbitrary: s) (auto simp: served_callback_def split: Option.bind_split option.split)

interpretation lws_calls: guarded_steps served_callback "\<lambda>e s D. lws_allows s D e" doomed_by sc_ok
proof
  fix s D e
  assume ok: "sc_ok s D" "lws_allows s D e"
  obtain r t where c: "HandleServerCallback e s = Some (r, t)" "step_ok s t (doomed_after e r D)"
    using server_callback_ok [OF ok] by blast
  then show "\<exists>t. served_callback e s = Some t \<and> sc_ok t (doomed_by e s D)"
    by (simp add: served_callback_def doomed_by_def step_ok_def)
qed

definition retried :: "listen_env \<Rightarrow> sc_state \<Rightarrow> sc_state option" where
  "retried env s =
    (if \<not> listenerUp s \<and> wantedListenUri s \<noteq> [] then map_option snd (StartListening env (wantedListenUri s) s) else Some s)"

definition service_permitted :: "listen_env \<Rightarrow> server_event list \<Rightarrow> sc_state \<Rightarrow> nat set \<Rightarrow> bool" where
  "service_permitted env es s D \<longleftrightarrow>
    (case retried env s of None \<Rightarrow> True | Some s \<Rightarrow> listenerUp s \<longrightarrow> callbacks_permitted es s D)"

definition service_closing :: "listen_env \<Rightarrow> server_event list \<Rightarrow> sc_state \<Rightarrow> nat set \<Rightarrow> nat set" where
  "service_closing env es s D =
    (case retried env s of None \<Rightarrow> D | Some s \<Rightarrow> if listenerUp s then doomed_run es s D else D)"

section \<open>The invariant of the hub\<close>

text \<open>The device over the resolved paths, and the transport with the sockets lws is closing.\<close>

definition hub_ok :: "hub_cert_paths \<Rightarrow> device \<times> router \<Rightarrow> nat set \<Rightarrow> bool" where
  "hub_ok p x D \<longleftrightarrow> device_ok p (fst x) \<and> sc_ok (transport (snd x)) D"

lemma hub_okI [intro]: "device_ok p d \<Longrightarrow> sc_ok (transport r) D \<Longrightarrow> hub_ok p (d, r) D"
  by (simp add: hub_ok_def)

lemma sc_okI: "step_ok s t D \<Longrightarrow> sc_ok t D"
  by (simp add: step_ok_def)

lemma ReceiveFromSc_transport:
  assumes "ReceiveFromSc maxM maxC out r = Some (got, filled, r')"
  shows "sc_ok (transport r) D \<longrightarrow> sc_ok (transport r') D"
proof (cases "PopReceived (transport r)")
  case None
  then show ?thesis using assms by (simp add: ReceiveFromSc_def)
next
  case (Some ft)
  obtain f t where ft: "ft = (f, t)" by (rule prod.exhaust)
  then have "sc_ok t D" if "sc_ok (transport r) D" using PopReceived_ok [OF that] Some sc_okI by blast
  moreover have "transport r' = t" using assms Some ft
    by (auto simp: ReceiveFromSc_def Let_def split: if_splits option.splits Option.bind_splits)
  ultimately show ?thesis by simp
qed

lemma ReceiveFromIp_transport:
  "ReceiveFromIp maxM maxC waiting out r = Some (got, filled, r') \<Longrightarrow> transport r' = transport r"
  by (auto simp: ReceiveFromIp_def split: if_splits option.splits Option.bind_splits)

lemma Receive_keeps:
  assumes "buffers_fit maxM maxC out" "maxM < 65536" "sc_ok (transport r) D"
  shows "\<exists>got filled r'. HandleReceiveMessage maxM maxC waiting out r = Some (got, filled, r') \<and> sc_ok (transport r') D"
proof -
  obtain got filled r' where h: "HandleReceiveMessage maxM maxC waiting out r = Some (got, filled, r')"
    using router_stays_in_the_stack_buffers [OF assms(1,2)] by blast
  moreover have "sc_ok (transport r') D"
    using h assms(3)
    by (auto simp: HandleReceiveMessage_def Let_def split: if_splits Option.bind_splits
        dest!: ReceiveFromIp_transport ReceiveFromSc_transport [where D = D])
  ultimately show ?thesis by blast
qed

lemma RouterSendIp_total:
  assumes "length message \<le> 65535" "case connStr of None \<Rightarrow> len = 0 | Some buf \<Rightarrow> len \<le> length buf"
  shows "RouterSendIp ifap sendto message connStr len broadcast l \<noteq> None"
proof -
  have "safe (IsStackChosenBroadcast message (length message))"
    using assms(1) by (intro IsStackChosenBroadcast_safe) (simp add: fits_def)
  then obtain b where b: "IsStackChosenBroadcast message (length message) = Some b" by (auto simp: safe_def)
  have octet: "rd buf i = Some (buf ! i)" if "\<not> len < 6" "len \<le> length buf" "i < 6" for buf :: bytes and i
    using that by simp
  show ?thesis
    using assms(2) by (cases connStr) (auto simp: RouterSendIp_def b Let_def octet simp del: rd_Some split: prod.splits)
qed

lemma Transmit_keeps:
  assumes "length message \<le> 65535" "case connStr of None \<Rightarrow> len = 0 | Some buf \<Rightarrow> len \<le> length buf" "sc_ok (transport r) D"
  shows "\<exists>out sent r'. HandleSendMessage ifap sendto message connStr len npi broadcast r = Some (out, sent, r') \<and>
    sc_ok (transport r') D"
proof -
  obtain ip where ip: "RouterSendIp ifap sendto message connStr len broadcast (ip_link r) = Some ip"
    using RouterSendIp_total [OF assms(1,2)] by blast
  define cs where "cs = (case connStr of None \<Rightarrow> [] | Some buf \<Rightarrow> take len buf)"
  have cs: "(case connStr of None \<Rightarrow> if len = 0 then Some [] else None
      | Some buf \<Rightarrow> if len \<le> length buf then Some (take len buf) else None) = Some cs"
    using assms(2) by (cases connStr) (simp_all add: cs_def)
  obtain ok t where t: "Send (string_of cs) message (transport r) = Some (ok, t)" "sc_ok t D"
    using Send_ok [OF assms(3), of "string_of cs" message] sc_okI by metis
  show ?thesis using ip t assms(3) by (cases ip) (simp add: HandleSendMessage_def cs)
qed

lemma uri_of_fits: "uri_fits uri len \<Longrightarrow> uri_of uri len = Some (uri_text uri len)"
  by (simp add: uri_of_def uri_fits_def uri_text_def)

lemma perform_keeps:
  assumes "hub_ok p x D" "permitted a (snd x) D"
  obtains y where "perform ssl a x = Some y" "hub_ok p y (closing_after a (snd x) D)"
proof -
  obtain d r where x: "x = (d, r)" by (rule prod.exhaust)
  have ok: "device_ok p d" "sc_ok (transport r) D" using assms(1) x by (simp_all add: hub_ok_def)
  have "\<exists>y. perform ssl a x = Some y \<and> hub_ok p y (closing_after a r D)"
  proof (cases a)
    case (DeviceCall e now dev call)
    then show ?thesis
      using device_step_keeps [OF ok(1), of e ssl now dev call] ok(2) x
      by (auto simp: perform_def closing_after_def)
  next
    case (Receive maxM maxC waiting out)
    then show ?thesis
      using Receive_keeps [OF _ _ ok(2), of maxM maxC out waiting] assms(2) ok(1) x
      by (auto simp: perform_def closing_after_def permitted_def)
  next
    case (Transmit ifap sendto message connStr len npi broadcast)
    have "length message \<le> 65535" "case connStr of None \<Rightarrow> len = 0 | Some buf \<Rightarrow> len \<le> length buf"
      using assms(2) Transmit x by (simp_all add: permitted_def)
    then show ?thesis
      using Transmit_keeps [OF _ _ ok(2), where message = message and connStr = connStr and len = len and ifap = ifap
        and sendto = sendto and npi = npi and broadcast = broadcast] Transmit ok(1) x
      by (auto simp: perform_def closing_after_def)
  next
    case (Initiate env uri len)
    obtain started t where "Connect env (uri_text uri len) (transport r) = Some (started, t)" "step_ok (transport r) t D"
      by (rule Connect_ok [OF ok(2)])
    then show ?thesis using Initiate assms(2) ok(1) x sc_okI
      by (auto simp: perform_def closing_after_def permitted_def CallbackInitiateWebsocket_def uri_of_fits)
  next
    case (Drop uri len)
    then show ?thesis using assms(2) ok x sc_okI [OF Disconnect_ok [OF ok(2)]]
      by (auto simp: perform_def closing_after_def permitted_def CallbackDisconnectWebsocket_def uri_of_fits)
  next
    case (Listen env uri len)
    have td: "tears_down env ((transport r)\<lparr> wantedListenUri := uri_text uri len \<rparr>) D" "uri_fits uri len"
      using assms(2) Listen x by (simp_all add: permitted_def)
    obtain started t where t: "StartListening env (uri_text uri len) (transport r) = Some (started, t)"
      "step_ok (transport r) t (if configured (transport r) \<and> listenerUp (transport r) \<and>
        listenUri (transport r) \<noteq> uri_text uri len then {} else D)"
      by (rule StartListening_ok [OF ok(2) td(1)])
    have "closing_after a r D = (if configured (transport r) \<and> listenerUp (transport r) \<and>
        listenUri (transport r) \<noteq> uri_text uri len then {} else D)"
      by (simp add: closing_after_def Listen Let_def)
    then show ?thesis using Listen ok(1) x td(2) t(1) sc_okI [OF t(2)]
      by (auto simp: perform_def CallbackSCStartListening_def uri_of_fits)
  next
    case (StopListen env uri len)
    have td: "tears_down env (no_longer_wanted (uri_text uri len) (transport r)) D" "uri_fits uri len"
      using assms(2) StopListen x by (simp_all add: permitted_def)
    obtain t where t: "StopListening env (uri_text uri len) (transport r) = Some t"
      "step_ok (transport r) t (if listenerUp (transport r) \<and> listenUri (transport r) = uri_text uri len then {} else D)"
      by (rule StopListening_ok [OF ok(2) td(1)])
    have "closing_after a r D = (if listenerUp (transport r) \<and> listenUri (transport r) = uri_text uri len then {} else D)"
      by (simp add: closing_after_def StopListen Let_def)
    then show ?thesis using StopListen ok(1) x td(2) t(1) sc_okI [OF t(2)]
      by (auto simp: perform_def CallbackSCStopListening_def uri_of_fits)
  qed
  then show thesis using that x by auto
qed

interpretation stack_calls:
  guarded_steps "perform ssl" "\<lambda>a x. permitted a (snd x)" "\<lambda>a x. closing_after a (snd x)" "hub_ok p" for ssl p
  by unfold_locales (metis perform_keeps)

section \<open>Service\<close>

text \<open>No callback makes an outbound connection disappear.\<close>

lemma client_callback_known:
  assumes "HandleClientCallback opaque e s = Some (r, s')" "omap_ok (clients s)" "omap_has (clients s) uri"
  shows "omap_has (clients s') uri"
  using assms
  by (cases e) (auto simp: HandleClientCallback_def ClientEstablished_body_def ClientReceived_body_def
      ClientWriteable_body_def put_client_def push_status_def Let_def omap_has_def split: option.splits prod.splits if_splits)

lemma run_client_keeps:
  assumes "sc_ok s D" "omap_has (clients s) own"
  obtains s' where "run_client (Some own) es s = Some s'" "sc_ok s' D"
    "\<And>uri. omap_has (clients s) uri \<Longrightarrow> omap_has (clients s') uri"
  using assms
proof (induction es arbitrary: s thesis)
  case Nil
  then show ?case by simp
next
  case (Cons e es)
  have "client_known s (Some own)" using Cons.prems(3) by (simp add: client_known_def)
  then obtain r s1 where c: "HandleClientCallback (Some own) e s = Some (r, s1)" "sc_ok s1 D"
    using client_callback_ok [OF Cons.prems(2)] sc_okI by metis
  have kept: "omap_has (clients s1) uri" if "omap_has (clients s) uri" for uri
    using client_callback_known [OF c(1) sc_okD(3) [OF Cons.prems(2)] that] .
  obtain s' where s': "run_client (Some own) es s1 = Some s'" "sc_ok s' D"
    "\<And>uri. omap_has (clients s1) uri \<Longrightarrow> omap_has (clients s') uri"
    using Cons.IH [OF _ c(2) kept [OF Cons.prems(3)]] by blast
  show ?case by (rule Cons.prems(1) [of s']) (use c(1) s' kept in simp_all)
qed

lemma fold_clients_keeps:
  assumes "sc_ok s D" "\<And>uri. uri \<in> fst ` set cs \<Longrightarrow> omap_has (clients s) uri"
  shows "\<exists>s'. fold (\<lambda>(uri, conn) st. do {
        s \<leftarrow> st;
        if has_context conn then run_client (Some uri) (callbacks uri) s else Some s
      }) cs (Some s) = Some s' \<and> sc_ok s' D"
  using assms
proof (induction cs arbitrary: s)
  case (Cons x cs)
  obtain uri conn where x: "x = (uri, conn)" by (rule prod.exhaust)
  show ?case
  proof (cases "has_context conn")
    case False
    then show ?thesis using Cons x by simp
  next
    case True
    obtain s1 where s1: "run_client (Some uri) (callbacks uri) s = Some s1" "sc_ok s1 D"
      "\<And>u. omap_has (clients s) u \<Longrightarrow> omap_has (clients s1) u"
      by (rule run_client_keeps [OF Cons.prems(1), of uri]) (use Cons.prems(2) x in auto)
    then show ?thesis using Cons.IH [OF s1(2)] Cons.prems(2) True x by simp
  qed
qed simp

lemma Service_keeps:
  assumes "sc_ok s D" "service_permitted env es s D"
  shows "\<exists>s'. Service env es callbacks s = Some s' \<and> sc_ok s' (service_closing env es s D)"
proof -
  obtain s1 where s1: "retried env s = Some s1" "sc_ok s1 D"
  proof (cases "\<not> listenerUp s \<and> wantedListenUri s \<noteq> []")
    case True
    then have "tears_down env (s\<lparr> wantedListenUri := wantedListenUri s \<rparr>) D" by (simp add: tears_down_def)
    then obtain ok t where "StartListening env (wantedListenUri s) s = Some (ok, t)"
      "step_ok s t (if configured s \<and> listenerUp s \<and> listenUri s \<noteq> wantedListenUri s then {} else D)"
      by (rule StartListening_ok [OF assms(1)])
    then show thesis using that [of t] True sc_okI by (simp add: retried_def)
  qed (use that [of s] assms(1) in \<open>auto simp: retried_def\<close>)
  obtain s2 where s2: "(if listenerUp s1 then run_server es s1 else Some s1) = Some s2" "sc_ok s2 (service_closing env es s D)"
    using lws_calls.run_keeps [OF s1(2), of es] assms(2) s1
    by (cases "listenerUp s1") (auto simp: service_permitted_def service_closing_def run_server_all)
  have "omap_has (clients s2) uri" if "uri \<in> fst ` set (clients s2)" for uri
    using that by (auto simp: omap_has_def dest: weak_map_of_SomeI)
  then show ?thesis
    using fold_clients_keeps [OF s2(2), of "clients s2" callbacks] s1(1) s2(1)
    by (simp add: Service_def retried_def cong: if_cong)
qed

section \<open>A turn of the loop\<close>

text \<open>The hub when the turn comes to the reload.\<close>

definition before_reload :: "config \<Rightarrow> turn_env \<Rightarrow> hub \<Rightarrow> device \<Rightarrow> router \<Rightarrow> sc_state \<Rightarrow> hub" where
  "before_reload c env h d r t =
    snd (crl_step env (snd (limit_message_step c env
      (h\<lparr> the_device := d, the_router := r\<lparr> transport := t\<lparr> statusQueue := [] \<rparr> \<rparr> \<rparr>))))"

definition turn_permitted :: "('c, 'k) openssl \<Rightarrow> config \<Rightarrow> stack_action list \<Rightarrow> turn_env \<Rightarrow> hub \<Rightarrow> nat set \<Rightarrow> bool" where
  "turn_permitted ssl c acts env h D \<longleftrightarrow>
    (let x = (the_device h, the_router h); D1 = closing_all ssl acts x D in
     stack_tick env = perform_all ssl acts \<and> all_permitted ssl acts x D \<and>
     (case perform_all ssl acts x of None \<Rightarrow> True
      | Some (d, r) \<Rightarrow>
          let D2 = service_closing (service_env env) (listener_callbacks env) (transport r) D1 in
          service_permitted (service_env env) (listener_callbacks env) (transport r) D1 \<and>
          (case Service (service_env env) (listener_callbacks env) (client_callbacks env) (transport r) of None \<Rightarrow> True
           | Some t \<Rightarrow> g_scReloadCredentialsRequested (the_device (before_reload c env h d r t)) \<longrightarrow>
               wantedListenUri t \<noteq> [] \<longrightarrow> tears_down (reload_env env) (t\<lparr> statusQueue := [] \<rparr>) D2)))"

definition turn_closing :: "('c, 'k) openssl \<Rightarrow> config \<Rightarrow> stack_action list \<Rightarrow> turn_env \<Rightarrow> hub \<Rightarrow> nat set \<Rightarrow> nat set" where
  "turn_closing ssl c acts env h D =
    (let x = (the_device h, the_router h); D1 = closing_all ssl acts x D in
     (case perform_all ssl acts x of None \<Rightarrow> D1
      | Some (d, r) \<Rightarrow>
          let D2 = service_closing (service_env env) (listener_callbacks env) (transport r) D1 in
          (case Service (service_env env) (listener_callbacks env) (client_callbacks env) (transport r) of None \<Rightarrow> D2
           | Some t \<Rightarrow>
               if g_scReloadCredentialsRequested (the_device (before_reload c env h d r t)) \<and> wantedListenUri t \<noteq> [] \<and> listenerUp t
               then {} else D2)))"

lemma before_reload_keeps:
  assumes "device_ok p d"
  shows "device_ok p (the_device (before_reload c env h d r t)) \<and>
    the_router (before_reload c env h d r t) = r\<lparr> transport := t\<lparr> statusQueue := [] \<rparr> \<rparr>"
  using assms by (auto simp: before_reload_def crl_step_def limit_message_step_def Let_def)

lemma reload_step_keeps:
  assumes "device_ok p (the_device h)" "sc_ok (transport (the_router h)) D"
    "g_scReloadCredentialsRequested (the_device h) \<Longrightarrow> wantedListenUri (transport (the_router h)) \<noteq> [] \<Longrightarrow>
      tears_down env' (transport (the_router h)) D"
    "env' = reload_env env"
  shows "\<exists>h'. reload_step env h = Some h' \<and> device_ok p (the_device h') \<and>
    sc_ok (transport (the_router h')) (if g_scReloadCredentialsRequested (the_device h) \<and>
      wantedListenUri (transport (the_router h)) \<noteq> [] \<and> listenerUp (transport (the_router h)) then {} else D)"
proof (cases "g_scReloadCredentialsRequested (the_device h)")
  case True
  obtain t where "ReloadCredentials (reload_env env) (transport (the_router h)) = Some t"
    "step_ok (transport (the_router h)) t (if wantedListenUri (transport (the_router h)) \<noteq> [] \<and>
       listenerUp (transport (the_router h)) then {} else D)"
    by (rule ReloadCredentials_ok [OF assms(2), of "reload_env env"]) (use assms(3,4) True in auto)
  then show ?thesis using True assms(1) sc_okI by (auto simp: reload_step_def)
qed (use assms(1,2) in \<open>simp add: reload_step_def\<close>)

lemma key_step_keeps:
  "device_ok p (the_device h) \<Longrightarrow> device_ok p (the_device (key_step env h))"
  "the_router (key_step env h) = the_router h"
  by (auto simp: key_step_def device_ok_def zone_ok_def split: key_command.split)

lemma turn_keeps:
  assumes "hub_ok p (the_device h, the_router h) D" "turn_permitted ssl c acts env h D"
  shows "\<exists>said result. loop_turn c startTime env h = Some (said, result) \<and>
    (case result of Inl h' \<Rightarrow> h' = h
     | Inr h' \<Rightarrow> hub_ok p (the_device h', the_router h') (turn_closing ssl c acts env h D))"
proof (cases "int (now_limit env) - int startTime \<ge> int (runLimitSeconds c * second)")
  case True
  then show ?thesis by (simp add: loop_turn_def)
next
  case False
  let ?x = "(the_device h, the_router h)"
  obtain d r where x: "perform_all ssl acts ?x = Some (d, r)" "hub_ok p (d, r) (closing_all ssl acts ?x D)"
    using stack_calls.run_keeps [OF assms(1), where ssl = ssl and as = acts] assms(2) by (auto simp: turn_permitted_def Let_def)
  let ?D1 = "closing_all ssl acts ?x D"
  let ?D2 = "service_closing (service_env env) (listener_callbacks env) (transport r) ?D1"
  have "sc_ok (transport r) ?D1" "service_permitted (service_env env) (listener_callbacks env) (transport r) ?D1"
    using x assms(2) by (simp_all add: hub_ok_def turn_permitted_def Let_def)
  then obtain t where t: "Service (service_env env) (listener_callbacks env) (client_callbacks env) (transport r) = Some t" "sc_ok t ?D2"
    using Service_keeps by blast
  let ?h = "before_reload c env h d r t"
  have b: "device_ok p (the_device ?h)" "the_router ?h = r\<lparr> transport := t\<lparr> statusQueue := [] \<rparr> \<rparr>"
    using before_reload_keeps [of p d c env h r t] x(2) by (simp_all add: hub_ok_def)
  have "sc_ok (transport (the_router ?h)) ?D2" using t(2) b(2) by simp
  moreover have "tears_down (reload_env env) (transport (the_router ?h)) ?D2"
    if "g_scReloadCredentialsRequested (the_device ?h)" "wantedListenUri (transport (the_router ?h)) \<noteq> []"
    using that assms(2) x(1) t(1) b(2) by (simp add: turn_permitted_def Let_def)
  ultimately obtain h' where h': "reload_step env ?h = Some h'" "device_ok p (the_device h')"
    "sc_ok (transport (the_router h')) (turn_closing ssl c acts env h D)"
    using reload_step_keeps [OF b(1) _ _ refl] x(1) t(1) b(2) by (fastforce simp: turn_closing_def Let_def)
  let ?h1 = "h\<lparr> the_device := d, the_router := r\<lparr> transport := t\<lparr> statusQueue := [] \<rparr> \<rparr> \<rparr>"
  obtain said1 h2 where l: "limit_message_step c env ?h1 = (said1, h2)" by (rule prod.exhaust)
  obtain said2 h3 where k: "crl_step env h2 = (said2, h3)" by (rule prod.exhaust)
  have tick: "stack_tick env ?x = Some (d, r)" using assms(2) x(1) by (simp add: turn_permitted_def Let_def)
  have "?h = h3" by (simp add: before_reload_def l k)
  then have "loop_turn c startTime env h = Some (said1 @ said2, Inr (key_step env h'))"
    using False tick t(1) h'(1) l k by (simp add: loop_turn_def DrainStatusEvents_def drain_events_all)
  then show ?thesis using h'(2,3) key_step_keeps(1) [of p h' env] key_step_keeps(2) [of env h'] by (auto simp: hub_ok_def)
qed

section \<open>The program from its start\<close>

text \<open>How the stack answers the calls of the configuration: it refuses one, or acts and accepts it.\<close>

definition scripted ::
  "('c, 'k) openssl \<Rightarrow> (stack_call \<Rightarrow> stack_action list option) \<Rightarrow> stack_call \<Rightarrow> device \<times> router \<Rightarrow> (device \<times> router) option" where
  "scripted ssl script call x = (case script call of None \<Rightarrow> None | Some acts \<Rightarrow> perform_all ssl acts x)"

fun setup_permitted ::
  "('c, 'k) openssl \<Rightarrow> (stack_call \<Rightarrow> stack_action list option) \<Rightarrow> stack_call list \<Rightarrow> device \<times> router \<Rightarrow> nat set \<Rightarrow> bool" where
  "setup_permitted ssl script [] x D \<longleftrightarrow> True"
| "setup_permitted ssl script (call # calls) x D \<longleftrightarrow>
    (case script call of None \<Rightarrow> True
     | Some acts \<Rightarrow> all_permitted ssl acts x D \<and>
         (case perform_all ssl acts x of None \<Rightarrow> True
          | Some y \<Rightarrow> setup_permitted ssl script calls y (closing_all ssl acts x D)))"

fun setup_closing ::
  "('c, 'k) openssl \<Rightarrow> (stack_call \<Rightarrow> stack_action list option) \<Rightarrow> stack_call list \<Rightarrow> device \<times> router \<Rightarrow> nat set \<Rightarrow> nat set" where
  "setup_closing ssl script [] x D = D"
| "setup_closing ssl script (call # calls) x D =
    (case script call of None \<Rightarrow> D
     | Some acts \<Rightarrow>
         (case perform_all ssl acts x of None \<Rightarrow> D
          | Some y \<Rightarrow> setup_closing ssl script calls y (closing_all ssl acts x D)))"

lemma setup_keeps:
  assumes "hub_ok p x D" "setup_permitted ssl script calls x D"
  shows "(list_all (\<lambda>call. script call \<noteq> None) calls \<longrightarrow> run_setup (scripted ssl script) calls x \<noteq> None) \<and>
    (\<forall>y. run_setup (scripted ssl script) calls x = Some y \<longrightarrow> hub_ok p y (setup_closing ssl script calls x D))"
  using assms
proof (induction calls arbitrary: x D)
  case (Cons call calls)
  show ?case
  proof (cases "script call")
    case None
    then show ?thesis by (simp add: scripted_def)
  next
    case (Some acts)
    then obtain y where y: "perform_all ssl acts x = Some y" "hub_ok p y (closing_all ssl acts x D)"
      using stack_calls.run_keeps [OF Cons.prems(1), where ssl = ssl and as = acts] Cons.prems(2) by auto
    have "setup_permitted ssl script calls y (closing_all ssl acts x D)" using Cons.prems(2) Some y(1) by simp
    then show ?thesis using Cons.IH [OF y(2)] Some y(1) by (simp add: scripted_def)
  qed
qed simp

text \<open>The turns of the loop, each with what the stack does in its tick.\<close>

fun loop_permitted ::
  "('c, 'k) openssl \<Rightarrow> config \<Rightarrow> nat \<Rightarrow> (stack_action list \<times> turn_env) list \<Rightarrow> hub \<Rightarrow> nat set \<Rightarrow> bool" where
  "loop_permitted ssl c startTime [] h D \<longleftrightarrow> True"
| "loop_permitted ssl c startTime ((acts, env) # later) h D \<longleftrightarrow> (running h \<longrightarrow> turn_permitted ssl c acts env h D \<and>
    (case loop_turn c startTime env h of
       Some (said, Inr h') \<Rightarrow> loop_permitted ssl c startTime later h' (turn_closing ssl c acts env h D)
     | _ \<Rightarrow> True))"

lemma loop_keeps:
  assumes "hub_ok p (the_device h, the_router h) D" "loop_permitted ssl c startTime met h D"
  shows "\<exists>said h' stopped D'. main_loop c startTime (map snd met) h = Some (said, h', stopped) \<and>
    hub_ok p (the_device h', the_router h') D'"
  using assms
proof (induction met arbitrary: h D)
  case Nil
  then show ?case by auto
next
  case (Cons turn later)
  obtain acts env where turn: "turn = (acts, env)" by (rule prod.exhaust)
  show ?case
  proof (cases "running h")
    case False
    then show ?thesis using Cons.prems(1) turn by auto
  next
    case True
    then obtain said result where t: "loop_turn c startTime env h = Some (said, result)"
      "case result of Inl h' \<Rightarrow> h' = h | Inr h' \<Rightarrow> hub_ok p (the_device h', the_router h') (turn_closing ssl c acts env h D)"
      using turn_keeps [OF Cons.prems(1), of ssl c acts env startTime] Cons.prems(2) turn by auto
    show ?thesis
    proof (cases result)
      case (Inl h')
      then show ?thesis using t True turn Cons.prems(1) by auto
    next
      case (Inr h')
      then have "loop_permitted ssl c startTime later h' (turn_closing ssl c acts env h D)"
        using Cons.prems(2) True t(1) turn by simp
      then obtain more h2 stopped D' where "main_loop c startTime (map snd later) h' = Some (more, h2, stopped)"
        "hub_ok p (the_device h2, the_router h2) D'"
        using Cons.IH [of h' "turn_closing ssl c acts env h D"] Inr t(2) by auto
      then show ?thesis using Inr t(1) True turn by auto
    qed
  qed
qed

lemma configure_keeps: "sc_ok s D \<Longrightarrow> sc_ok (configure_transport c f s) D"
proof -
  assume s: "sc_ok s D"
  have "sc_ok (Configure f hub_subprotocol s) D" using s by (simp add: sc_ok_def peer_ok_def Configure_def)
  moreover have "rate_ok (SetConnectionRateLimits a b q)" for a b q by (simp add: SetConnectionRateLimits_def rate_ok_def)
  ultimately show ?thesis using sc_ok_rate by (simp add: configure_transport_def Let_def)
qed

lemma prepared_hub_ok:
  assumes "prepare_hub env c r dsk = Some (Inr s)" "sc_ok (transport r) D"
  shows "hub_ok (hub_paths_used s) (prepared_device s, prepared_router s) D"
proof -
  have "fst (RouterStart (udp_env env) (of_nat (bacnetIpUdpPort c)) r)" if "bacnetIpEnabled c"
    using assms(1) that by (auto simp: prepare_hub_def Let_def split: prod.splits if_splits)
  then have bind: "bacnetIpEnabled c \<Longrightarrow> fst (RouterStart (udp_env env) (of_nat (bacnetIpUdpPort c)) r)" .
  define p where "p = ResolveHubCertPaths (scCertDir c) (deviceInstance c) (cert_listing env)"
  obtain s' st1 msg ts st2 r1 where s': "prepare_hub env c r dsk = Some (Inr s')" "hub_paths_used s' = p"
    "ReconcilePendingKey (store_os env) (store_ssl env (Get (key_password s'))) (open_store p dsk) = (swap s', st1)"
    "WriteTrustedIssuerBundle (store_os env) (store_ssl env (Get (key_password s'))) (trustedIssuers p)
       (st1\<lparr>g_disk := t_files (ts :: tool_state)\<rparr>) = Some (issuer_file s', st2)"
    "\<exists>d. prepared_device s' = d\<lparr> g_store := st2 \<rparr> \<and> device_ok p d"
    "prepared_router s' = r1\<lparr> transport := configure_transport c (tls_of p (issuer_file s')) (transport r1) \<rparr>"
    "transport r1 = transport r"
    by (rule prepare_hub_steps [OF bind p_def, where dsk = dsk]) (assumption, rule that)
  have same: "s' = s" using s'(1) assms(1) by simp
  have ok: "paths_ok p" unfolding p_def by (rule resolved_paths_ok)
  have st2: "store_ok st2 \<and> g_layout st2 = hub_layout p"
    by (rule prepared_store_sound [OF ok s'(3,4)])
  obtain d where d: "prepared_device s' = d\<lparr> g_store := st2 \<rparr>" "device_ok p d" using s'(5) by blast
  have "device_ok p (prepared_device s')"
    unfolding d(1) by (rule device_ok_store [OF d(2)]) (use st2 d(2) in \<open>simp_all add: device_ok_def\<close>)
  moreover have "sc_ok (transport (prepared_router s')) D" using configure_keeps [OF assms(2)] by (simp add: s'(6,7))
  ultimately show ?thesis using same s'(2) by (simp add: hub_ok_def)
qed


lemma accepted_setup:
  "setup_permitted ssl (\<lambda>_. Some []) calls x D" "setup_closing ssl (\<lambda>_. Some []) calls x D = D"
  "run_setup (scripted ssl (\<lambda>_. Some [])) calls x = Some x"
  by (induction calls) (simp_all add: scripted_def)

lemma idle_transport_turn:
  assumes "clients t = []" "connStringToWsi t = []" "\<not> listenerUp t" "wantedListenUri t = []" "transport (the_router h) = t"
    "stack_tick env = perform_all ssl [DeviceCall e now dev call, Drop [] 0]"
    "service_env env = quiet_listen" "listener_callbacks env = []" "client_callbacks env = (\<lambda>_. [])"
  shows "turn_permitted ssl c [DeviceCall e now dev call, Drop [] 0] env h D"
proof -
  have "Disconnect uri t = t" for uri using assms(1,2) by (simp add: Disconnect_def)
  then have drop: "CallbackDisconnectWebsocket [] 0 (the_router h) = Some (the_router h)"
    using assms(5) by (simp add: CallbackDisconnectWebsocket_def uri_of_def)
  have "Service quiet_listen [] (\<lambda>_. []) t = Some t" using assms(1,3,4) by (simp add: Service_def)
  then show ?thesis
    using assms drop
    by (auto simp: turn_permitted_def Let_def perform_def permitted_def uri_fits_def service_permitted_def retried_def
        split: option.splits)
qed


end
