(* ===== verification/Tls_Log.thy ===== *)
theory Tls_Log
  imports Console_Log Main_Loop Sc_Tls
begin

text \<open>
  What \<^verbatim>\<open>src/sc_transport/ScTransport.cpp\<close> logs about certificates: the facts of the hub's own
  certificate and of its Certificate Authority, the check of the key against the certificate, and a device whose
  certificate is refused in the handshake.  What OpenSSL reads in a certificate is an argument; a line is its severity
  and its text before \<^verbatim>\<open>Log\<close> cuts it.
\<close>

section \<open>One certificate\<close>

text \<open>The common names; \<^verbatim>\<open>ASN1_TIME_diff\<close> from now to the two dates as in
  \<^verbatim>\<open>DaysRelativeToNow\<close>; the printed alternative names, \<^verbatim>\<open>None\<close> without the
  extension and \<^verbatim>\<open>Some None\<close> when there is no memory to print them.\<close>

record cert_facts =
  subject_cn :: "string option"
  issuer_cn :: "string option"
  not_before :: "(int \<times> int) option option"
  not_after :: "(int \<times> int) option option"
  alt_names :: "string list option option"

text \<open>\<^verbatim>\<open>X509_NAME_get_text_by_NID\<close> into 256 octets.\<close>

definition name_text :: "string option \<Rightarrow> string \<Rightarrow> string" where
  "name_text cn missing =
    (case cn of None \<Rightarrow> missing | Some t \<Rightarrow> if t = [] then missing else c_str (take 255 t))"

fun comma_list :: "string list \<Rightarrow> string" where
  "comma_list [] = []"
| "comma_list [x] = x"
| "comma_list (x # y # zs) = x @ '', '' @ comma_list (y # zs)"

definition expiring_soon :: "cert_facts \<Rightarrow> bool" where
  "expiring_soon cert =
    (case not_after cert of Some (Some (daysLeft, secsLeft)) \<Rightarrow> daysLeft < 30 | _ \<Rightarrow> False)"

definition LogOneCertificate :: "string \<Rightarrow> cert_facts \<Rightarrow> (LogLevel \<times> string) list" where
  "LogOneCertificate label cert =
    (if expiring_soon cert then Warning else Info,
     ''cert diagnostics: '' @ c_str label @ '' subject CN=\"'' @ name_text (subject_cn cert) ''<none>'' @
     ''\" issuer CN=\"'' @ name_text (issuer_cn cert) ''<none>'' @ ''\" notBefore=('' @ DaysRelativeToNow (not_before cert) @
     '') notAfter=('' @ DaysRelativeToNow (not_after cert) @ '')'' @
     (if expiring_soon cert then '' - EXPIRING SOON OR ALREADY EXPIRED (notAfter)'' else [])) #
    (case alt_names cert of
       None \<Rightarrow> [(Info, ''cert diagnostics: '' @ c_str label @ '' has no Subject Alternative Name extension '' @
         ''(not a problem - BACnet/SC certificates identify devices, not host names)'')]
     | Some None \<Rightarrow> []
     | Some (Some names) \<Rightarrow>
         [(Info, ''cert diagnostics: '' @ c_str label @ '' SAN entries: '' @ c_str (comma_list names))])"

section \<open>The diagnosis before the listener starts\<close>

definition skipped_line :: "string \<Rightarrow> string \<Rightarrow> LogLevel \<times> string" where
  "skipped_line path ending = (Warning, ''cert diagnostics: could not parse \"'' @ c_str path @
     ''\" as a PEM X.509 certificate - skipping self-diagnosis'' @ ending)"

definition key_lines :: "('c, 'k) pem_readers \<Rightarrow> tls_files \<Rightarrow> 'c \<Rightarrow> (LogLevel \<times> string) list" where
  "key_lines ssl f cert =
    (case read_key ssl (keyPath f) of
       None \<Rightarrow> [(Warning, ''cert diagnostics: could not parse \"'' @ c_str (keyPath f) @
         ''\" as a PEM private key - cannot check it against \"'' @ c_str (certPath f) @ [CHR 0x22])]
     | Some pkey \<Rightarrow>
         (let fits = key_matches ssl cert pkey in
          [(if fits then Info else Error, ''cert diagnostics: private key \"'' @ c_str (keyPath f) @ ''\" '' @
             (if fits then ''MATCHES'' else ''DOES NOT MATCH'') @ '' the public key in \"'' @ c_str (certPath f) @ [CHR 0x22])]))"

definition diagnostics_lines ::
  "('c, 'k) pem_readers \<Rightarrow> ('c \<Rightarrow> cert_facts) \<Rightarrow> tls_files \<Rightarrow> nat \<Rightarrow> diagnostics_log \<Rightarrow> (LogLevel \<times> string) list" where
  "diagnostics_lines ssl facts f now d =
    (if \<not> fst (diagnostics_due now d) then []
     else (case read_cert ssl (certPath f) of
             None \<Rightarrow> [skipped_line (certPath f) '' (lws_create_context will report whether this actually blocks startup)'']
           | Some cert \<Rightarrow>
               LogOneCertificate (''operational certificate (\"'' @ certPath f @ ''\")'') (facts cert) @ key_lines ssl f cert) @
          (case read_cert ssl (caCertPath f) of
             None \<Rightarrow> [skipped_line (caCertPath f) []]
           | Some cert \<Rightarrow> LogOneCertificate (''CA certificate (\"'' @ caCertPath f @ ''\")'') (facts cert)))"

section \<open>A refused device\<close>

text \<open>The error code, its text and the certificate that failed, when OpenSSL passes them.\<close>

definition rejected_line :: "(int \<times> string \<times> cert_facts option) option \<Rightarrow> LogLevel \<times> string" where
  "rejected_line failed =
    (let errorCode = (case failed of None \<Rightarrow> -1 | Some (code, _, _) \<Rightarrow> code);
         errorText = (case failed of None \<Rightarrow> ''unknown error (no X509_STORE_CTX available)'' | Some (_, t, _) \<Rightarrow> t);
         cert = (case failed of None \<Rightarrow> None | Some (_, _, c) \<Rightarrow> c);
         subjectCn = (case cert of None \<Rightarrow> ''<unknown>'' | Some c \<Rightarrow> name_text (subject_cn c) ''<unknown>'');
         issuerCn = (case cert of None \<Rightarrow> ''<unknown>'' | Some c \<Rightarrow> name_text (issuer_cn c) ''<unknown>'')
     in (Warning, ''SC TLS handshake REJECTED - client certificate failed verification: \"'' @ errorText @
           ''\" (OpenSSL error code '' @ int_text errorCode @ ''); presented cert subject CN=\"'' @ SafeForLog subjectCn 512 @
           ''\" issuer CN=\"'' @ SafeForLog issuerCn 512 @ [CHR 0x22]))"

section \<open>What the lines say\<close>

text \<open>An operator is warned of a certificate exactly when it ends within 30 days or has ended; a missing or
  unreadable date warns of nothing.\<close>

lemma certificate_warning_exact:
  "(\<exists>t. (Warning, t) \<in> set (LogOneCertificate label cert)) \<longleftrightarrow>
    (\<exists>daysLeft secsLeft. not_after cert = Some (Some (daysLeft, secsLeft)) \<and> daysLeft < 30)"
  by (auto simp: LogOneCertificate_def expiring_soon_def split: option.splits)

text \<open>The diagnosis names an error exactly when it refuses to start the listener, and only then.\<close>

lemma diagnosis_error_exact:
  assumes "fst (diagnostics_due now d)"
  shows "(\<exists>t. (Error, t) \<in> set (diagnostics_lines ssl facts f now d)) \<longleftrightarrow> \<not> fst (LogCertificateDiagnostics ssl f now d)"
proof -
  have one: "(Error, t) \<notin> set (LogOneCertificate label cert)" for t label cert
    by (auto simp: LogOneCertificate_def split: option.splits)
  have other: "(Error, t) \<notin> set (case read_cert ssl path of None \<Rightarrow> [skipped_line p e]
      | Some cert \<Rightarrow> LogOneCertificate label (facts cert))" for t path p e label
    by (simp add: one skipped_line_def split: option.split)
  show ?thesis
  proof (cases "read_cert ssl (certPath f)")
    case None
    then show ?thesis using assms other
      by (simp add: diagnostics_lines_def LogCertificateDiagnostics_def confirmedMismatch_def skipped_line_def)
  next
    case (Some cert)
    then show ?thesis using assms other one
      by (auto simp: diagnostics_lines_def LogCertificateDiagnostics_def confirmedMismatch_def key_lines_def Let_def
          split: option.splits)
  qed
qed

text \<open>Within 30 seconds of a diagnosis the next one is silent.\<close>

lemma diagnosis_silent:
  assumes "fst (diagnostics_due now d)" "now \<le> later" "later < now + kMinLogInterval"
  shows "diagnostics_lines ssl facts f later (snd (LogCertificateDiagnostics ssl f now d)) = []"
  using assms by (auto simp: diagnostics_lines_def LogCertificateDiagnostics_def diagnostics_due_def Let_def)

text \<open>Whatever names a refused device put into its certificate, the line about it holds no control character, so it
  cannot forge another line.\<close>

lemma int_text_no_control: "\<forall>c \<in> set (int_text n). \<not> is_control c"
proof
  fix c
  assume "c \<in> set (int_text n)"
  then have "c = CHR ''-'' \<or> is_digit c" by (auto simp: int_text_def dest: dec_digits split: if_splits)
  then show "\<not> is_control c" by (auto simp: is_digit_def is_control_def)
qed

lemma safe_no_control: "\<forall>c \<in> set (SafeForLog t m). \<not> is_control c"
  using log_text_is_safe by blast

lemma rejected_line_safe:
  assumes "\<And>code t c. failed = Some (code, t, c) \<Longrightarrow> \<forall>x \<in> set t. \<not> is_control x"
  shows "\<forall>x \<in> set (snd (rejected_line failed)). \<not> is_control x"
proof -
  let ?texts = "\<lambda>code t s i. ''SC TLS handshake REJECTED - client certificate failed verification: \"'' @ t @
    ''\" (OpenSSL error code '' @ int_text code @ ''); presented cert subject CN=\"'' @ SafeForLog s 512 @
    ''\" issuer CN=\"'' @ SafeForLog i 512 @ [CHR 0x22]"
  have line: "\<forall>x \<in> set (?texts code t s i). \<not> is_control x" if "\<forall>x \<in> set t. \<not> is_control x" for code t s i
    unfolding set_append ball_Un
    by (intro conjI that int_text_no_control safe_no_control) (simp_all add: is_control_def)
  show ?thesis
  proof (cases failed)
    case None
    have "\<forall>x \<in> set ''unknown error (no X509_STORE_CTX available)''. \<not> is_control x" by (simp add: is_control_def)
    from line [OF this] show ?thesis by (simp add: rejected_line_def None Let_def del: set_append)
  next
    case (Some g)
    obtain code t c where g: "g = (code, t, c)" by (rule prod_cases3)
    show ?thesis using line [OF assms [OF Some [unfolded g]]] by (simp add: rejected_line_def Some g Let_def del: set_append)
  qed
qed

text \<open>The names in the hub's own certificates are printed as they are: a line break in one of them, which comes from
  whoever wrote the certificate file or issued it, begins a line of its own.\<close>

lemma own_certificate_breaks_the_line:
  assumes "subject_cn cert = Some (c # cn)" "length cn < 255" "CHR 0x0A \<in> set (c_str (c # cn))"
  shows "CHR 0x0A \<in> set (snd (hd (LogOneCertificate label cert)))"
proof -
  have "take 255 (c # cn) = c # cn" using assms(2) by simp
  then show ?thesis using assms(1,3) by (simp add: LogOneCertificate_def name_text_def)
qed

end
