(* ===== verification/Terminal.thy ===== *)
theory Terminal
  imports Main_Loop Sc_Tls
begin

text \<open>
  The terminal: \<^verbatim>\<open>EnableRawInput\<close>, \<^verbatim>\<open>PollKey\<close> and
  \<^verbatim>\<open>RestoreInput\<close> of \<^verbatim>\<open>src/common/CASExampleHelper.cpp\<close>, which put the
  standard input into the mode of single keys and back, and \<^verbatim>\<open>ReadHiddenLine\<close> of
  \<^verbatim>\<open>src/sc_transport/KeyPassword.cpp\<close>, which hides a password while it is typed.  These are the
  POSIX branches.  Whether \<^verbatim>\<open>fcntl\<close> and \<^verbatim>\<open>tcsetattr\<close> do what they are asked is an
  argument, as is what stands in the input.
\<close>

unbundle bit_operations_syntax

section \<open>The terminal and the program's note of it\<close>

text \<open>What the sources touch of a \<^verbatim>\<open>termios\<close>, and the rest of it.\<close>

record termios =
  c_lflag :: u32
  c_vmin :: u8
  c_vtime :: u8
  other_settings :: nat

definition ICANON :: u32 where "ICANON = 2"

definition ECHO :: u32 where "ECHO = 8"

text \<open>\<^verbatim>\<open>stdin_tty\<close> is \<^verbatim>\<open>None\<close> when the standard input is no terminal.\<close>

record terminal =
  nonblocking :: bool
  stdin_tty :: "termios option"
  g_stdinConfigured :: bool
  g_rawActive :: bool
  g_origTermios :: termios

definition zero_termios :: termios where
  "zero_termios = \<lparr> c_lflag = 0, c_vmin = 0, c_vtime = 0, other_settings = 0 \<rparr>"

definition first_terminal :: "bool \<Rightarrow> termios option \<Rightarrow> terminal" where
  "first_terminal nb tty = \<lparr> nonblocking = nb, stdin_tty = tty, g_stdinConfigured = False, g_rawActive = False,
     g_origTermios = zero_termios \<rparr>"

section \<open>Single keys\<close>

text \<open>\<^verbatim>\<open>fcntl\<close> sets the flag when it works; \<^verbatim>\<open>tcsetattr\<close> the settings.\<close>

definition set_tty :: "bool \<Rightarrow> termios \<Rightarrow> terminal \<Rightarrow> terminal" where
  "set_tty works m t = (if works then t\<lparr> stdin_tty := Some m \<rparr> else t)"

definition raw_of :: "termios \<Rightarrow> termios" where
  "raw_of m = m\<lparr> c_lflag := c_lflag m AND NOT (ICANON OR ECHO), c_vmin := 0, c_vtime := 0 \<rparr>"

definition EnableRawInput :: "bool \<Rightarrow> bool \<Rightarrow> terminal \<Rightarrow> terminal" where
  "EnableRawInput fcntlWorks setWorks t =
    (if g_stdinConfigured t then t
     else let t = t\<lparr> g_stdinConfigured := True, nonblocking := nonblocking t \<or> fcntlWorks \<rparr>
          in (case stdin_tty t of
                None \<Rightarrow> t
              | Some m \<Rightarrow> (set_tty setWorks (raw_of m) (t\<lparr> g_origTermios := m \<rparr>))\<lparr> g_rawActive := True \<rparr>))"

definition RestoreInput :: "bool \<Rightarrow> terminal \<Rightarrow> terminal" where
  "RestoreInput setWorks t =
    (if g_rawActive t then (set_tty setWorks (g_origTermios t) t)\<lparr> g_rawActive := False \<rparr> else t)"

text \<open>What the input holds: octets, nothing yet, or its end.  \<^verbatim>\<open>None\<close> is a \<^verbatim>\<open>read\<close>
  that waits; one that fails or meets the end gives no octets.\<close>

datatype input = Octets string | NothingYet | EndOfInput

definition waits_for_input :: "terminal \<Rightarrow> bool" where
  "waits_for_input t \<longleftrightarrow> \<not> nonblocking t \<and>
    (case stdin_tty t of None \<Rightarrow> True | Some m \<Rightarrow> c_lflag m AND ICANON \<noteq> 0 \<or> c_vmin m \<noteq> 0)"

definition read_stdin :: "input \<Rightarrow> terminal \<Rightarrow> string option" where
  "read_stdin inp t =
    (case inp of Octets s \<Rightarrow> Some (take 3 s) | EndOfInput \<Rightarrow> Some []
     | NothingYet \<Rightarrow> if waits_for_input t then None else Some [])"

definition PollStdin :: "bool \<Rightarrow> bool \<Rightarrow> input \<Rightarrow> terminal \<Rightarrow> (key_command \<times> terminal) option" where
  "PollStdin fcntlWorks setWorks inp t =
    (let t = EnableRawInput fcntlWorks setWorks t in
     do { typed \<leftarrow> read_stdin inp t; Some (PollKey typed, t) })"

section \<open>A hidden line\<close>

text \<open>\<^verbatim>\<open>getline\<close> gives the line, or \<^verbatim>\<open>None\<close> when the input is closed, which leaves
  the line empty.  The terminal while it is typed comes with the result.\<close>

definition ReadHiddenLine :: "bool \<Rightarrow> bool \<Rightarrow> string option \<Rightarrow> terminal \<Rightarrow> (bool \<times> string) \<times> terminal \<times> terminal" where
  "ReadHiddenLine hideWorks showWorks entered t =
    (let during = (case stdin_tty t of None \<Rightarrow> t
           | Some previous \<Rightarrow> set_tty hideWorks (previous\<lparr> c_lflag := c_lflag previous AND NOT ECHO \<rparr>) t);
         after = (case stdin_tty t of None \<Rightarrow> during | Some previous \<Rightarrow> set_tty showWorks previous during)
     in ((entered \<noteq> None, hidden_line (case entered of None \<Rightarrow> [] | Some s \<Rightarrow> s)), during, after))"

section \<open>Polling never waits\<close>

text \<open>The invariant of polling: once configured, a read does not wait.\<close>

definition ready :: "terminal \<Rightarrow> bool" where
  "ready t \<longleftrightarrow> (g_stdinConfigured t \<longrightarrow> \<not> waits_for_input t)"

lemma raw_does_not_wait: "c_lflag (raw_of m) AND ICANON = 0" "c_lflag (raw_of m) AND ECHO = 0"
  by (simp_all add: raw_of_def, (rule bit_word_eqI, auto simp: bit_simps)+)

lemma Enable_ready:
  assumes "ready t" "fcntlWorks \<or> nonblocking t \<or> stdin_tty t \<noteq> None \<and> setWorks"
  shows "\<not> waits_for_input (EnableRawInput fcntlWorks setWorks t)" "g_stdinConfigured (EnableRawInput fcntlWorks setWorks t)"
proof -
  show "\<not> waits_for_input (EnableRawInput fcntlWorks setWorks t)"
    using assms raw_does_not_wait
    by (auto simp: EnableRawInput_def ready_def waits_for_input_def set_tty_def Let_def raw_of_def split: option.splits)
  show "g_stdinConfigured (EnableRawInput fcntlWorks setWorks t)"
    by (simp add: EnableRawInput_def set_tty_def Let_def split: option.split)
qed

fun polls :: "(bool \<times> bool \<times> input) list \<Rightarrow> terminal \<Rightarrow> (key_command list \<times> terminal) option" where
  "polls [] t = Some ([], t)"
| "polls ((fcntlWorks, setWorks, inp) # later) t = do {
     (key, t) \<leftarrow> PollStdin fcntlWorks setWorks inp t;
     (keys, t) \<leftarrow> polls later t;
     Some (key # keys, t) }"

lemma configured_polls:
  assumes "ready t" "g_stdinConfigured t"
  shows "\<exists>keys. polls met t = Some (keys, t)"
proof (induction met)
  case (Cons m later)
  obtain f s inp where m: "m = (f, s, inp)" by (rule prod_cases3)
  have "EnableRawInput f s t = t" using assms(2) by (simp add: EnableRawInput_def)
  moreover have "read_stdin inp t \<noteq> None" using assms by (cases inp) (simp_all add: read_stdin_def ready_def)
  ultimately show ?case using Cons m by (auto simp: PollStdin_def Let_def)
qed simp

text \<open>When \<^verbatim>\<open>fcntl\<close> works at the first poll, no poll waits, whatever stands in the input and whether or not
  it is a terminal, so the loop of the hub goes on.\<close>

lemma polling_never_waits:
  assumes "\<not> g_stdinConfigured t" "case met of [] \<Rightarrow> True | (fcntlWorks, _, _) # _ \<Rightarrow> fcntlWorks"
  shows "\<exists>keys t'. polls met t = Some (keys, t') \<and> length keys = length met"
proof -
  have len: "length keys = length met" if "polls met t = Some (keys, t')" for met t keys t'
    using that by (induction met arbitrary: t keys t') (auto split: Option.bind_splits)
  show ?thesis
  proof (cases met)
    case (Cons m later)
    obtain f s inp where m: "m = (f, s, inp)" by (rule prod_cases3)
    let ?t = "EnableRawInput f s t"
    have ready: "ready t" using assms(1) by (simp add: ready_def)
    have e: "\<not> waits_for_input ?t" "g_stdinConfigured ?t"
      using Enable_ready [OF ready, of f s] assms(2) Cons m by simp_all
    then have "ready ?t" by (simp add: ready_def)
    then obtain keys where "polls later ?t = Some (keys, ?t)" using configured_polls e(2) by blast
    moreover have "read_stdin inp ?t \<noteq> None" using e(1) by (cases inp) (simp_all add: read_stdin_def)
    ultimately have "\<exists>keys. polls met t = Some (keys, ?t)" using Cons m by (auto simp: PollStdin_def Let_def)
    then show ?thesis using len by blast
  qed simp
qed

section \<open>The terminal is given back\<close>

lemma polls_settings:
  assumes "polls met t = Some (keys, t')" "g_rawActive t \<Longrightarrow> g_stdinConfigured t"
  shows "t' = t \<or> g_stdinConfigured t' \<and> (g_rawActive t' \<longrightarrow> g_rawActive t \<and> g_origTermios t' = g_origTermios t \<or>
      stdin_tty t = Some (g_origTermios t')) \<and> (\<not> g_rawActive t' \<longrightarrow> stdin_tty t' = stdin_tty t)"
  using assms
proof (induction met arbitrary: t keys)
  case (Cons m later)
  obtain f s inp where m: "m = (f, s, inp)" by (rule prod_cases3)
  let ?t = "EnableRawInput f s t"
  obtain keys' where later: "polls later ?t = Some (keys', t')"
    using Cons.prems(1) m by (auto simp: PollStdin_def Let_def split: Option.bind_splits)
  have conf: "g_stdinConfigured ?t" by (simp add: EnableRawInput_def set_tty_def Let_def split: option.split)
  have same: "polls ms u = Some (ks, u') \<Longrightarrow> g_stdinConfigured u \<Longrightarrow> u' = u" for ms u ks u'
    by (induction ms arbitrary: ks) (auto simp: PollStdin_def EnableRawInput_def split: Option.bind_splits)
  have "t' = ?t" using same [OF later conf] .
  then show ?case by (auto simp: EnableRawInput_def set_tty_def Let_def split: option.splits if_splits)
qed simp

text \<open>After any polls \<^verbatim>\<open>RestoreInput\<close> gives the terminal the settings it had when the program
  started, if \<^verbatim>\<open>tcsetattr\<close> takes them; without a terminal there is nothing to give back.\<close>

lemma terminal_given_back:
  assumes "polls met (first_terminal nb tty) = Some (keys, t)"
  shows "stdin_tty (RestoreInput True t) = tty"
  using polls_settings [OF assms] by (auto simp: first_terminal_def RestoreInput_def set_tty_def)

text \<open>A password is typed without echo, and the settings are as before when it has been read, also when the input
  was closed.\<close>

lemma hidden_line_hides:
  assumes "stdin_tty t = Some m" "ReadHiddenLine True True entered t = (res, during, after)"
  shows "\<exists>m'. stdin_tty during = Some m' \<and> c_lflag m' AND ECHO = 0 \<and> c_lflag m' AND ICANON = c_lflag m AND ICANON"
    "after = t"
proof -
  have "(c_lflag m AND NOT ECHO) AND ECHO = 0" by (rule bit_word_eqI) (auto simp: bit_simps)
  moreover have "(c_lflag m AND NOT ECHO) AND ICANON = c_lflag m AND ICANON"
    by (rule bit_word_eqI) (auto simp: bit_simps ICANON_def ECHO_def)
  ultimately show "\<exists>m'. stdin_tty during = Some m' \<and> c_lflag m' AND ECHO = 0 \<and> c_lflag m' AND ICANON = c_lflag m AND ICANON"
    "after = t"
    using assms by (auto simp: ReadHiddenLine_def set_tty_def Let_def)
qed

end
