(* ===== verification/Help_Text.thy ===== *)
theory Help_Text
  imports Main_Loop Cert_Tool
begin

text \<open>
  The texts of \<^verbatim>\<open>--help\<close>, \<^verbatim>\<open>--version\<close>, the key h and the start-up banner:
  \<^verbatim>\<open>PrintUsage\<close> of \<^verbatim>\<open>src/main.cpp\<close>, \<^verbatim>\<open>PrintVersion\<close> and
  \<^verbatim>\<open>PrintHelp\<close> of \<^verbatim>\<open>src/common/CASExampleHelper.cpp\<close>.  A text is the list of its
  lines; the version of the stack is an argument.
\<close>

section \<open>Texts\<close>

definition COMMON_VERSION :: string where "COMMON_VERSION = ''3.6.1''"

definition APP_NAME :: string where "APP_NAME = ''BACnet B-SCHUB (BACnet/SC Hub) Example - C++''"

definition DEVICE_NAME_DEFAULT :: string where "DEVICE_NAME_DEFAULT = ''Chipkin Example B-SCHUB''"

definition REPOSITORY_URL :: string where
  "REPOSITORY_URL = ''https://github.com/chipkin/BACnetProfileExample-B-SCHUB-CPP''"

definition LOG_FOLDER :: string where "LOG_FOLDER = ''logs''"

definition LOG_FILE_NAME :: string where "LOG_FILE_NAME = ''B-SCHUB.log''"

definition SC_RATE_LIMIT_PER_ADDRESS_DEFAULT :: nat where "SC_RATE_LIMIT_PER_ADDRESS_DEFAULT = 10"

definition SC_RATE_LIMIT_TOTAL_DEFAULT :: nat where "SC_RATE_LIMIT_TOTAL_DEFAULT = 50"

definition PRODUCT_CONTACT :: string where
  "PRODUCT_CONTACT = ''For a production-ready BACnet/SC hub, the Chipkin BACnet SC Hub: Contact Chipkin sales@chipkin.com''"

definition startup_banner :: "nat \<Rightarrow> string" where
  "startup_banner runLimit =
    ''This is an example of using the CAS BACnet Stack to build a BACnet/SC hub (B-SCHUB profile). '' @
    ''It is for evaluation and testing only, not for production. It accepts at most 4 BACnet/SC devices '' @
    ''and stops after '' @ FormatRunLimit runLimit @ ''. '' @ PRODUCT_CONTACT"

text \<open>What the loop says when it refuses a device and when its time is up.\<close>

fun message_text :: "message \<Rightarrow> string option" where
  "message_text (ConnectionLimit maxDevices when) =
    Some (''This example accepts at most '' @ dec maxDevices @ '' BACnet/SC devices; a device was refused. '' @ PRODUCT_CONTACT)"
| "message_text (RunLimitReached runLimit) =
    Some (''This example stops after '' @ FormatRunLimit runLimit @ ''; the time is up - stopping. Restart it to continue evaluating. '' @
      PRODUCT_CONTACT)"
| "message_text _ = None"

definition PrintVersion :: "nat \<times> nat \<times> nat \<times> nat \<Rightarrow> string \<Rightarrow> string \<Rightarrow> string list" where
  "PrintVersion api appName appVersion =
    (case api of (major, minor, patch, build) \<Rightarrow>
       [appName @ '' v'' @ appVersion,
        ''CAS BACnet Stack version: '' @ dec major @ ''.'' @ dec minor @ ''.'' @ dec patch @ ''.'' @ dec build,
        ''Common helper (common/) version: '' @ COMMON_VERSION])"

definition PrintInteractiveCommands :: "string list" where
  "PrintInteractiveCommands =
    [''Commands:'',
     ''  h     - show this help (version + commands)'',
     ''  q     - quit'',
     ''  up    - increase Analog Input 1 by 1.1'',
     ''  down  - decrease Analog Input 1 by 1.1'']"

definition PrintHelp :: "nat \<times> nat \<times> nat \<times> nat \<Rightarrow> string \<Rightarrow> string \<Rightarrow> string list" where
  "PrintHelp api appName appVersion = PrintVersion api appName appVersion @ PrintInteractiveCommands"

text \<open>What the key h prints.\<close>

definition key_help :: "nat \<times> nat \<times> nat \<times> nat \<Rightarrow> string list" where
  "key_help api = PrintHelp api APP_NAME APP_VERSION @ [''  m     - show the BACnet/SC connection and traffic counters'']"

definition PrintUsage :: "nat \<times> nat \<times> nat \<times> nat \<Rightarrow> nat \<Rightarrow> string list" where
  "PrintUsage api deviceInst = PrintVersion api APP_NAME APP_VERSION @
    [[],
     ''An example of a BACnet/SC hub (B-SCHUB profile) on the CAS BACnet Stack, for evaluation'',
     ''and testing only. Reachable over BACnet/SC only, unless --port adds a BACnet/IP port.'',
     ''Source, documentation and updates: '' @ REPOSITORY_URL,
     [],
     ''Usage: BACnetExampleBSCHUB [options]'',
     [],
     ''Options:'',
     ''  --sc-cert-dir <dir> The certificate folder, a CARI tree (ANSI/ASHRAE 135-2024'',
     ''                      Annex AA.2): cert1/device-'' @ dec deviceInst @ ''/port-2/opr-hub.pem, key-hub.pem,'',
     ''                      csr-hub.pem and cert1/issuer/iss-1.pem. Default \"./certs\"'',
     ''                      (the demo certificates that come with this example).'',
     ''  --deviceID <n>      Device instance, unique on the BACnet network. Default 389022.'',
     ''  --device-name <name>'',
     ''                      The Device object's Object_Name, unique on the BACnet internetwork'',
     ''                      (1 to '' @ dec MAX_DEVICE_NAME_BYTES @ '' bytes of UTF-8). Default \"'' @ DEVICE_NAME_DEFAULT @ ''\".'',
     ''  --port <n>          Also open a BACnet/IP port (Network Port 1) on this UDP port,'',
     ''                      for finding and managing the hub over plain BACnet/IP (47808 is'',
     ''                      the usual one). Off by default: without it the hub is reachable'',
     ''                      only over BACnet/SC.'',
     ''  --ip-network-number <n>, --sc-network-number <n>'',
     ''                      The BACnet network number (1 to 65534) of Network Port 1 (only with'',
     ''                      --port) and of the BACnet/SC port. Reported as configured; the'',
     ''                      default is none (0, quality unknown). This device is not a router.'',
     ''  --sc-port <n>       BACnet/SC (WebSocket/TLS) port devices connect to. Default 4443.'',
     ''  --sc-max-hub-connections <n>'',
     ''                      Accept at most this many BACnet/SC devices (1 to '' @ dec SC_MAX_HUB_CONNECTIONS_LIMIT @ '', the default).'',
     ''                      The limit can only be lowered: this example never accepts more.'',
     ''  --sc-rate-limit <n>, --sc-rate-limit-total <n>'',
     ''                      New BACnet/SC connection attempts accepted per second from one'',
     ''                      address (default '' @ dec SC_RATE_LIMIT_PER_ADDRESS_DEFAULT @ '') and in total (default '' @ dec SC_RATE_LIMIT_TOTAL_DEFAULT @ ''); 0 = no limit.'',
     ''  --sc-hub-uri <wss://host:port/path>'',
     ''                      Also connect to another BACnet/SC hub (the hub connector): dial'',
     ''                      this primary hub, so this hub's devices reach that hub's network.'',
     ''  --sc-failover-uri <wss://host:port/path>'',
     ''                      The failover hub, used only if the primary hub (--sc-hub-uri)'',
     ''                      cannot be reached.'',
     ''  --sc-accept-device-without-hello [on|off]'',
     ''                      Compatibility, off by default: accept a device whose'',
     ''                      Connect-Request omits the Hello option the standard requires'',
     ''                      (YABE does). Deviates from ANSI/ASHRAE 135 AB.2.2.'',
     ''  --sc-accept-hub-without-hello [on|off]'',
     ''                      Compatibility, off by default: the hub connector accepts a hub'',
     ''                      whose Connect-Accept omits the Hello option. Deviates from'',
     ''                      ANSI/ASHRAE 135 AB.2.2.'',
     ''  --import-cari <zip> Install a CA's CARI response (the hub's certificate and the'',
     ''                      issuer certificates) in the certificate folder, then exit.'',
     ''                      The certificate must be for this hub's request and signed by'',
     ''                      an issuer in the zip.'',
     ''  --help, -h          Show this help and exit.'',
     ''  --version           Show version information and exit.'',
     [],
     ''Files:'',
     ''  <sc-cert-dir>/'' @ HUB_REQUEST_ZIP @ '' (default ./certs/'' @ HUB_REQUEST_ZIP @ '')'',
     ''                      This hub's certificate request, to send to a Certificate'',
     ''                      Authority. Created at start-up if it doesn't already exist'',
     ''                      (never overwritten; delete it to make a new one). A hub with no'',
     ''                      private key also gets a new key and request (key-hub.pem,'',
     ''                      csr-hub.pem); an existing key is never replaced.'',
     ''  '' @ LOG_FOLDER @ ''/'' @ LOG_FILE_NAME @ ''    A copy of everything shown on the console, in the folder the'',
     ''                      example runs in. Emptied at each start-up; send it to support.'',
     [],
     ''Commands (while it runs):'',
     ''  h     - show this help (version + commands)'',
     ''  q     - quit'',
     ''  up    - increase Analog Input 1 by 1.1'',
     ''  down  - decrease Analog Input 1 by 1.1'',
     ''  m     - show the BACnet/SC connection and traffic counters'']"

section \<open>The options the help names\<close>

text \<open>An option in the help is followed by what it takes: a value in angle brackets, on or off in square ones, or
  nothing.\<close>

datatype takes = TakesValue | TakesOnOff | TakesNothing

definition kind_of :: "string \<Rightarrow> takes" where
  "kind_of next_word = (if StartsWith next_word ''<'' then TakesValue else if StartsWith next_word ''['' then TakesOnOff else TakesNothing)"

fun named_options :: "string list \<Rightarrow> (string \<times> takes) list" where
  "named_options [] = []"
| "named_options (w # ws) =
    (if StartsWith w ''-'' then [(w, kind_of (case ws of [] \<Rightarrow> [] | v # _ \<Rightarrow> v))] else []) @ named_options ws"

definition words_of :: "string \<Rightarrow> string list" where
  "words_of line = split_on (CHR '' '') (filter (\<lambda>c. c \<noteq> CHR '','') line)"

definition documented :: "string list \<Rightarrow> (string \<times> takes) list" where
  "documented ls = concat (map (\<lambda>line. if StartsWith line ''  -'' then named_options (words_of line) else []) ls)"

lemma documented_append: "documented (as @ bs) = documented as @ documented bs"
  by (simp add: documented_def)

lemma version_documents_nothing: "documented (PrintVersion api APP_NAME v) = []"
  by (cases api) (simp add: documented_def PrintVersion_def APP_NAME_def StartsWith_def)

lemma help_options:
  "documented (PrintUsage api deviceInst) =
    [(''--sc-cert-dir'', TakesValue), (''--deviceID'', TakesValue), (''--device-name'', TakesValue), (''--port'', TakesValue),
     (''--ip-network-number'', TakesValue), (''--sc-network-number'', TakesValue), (''--sc-port'', TakesValue),
     (''--sc-max-hub-connections'', TakesValue), (''--sc-rate-limit'', TakesValue), (''--sc-rate-limit-total'', TakesValue),
     (''--sc-hub-uri'', TakesValue), (''--sc-failover-uri'', TakesValue), (''--sc-accept-device-without-hello'', TakesOnOff),
     (''--sc-accept-hub-without-hello'', TakesOnOff), (''--import-cari'', TakesValue), (''--help'', TakesNothing),
     (''-h'', TakesNothing), (''--version'', TakesNothing)]"
  unfolding PrintUsage_def documented_append version_documents_nothing
  by (simp add: documented_def LOG_FOLDER_def StartsWith_def words_of_def kind_of_def)

text \<open>The help and the parser agree: the options the help shows with a value are those the parser takes a value for, those
  with on or off are the switches that may be followed by one, and the rest are the plain switches, of which the
  help leaves out one spelling only.\<close>

lemma help_agrees_with_parser:
  "{opt. (opt, TakesValue) \<in> set (documented (PrintUsage api deviceInst))} = set kValueOptions"
  "{opt. (opt, TakesOnOff) \<in> set (documented (PrintUsage api deviceInst))} = set kOnOffSwitches"
  "{opt. (opt, TakesNothing) \<in> set (documented (PrintUsage api deviceInst))} = set kSwitches - {''/?''}"
  by (auto simp: help_options kValueOptions_def kOnOffSwitches_def kSwitches_def)

lemma default_numbers: "dec 4443 = ''4443''" "dec 389022 = ''389022''"
  by (simp_all add: dec.simps digit_chars)

text \<open>The defaults it states are the ones the program starts with.\<close>

lemma help_states_defaults:
  "''  --sc-port <n>       BACnet/SC (WebSocket/TLS) port devices connect to. Default '' @ dec (scPort default_config) @ ''.''
     \<in> set (PrintUsage api deviceInst)"
  "''  --deviceID <n>      Device instance, unique on the BACnet network. Default '' @ dec (config.deviceInstance default_config) @ ''.''
     \<in> set (PrintUsage api deviceInst)"
  "SC_RATE_LIMIT_PER_ADDRESS_DEFAULT = scRateLimit default_config" "SC_RATE_LIMIT_TOTAL_DEFAULT = scRateLimitTotal default_config"
  "DEVICE_NAME_DEFAULT = deviceName default_config"
  by (simp_all add: PrintUsage_def default_config_def default_numbers SC_RATE_LIMIT_PER_ADDRESS_DEFAULT_def
      SC_RATE_LIMIT_TOTAL_DEFAULT_def DEVICE_NAME_DEFAULT_def del: dec.simps)

text \<open>Every key the help of the running hub names is one the hub acts on.\<close>

lemma help_keys:
  "PollKey ''h'' = KeyHelp" "PollKey ''q'' = KeyQuit" "PollKey ''m'' = KeyMetrics"
  "PollKey [CHR 0x1B, CHR ''['', CHR ''A''] = ArrowUp" "PollKey [CHR 0x1B, CHR ''['', CHR ''B''] = ArrowDown"
  by (simp_all add: PollKey_def letter_def Let_def)

end
